(* ===== verification/Prelude.thy ===== *)
theory Prelude
  imports Main "HOL-Library.Word" "HOL-Library.Monad_Syntax"
begin

unbundle bit_operations_syntax

text \<open>
  Shared vocabulary of the development: the C integer types, outcomes of C code that may
  have undefined behaviour, and the generic lemmas on lists, words and functions that the
  component theories use.

  A C operation that can reach undefined behaviour (a NULL dereference, an access outside
  an array) returns \<open>'a option\<close>: \<open>None\<close> is the fault, \<open>Some\<close> a normal return.
\<close>

type_synonym u8 = "8 word"
type_synonym u16 = "16 word"
type_synonym u32 = "32 word"
type_synonym u64 = "64 word"

named_theorems bit_ops \<open>reading single bits of masked, shifted and complemented words\<close>
named_theorems frame \<open>what an operation leaves unchanged\<close>

text \<open>Bits of a word.\<close>

lemma bit_exp_word [bit_ops]:
  "bit (2 ^ k :: 'a :: len word) j \<longleftrightarrow> j = k \<and> k < LENGTH('a)"
  by (auto simp: bit_exp_iff)

lemma and_exp_zero [bit_ops]:
  assumes "k < LENGTH('a)"
  shows "(w :: 'a :: len word) AND 2 ^ k = 0 \<longleftrightarrow> \<not> bit w k"
proof
  assume *: "w AND 2 ^ k = 0"
  have "\<not> bit (w AND 2 ^ k) k" unfolding * by simp
  with assms show "\<not> bit w k" by (simp add: bit_and_iff bit_ops)
next
  assume "\<not> bit w k"
  then show "w AND 2 ^ k = 0"
    by (intro bit_eqI) (auto simp: bit_and_iff bit_ops)
qed

text \<open>Words that hold a small natural number.\<close>

lemma unat_of_nat_small: "x < 2 ^ LENGTH('a) \<Longrightarrow> unat (of_nat x :: 'a :: len word) = x"
  by (simp add: unat_of_nat)

lemma unat_eqI: "unat x = unat y \<Longrightarrow> x = y"
  by (simp add: word_unat_eq_iff)

lemma unat_less_64: "unat (x :: u64) < 2 ^ 64"
  using unsigned_less [of x, where 'a = nat] by simp

text \<open>Pairs of quotient and remainder name an index uniquely.\<close>

lemma div_mod_eq_iff: "(i :: nat) div n = j div n \<and> i mod n = j mod n \<longleftrightarrow> i = j"
  by (metis div_mult_mod_eq)

text \<open>The least index with a property, found by a scan from a lower bound.\<close>

definition is_least :: "(nat \<Rightarrow> bool) \<Rightarrow> nat \<Rightarrow> nat \<Rightarrow> bool" where
  "is_least P lo i \<longleftrightarrow> lo \<le> i \<and> P i \<and> (\<forall>j. lo \<le> j \<longrightarrow> j < i \<longrightarrow> \<not> P j)"

lemma is_least_start: "P lo \<Longrightarrow> is_least P lo lo"
  by (simp add: is_least_def)

lemma is_least_step:
  assumes "\<not> P lo" and "is_least P (Suc lo) i"
  shows "is_least P lo i"
  unfolding is_least_def
proof (intro conjI allI impI)
  show "lo \<le> i" and "P i" using assms by (auto simp: is_least_def)
  fix j assume "lo \<le> j" "j < i"
  then show "\<not> P j" using assms by (cases "j = lo") (auto simp: is_least_def)
qed

lemma is_least_unique: "is_least P lo i \<Longrightarrow> is_least P lo j \<Longrightarrow> i = j"
  unfolding is_least_def by (metis nat_neq_iff)

end
