(* ===== verification/Mm.thy ===== *)
theory Mm
  imports Prelude
begin

text \<open>
  The physical frame allocator of \<^verbatim>\<open>core/mm.c\<close>: two bitmaps, one bit per 4 KB page
  (0 free, 1 used), their counters, \<open>pfa_alloc_low\<close>, \<open>pfa_alloc\<close>, \<open>pfa_free\<close>, the
  statistics and the construction of the bitmaps from the boot memory map in \<open>mm_init\<close>; and what a
  write through the direct map does to the bitmaps, which lie in the memory they describe.

  Addresses and counters are 64-bit words. A bitmap is the array a C pointer points to,
  a function from byte index to byte. Loop counters and page indices are \<open>nat\<close>: they
  are bounded by \<open>MAX_PAGES\<close> (or are a quotient), so the C value never wraps. Console
  messages are left out. The entries of the memory map are taken to stay as they are while the bitmaps are
  filled.
\<close>

subsection \<open>State\<close>

definition PAGE_SIZE :: u64 where "PAGE_SIZE = 4096"
definition MAX_PAGES :: nat where "MAX_PAGES = 1024 * 1024 * 2"
definition BITMAP_SIZE :: nat where "BITMAP_SIZE = MAX_PAGES div 8"

type_synonym bitmap = "nat \<Rightarrow> u8"

record mm =
  bitmap :: bitmap
  bitmap_base :: u64
  free_pages_count :: u64
  total_pages_count :: u64
  low_bitmap :: bitmap
  low_free_count :: u64
  low_total_count :: u64
  low_bitmap_ptr :: u64
  bitmap_ptr :: u64
  next_mmio_addr :: u64

text \<open>The static variables as the loader leaves them.\<close>

definition mm_boot :: mm where
  "mm_boot = \<lparr>bitmap = (\<lambda>_. 0), bitmap_base = 0, free_pages_count = 0, total_pages_count = 0,
     low_bitmap = (\<lambda>_. 0), low_free_count = 0, low_total_count = 0,
     low_bitmap_ptr = 0, bitmap_ptr = 0, next_mmio_addr = 0\<rparr>"

subsection \<open>Bitmap helpers\<close>

definition addr_to_index :: "mm \<Rightarrow> u64 \<Rightarrow> nat" where
  "addr_to_index s paddr = unat (paddr - bitmap_base s) div unat PAGE_SIZE"

definition bitmap_set_used :: "bitmap \<Rightarrow> nat \<Rightarrow> bitmap" where
  "bitmap_set_used bmap index =
     bmap(index div 8 := bmap (index div 8) OR push_bit (index mod 8) 1)"

definition bitmap_set_free :: "bitmap \<Rightarrow> nat \<Rightarrow> bitmap" where
  "bitmap_set_free bmap index =
     bmap(index div 8 := bmap (index div 8) AND NOT (push_bit (index mod 8) 1))"

definition bitmap_is_free :: "bitmap \<Rightarrow> nat \<Rightarrow> bool" where
  "bitmap_is_free bmap index \<longleftrightarrow> bmap (index div 8) AND push_bit (index mod 8) 1 = 0"

subsection \<open>The allocator\<close>

definition pfa_free :: "u64 \<Rightarrow> mm \<Rightarrow> mm" where
  "pfa_free paddr s =
     (if paddr = 0 then s
      else if paddr < 0x100000000 then
        let index = unat paddr div unat PAGE_SIZE in
        if MAX_PAGES \<le> index then s
        else if \<not> bitmap_is_free (low_bitmap s) index then
          s\<lparr>low_bitmap := bitmap_set_free (low_bitmap s) index,
            low_free_count := low_free_count s + 1,
            low_total_count := low_total_count s + 1\<rparr>
        else s
      else if paddr < bitmap_base s then s
      else
        let index = addr_to_index s paddr in
        if MAX_PAGES \<le> index then s
        else if \<not> bitmap_is_free (bitmap s) index then
          s\<lparr>bitmap := bitmap_set_free (bitmap s) index,
            free_pages_count := free_pages_count s + 1,
            total_pages_count := total_pages_count s + 1\<rparr>
        else s)"

text \<open>The inner loop over the eight bits of one byte, and the outer loop over the bytes.\<close>

function scan_byte :: "bitmap \<Rightarrow> nat \<Rightarrow> nat \<Rightarrow> nat option" where
  "scan_byte bmap byte bitno =
     (if bitno < 8 then
        let index = byte * 8 + bitno in
        if MAX_PAGES \<le> index then None
        else if bitmap_is_free bmap index then Some index
        else scan_byte bmap byte (Suc bitno)
      else None)"
  by pat_completeness auto
termination by (relation "measure (\<lambda>(_, _, bitno). 8 - bitno)") auto

function scan_bitmap :: "bitmap \<Rightarrow> nat \<Rightarrow> nat option" where
  "scan_bitmap bmap byte =
     (if byte < BITMAP_SIZE then
        if bmap byte = 0xFF then scan_bitmap bmap (Suc byte)
        else case scan_byte bmap byte 0 of
               Some index \<Rightarrow> Some index
             | None \<Rightarrow> scan_bitmap bmap (Suc byte)
      else None)"
  by pat_completeness auto
termination by (relation "measure (\<lambda>(_, byte). BITMAP_SIZE - byte)") auto

declare scan_byte.simps [simp del] scan_bitmap.simps [simp del]

definition pfa_alloc_low :: "mm \<Rightarrow> u64 \<times> mm" where
  "pfa_alloc_low s =
     (case scan_bitmap (low_bitmap s) 0 of
        Some index \<Rightarrow>
          (of_nat index * PAGE_SIZE,
           s\<lparr>low_bitmap := bitmap_set_used (low_bitmap s) index,
             low_free_count := low_free_count s - 1\<rparr>)
      | None \<Rightarrow> (0, s))"

definition pfa_alloc :: "mm \<Rightarrow> u64 \<times> mm" where
  "pfa_alloc s =
     (case scan_bitmap (bitmap s) 0 of
        Some index \<Rightarrow>
          (bitmap_base s + of_nat index * PAGE_SIZE,
           s\<lparr>bitmap := bitmap_set_used (bitmap s) index,
             free_pages_count := free_pages_count s - 1\<rparr>)
      | None \<Rightarrow> (0, s))"

definition mm_get_total_memory :: "mm \<Rightarrow> u64" where
  "mm_get_total_memory s = (total_pages_count s + low_total_count s) * PAGE_SIZE"

definition mm_get_free_memory :: "mm \<Rightarrow> u64" where
  "mm_get_free_memory s = (free_pages_count s + low_free_count s) * PAGE_SIZE"

subsection \<open>Address translation of the direct map\<close>

definition phys_to_virt :: "u64 \<Rightarrow> u64 \<Rightarrow> u64" where
  "phys_to_virt hhdm_offset paddr = paddr + hhdm_offset"

definition virt_to_phys :: "u64 \<Rightarrow> u64 \<Rightarrow> u64" where
  "virt_to_phys hhdm_offset addr = (if hhdm_offset \<le> addr then addr - hhdm_offset else addr)"

subsection \<open>Initialisation from the boot memory map\<close>

record memmap_entry =
  me_base :: u64
  me_length :: u64
  me_type :: u64

definition LIMINE_MEMMAP_USABLE :: u64 where "LIMINE_MEMMAP_USABLE = 0"
definition LIMINE_MEMMAP_BOOTLOADER_RECLAIMABLE :: u64 where
  "LIMINE_MEMMAP_BOOTLOADER_RECLAIMABLE = 5"

definition usable_entry :: "memmap_entry \<Rightarrow> bool" where
  "usable_entry e \<longleftrightarrow> me_type e = LIMINE_MEMMAP_USABLE
     \<or> me_type e = LIMINE_MEMMAP_BOOTLOADER_RECLAIMABLE"

definition region_start :: "memmap_entry \<Rightarrow> u64" where
  "region_start e = (me_base e + PAGE_SIZE - 1) AND NOT (PAGE_SIZE - 1)"

definition region_end :: "memmap_entry \<Rightarrow> u64" where
  "region_end e = (me_base e + me_length e) AND NOT (PAGE_SIZE - 1)"

definition req_size :: u64 where "req_size = 32 * PAGE_SIZE"

text \<open>The second loop of \<open>mm_init\<close>: where the two bitmaps go, a usable region with at least 32 pages (0 when there is none).\<close>

fun find_placement :: "memmap_entry list \<Rightarrow> u64 \<Rightarrow> u64" where
  "find_placement [] placement = placement"
| "find_placement (e # es) placement =
     (if usable_entry e \<and> region_start e < region_end e
         \<and> req_size \<le> region_end e - region_start e \<and> placement = 0
      then find_placement es (region_start e)
      else find_placement es placement)"

definition page_reserved :: "(u64 \<times> u64) list \<Rightarrow> u64 \<Rightarrow> bool" where
  "page_reserved rs p \<longleftrightarrow> list_ex (\<lambda>(start, stop). p < stop \<and> start < p + PAGE_SIZE) rs"

text \<open>
  The page loop runs from \<open>last_page\<close> down to \<open>first_page\<close>, both multiples of the page
  size: with \<open>n\<close> pages left, the page it handles next is \<open>first_page + (n - 1) * PAGE_SIZE\<close>.
\<close>

fun release_pages :: "(u64 \<times> u64) list \<Rightarrow> u64 \<Rightarrow> nat \<Rightarrow> mm \<Rightarrow> mm" where
  "release_pages rs first_page 0 s = s"
| "release_pages rs first_page (Suc n) s =
     (let p = first_page + of_nat n * PAGE_SIZE in
      if p = 0 \<or> page_reserved rs p then release_pages rs first_page n s
      else release_pages rs first_page n (pfa_free p s))"

definition region_pages :: "memmap_entry \<Rightarrow> nat" where
  "region_pages e = (if region_start e < region_end e
     then unat (region_end e - region_start e) div unat PAGE_SIZE else 0)"

fun release_entries :: "(u64 \<times> u64) list \<Rightarrow> memmap_entry list \<Rightarrow> mm \<Rightarrow> mm" where
  "release_entries rs [] s = s"
| "release_entries rs (e # es) s =
     (if usable_entry e
      then release_entries rs es (release_pages rs (region_start e) (region_pages e) s)
      else release_entries rs es s)"

datatype mm_status = Mm_no_memmap | Mm_no_region | Mm_ready

definition mm_init :: "u64 \<Rightarrow> memmap_entry list option \<Rightarrow> mm \<Rightarrow> mm_status \<times> mm" where
  "mm_init hhdm_offset response s =
     (case response of
        None \<Rightarrow> (Mm_no_memmap, s)
      | Some entries \<Rightarrow>
          let s1 = s\<lparr>bitmap_base := 0x100000000\<rparr>;
              placement = find_placement entries 0 in
          if placement = 0 then (Mm_no_region, s1)
          else
            let s2 = s1\<lparr>low_bitmap_ptr := placement + hhdm_offset,
                        bitmap_ptr := placement + of_nat BITMAP_SIZE + hhdm_offset,
                        bitmap := (\<lambda>_. 0xFF), low_bitmap := (\<lambda>_. 0xFF)\<rparr>;
                s3 = release_entries [(placement, placement + req_size)] entries s2
            in (Mm_ready, s3\<lparr>next_mmio_addr := 0xFFFFFFFF80000000\<rparr>))"


subsection \<open>Writes through the direct map\<close>

text \<open>
  The bitmaps are arrays in the same memory as the frames that are handed out: a byte written through the
  direct map changes the entry of a bitmap whose array the address lies in. \<open>custom_memset\<close> writes
  byte after byte; a new page table is cleared with it as in \<open>clear_page\<close>.
\<close>

definition in_array :: "u64 \<Rightarrow> u64 \<Rightarrow> bool" where
  "in_array ptr vaddr \<longleftrightarrow> unat (vaddr - ptr) < BITMAP_SIZE"

definition store_byte :: "u64 \<Rightarrow> u8 \<Rightarrow> mm \<Rightarrow> mm" where
  "store_byte vaddr v s =
     s\<lparr>low_bitmap := (if in_array (low_bitmap_ptr s) vaddr
         then (low_bitmap s)(unat (vaddr - low_bitmap_ptr s) := v) else low_bitmap s),
       bitmap := (if in_array (bitmap_ptr s) vaddr
         then (bitmap s)(unat (vaddr - bitmap_ptr s) := v) else bitmap s)\<rparr>"

fun custom_memset :: "u64 \<Rightarrow> u8 \<Rightarrow> nat \<Rightarrow> mm \<Rightarrow> mm" where
  "custom_memset p c 0 s = s"
| "custom_memset p c (Suc n) s = custom_memset (p + 1) c n (store_byte p c s)"

definition clear_page :: "u64 \<Rightarrow> u64 \<Rightarrow> mm \<Rightarrow> mm" where
  "clear_page hhdm_offset page s = custom_memset (phys_to_virt hhdm_offset page) 0 (unat PAGE_SIZE) s"

text \<open>The physical addresses the two arrays occupy.\<close>

definition bitmap_storage :: "u64 \<Rightarrow> mm \<Rightarrow> u64 set" where
  "bitmap_storage h s = {p. in_array (low_bitmap_ptr s) (phys_to_virt h p) \<or>
     in_array (bitmap_ptr s) (phys_to_virt h p)}"

subsection \<open>Bits of a bitmap\<close>

lemma bitmap_is_free_iff: "bitmap_is_free bmap i \<longleftrightarrow> \<not> bit (bmap (i div 8)) (i mod 8)"
  by (simp add: bitmap_is_free_def bit_ops)

lemma bitmap_is_free_set_used [bit_ops]:
  "bitmap_is_free (bitmap_set_used bmap i) j \<longleftrightarrow> j \<noteq> i \<and> bitmap_is_free bmap j"
proof (cases "j div 8 = i div 8")
  case True
  then have "j mod 8 = i mod 8 \<longleftrightarrow> j = i" using div_mod_eq_iff [of j 8 i] by simp
  with True show ?thesis
    by (auto simp: bitmap_is_free_iff bitmap_set_used_def bit_or_iff bit_ops)
next
  case False
  then show ?thesis by (auto simp: bitmap_is_free_iff bitmap_set_used_def)
qed

lemma bitmap_is_free_set_free [bit_ops]:
  "bitmap_is_free (bitmap_set_free bmap i) j \<longleftrightarrow> j = i \<or> bitmap_is_free bmap j"
proof (cases "j div 8 = i div 8")
  case True
  then have *: "j mod 8 = i mod 8 \<longleftrightarrow> j = i" using div_mod_eq_iff [of j 8 i] by simp
  have "j mod 8 < 8" by simp
  with True * show ?thesis
    by (auto simp: bitmap_is_free_iff bitmap_set_free_def bit_and_iff bit_not_iff bit_ops)
next
  case False
  then show ?thesis by (auto simp: bitmap_is_free_iff bitmap_set_free_def)
qed

lemma bitmap_full: "\<not> bitmap_is_free (\<lambda>_. 0xFF) i"
proof -
  have "(0xFF :: u8) = - 1" by simp
  then show ?thesis by (simp only: bitmap_is_free_iff) simp
qed

text \<open>Freeing the bit that was set, and setting it again, restores the bitmap itself.\<close>

lemma bitmap_set_free_used:
  assumes "bitmap_is_free bmap i"
  shows "bitmap_set_free (bitmap_set_used bmap i) i = bmap"
proof -
  have "(bmap (i div 8) OR push_bit (i mod 8) 1) AND NOT (push_bit (i mod 8) 1) = bmap (i div 8)"
    using assms
    by (intro bit_eqI)
      (auto simp: bitmap_is_free_iff bit_and_iff bit_or_iff bit_not_iff bit_ops)
  then show ?thesis by (simp add: bitmap_set_free_def bitmap_set_used_def)
qed

subsection \<open>The scan finds the lowest free page\<close>

lemma scan_byte_Some:
  "scan_byte bmap byte bitno = Some i \<Longrightarrow>
    is_least (bitmap_is_free bmap) (byte * 8 + bitno) i \<and> i < MAX_PAGES \<and> i < byte * 8 + 8"
proof (induction bmap byte bitno rule: scan_byte.induct)
  case (1 bmap byte bitno)
  show ?case
  proof (cases "bitmap_is_free bmap (byte * 8 + bitno)")
    case True
    with "1.prems" show ?thesis
      by (subst (asm) scan_byte.simps) (auto simp: is_least_start Let_def split: if_splits)
  next
    case False
    with "1.prems" have *: "bitno < 8" "\<not> MAX_PAGES \<le> byte * 8 + bitno"
      and "scan_byte bmap byte (Suc bitno) = Some i"
      by (subst (asm) scan_byte.simps; auto simp: Let_def split: if_splits)+
    with "1.IH" [OF * (1) refl * (2) False] False show ?thesis
      by (auto intro: is_least_step)
  qed
qed

lemma scan_byte_None:
  "scan_byte bmap byte bitno = None \<Longrightarrow> byte * 8 + bitno \<le> i \<Longrightarrow> i < byte * 8 + 8 \<Longrightarrow>
    i < MAX_PAGES \<Longrightarrow> \<not> bitmap_is_free bmap i"
proof (induction bmap byte bitno rule: scan_byte.induct)
  case (1 bmap byte bitno)
  have lt: "bitno < 8" "\<not> MAX_PAGES \<le> byte * 8 + bitno" using "1.prems" by auto
  with "1.prems"(1) have nf: "\<not> bitmap_is_free bmap (byte * 8 + bitno)"
    and rest: "scan_byte bmap byte (Suc bitno) = None"
    by (subst (asm) scan_byte.simps; auto simp: Let_def split: if_splits)+
  show ?case
  proof (cases "i = byte * 8 + bitno")
    case True with nf show ?thesis by simp
  next
    case False
    with "1.IH" [OF lt(1) refl lt(2) nf rest] "1.prems"(2-4) show ?thesis by simp
  qed
qed

lemma full_byte_not_free:
  assumes "bmap byte = 0xFF" and "byte * 8 \<le> i" and "i < Suc byte * 8"
  shows "\<not> bitmap_is_free bmap i"
proof -
  from assms(2,3) have "i div 8 = byte" by auto
  with assms(1) show ?thesis using bitmap_full [of i] by (simp add: bitmap_is_free_def)
qed

text \<open>The bytes before the scan position hold no free page.\<close>

lemma scan_bitmap_Some:
  "scan_bitmap bmap byte = Some i \<Longrightarrow>
    is_least (bitmap_is_free bmap) (byte * 8) i \<and> i < MAX_PAGES"
proof (induction bmap byte rule: scan_bitmap.induct)
  case (1 bmap byte)
  have skip: "is_least (bitmap_is_free bmap) (byte * 8) i \<and> i < MAX_PAGES"
    if none: "\<And>j. byte * 8 \<le> j \<Longrightarrow> j < Suc byte * 8 \<Longrightarrow> j < MAX_PAGES \<Longrightarrow> \<not> bitmap_is_free bmap j"
      and IH: "is_least (bitmap_is_free bmap) (Suc byte * 8) i \<and> i < MAX_PAGES"
    using IH none by (fastforce simp: is_least_def not_le)
  have lt: "byte < BITMAP_SIZE"
    using "1.prems" by (subst (asm) scan_bitmap.simps) (auto split: if_splits)
  show ?case
  proof (cases "bmap byte = 0xFF")
    case True
    with "1.prems" lt have "scan_bitmap bmap (Suc byte) = Some i"
      by (subst (asm) scan_bitmap.simps) simp
    with "1.IH"(1) [OF lt True]
    have "is_least (bitmap_is_free bmap) (Suc byte * 8) i \<and> i < MAX_PAGES" by simp
    then show ?thesis
      by (rule skip [rotated]) (rule full_byte_not_free [of bmap byte, OF True])
  next
    case False
    show ?thesis
    proof (cases "scan_byte bmap byte 0")
      case None
      with "1.prems" lt False have "scan_bitmap bmap (Suc byte) = Some i"
        by (subst (asm) scan_bitmap.simps) simp
      with "1.IH"(2) [OF lt False None]
      have "is_least (bitmap_is_free bmap) (Suc byte * 8) i \<and> i < MAX_PAGES" by simp
      then show ?thesis
        by (rule skip [rotated]) (rule scan_byte_None [OF None], auto)
    next
      case (Some k)
      with "1.prems" lt False have "k = i"
        by (subst (asm) scan_bitmap.simps) simp
      with scan_byte_Some [OF Some] show ?thesis by simp
    qed
  qed
qed

lemma scan_bitmap_None:
  "scan_bitmap bmap byte = None \<Longrightarrow> byte * 8 \<le> i \<Longrightarrow> i < MAX_PAGES \<Longrightarrow> \<not> bitmap_is_free bmap i"
proof (induction bmap byte rule: scan_bitmap.induct)
  case (1 bmap byte)
  have lt: "byte < BITMAP_SIZE" using "1.prems"(2,3) by (simp add: BITMAP_SIZE_def MAX_PAGES_def)
  show ?case
  proof (cases "bmap byte = 0xFF")
    case True
    with "1.prems"(1) lt have "scan_bitmap bmap (Suc byte) = None"
      by (subst (asm) scan_bitmap.simps) simp
    with "1.IH"(1) [OF lt True] "1.prems"(2,3) full_byte_not_free [of bmap byte i, OF True]
    show ?thesis by (cases "Suc byte * 8 \<le> i") auto
  next
    case False
    with "1.prems"(1) lt have none: "scan_byte bmap byte 0 = None"
      and "scan_bitmap bmap (Suc byte) = None"
      by (subst (asm) scan_bitmap.simps; auto split: option.splits)+
    with "1.IH"(2) [OF lt False none] "1.prems"(2,3) scan_byte_None [OF none, of i]
    show ?thesis by (cases "Suc byte * 8 \<le> i") auto
  qed
qed


subsection \<open>Free pages and the invariant\<close>

definition free_pages :: "bitmap \<Rightarrow> nat set" where
  "free_pages bmap = {i. i < MAX_PAGES \<and> bitmap_is_free bmap i}"

definition low_page :: "nat \<Rightarrow> u64" where
  "low_page i = of_nat i * PAGE_SIZE"

definition high_page :: "nat \<Rightarrow> u64" where
  "high_page i = 0x100000000 + of_nat i * PAGE_SIZE"

definition low_avail :: "mm \<Rightarrow> u64 set" where
  "low_avail s = low_page ` free_pages (low_bitmap s)"

definition high_avail :: "mm \<Rightarrow> u64 set" where
  "high_avail s = high_page ` free_pages (bitmap s)"

text \<open>
  The counters count the free bits, page 0 is never free in the low bitmap, nothing above
  4 GB is, and the main bitmap starts at 4 GB.
\<close>

definition mm_inv :: "mm \<Rightarrow> bool" where
  "mm_inv s \<longleftrightarrow>
     low_free_count s = of_nat (card (free_pages (low_bitmap s))) \<and>
     free_pages_count s = of_nat (card (free_pages (bitmap s))) \<and>
     free_pages (low_bitmap s) \<subseteq> {0<..<2 ^ 20} \<and>
     bitmap_base s = 0x100000000"

lemma finite_free_pages [simp]: "finite (free_pages bmap)"
  by (simp add: free_pages_def)

lemma free_pages_set_used [bit_ops]: "free_pages (bitmap_set_used bmap i) = free_pages bmap - {i}"
  by (auto simp: free_pages_def bit_ops)

lemma free_pages_set_free [bit_ops]:
  "i < MAX_PAGES \<Longrightarrow> free_pages (bitmap_set_free bmap i) = insert i (free_pages bmap)"
  by (auto simp: free_pages_def bit_ops)

lemma free_pages_less: "i \<in> free_pages bmap \<Longrightarrow> i < 2 ^ 21"
  by (simp add: free_pages_def MAX_PAGES_def)

lemma scan_bitmap_free_pages:
  "scan_bitmap bmap 0 = Some i \<Longrightarrow> i \<in> free_pages bmap \<and> (\<forall>j\<in>free_pages bmap. i \<le> j)"
  using scan_bitmap_Some [of bmap 0 i] by (auto simp: free_pages_def is_least_def not_le [symmetric])

lemma scan_bitmap_no_free_pages: "scan_bitmap bmap 0 = None \<longleftrightarrow> free_pages bmap = {}"
  using scan_bitmap_None [of bmap 0] scan_bitmap_free_pages [of bmap]
  by (cases "scan_bitmap bmap 0") (auto simp: free_pages_def)

text \<open>Page numbers and addresses.\<close>

lemma unat_PAGE_SIZE [simp]: "unat PAGE_SIZE = 4096"
  by (simp add: PAGE_SIZE_def)

lemma unat_low_page: "i < 2 ^ 52 \<Longrightarrow> unat (low_page i) = i * 4096"
proof -
  assume "i < 2 ^ 52"
  moreover have "low_page i = of_nat (i * 4096)" by (simp add: low_page_def PAGE_SIZE_def)
  moreover have "i * 4096 < 2 ^ LENGTH(64)" using calculation(1) by simp
  ultimately show ?thesis by (simp only: unat_of_nat_small)
qed

lemma unat_high_page: "i < 2 ^ 51 \<Longrightarrow> unat (high_page i) = 2 ^ 32 + i * 4096"
proof -
  assume *: "i < 2 ^ 51"
  have "high_page i = of_nat (2 ^ 32 + i * 4096)" by (simp add: high_page_def PAGE_SIZE_def)
  moreover have "2 ^ 32 + i * 4096 < 2 ^ LENGTH(64)" using * by simp
  ultimately show ?thesis by (simp only: unat_of_nat_small)
qed

lemma low_page_inj: "i < 2 ^ 21 \<Longrightarrow> j < 2 ^ 21 \<Longrightarrow> low_page i = low_page j \<longleftrightarrow> i = j"
  by (simp add: word_unat_eq_iff unat_low_page)

lemma high_page_inj: "i < 2 ^ 21 \<Longrightarrow> j < 2 ^ 21 \<Longrightarrow> high_page i = high_page j \<longleftrightarrow> i = j"
  by (simp add: word_unat_eq_iff unat_high_page)

lemma low_page_less: "i < 2 ^ 20 \<Longrightarrow> low_page i < 0x100000000"
  using unat_low_page [of i] by (simp add: word_less_nat_alt)

lemma high_page_ge: "i < 2 ^ 21 \<Longrightarrow> 0x100000000 \<le> high_page i"
  using unat_high_page [of i] by (simp add: word_le_nat_alt)

lemma low_page_nonzero: "0 < i \<Longrightarrow> i < 2 ^ 21 \<Longrightarrow> low_page i \<noteq> 0"
  using unat_low_page [of i] by auto

lemma high_page_nonzero: "i < 2 ^ 21 \<Longrightarrow> high_page i \<noteq> 0"
  using unat_high_page [of i] by auto

text \<open>A frame of either kind is a page-aligned address in the range its bitmap covers.\<close>

definition low_frame :: "u64 \<Rightarrow> bool" where
  "low_frame p \<longleftrightarrow> p \<noteq> 0 \<and> p < 0x100000000 \<and> unat p mod 4096 = 0"

definition high_frame :: "u64 \<Rightarrow> bool" where
  "high_frame p \<longleftrightarrow> 0x100000000 \<le> p \<and> unat p < 2 ^ 32 + MAX_PAGES * 4096 \<and> unat p mod 4096 = 0"

lemma low_frame_page: "low_frame p \<Longrightarrow> \<exists>i. 0 < i \<and> i < 2 ^ 20 \<and> p = low_page i"
proof -
  assume a: "low_frame p"
  define i where "i = unat p div 4096"
  from a have *: "unat p = i * 4096" unfolding low_frame_def i_def
    using div_mult_mod_eq [of "unat p" 4096] by simp
  from a have "unat p < 2 ^ 32" "unat p \<noteq> 0"
    by (auto simp: low_frame_def word_less_nat_alt unat_eq_zero)
  with * have "i < 2 ^ 20" "0 < i" by auto
  moreover from this have "p = low_page i" by (intro unat_eqI) (simp add: unat_low_page *)
  ultimately show ?thesis by auto
qed

lemma high_frame_page: "high_frame p \<Longrightarrow> \<exists>i. i < MAX_PAGES \<and> p = high_page i"
proof -
  assume a: "high_frame p"
  define i where "i = (unat p - 2 ^ 32) div 4096"
  from a have ge: "2 ^ 32 \<le> unat p" by (simp add: high_frame_def word_le_nat_alt)
  have "4096 dvd unat p" using a by (simp add: high_frame_def dvd_eq_mod_eq_0)
  then have "4096 dvd unat p - 2 ^ 32" by (rule dvd_diff_nat) simp
  with ge have *: "unat p = 2 ^ 32 + i * 4096" unfolding i_def by simp
  with a have "i < MAX_PAGES" by (simp add: high_frame_def)
  moreover from this have "p = high_page i"
    by (intro unat_eqI) (simp add: unat_high_page * MAX_PAGES_def)
  ultimately show ?thesis by auto
qed

text \<open>What \<open>pfa_free\<close> and the two allocators do, page by page.\<close>

lemma pfa_free_low:
  assumes "0 < i" "i < 2 ^ 20"
  shows "pfa_free (low_page i) s =
    (if i \<in> free_pages (low_bitmap s) then s
     else s\<lparr>low_bitmap := bitmap_set_free (low_bitmap s) i,
            low_free_count := low_free_count s + 1, low_total_count := low_total_count s + 1\<rparr>)"
  using assms low_page_nonzero [of i] low_page_less [of i] unat_low_page [of i]
  by (auto simp: pfa_free_def free_pages_def MAX_PAGES_def Let_def)

lemma pfa_free_high:
  assumes "i < MAX_PAGES" and base: "bitmap_base s = 0x100000000"
  shows "pfa_free (high_page i) s =
    (if i \<in> free_pages (bitmap s) then s
     else s\<lparr>bitmap := bitmap_set_free (bitmap s) i,
            free_pages_count := free_pages_count s + 1,
            total_pages_count := total_pages_count s + 1\<rparr>)"
proof -
  have lt: "i < 2 ^ 21" using assms(1) by (simp add: MAX_PAGES_def)
  have "high_page i - bitmap_base s = low_page i"
    by (simp add: base high_page_def low_page_def)
  then have "addr_to_index s (high_page i) = i"
    using lt by (simp add: addr_to_index_def unat_low_page)
  then show ?thesis
    using assms lt high_page_nonzero [OF lt] high_page_ge [OF lt]
    by (auto simp: pfa_free_def free_pages_def Let_def)
qed


lemma pfa_alloc_low_cases:
  assumes "mm_inv s"
  obtains (empty) "free_pages (low_bitmap s) = {}" "pfa_alloc_low s = (0, s)"
  | (page) i where "i \<in> free_pages (low_bitmap s)" "\<forall>j\<in>free_pages (low_bitmap s). i \<le> j"
      "0 < i" "i < 2 ^ 20"
      "pfa_alloc_low s = (low_page i, s\<lparr>low_bitmap := bitmap_set_used (low_bitmap s) i,
         low_free_count := low_free_count s - 1\<rparr>)"
proof (cases "scan_bitmap (low_bitmap s) 0")
  case None
  then show ?thesis
    by (intro empty) (simp_all add: pfa_alloc_low_def scan_bitmap_no_free_pages [symmetric])
next
  case (Some i)
  note found = scan_bitmap_free_pages [OF Some]
  with assms have "0 < i" "i < 2 ^ 20" by (auto simp: mm_inv_def)
  with found Some show ?thesis
    by (intro page [of i]) (simp_all add: pfa_alloc_low_def low_page_def)
qed

lemma pfa_alloc_cases:
  assumes "mm_inv s"
  obtains (empty) "free_pages (bitmap s) = {}" "pfa_alloc s = (0, s)"
  | (page) i where "i \<in> free_pages (bitmap s)" "\<forall>j\<in>free_pages (bitmap s). i \<le> j" "i < 2 ^ 21"
      "pfa_alloc s = (high_page i, s\<lparr>bitmap := bitmap_set_used (bitmap s) i,
         free_pages_count := free_pages_count s - 1\<rparr>)"
proof (cases "scan_bitmap (bitmap s) 0")
  case None
  then show ?thesis
    by (intro empty) (simp_all add: pfa_alloc_def scan_bitmap_no_free_pages [symmetric])
next
  case (Some i)
  note found = scan_bitmap_free_pages [OF Some]
  then have "i < 2 ^ 21" by (blast dest: free_pages_less)
  moreover have "bitmap_base s = 0x100000000" using assms by (simp add: mm_inv_def)
  ultimately show ?thesis
    using found Some by (intro page [of i]) (simp_all add: pfa_alloc_def high_page_def)
qed

text \<open>The counter after one bit is cleared or set.\<close>

lemma card_free_remove:
  "i \<in> free_pages b \<Longrightarrow>
    (of_nat (card (free_pages b - {i})) :: u64) = of_nat (card (free_pages b)) - 1"
proof -
  assume "i \<in> free_pages b"
  then have eq: "Suc (card (free_pages b - {i})) = card (free_pages b)"
    by (rule card_Suc_Diff1 [OF finite_free_pages])
  have "(of_nat (Suc n) :: u64) - 1 = of_nat n" for n by simp
  from this [of "card (free_pages b - {i})"] show ?thesis unfolding eq by (rule sym)
qed

lemma card_free_insert:
  "i \<notin> free_pages b \<Longrightarrow>
    (of_nat (card (insert i (free_pages b))) :: u64) = of_nat (card (free_pages b)) + 1"
  by simp

subsection \<open>The interface of a frame allocator\<close>

text \<open>
  What callers may rely on: \<open>alloc\<close> takes a page out of the available set or fails with
  address 0 and no change, \<open>release\<close> of a frame puts it back, and the invariant is kept.
\<close>

locale frame_allocator =
  fixes alloc :: "'s \<Rightarrow> u64 \<times> 's"
    and release :: "u64 \<Rightarrow> 's \<Rightarrow> 's"
    and inv :: "'s \<Rightarrow> bool"
    and avail :: "'s \<Rightarrow> u64 set"
    and frame :: "u64 \<Rightarrow> bool"
  assumes zero_not_avail: "inv s \<Longrightarrow> 0 \<notin> avail s"
    and avail_frame: "inv s \<Longrightarrow> p \<in> avail s \<Longrightarrow> frame p"
    and alloc_some: "inv s \<Longrightarrow> avail s \<noteq> {} \<Longrightarrow> alloc s = (p, t) \<Longrightarrow>
      p \<in> avail s \<and> avail t = avail s - {p} \<and> inv t"
    and alloc_none: "inv s \<Longrightarrow> avail s = {} \<Longrightarrow> alloc s = (0, s)"
    and release_frame: "inv s \<Longrightarrow> frame p \<Longrightarrow>
      avail (release p s) = insert p (avail s) \<and> inv (release p s)"

text \<open>
  A client of the allocator: it owns a set of pages, asks for one more or gives one of its
  own back.
\<close>

datatype frame_request = Take | Give u64

fun run_frames :: "('s \<Rightarrow> u64 \<times> 's) \<Rightarrow> (u64 \<Rightarrow> 's \<Rightarrow> 's) \<Rightarrow> frame_request list
    \<Rightarrow> 's \<times> u64 set \<Rightarrow> 's \<times> u64 set" where
  "run_frames alloc release [] st = st"
| "run_frames alloc release (Take # rs) (s, own) =
     (let (p, t) = alloc s
      in run_frames alloc release rs (t, if p = 0 then own else insert p own))"
| "run_frames alloc release (Give p # rs) (s, own) =
     (if p \<in> own then run_frames alloc release rs (release p s, own - {p})
      else run_frames alloc release rs (s, own))"

context frame_allocator begin

lemma alloc_zero_iff: "inv s \<Longrightarrow> fst (alloc s) = 0 \<longleftrightarrow> avail s = {}"
proof (cases "avail s = {}")
  case False
  assume "inv s"
  with alloc_some [OF this False prod.collapse [symmetric]] zero_not_avail [of s] False
  show ?thesis by metis
qed (simp add: alloc_none)

lemma alloc_inv: "inv s \<Longrightarrow> inv (snd (alloc s))"
proof (cases "avail s = {}")
  case False
  assume "inv s"
  with alloc_some [OF this False prod.collapse [symmetric]] show ?thesis by blast
qed (simp add: alloc_none)

lemma alloc_step:
  assumes "inv s" and "alloc s = (p, t)"
  shows "inv t" and "p \<noteq> 0 \<Longrightarrow> p \<in> avail s" and "p \<noteq> 0 \<Longrightarrow> avail t = avail s - {p}"
    and "p = 0 \<Longrightarrow> t = s \<and> avail s = {}"
  using assms alloc_some [of s p t] alloc_none [of s] zero_not_avail [of s]
  by (cases "avail s = {}"; auto)+

text \<open>No page is handed out twice while it is owned, and none is lost.\<close>

lemma run_frames_conserve:
  assumes "inv s" and "own \<inter> avail s = {}" and "\<forall>p\<in>own. frame p"
    and "run_frames alloc release rs (s, own) = (t, own')"
  shows "inv t \<and> own' \<inter> avail t = {} \<and> own' \<union> avail t = own \<union> avail s \<and> (\<forall>p\<in>own'. frame p)"
  using assms
proof (induction rs arbitrary: s own)
  case Nil
  then show ?case by simp
next
  case (Cons r rs)
  show ?case
  proof (cases r)
    case Take
    obtain p u where pu: "alloc s = (p, u)" by force
    note st = alloc_step [OF Cons.prems(1) pu]
    show ?thesis
    proof (cases "p = 0")
      case True
      with Cons.prems(4) Take pu st(4)
      have "run_frames alloc release rs (s, own) = (t, own')" by simp
      from Cons.IH [OF Cons.prems(1-3) this] show ?thesis .
    next
      case False
      from Cons.prems False Take pu
      have run: "run_frames alloc release rs (u, insert p own) = (t, own')" by simp
      have "insert p own \<inter> avail u = {}" "\<forall>q\<in>insert p own. frame q"
        using Cons.prems(1-3) st False avail_frame by auto
      from Cons.IH [OF st(1) this run]
      have "inv t \<and> own' \<inter> avail t = {} \<and> own' \<union> avail t = insert p own \<union> avail u \<and>
        (\<forall>p\<in>own'. frame p)" .
      moreover have "insert p own \<union> avail u = own \<union> avail s"
        using st(2,3) [OF False] by auto
      ultimately show ?thesis by simp
    qed
  next
    case (Give p)
    show ?thesis
    proof (cases "p \<in> own")
      case True
      from Cons.prems True Give
      have run: "run_frames alloc release rs (release p s, own - {p}) = (t, own')" by simp
      have rel: "avail (release p s) = insert p (avail s)" "inv (release p s)"
        using release_frame Cons.prems(1,3) True by auto
      have "(own - {p}) \<inter> avail (release p s) = {}" "\<forall>q\<in>own - {p}. frame q"
        using Cons.prems(2,3) rel by auto
      from Cons.IH [OF rel(2) this run]
      have "inv t \<and> own' \<inter> avail t = {} \<and> own' \<union> avail t = own - {p} \<union> avail (release p s) \<and>
        (\<forall>p\<in>own'. frame p)" .
      moreover have "own - {p} \<union> avail (release p s) = own \<union> avail s" using rel(1) True by auto
      ultimately show ?thesis by simp
    next
      case False
      with Cons Give show ?thesis by simp
    qed
  qed
qed

end

subsection \<open>Both allocators implement the interface\<close>

lemma pfa_free_low_inv:
  assumes "mm_inv s" and "low_frame p"
  shows "low_avail (pfa_free p s) = insert p (low_avail s) \<and> mm_inv (pfa_free p s)"
    and "high_avail (pfa_free p s) = high_avail s"
proof -
  obtain i where i: "0 < i" "i < 2 ^ 20" "p = low_page i"
    using low_frame_page [OF assms(2)] by auto
  then have "i < MAX_PAGES" by (simp add: MAX_PAGES_def)
  then show "low_avail (pfa_free p s) = insert p (low_avail s) \<and> mm_inv (pfa_free p s)"
    and "high_avail (pfa_free p s) = high_avail s"
    using assms(1) i(1,2)
    by (auto simp: i(3) pfa_free_low low_avail_def high_avail_def mm_inv_def bit_ops
        card_free_insert simp del: card_insert_disjoint)
qed

lemma pfa_free_high_inv:
  assumes "mm_inv s" and "high_frame p"
  shows "high_avail (pfa_free p s) = insert p (high_avail s) \<and> mm_inv (pfa_free p s)"
    and "low_avail (pfa_free p s) = low_avail s"
proof -
  obtain i where i: "i < MAX_PAGES" "p = high_page i"
    using high_frame_page [OF assms(2)] by auto
  moreover have "bitmap_base s = 0x100000000" using assms(1) by (simp add: mm_inv_def)
  ultimately show "high_avail (pfa_free p s) = insert p (high_avail s) \<and> mm_inv (pfa_free p s)"
    and "low_avail (pfa_free p s) = low_avail s"
    using assms(1)
    by (auto simp: i(2) pfa_free_high low_avail_def high_avail_def mm_inv_def bit_ops
        card_free_insert simp del: card_insert_disjoint)
qed

lemma low_avail_frame: "mm_inv s \<Longrightarrow> p \<in> low_avail s \<Longrightarrow> low_frame p"
proof -
  assume "mm_inv s" "p \<in> low_avail s"
  then obtain i where "i \<in> free_pages (low_bitmap s)" and p: "p = low_page i"
    by (auto simp: low_avail_def)
  with \<open>mm_inv s\<close> have i: "0 < i" "i < 2 ^ 20" "p = low_page i" by (auto simp: mm_inv_def)
  then have "unat p = i * 4096" by (simp add: unat_low_page)
  with i show ?thesis
    by (simp add: low_frame_def low_page_less low_page_nonzero)
qed

lemma high_avail_frame: "p \<in> high_avail s \<Longrightarrow> high_frame p"
proof -
  assume "p \<in> high_avail s"
  then obtain i where i: "i < MAX_PAGES" "p = high_page i"
    by (auto simp: high_avail_def free_pages_def)
  then have "i < 2 ^ 21" by (simp add: MAX_PAGES_def)
  with i show ?thesis
    by (simp add: high_frame_def high_page_ge unat_high_page)
qed

lemma low_avail_remove:
  assumes "i \<in> free_pages (low_bitmap s)"
  shows "low_page ` (free_pages (low_bitmap s) - {i}) = low_avail s - {low_page i}"
proof -
  have "inj_on low_page {..<2 ^ 21}" by (rule inj_onI) (simp add: low_page_inj)
  moreover have "free_pages (low_bitmap s) \<subseteq> {..<2 ^ 21}" by (auto dest: free_pages_less)
  ultimately have "inj_on low_page (free_pages (low_bitmap s))" by (rule inj_on_subset)
  from inj_on_image_set_diff [OF this, of "free_pages (low_bitmap s)" "{i}"] assms
  show ?thesis by (auto simp: low_avail_def)
qed

lemma high_avail_remove:
  assumes "i \<in> free_pages (bitmap s)"
  shows "high_page ` (free_pages (bitmap s) - {i}) = high_avail s - {high_page i}"
proof -
  have "inj_on high_page {..<2 ^ 21}" by (rule inj_onI) (simp add: high_page_inj)
  moreover have "free_pages (bitmap s) \<subseteq> {..<2 ^ 21}" by (auto dest: free_pages_less)
  ultimately have "inj_on high_page (free_pages (bitmap s))" by (rule inj_on_subset)
  from inj_on_image_set_diff [OF this, of "free_pages (bitmap s)" "{i}"] assms
  show ?thesis by (auto simp: high_avail_def)
qed

interpretation low_pfa: frame_allocator pfa_alloc_low pfa_free mm_inv low_avail low_frame
proof
  fix s :: mm and p t
  assume inv: "mm_inv s"
  show "0 \<notin> low_avail s" using low_avail_frame [OF inv] by (force simp: low_frame_def)
  show "low_avail s = {} \<Longrightarrow> pfa_alloc_low s = (0, s)"
    using inv by (cases rule: pfa_alloc_low_cases) (auto simp: low_avail_def)
  assume "low_avail s \<noteq> {}" "pfa_alloc_low s = (p, t)"
  with inv show "p \<in> low_avail s \<and> low_avail t = low_avail s - {p} \<and> mm_inv t"
  proof (cases rule: pfa_alloc_low_cases)
    case empty
    with \<open>low_avail s \<noteq> {}\<close> show ?thesis by (simp add: low_avail_def)
  next
    case (page i)
    with \<open>pfa_alloc_low s = (p, t)\<close> have t: "p = low_page i"
      "t = s\<lparr>low_bitmap := bitmap_set_used (low_bitmap s) i, low_free_count := low_free_count s - 1\<rparr>"
      by simp_all
    have "low_avail t = low_avail s - {p}"
      using low_avail_remove [OF page(1)] by (simp add: t low_avail_def bit_ops)
    moreover have "mm_inv t"
      using inv card_free_remove [OF page(1)] by (auto simp: t mm_inv_def bit_ops)
    ultimately show ?thesis using page(1) by (simp add: t(1) low_avail_def)
  qed
qed (auto intro: low_avail_frame pfa_free_low_inv(1) dest: pfa_free_low_inv(1))

interpretation high_pfa: frame_allocator pfa_alloc pfa_free mm_inv high_avail high_frame
proof
  fix s :: mm and p t
  assume inv: "mm_inv s"
  show "0 \<notin> high_avail s" using high_avail_frame [of 0 s] by (auto simp: high_frame_def)
  show "high_avail s = {} \<Longrightarrow> pfa_alloc s = (0, s)"
    using inv by (cases rule: pfa_alloc_cases) (auto simp: high_avail_def)
  assume "high_avail s \<noteq> {}" "pfa_alloc s = (p, t)"
  with inv show "p \<in> high_avail s \<and> high_avail t = high_avail s - {p} \<and> mm_inv t"
  proof (cases rule: pfa_alloc_cases)
    case empty
    with \<open>high_avail s \<noteq> {}\<close> show ?thesis by (simp add: high_avail_def)
  next
    case (page i)
    with \<open>pfa_alloc s = (p, t)\<close> have t: "p = high_page i"
      "t = s\<lparr>bitmap := bitmap_set_used (bitmap s) i, free_pages_count := free_pages_count s - 1\<rparr>"
      by simp_all
    have "high_avail t = high_avail s - {p}"
      using high_avail_remove [OF page(1)] by (simp add: t high_avail_def bit_ops)
    moreover have "mm_inv t"
      using inv card_free_remove [OF page(1)] by (auto simp: t mm_inv_def bit_ops)
    ultimately show ?thesis using page(1) by (simp add: t(1) high_avail_def)
  qed
qed (auto intro: high_avail_frame pfa_free_high_inv(1) dest: pfa_free_high_inv(1))


subsection \<open>What \<open>mm_init\<close> makes available\<close>

lemma mask_page: "PAGE_SIZE - 1 = (mask 12 :: u64)"
  by (simp add: PAGE_SIZE_def mask_eq_exp_minus_1)

lemma page_mask_aligned: "unat ((w :: u64) AND NOT (PAGE_SIZE - 1)) mod 4096 = 0"
proof -
  have "take_bit 12 (w AND NOT (mask 12)) = 0"
    by (intro bit_eqI) (auto simp: bit_take_bit_iff bit_and_iff bit_not_iff bit_mask_iff)
  then have "take_bit 12 (unat (w AND NOT (mask 12))) = 0"
    by (simp only: unsigned_take_bit_eq [symmetric]) simp
  then show ?thesis by (simp add: mask_page take_bit_eq_mod)
qed

lemma pfa_free_out_of_range:
  assumes "2 ^ 32 + MAX_PAGES * 4096 \<le> unat p" and "bitmap_base s = 0x100000000"
  shows "pfa_free p s = s"
proof -
  have ge: "0x100000000 \<le> p" using assms(1) by (simp add: word_le_nat_alt MAX_PAGES_def)
  then have "unat (p - bitmap_base s) = unat p - 2 ^ 32"
    by (simp add: assms(2) unat_sub)
  then have "MAX_PAGES \<le> addr_to_index s p"
    using assms(1) by (simp add: addr_to_index_def MAX_PAGES_def)
  with ge assms(2) show ?thesis by (auto simp: pfa_free_def Let_def)
qed

lemma pfa_free_aligned:
  assumes inv: "mm_inv s" and p: "unat p mod 4096 = 0" "p \<noteq> 0"
  shows "mm_inv (pfa_free p s)"
    and "low_avail (pfa_free p s) = low_avail s \<union> {q. q = p \<and> low_frame q}"
    and "high_avail (pfa_free p s) = high_avail s \<union> {q. q = p \<and> high_frame q}"
proof -
  consider "low_frame p" "\<not> high_frame p" | "high_frame p" "\<not> low_frame p"
    | "\<not> low_frame p" "\<not> high_frame p" "2 ^ 32 + MAX_PAGES * 4096 \<le> unat p"
    using p by (cases "p < 0x100000000"; cases "unat p < 2 ^ 32 + MAX_PAGES * 4096")
      (auto simp: low_frame_def high_frame_def)
  then have "mm_inv (pfa_free p s) \<and>
     low_avail (pfa_free p s) = low_avail s \<union> {q. q = p \<and> low_frame q} \<and>
     high_avail (pfa_free p s) = high_avail s \<union> {q. q = p \<and> high_frame q}"
  proof cases
    case 1 with pfa_free_low_inv [OF inv 1(1)] show ?thesis by auto
  next
    case 2 with pfa_free_high_inv [OF inv 2(1)] show ?thesis by auto
  next
    case 3
    moreover have "bitmap_base s = 0x100000000" using inv by (simp add: mm_inv_def)
    ultimately have "pfa_free p s = s" by (intro pfa_free_out_of_range)
    with inv 3(1,2) show ?thesis by auto
  qed
  then show "mm_inv (pfa_free p s)"
    and "low_avail (pfa_free p s) = low_avail s \<union> {q. q = p \<and> low_frame q}"
    and "high_avail (pfa_free p s) = high_avail s \<union> {q. q = p \<and> high_frame q}" by auto
qed

text \<open>Pages of a region that the page loop releases.\<close>

definition released :: "(u64 \<times> u64) list \<Rightarrow> u64 \<Rightarrow> nat \<Rightarrow> u64 set" where
  "released rs first n = {p. unat p mod 4096 = 0 \<and> first \<le> p \<and> unat p < unat first + n * 4096
     \<and> \<not> page_reserved rs p}"

lemma released_0 [simp]: "released rs first 0 = {}"
  by (auto simp: released_def word_le_nat_alt)

lemma aligned_between:
  assumes "(m :: nat) mod 4096 = 0" "a mod 4096 = 0" "a + n * 4096 \<le> m" "m < a + Suc n * 4096"
  shows "m = a + n * 4096"
proof -
  from assms(1,2) obtain i j where ij: "m = 4096 * i" "a = 4096 * j" by (auto elim!: dvdE)
  with assms(3,4) have "j + n \<le> i" "i < j + Suc n" by auto
  with ij show ?thesis by auto
qed

lemma released_Suc:
  assumes "unat first mod 4096 = 0" and "unat first + Suc n * 4096 \<le> 2 ^ 64"
  defines "p \<equiv> first + of_nat n * PAGE_SIZE"
  shows "unat p mod 4096 = 0"
    and "released rs first (Suc n) = released rs first n \<union> (if page_reserved rs p then {} else {p})"
proof -
  have "p = of_nat (unat first + n * 4096)" by (simp add: p_def PAGE_SIZE_def)
  moreover have "unat first + n * 4096 < 2 ^ LENGTH(64)" using assms(2) by simp
  ultimately have up: "unat p = unat first + n * 4096" by (simp only: unat_of_nat_small)
  then show al: "unat p mod 4096 = 0" using assms(1) by simp
  have last: "unat q < unat first + n * 4096 \<or> q = p"
    if "unat q mod 4096 = 0" "unat q < unat first + Suc n * 4096" for q
    using aligned_between [OF that(1) assms(1) _ that(2)] up
    by (cases "unat q < unat first + n * 4096") (auto simp: not_less intro: unat_eqI)
  show "released rs first (Suc n) = released rs first n \<union> (if page_reserved rs p then {} else {p})"
    (is "?l = ?r")
  proof (rule set_eqI)
    fix q
    show "q \<in> ?l \<longleftrightarrow> q \<in> ?r"
      using last [of q] al up by (cases "q = p") (auto simp: released_def word_le_nat_alt)
  qed
qed

lemma release_pages_avail:
  assumes "mm_inv s" and "unat first mod 4096 = 0" and "unat first + n * 4096 \<le> 2 ^ 64"
  shows "mm_inv (release_pages rs first n s) \<and>
    low_avail (release_pages rs first n s) = low_avail s \<union> {p \<in> released rs first n. low_frame p} \<and>
    high_avail (release_pages rs first n s) = high_avail s \<union> {p \<in> released rs first n. high_frame p}"
  using assms
proof (induction n arbitrary: s)
  case 0
  then show ?case by simp
next
  case (Suc n)
  define p where "p = first + of_nat n * PAGE_SIZE"
  note rel = released_Suc [OF Suc.prems(2,3), folded p_def]
  have le: "unat first + n * 4096 \<le> 2 ^ 64" using Suc.prems(3) by simp
  show ?case
  proof (cases "p = 0 \<or> page_reserved rs p")
    case True
    then have "release_pages rs first (Suc n) s = release_pages rs first n s"
      by (simp add: p_def Let_def)
    moreover have "\<not> low_frame 0" "\<not> high_frame 0" by (auto simp: low_frame_def high_frame_def)
    ultimately show ?thesis
      using Suc.IH [OF Suc.prems(1,2) le] rel(2) True by (auto split: if_splits)
  next
    case False
    then have "release_pages rs first (Suc n) s = release_pages rs first n (pfa_free p s)"
      by (simp add: p_def Let_def)
    moreover from False have "p \<noteq> 0" by simp
    note free = pfa_free_aligned [OF Suc.prems(1) rel(1) this]
    ultimately show ?thesis
      using Suc.IH [OF free(1) Suc.prems(2) le] free(2,3) rel(2) False by auto
  qed
qed

text \<open>The usable pages of the memory map.\<close>

definition usable_page :: "memmap_entry list \<Rightarrow> u64 \<Rightarrow> bool" where
  "usable_page es p \<longleftrightarrow> unat p mod 4096 = 0 \<and>
     (\<exists>e\<in>set es. usable_entry e \<and> region_start e \<le> p \<and> p < region_end e)"

lemma usable_page_Cons:
  "usable_page (e # es) p \<longleftrightarrow> usable_page es p \<or>
     unat p mod 4096 = 0 \<and> usable_entry e \<and> region_start e \<le> p \<and> p < region_end e"
  by (auto simp: usable_page_def)

lemma region_aligned: "unat (region_start e) mod 4096 = 0" "unat (region_end e) mod 4096 = 0"
  by (simp_all add: region_start_def region_end_def page_mask_aligned)

lemma region_pages_eq:
  assumes "region_start e < region_end e"
  shows "unat (region_start e) + region_pages e * 4096 = unat (region_end e)"
proof -
  have lt: "unat (region_start e) < unat (region_end e)" using assms by (simp add: word_less_nat_alt)
  obtain i where i: "unat (region_start e) = 4096 * i"
    using region_aligned(1) [of e] by (elim dvdE [OF mod_0_imp_dvd])
  obtain j where j: "unat (region_end e) = 4096 * j"
    using region_aligned(2) [of e] by (elim dvdE [OF mod_0_imp_dvd])
  note ij = i j
  from assms have "unat (region_end e - region_start e) = unat (region_end e) - unat (region_start e)"
    by (simp add: unat_sub order.strict_implies_order)
  then show ?thesis using assms lt ij by (simp add: region_pages_def)
qed

lemma released_region:
  "released rs (region_start e) (region_pages e) =
     {p. unat p mod 4096 = 0 \<and> region_start e \<le> p \<and> p < region_end e \<and> \<not> page_reserved rs p}"
proof (cases "region_start e < region_end e")
  case True
  then show ?thesis by (auto simp: released_def region_pages_eq word_less_nat_alt)
next
  case False
  then show ?thesis by (auto simp: region_pages_def)
qed

lemma release_entries_avail:
  assumes "mm_inv s"
  shows "mm_inv (release_entries rs es s) \<and>
    low_avail (release_entries rs es s) =
      low_avail s \<union> {p. usable_page es p \<and> low_frame p \<and> \<not> page_reserved rs p} \<and>
    high_avail (release_entries rs es s) =
      high_avail s \<union> {p. usable_page es p \<and> high_frame p \<and> \<not> page_reserved rs p}"
  using assms
proof (induction es arbitrary: s)
  case Nil
  then show ?case by (simp add: usable_page_def)
next
  case (Cons e es)
  show ?case
  proof (cases "usable_entry e")
    case False
    with Cons show ?thesis by (simp add: usable_page_Cons)
  next
    case True
    have le: "unat (region_start e) + region_pages e * 4096 \<le> 2 ^ 64"
    proof (cases "region_start e < region_end e")
      case True
      then show ?thesis using region_pages_eq [OF True] unat_less_64 [of "region_end e"] by simp
    next
      case False
      then show ?thesis using unat_less_64 [of "region_start e"] by (simp add: region_pages_def)
    qed
    note rp = release_pages_avail [OF Cons.prems region_aligned(1) le, of rs]
    then have "mm_inv (release_pages rs (region_start e) (region_pages e) s)" by simp
    from Cons.IH [OF this] rp True show ?thesis
      by (auto simp: released_region usable_page_Cons)
  qed
qed

lemma mm_inv_all_used:
  assumes "low_bitmap s = (\<lambda>_. 0xFF)" "bitmap s = (\<lambda>_. 0xFF)"
    "low_free_count s = 0" "free_pages_count s = 0" "bitmap_base s = 0x100000000"
  shows "mm_inv s" "low_avail s = {}" "high_avail s = {}"
proof -
  have "free_pages (\<lambda>_. 0xFF) = {}" by (simp add: free_pages_def bitmap_full)
  with assms show "mm_inv s" "low_avail s = {}" "high_avail s = {}"
    by (simp_all add: mm_inv_def low_avail_def high_avail_def)
qed

lemma mm_init_ready:
  assumes "mm_init h (Some es) mm_boot = (Mm_ready, t)"
  defines "pl \<equiv> find_placement es 0"
  shows "mm_inv t" and "pl \<noteq> 0"
    and "low_avail t = {p. usable_page es p \<and> low_frame p \<and> \<not> page_reserved [(pl, pl + req_size)] p}"
    and "high_avail t = {p. usable_page es p \<and> high_frame p \<and> \<not> page_reserved [(pl, pl + req_size)] p}"
proof -
  let ?s2 = "mm_boot\<lparr>bitmap_base := 0x100000000, low_bitmap_ptr := pl + h,
    bitmap_ptr := pl + of_nat BITMAP_SIZE + h, bitmap := (\<lambda>_. 0xFF), low_bitmap := (\<lambda>_. 0xFF)\<rparr>"
  let ?s3 = "release_entries [(pl, pl + req_size)] es ?s2"
  have s2: "mm_inv ?s2" "low_avail ?s2 = {}" "high_avail ?s2 = {}"
    by (rule mm_inv_all_used; simp add: mm_boot_def)+
  show "pl \<noteq> 0" using assms by (auto simp: mm_init_def pl_def Let_def split: if_splits)
  then have t: "t = ?s3\<lparr>next_mmio_addr := 0xFFFFFFFF80000000\<rparr>"
    using assms by (simp add: mm_init_def pl_def Let_def)
  note s3 = release_entries_avail [OF s2(1), of "[(pl, pl + req_size)]" es]
  show "mm_inv t" using s3 by (simp add: t mm_inv_def)
  show "low_avail t = {p. usable_page es p \<and> low_frame p \<and> \<not> page_reserved [(pl, pl + req_size)] p}"
    using s3 s2(2) by (simp add: t low_avail_def)
  show "high_avail t = {p. usable_page es p \<and> high_frame p \<and> \<not> page_reserved [(pl, pl + req_size)] p}"
    using s3 s2(3) by (simp add: t high_avail_def)
qed

lemma find_placement_in_ram:
  "find_placement es a = pl \<Longrightarrow> pl \<noteq> 0 \<Longrightarrow> pl = a \<or> (\<exists>e\<in>set es. usable_entry e \<and>
    pl = region_start e \<and> region_start e < region_end e \<and> req_size \<le> region_end e - region_start e)"
  by (induction es a rule: find_placement.induct) (auto split: if_splits)


lemma mm_init_ready_snd:
  assumes "find_placement es 0 = pl" and "pl \<noteq> 0"
  shows "fst (mm_init h (Some es) mm_boot) = Mm_ready"
    and "mm_inv (snd (mm_init h (Some es) mm_boot))"
    and "low_avail (snd (mm_init h (Some es) mm_boot)) =
      {p. usable_page es p \<and> low_frame p \<and> \<not> page_reserved [(pl, pl + req_size)] p}"
    and "high_avail (snd (mm_init h (Some es) mm_boot)) =
      {p. usable_page es p \<and> high_frame p \<and> \<not> page_reserved [(pl, pl + req_size)] p}"
proof -
  have init: "mm_init h (Some es) mm_boot = (Mm_ready, snd (mm_init h (Some es) mm_boot))"
    using assms by (simp add: mm_init_def Let_def)
  from mm_init_ready [OF init] assms(1) init show "fst (mm_init h (Some es) mm_boot) = Mm_ready"
    "mm_inv (snd (mm_init h (Some es) mm_boot))"
    "low_avail (snd (mm_init h (Some es) mm_boot)) =
      {p. usable_page es p \<and> low_frame p \<and> \<not> page_reserved [(pl, pl + req_size)] p}"
    "high_avail (snd (mm_init h (Some es) mm_boot)) =
      {p. usable_page es p \<and> high_frame p \<and> \<not> page_reserved [(pl, pl + req_size)] p}"
    by (simp_all add: prod_eq_iff)
qed

text \<open>The page frames of the two bitmaps.\<close>

lemma bitmap_frames_reserved:
  assumes "find_placement es 0 = pl" and "pl \<noteq> 0" and "pl \<le> p" and "p < pl + req_size"
    and "unat p mod 4096 = 0"
  shows "page_reserved [(pl, pl + req_size)] p"
proof -
  obtain e where e: "pl = region_start e" "region_start e < region_end e"
      "req_size \<le> region_end e - region_start e"
    using find_placement_in_ram [OF assms(1,2)] assms(2) by auto
  have "unat p \<noteq> 2 ^ 64 - 1" using assms(5) by auto
  have up: "unat p < unat (region_end e)"
  proof -
    have "unat req_size \<le> unat (region_end e) - unat pl"
      using e unat_sub [OF order.strict_implies_order [OF e(2)]] by (simp add: word_le_nat_alt)
    moreover have "unat (pl + req_size) \<le> unat pl + unat req_size"
      by (simp add: unat_word_ariths)
    moreover have "unat p < unat (pl + req_size)" using assms(4) by (simp add: word_less_nat_alt)
    moreover have "unat pl < unat (region_end e)" using e by (simp add: word_less_nat_alt)
    ultimately show ?thesis by linarith
  qed
  have "unat p + 4096 \<le> unat (region_end e)"
  proof -
    obtain i where i: "unat p = 4096 * i" using assms(5) by (elim dvdE [OF mod_0_imp_dvd])
    obtain j where j: "unat (region_end e) = 4096 * j"
      using region_aligned(2) [of e] by (elim dvdE [OF mod_0_imp_dvd])
    from up i j have "i < j" by simp
    then show ?thesis using i j by simp
  qed
  then have "unat (p + PAGE_SIZE) = unat p + 4096"
    using unat_less_64 [of "region_end e"] by (simp add: unat_word_ariths)
  then have "pl < p + PAGE_SIZE" using assms(3) by (simp add: word_less_nat_alt word_le_nat_alt)
  with assms(4) show ?thesis by (simp add: page_reserved_def)
qed

subsection \<open>The arrays of the bitmaps in memory\<close>

lemma store_byte_ptrs [simp]:
  "low_bitmap_ptr (store_byte a v s) = low_bitmap_ptr s" "bitmap_ptr (store_byte a v s) = bitmap_ptr s"
  "bitmap_base (store_byte a v s) = bitmap_base s"
  by (simp_all add: store_byte_def)

lemma store_byte_outside:
  "\<not> in_array (low_bitmap_ptr s) a \<Longrightarrow> \<not> in_array (bitmap_ptr s) a \<Longrightarrow> store_byte a v s = s"
  by (simp add: store_byte_def)

text \<open>What a fill leaves in an array: the fill byte where it reaches, the old one elsewhere.\<close>

lemma unat_minus_step:
  fixes a b :: u64
  assumes "a \<noteq> b" shows "unat (a - b) = Suc (unat (a - (b + 1)))"
proof -
  have "a - b \<noteq> 0" using assms by simp
  then have "unat (a - b) \<noteq> 0" by (simp add: unat_eq_zero)
  moreover have "unat (a - (b + 1)) = unat (a - b) - 1"
    using unat_minus_one [OF \<open>a - b \<noteq> 0\<close>] by (simp add: algebra_simps)
  ultimately show ?thesis by simp
qed

lemma custom_memset_bitmap:
  "n \<le> 2 ^ 32 \<Longrightarrow> i < BITMAP_SIZE \<Longrightarrow>
    bitmap (custom_memset p c n s) i = (if unat (bitmap_ptr s + of_nat i - p) < n then c else bitmap s i)"
proof (induction n arbitrary: p s)
  case (Suc n)
  let ?a = "bitmap_ptr s + of_nat i"
  have i: "unat (of_nat i :: u64) = i" using Suc.prems by (simp add: BITMAP_SIZE_def MAX_PAGES_def unat_of_nat_small)
  show ?case
  proof (cases "?a = p")
    case True
    then have "p - bitmap_ptr s = of_nat i" by auto
    then have "bitmap (store_byte p c s) i = c" using i Suc.prems by (simp add: store_byte_def in_array_def)
    then show ?thesis using Suc True by simp
  next
    case False
    then have "unat (p - bitmap_ptr s) \<noteq> i" by auto
    then have "bitmap (store_byte p c s) i = bitmap s i" by (simp add: store_byte_def)
    then show ?thesis using Suc unat_minus_step [OF False] by simp
  qed
qed simp

lemma custom_memset_low_bitmap:
  "n \<le> 2 ^ 32 \<Longrightarrow> i < BITMAP_SIZE \<Longrightarrow>
    low_bitmap (custom_memset p c n s) i =
      (if unat (low_bitmap_ptr s + of_nat i - p) < n then c else low_bitmap s i)"
proof (induction n arbitrary: p s)
  case (Suc n)
  let ?a = "low_bitmap_ptr s + of_nat i"
  have i: "unat (of_nat i :: u64) = i" using Suc.prems by (simp add: BITMAP_SIZE_def MAX_PAGES_def unat_of_nat_small)
  show ?case
  proof (cases "?a = p")
    case True
    then have "p - low_bitmap_ptr s = of_nat i" by auto
    then have "low_bitmap (store_byte p c s) i = c" using i Suc.prems by (simp add: store_byte_def in_array_def)
    then show ?thesis using Suc True by simp
  next
    case False
    then have "unat (p - low_bitmap_ptr s) \<noteq> i" by auto
    then have "low_bitmap (store_byte p c s) i = low_bitmap s i" by (simp add: store_byte_def)
    then show ?thesis using Suc unat_minus_step [OF False] by simp
  qed
qed simp

text \<open>Allocations and frees keep the two pointers.\<close>

definition same_arrays :: "mm \<Rightarrow> mm \<Rightarrow> bool" where
  "same_arrays s t \<longleftrightarrow> low_bitmap_ptr t = low_bitmap_ptr s \<and> bitmap_ptr t = bitmap_ptr s"

lemma same_arrays_steps:
  "same_arrays s (snd (pfa_alloc s))" "same_arrays s (snd (pfa_alloc_low s))" "same_arrays s (pfa_free p s)"
  by (simp_all add: same_arrays_def pfa_alloc_def pfa_alloc_low_def pfa_free_def Let_def split: option.split)

lemma run_frames_same_arrays:
  assumes "\<And>u. same_arrays u (snd (alloc u))"
  shows "run_frames alloc pfa_free rs (s, own) = (t, own') \<Longrightarrow> same_arrays s t"
proof (induction rs arbitrary: s own)
  case Nil
  then show ?case by (simp add: same_arrays_def)
next
  case (Cons r rs)
  show ?case
  proof (cases r)
    case Take
    with Cons.prems have "\<exists>o'. run_frames alloc pfa_free rs (snd (alloc s), o') = (t, own')"
      by (auto simp: case_prod_beta Let_def)
    with Cons.IH assms [of s] show ?thesis by (auto simp: same_arrays_def)
  next
    case (Give p)
    with Cons.prems have "(\<exists>o'. run_frames alloc pfa_free rs (pfa_free p s, o') = (t, own'))
        \<or> run_frames alloc pfa_free rs (s, own) = (t, own')"
      by (auto split: if_splits)
    with Cons.IH same_arrays_steps(3) [of s p] show ?thesis by (auto simp: same_arrays_def)
  qed
qed

lemma release_pages_same_arrays: "same_arrays s (release_pages rs a n s)"
proof (induction n arbitrary: s)
  case (Suc n)
  from Suc [of s] Suc [of "pfa_free (a + of_nat n * PAGE_SIZE) s"] show ?case
    using same_arrays_steps(3) [of s] by (auto simp: Let_def same_arrays_def)
qed (simp add: same_arrays_def)

lemma release_entries_same_arrays: "same_arrays s (release_entries rs es s)"
proof (induction es arbitrary: s)
  case (Cons e es)
  with release_pages_same_arrays show ?case by (auto simp: same_arrays_def)
qed (simp add: same_arrays_def)

lemma mm_init_arrays:
  assumes "find_placement es 0 = pl" and "pl \<noteq> 0"
  shows "low_bitmap_ptr (snd (mm_init h (Some es) mm_boot)) = pl + h"
    and "bitmap_ptr (snd (mm_init h (Some es) mm_boot)) = pl + 0x40000 + h"
  using release_entries_same_arrays [of "mm_boot\<lparr>bitmap_base := 0x100000000, low_bitmap_ptr := pl + h,
      bitmap_ptr := pl + of_nat BITMAP_SIZE + h, bitmap := (\<lambda>_. 0xFF), low_bitmap := (\<lambda>_. 0xFF)\<rparr>"
      "[(pl, pl + req_size)]" es] assms
  by (simp_all add: mm_init_def Let_def same_arrays_def BITMAP_SIZE_def MAX_PAGES_def)

text \<open>The reserved range, in addresses.\<close>

lemma placement_bounds:
  assumes "find_placement es 0 = pl" and "pl \<noteq> 0"
  shows "unat pl mod 4096 = 0" and "unat pl + 0x20000 < 2 ^ 64" and "unat (pl + req_size) = unat pl + 0x20000"
proof -
  obtain e where e: "pl = region_start e" "region_start e < region_end e"
      "req_size \<le> region_end e - region_start e"
    using find_placement_in_ram [OF assms] assms(2) by auto
  show "unat pl mod 4096 = 0" using e(1) region_aligned(1) by simp
  have "unat req_size \<le> unat (region_end e) - unat pl"
    using e unat_sub [OF order.strict_implies_order [OF e(2)]] by (simp add: word_le_nat_alt)
  moreover have req: "unat req_size = 0x20000" by (simp add: req_size_def PAGE_SIZE_def)
  moreover have "unat pl < unat (region_end e)" using e by (simp add: word_less_nat_alt)
  ultimately show lt: "unat pl + 0x20000 < 2 ^ 64" using unat_less_64 [of "region_end e"] by linarith
  then show "unat (pl + req_size) = unat pl + 0x20000" by (simp add: unat_word_ariths req)
qed

lemma page_reserved_iff:
  assumes "find_placement es 0 = pl" and "pl \<noteq> 0" and "unat p mod 4096 = 0"
  shows "page_reserved [(pl, pl + req_size)] p \<longleftrightarrow> unat (p - pl) < 0x20000"
proof
  note b = placement_bounds [OF assms(1,2)]
  assume "unat (p - pl) < 0x20000"
  have "unat p = (unat pl + unat (p - pl)) mod 2 ^ 64"
    using unat_word_ariths(1) [of pl "p - pl"] by simp
  also have "\<dots> = unat pl + unat (p - pl)" using b(2) \<open>unat (p - pl) < 0x20000\<close> by simp
  finally have "unat p = unat pl + unat (p - pl)" .
  then have "pl \<le> p" "p < pl + req_size"
    using b(3) \<open>unat (p - pl) < 0x20000\<close> by (simp_all add: word_le_nat_alt word_less_nat_alt)
  then show "page_reserved [(pl, pl + req_size)] p" by (rule bitmap_frames_reserved [OF assms(1,2) _ _ assms(3)])
next
  note b = placement_bounds [OF assms(1,2)]
  assume "page_reserved [(pl, pl + req_size)] p"
  then have r: "p < pl + req_size" "pl < p + PAGE_SIZE" by (simp_all add: page_reserved_def)
  have lt: "unat p < unat pl + 0x20000" using r(1) b(3) by (simp add: word_less_nat_alt)
  then have "unat (p + PAGE_SIZE) \<le> unat p + 4096" by (simp add: unat_word_ariths)
  with r(2) have "unat pl < unat p + 4096" by (simp add: word_less_nat_alt)
  obtain i where i: "unat p = 4096 * i" using assms(3) by (elim dvdE [OF mod_0_imp_dvd])
  obtain j where j: "unat pl = 4096 * j" using b(1) by (elim dvdE [OF mod_0_imp_dvd])
  from \<open>unat pl < unat p + 4096\<close> i j have "j \<le> i" by simp
  then have "pl \<le> p" using i j by (simp add: word_le_nat_alt)
  then have "unat (p - pl) = unat p - unat pl" by (rule unat_sub)
  with lt show "unat (p - pl) < 0x20000" using \<open>pl \<le> p\<close> by (simp add: word_le_nat_alt)
qed


lemma mm_init_avail:
  assumes "find_placement es 0 = pl" and "pl \<noteq> 0"
  shows "low_avail (snd (mm_init h (Some es) mm_boot)) =
      {p. usable_page es p \<and> low_frame p \<and> \<not> unat (p - pl) < 0x20000}"
    and "high_avail (snd (mm_init h (Some es) mm_boot)) =
      {p. usable_page es p \<and> high_frame p \<and> \<not> unat (p - pl) < 0x20000}"
  using page_reserved_iff [OF assms] by (auto simp: mm_init_ready_snd [OF assms] usable_page_def)

lemma in_array_low: "in_array (pl + h) (p + h) \<longleftrightarrow> unat (p - pl) < 0x40000" for p pl h :: u64
  by (simp add: in_array_def BITMAP_SIZE_def MAX_PAGES_def)

lemma in_array_high:
  "in_array (pl + 0x40000 + h) (p + h) \<longleftrightarrow> 0x40000 \<le> unat (p - pl) \<and> unat (p - pl) < 0x80000"
  for p pl h :: u64
proof -
  define q where "q = p - pl"
  have eq: "p + h - (pl + 0x40000 + h) = q - 0x40000" by (simp add: q_def)
  have "in_array (pl + 0x40000 + h) (p + h) \<longleftrightarrow> unat (q - 0x40000) < 0x40000"
    unfolding in_array_def eq by (simp add: BITMAP_SIZE_def MAX_PAGES_def)
  also have "\<dots> \<longleftrightarrow> 0x40000 \<le> unat q \<and> unat q < 0x80000"
    using unat_less_64 [of q] unat_sub_if_size [where x = q and y = "0x40000 :: u64"] by (simp add: word_size) linarith
  finally show ?thesis by (simp only: q_def)
qed

lemma page_offset:
  fixes p pl :: u64
  assumes "unat p mod 4096 = 0" and "unat pl mod 4096 = 0" and "k < 4096"
  shows "unat (p + of_nat k - pl) = unat (p - pl) + k" and "unat (p - pl) mod 4096 = 0"
proof -
  obtain i where i: "unat p = 4096 * i" using assms(1) by (elim dvdE [OF mod_0_imp_dvd])
  obtain j where j: "unat pl = 4096 * j" using assms(2) by (elim dvdE [OF mod_0_imp_dvd])
  have "unat (p - pl) = (if pl \<le> p then unat p - unat pl else 2 ^ 64 + unat p - unat pl)"
    using unat_sub_if_size [of p pl] unat_less_64 [of pl] by (simp add: word_size word_le_nat_alt) linarith
  also have "\<dots> = 4096 * (if pl \<le> p then i - j else 2 ^ 52 + i - j)"
    using i j by (simp add: right_diff_distrib')
  finally have m: "unat (p - pl) = 4096 * (if pl \<le> p then i - j else 2 ^ 52 + i - j)" .
  then show "unat (p - pl) mod 4096 = 0" by simp
  then obtain d where d: "unat (p - pl) = 4096 * d" by (elim dvdE [OF mod_0_imp_dvd])
  then have "4096 * d + k < 2 ^ 64" using unat_less_64 [of "p - pl"] assms(3) by auto
  moreover have "unat (of_nat k :: u64) = k" using assms(3) by (simp add: unat_of_nat_small)
  moreover have "p + of_nat k - pl = (p - pl) + of_nat k" by simp
  ultimately show "unat (p + of_nat k - pl) = unat (p - pl) + k"
    using d by (simp only: unat_word_ariths) simp
qed

lemma cleared_byte:
  assumes "n * 32768 \<le> i" and "i < Suc n * 32768" and "d = of_nat (i div 8) - of_nat (n * 4096)"
  shows "unat (d :: u64) < 4096"
proof -
  have "n * 4096 \<le> i div 8" using assms(1) by linarith
  then have "d = of_nat (i div 8 - n * 4096)" unfolding assms(3) by (simp only: of_nat_diff)
  moreover have "i div 8 - n * 4096 < 4096" using assms(1,2) by auto
  ultimately show ?thesis by (simp add: unat_of_nat_small)
qed

lemma clear_page_high:
  assumes "bitmap_ptr t = pl + 0x40000 + h" and "n < 64" and "p = pl + of_nat (64 + n) * 4096"
  shows "high_page ` {n * 32768 ..< Suc n * 32768} \<subseteq> high_avail (clear_page h p t)"
proof -
  have "i \<in> free_pages (bitmap (clear_page h p t))" if i: "n * 32768 \<le> i" "i < Suc n * 32768" for i
  proof -
    have lt: "i < MAX_PAGES" "i div 8 < BITMAP_SIZE" using i assms(2) by (auto simp: MAX_PAGES_def BITMAP_SIZE_def)
    have "bitmap_ptr t + of_nat (i div 8) - phys_to_virt h p = of_nat (i div 8) - of_nat (n * 4096)"
      by (simp add: assms(1,3) phys_to_virt_def algebra_simps)
    note cleared_byte [OF i this]
    then have "bitmap (clear_page h p t) (i div 8) = 0"
      using custom_memset_bitmap [OF _ lt(2), of 4096] by (simp add: clear_page_def)
    then show ?thesis using lt(1) by (simp add: free_pages_def bitmap_is_free_def)
  qed
  then show ?thesis by (auto simp: high_avail_def)
qed

lemma clear_page_low:
  assumes "low_bitmap_ptr t = pl + h" and "n < 64" and "p = pl + of_nat n * 4096"
  shows "low_page ` {n * 32768 ..< Suc n * 32768} \<subseteq> low_avail (clear_page h p t)"
proof -
  have "i \<in> free_pages (low_bitmap (clear_page h p t))" if i: "n * 32768 \<le> i" "i < Suc n * 32768" for i
  proof -
    have lt: "i < MAX_PAGES" "i div 8 < BITMAP_SIZE" using i assms(2) by (auto simp: MAX_PAGES_def BITMAP_SIZE_def)
    have "low_bitmap_ptr t + of_nat (i div 8) - phys_to_virt h p = of_nat (i div 8) - of_nat (n * 4096)"
      by (simp add: assms(1,3) phys_to_virt_def algebra_simps)
    note cleared_byte [OF i this]
    then have "low_bitmap (clear_page h p t) (i div 8) = 0"
      using custom_memset_low_bitmap [OF _ lt(2), of 4096] by (simp add: clear_page_def)
    then show ?thesis using lt(1) by (simp add: free_pages_def bitmap_is_free_def)
  qed
  then show ?thesis by (auto simp: low_avail_def)
qed

text \<open>A page a client owns after a run, and where the arrays are then.\<close>

lemma client_page:
  assumes "find_placement es 0 = pl" and "pl \<noteq> 0" and "alloc = pfa_alloc \<or> alloc = pfa_alloc_low"
    and run: "run_frames alloc pfa_free rs (snd (mm_init h (Some es) mm_boot), {}) = (t, own)" and "p \<in> own"
  shows "unat p mod 4096 = 0" and "0x20000 \<le> unat (p - pl)"
    and "low_bitmap_ptr t = pl + h" and "bitmap_ptr t = pl + 0x40000 + h"
proof -
  note init = mm_init_ready_snd [OF assms(1,2), of h]
  have "own \<subseteq> high_avail (snd (mm_init h (Some es) mm_boot)) \<union> low_avail (snd (mm_init h (Some es) mm_boot))"
    using assms(3)
  proof
    assume "alloc = pfa_alloc"
    with high_pfa.run_frames_conserve [OF init(2) _ _ run [unfolded this]] show ?thesis by blast
  next
    assume "alloc = pfa_alloc_low"
    with low_pfa.run_frames_conserve [OF init(2) _ _ run [unfolded this]] show ?thesis by blast
  qed
  with assms(5) show "unat p mod 4096 = 0" "0x20000 \<le> unat (p - pl)"
    by (auto simp: mm_init_avail [OF assms(1,2)] usable_page_def)
  have "same_arrays (snd (mm_init h (Some es) mm_boot)) t"
    using run_frames_same_arrays [OF _ run] same_arrays_steps(1,2) assms(3) by blast
  then show "low_bitmap_ptr t = pl + h" "bitmap_ptr t = pl + 0x40000 + h"
    by (simp_all add: same_arrays_def mm_init_arrays [OF assms(1,2)])
qed

subsection \<open>Properties\<close>

text \<open>The regions that have room for the reserved pages; one that begins at address 0 does not count.\<close>

definition roomy :: "memmap_entry \<Rightarrow> bool" where
  "roomy e \<longleftrightarrow> usable_entry e \<and> 0 < unat (region_start e) \<and> unat (region_start e) + 32 * 4096 \<le> unat (region_end e)"

lemma room_iff: "region_start e < region_end e \<and> req_size \<le> region_end e - region_start e \<longleftrightarrow>
    unat (region_start e) + 32 * 4096 \<le> unat (region_end e)"
proof (cases "region_start e \<le> region_end e")
  case True
  then show ?thesis using unat_sub [OF True]
    by (auto simp: word_le_nat_alt word_less_nat_alt req_size_def PAGE_SIZE_def)
next
  case False
  then show ?thesis by (auto simp: word_le_nat_alt word_less_nat_alt)
qed

lemma find_placement_set: "a \<noteq> 0 \<Longrightarrow> find_placement es a = a"
  by (induction es) auto

lemma find_placement_first: "find_placement es 0 = (case find roomy es of None \<Rightarrow> 0 | Some e \<Rightarrow> region_start e)"
proof (induction es)
  case (Cons e es)
  then show ?case
    using room_iff [of e] find_placement_set [of "region_start e" es]
    by (cases "region_start e = 0") (auto simp: roomy_def unat_eq_zero)
qed simp


definition demo_map :: "memmap_entry list" where
  "demo_map = [\<lparr>me_base = 0x1000, me_length = 0x9F000, me_type = 1\<rparr>,
               \<lparr>me_base = 0x100000, me_length = 0x40000, me_type = 0\<rparr>,
               \<lparr>me_base = 0x100000000, me_length = 0x2000, me_type = 5\<rparr>]"

lemma demo_placement: "find_placement demo_map 0 = 0x100000"
  by (simp add: demo_map_def usable_entry_def LIMINE_MEMMAP_USABLE_def req_size_def
      LIMINE_MEMMAP_BOOTLOADER_RECLAIMABLE_def region_start_def region_end_def PAGE_SIZE_def)

text \<open>
  C2 (safety, ownership). Whatever sequence of allocations and frees of owned pages a client
  makes, no page it owns is available again, no page is lost or invented, and the counters
  stay equal to the number of clear bits: for the general allocator and for the low one.
\<close>

theorem pfa_ownership:
  assumes "mm_inv s"
    and "run_frames pfa_alloc pfa_free rs (s, {}) = (t, own)"
    and "run_frames pfa_alloc_low pfa_free rs (s, {}) = (t', own')"
  shows "(mm_inv t \<and> own \<inter> high_avail t = {} \<and> own \<union> high_avail t = high_avail s)
    \<and> (mm_inv t' \<and> own' \<inter> low_avail t' = {} \<and> own' \<union> low_avail t' = low_avail s)"
  using high_pfa.run_frames_conserve [OF assms(1) _ _ assms(2)]
    low_pfa.run_frames_conserve [OF assms(1) _ _ assms(3)] by simp

theorem pfa_ownership_witness:
  "let s = snd (mm_init 0 (Some demo_map) mm_boot);
       r = run_frames pfa_alloc pfa_free [Take, Give 0x100000000, Take] (s, {})
   in snd r \<union> high_avail (fst r) = high_avail s"
proof -
  let ?s = "snd (mm_init 0 (Some demo_map) mm_boot)"
  have "mm_inv ?s" using mm_init_ready_snd(2) [OF demo_placement] by simp
  from pfa_ownership [OF this prod.collapse [symmetric] prod.collapse [symmetric],
      of "[Take, Give 0x100000000, Take]"]
  show ?thesis by (simp add: Let_def)
qed

text \<open>
  Both allocators return the available page with the lowest
  address and take exactly that page; they return 0, changing nothing, only when no page
  of their range is left. Freed pages are page aligned and never page 0.
\<close>

theorem pfa_alloc_lowest:
  assumes "mm_inv s"
  shows "(pfa_alloc_low s = (0, s) \<and> low_avail s = {} \<or>
      (\<exists>p t. pfa_alloc_low s = (p, t) \<and> p \<in> low_avail s \<and> (\<forall>q\<in>low_avail s. p \<le> q) \<and>
        low_frame p \<and> low_avail t = low_avail s - {p} \<and> high_avail t = high_avail s))
    \<and> (pfa_alloc s = (0, s) \<and> high_avail s = {} \<or>
      (\<exists>p t. pfa_alloc s = (p, t) \<and> p \<in> high_avail s \<and> (\<forall>q\<in>high_avail s. p \<le> q) \<and>
        high_frame p \<and> high_avail t = high_avail s - {p} \<and> low_avail t = low_avail s))"
proof (rule conjI)
  show "pfa_alloc_low s = (0, s) \<and> low_avail s = {} \<or>
      (\<exists>p t. pfa_alloc_low s = (p, t) \<and> p \<in> low_avail s \<and> (\<forall>q\<in>low_avail s. p \<le> q) \<and>
        low_frame p \<and> low_avail t = low_avail s - {p} \<and> high_avail t = high_avail s)"
    using assms
  proof (cases rule: pfa_alloc_low_cases)
    case (page i)
    have "low_page i \<le> q" if "q \<in> low_avail s" for q
    proof -
      from that obtain j where j: "j \<in> free_pages (low_bitmap s)" "q = low_page j"
        by (auto simp: low_avail_def)
      then have "i \<le> j" "j < 2 ^ 21" using page(2) by (auto dest: free_pages_less)
      then show ?thesis by (simp add: j(2) word_le_nat_alt unat_low_page)
    qed
    moreover have "low_page i \<in> low_avail s" using page(1) by (simp add: low_avail_def)
    ultimately show ?thesis
      using page low_avail_frame [OF assms] low_avail_remove [OF page(1)]
      by (auto simp: low_avail_def high_avail_def bit_ops)
  qed (simp add: low_avail_def)
  show "pfa_alloc s = (0, s) \<and> high_avail s = {} \<or>
      (\<exists>p t. pfa_alloc s = (p, t) \<and> p \<in> high_avail s \<and> (\<forall>q\<in>high_avail s. p \<le> q) \<and>
        high_frame p \<and> high_avail t = high_avail s - {p} \<and> low_avail t = low_avail s)"
    using assms
  proof (cases rule: pfa_alloc_cases)
    case (page i)
    have "high_page i \<le> q" if "q \<in> high_avail s" for q
    proof -
      from that obtain j where j: "j \<in> free_pages (bitmap s)" "q = high_page j"
        by (auto simp: high_avail_def)
      then have "i \<le> j" "j < 2 ^ 21" using page(2) by (auto dest: free_pages_less)
      then show ?thesis by (simp add: j(2) word_le_nat_alt unat_high_page)
    qed
    moreover have "high_page i \<in> high_avail s" using page(1) by (simp add: high_avail_def)
    ultimately show ?thesis
      using page high_avail_frame [of _ s] high_avail_remove [OF page(1)]
      by (auto simp: low_avail_def high_avail_def bit_ops)
  qed (simp add: high_avail_def)
qed

theorem pfa_alloc_lowest_witness:
  "mm_inv (snd (mm_init 0 (Some demo_map) mm_boot)) \<and>
   (let s = snd (mm_init 0 (Some demo_map) mm_boot) in
     pfa_alloc s = (0, s) \<or> fst (pfa_alloc s) \<in> high_avail s)"
proof -
  have inv: "mm_inv (snd (mm_init 0 (Some demo_map) mm_boot))"
    using mm_init_ready_snd(2) [OF demo_placement] by simp
  with pfa_alloc_lowest [OF inv] show ?thesis by (auto simp: Let_def)
qed

text \<open>
  C3 (safety). Whatever a client writes to a page it got from an allocator, after any sequence of allocations
  and frees: the bits of all frames below 4 GB stay as they are, because they lie in the 32 pages
  that are reserved, and nothing at all changes when the page is not in the 128 pages of the two bitmaps.
  But the pages of the upper bitmap, 64 to 127 from the placement, are handed out as well when they
  are usable: clearing such a page, as \<open>map_page\<close> does with every new table, makes all the 32768
  frames above 4 GB whose bits are in it available, those in use and those without memory alike. Clearing
  one of the pages 32 to 63 makes addresses from 4 GB on available to \<open>pfa_alloc_low\<close>.
\<close>

theorem frame_writes_and_bitmaps:
  assumes "find_placement es 0 = pl" and "pl \<noteq> 0" and "alloc = pfa_alloc \<or> alloc = pfa_alloc_low"
    and "run_frames alloc pfa_free rs (snd (mm_init h (Some es) mm_boot), {}) = (t, own)" and "p \<in> own"
  shows "(\<forall>k v i. k < 4096 \<and> i < 2 ^ 20 \<longrightarrow>
        bitmap_is_free (low_bitmap (store_byte (phys_to_virt h (p + of_nat k)) v t)) i = bitmap_is_free (low_bitmap t) i)
    \<and> (\<forall>k v. k < 4096 \<and> 128 * 4096 \<le> unat (p - pl) \<longrightarrow> store_byte (phys_to_virt h (p + of_nat k)) v t = t)
    \<and> (\<forall>n<64. p = pl + of_nat (64 + n) * 4096 \<longrightarrow>
        high_page ` {n * 32768 ..< Suc n * 32768} \<subseteq> high_avail (clear_page h p t))
    \<and> (\<forall>n<64. p = pl + of_nat n * 4096 \<longrightarrow>
        low_page ` {n * 32768 ..< Suc n * 32768} \<subseteq> low_avail (clear_page h p t) \<and> 32 \<le> n)"
proof -
  note p = client_page [OF assms]
  note off = page_offset [OF p(1) placement_bounds(1) [OF assms(1,2)]]
  have low: "bitmap_is_free (low_bitmap (store_byte (phys_to_virt h (p + of_nat k)) v t)) i = bitmap_is_free (low_bitmap t) i"
    if "k < 4096" "i < 2 ^ 20" for k v i
  proof -
    have "unat (phys_to_virt h (p + of_nat k) - low_bitmap_ptr t) = unat (p - pl) + k"
      using off(1) [OF that(1)] by (simp add: phys_to_virt_def p(3))
    moreover have "i div 8 < 0x20000" using that(2) by simp
    ultimately have "i div 8 \<noteq> unat (phys_to_virt h (p + of_nat k) - low_bitmap_ptr t)"
      using p(2) by linarith
    then show ?thesis by (simp add: store_byte_def bitmap_is_free_def)
  qed
  have outside: "store_byte (phys_to_virt h (p + of_nat k)) v t = t" if "k < 4096" "128 * 4096 \<le> unat (p - pl)" for k v
  proof (rule store_byte_outside)
    note o = off(1) [OF that(1)] that(2)
    show "\<not> in_array (low_bitmap_ptr t) (phys_to_virt h (p + of_nat k))"
      unfolding p(3) phys_to_virt_def in_array_low o(1) using o(2) by simp
    show "\<not> in_array (bitmap_ptr t) (phys_to_virt h (p + of_nat k))"
      unfolding p(4) phys_to_virt_def in_array_high o(1) using o(2) by simp
  qed
  have beyond: "32 \<le> n" if "n < 64" "p = pl + of_nat n * 4096" for n
  proof -
    have "p - pl = of_nat (n * 4096)" using that(2) by simp
    moreover have "unat (of_nat (n * 4096) :: u64) = n * 4096"
      using that(1) by (intro unat_of_nat_small) simp
    ultimately have "unat (p - pl) = n * 4096" by simp
    then show ?thesis using p(2) by simp
  qed
  show ?thesis using low outside beyond clear_page_high [OF p(4)] clear_page_low [OF p(3)] by blast
qed

text \<open>
  A machine without memory above 4 GB whose second region begins 256 KB behind the first: the first frame
  handed out holds the start of the upper bitmap, and clearing it makes the address 4 GB available.
\<close>

definition gap_map :: "memmap_entry list" where
  "gap_map = [\<lparr>me_base = 0x100000, me_length = 0x20000, me_type = 0\<rparr>,
              \<lparr>me_base = 0x140000, me_length = 0x1000, me_type = 0\<rparr>]"

lemma gap_placement: "find_placement gap_map 0 = 0x100000"
  by (simp add: gap_map_def usable_entry_def LIMINE_MEMMAP_USABLE_def req_size_def
      LIMINE_MEMMAP_BOOTLOADER_RECLAIMABLE_def region_start_def region_end_def PAGE_SIZE_def)

lemma gap_avail:
  "low_avail (snd (mm_init h (Some gap_map) mm_boot)) =
      {p. usable_page gap_map p \<and> low_frame p \<and> \<not> unat (p - 0x100000) < 0x20000}"
  "high_avail (snd (mm_init h (Some gap_map) mm_boot)) =
      {p. usable_page gap_map p \<and> high_frame p \<and> \<not> unat (p - 0x100000) < 0x20000}"
  by (rule mm_init_avail [OF gap_placement]; simp)+

lemma gap_low_avail: "0x140000 \<in> low_avail (snd (mm_init 0 (Some gap_map) mm_boot))"
  by (simp add: gap_avail)
    (simp add: gap_map_def usable_page_def usable_entry_def LIMINE_MEMMAP_USABLE_def low_frame_def
      LIMINE_MEMMAP_BOOTLOADER_RECLAIMABLE_def region_start_def region_end_def PAGE_SIZE_def)


lemma gap_high_avail: "high_avail (snd (mm_init 0 (Some gap_map) mm_boot)) = {}"
  unfolding gap_avail
  by (auto simp: gap_map_def usable_page_def usable_entry_def LIMINE_MEMMAP_USABLE_def high_frame_def
      LIMINE_MEMMAP_BOOTLOADER_RECLAIMABLE_def region_start_def region_end_def PAGE_SIZE_def word_le_nat_alt word_less_nat_alt)

lemma gap_low_only: "low_avail (snd (mm_init 0 (Some gap_map) mm_boot)) = {0x140000}"
proof
  show "low_avail (snd (mm_init 0 (Some gap_map) mm_boot)) \<subseteq> {0x140000}"
  proof
    fix p assume "p \<in> low_avail (snd (mm_init 0 (Some gap_map) mm_boot))"
    then have p: "unat p mod 4096 = 0" "0x20000 \<le> unat (p - 0x100000)"
        "0x100000 \<le> unat p \<and> unat p < 0x120000 \<or> 0x140000 \<le> unat p \<and> unat p < 0x141000"
      unfolding gap_avail
      by (auto simp: gap_map_def usable_page_def usable_entry_def
        LIMINE_MEMMAP_USABLE_def region_start_def region_end_def PAGE_SIZE_def word_le_nat_alt word_less_nat_alt)
    have "unat (p - 0x100000) = unat p - 0x100000"
      using p(3) by (subst unat_sub) (auto simp: word_le_nat_alt)
    with p have "unat p = 0x140000" by auto
    then show "p \<in> {0x140000}" by (auto simp: word_unat_eq_iff)
  qed
qed (use gap_low_avail in simp)

theorem frame_writes_and_bitmaps_witness:
  "let r = run_frames pfa_alloc_low pfa_free [Take] (snd (mm_init 0 (Some gap_map) mm_boot), {}) in
     snd r = {0x140000} \<and> high_avail (snd (mm_init 0 (Some gap_map) mm_boot)) = {}
     \<and> 0x100000000 \<in> high_avail (clear_page 0 0x140000 (fst r))"
proof -
  let ?s = "snd (mm_init 0 (Some gap_map) mm_boot)"
  have inv: "mm_inv ?s" using mm_init_ready_snd(2) [OF gap_placement] by simp
  have alloc: "fst (pfa_alloc_low ?s) = 0x140000"
    using low_pfa.alloc_some [OF inv _ prod.collapse [symmetric]] by (simp add: gap_low_only)
  then have run: "run_frames pfa_alloc_low pfa_free [Take] (?s, {}) = (snd (pfa_alloc_low ?s), {0x140000})"
    by (simp add: case_prod_beta)
  have "high_page 0 \<in> high_page ` {0 * 32768 ..< Suc 0 * 32768}" by simp
  moreover from frame_writes_and_bitmaps [OF gap_placement _ _ run, of "0x140000"]
  have "\<forall>n<64. (0x140000 :: u64) = 0x100000 + of_nat (64 + n) * 4096 \<longrightarrow>
      high_page ` {n * 32768 ..< Suc n * 32768} \<subseteq> high_avail (clear_page 0 0x140000 (snd (pfa_alloc_low ?s)))"
    by simp
  from spec [OF this, of 0] have "high_page ` {0 * 32768 ..< Suc 0 * 32768} \<subseteq> high_avail (clear_page 0 0x140000 (snd (pfa_alloc_low ?s)))"
    by simp
  ultimately have "high_page 0 \<in> high_avail (clear_page 0 0x140000 (snd (pfa_alloc_low ?s)))" by blast
  then show ?thesis unfolding Let_def run by (simp add: gap_high_avail high_page_def)
qed

text \<open>
  Freeing the page just allocated restores the bitmap and the
  free counters, but \<open>pfa_free\<close> also counts the page as newly registered memory: the total
  that \<open>mm_get_total_memory\<close> reports grows by one page on every such cycle.
\<close>

theorem pfa_free_inflates_total:
  assumes "mm_inv s" and "pfa_alloc s = (p, t)" and "p \<noteq> 0"
  shows "bitmap (pfa_free p t) = bitmap s \<and> low_bitmap (pfa_free p t) = low_bitmap s
    \<and> mm_get_free_memory (pfa_free p t) = mm_get_free_memory s
    \<and> mm_get_total_memory (pfa_free p t) = mm_get_total_memory s + PAGE_SIZE"
proof -
  obtain i where i: "i \<in> free_pages (bitmap s)" "p = high_page i"
      "t = s\<lparr>bitmap := bitmap_set_used (bitmap s) i, free_pages_count := free_pages_count s - 1\<rparr>"
    using assms(1) by (cases rule: pfa_alloc_cases) (use assms(2,3) in auto)
  then have "i < MAX_PAGES" "bitmap_is_free (bitmap s) i" by (auto simp: free_pages_def)
  moreover have "bitmap_base t = 0x100000000" using assms(1) by (simp add: i(3) mm_inv_def)
  moreover have "i \<notin> free_pages (bitmap t)" by (simp add: i(3) bit_ops)
  ultimately have "pfa_free p t = t\<lparr>bitmap := bitmap s, free_pages_count := free_pages_count t + 1,
      total_pages_count := total_pages_count t + 1\<rparr>"
    by (simp add: i(2) pfa_free_high) (simp add: i(3) bitmap_set_free_used)
  then show ?thesis
    by (simp add: i(3) mm_get_free_memory_def mm_get_total_memory_def algebra_simps)
qed


lemma demo_high_page: "0x100000000 \<in> high_avail (snd (mm_init 0 (Some demo_map) mm_boot))"
  by (simp add: mm_init_ready_snd(4) [OF demo_placement])
    (simp add: demo_map_def usable_page_def usable_entry_def LIMINE_MEMMAP_USABLE_def high_frame_def
      LIMINE_MEMMAP_BOOTLOADER_RECLAIMABLE_def region_start_def region_end_def PAGE_SIZE_def
      MAX_PAGES_def page_reserved_def req_size_def)

theorem pfa_free_inflates_total_witness:
  "let s = snd (mm_init 0 (Some demo_map) mm_boot); r = pfa_alloc s in
     fst r \<noteq> 0 \<and> mm_get_total_memory (pfa_free (fst r) (snd r)) = mm_get_total_memory s + 4096"
proof -
  let ?s = "snd (mm_init 0 (Some demo_map) mm_boot)"
  have inv: "mm_inv ?s" using mm_init_ready_snd(2) [OF demo_placement] by simp
  then have "fst (pfa_alloc ?s) \<noteq> 0" using high_pfa.alloc_zero_iff [OF inv] demo_high_page by auto
  with pfa_free_inflates_total [OF inv prod.collapse [symmetric]] show ?thesis
    by (simp add: Let_def PAGE_SIZE_def)
qed

end
