(* ===== verification/Paging.thy ===== *)
theory Paging
  imports Mm
begin

text \<open>
  The virtual memory manager of \<^verbatim>\<open>core/mm.c\<close>: \<open>map_page\<close>, which walks and extends the
  four-level page tables, and \<open>mmio_remap\<close>, which maps a device region into the MMIO window.

  Page tables live in physical frames and are reached through the direct map at a fixed
  offset, so the tables are a function from frame address and index (0 to 511) to the
  64-bit entry. \<open>CR3\<close> is an argument. The barrier and the TLB flush have no effect on
  this state. A table is cleared in the tables alone; that its frame may hold a part of a bitmap, which
  \<open>mm_init\<close> does not rule out, is shown of \<open>clear_page\<close> in the theory \<open>Mm\<close>.
\<close>

subsection \<open>Definitions\<close>

definition PAGE_PRESENT :: u64 where "PAGE_PRESENT = 1"
definition PAGE_RW :: u64 where "PAGE_RW = 2"
definition PAGE_PWT :: u64 where "PAGE_PWT = 8"
definition PAGE_PCD :: u64 where "PAGE_PCD = 16"
definition PADDR_MASK :: u64 where "PADDR_MASK = 0x000FFFFFFFFFF000"

type_synonym page_tables = "u64 \<Rightarrow> nat \<Rightarrow> u64"

definition table_index :: "nat \<Rightarrow> u64 \<Rightarrow> nat" where
  "table_index sh virt_addr = unat (drop_bit sh virt_addr AND 0x1FF)"

text \<open>
  One level of the walk, the block that \<open>map_page\<close> repeats for PML4, PDPT and PD: an absent
  entry gets a fresh zeroed table, a present one gets the caching flags. The result is the
  frame of the next table, or \<open>None\<close> when no page could be allocated.
\<close>

definition walk_level ::
  "u64 \<Rightarrow> nat \<Rightarrow> u64 \<Rightarrow> mm \<times> page_tables \<Rightarrow> u64 option \<times> mm \<times> page_tables" where
  "walk_level table index caching_flags st =
     (let (s, m) = st in
      if m table index AND PAGE_PRESENT = 0 then
        (let (p, s1) = pfa_alloc_low s in
         if p = 0 then (None, s1, m)
         else
           let m1 = m(p := (\<lambda>_. 0));
               e = p OR PAGE_PRESENT OR PAGE_RW OR caching_flags;
               m2 = m1(table := (m1 table)(index := e))
           in (Some (e AND PADDR_MASK), s1, m2))
      else
        let e = m table index OR caching_flags
        in (Some (e AND PADDR_MASK), s, m(table := (m table)(index := e))))"

definition map_page :: "u64 \<Rightarrow> u64 \<Rightarrow> u64 \<Rightarrow> u64 \<Rightarrow> mm \<times> page_tables \<Rightarrow> mm \<times> page_tables" where
  "map_page cr3 phys_addr virt_addr flags st =
     (let caching_flags = flags AND (PAGE_PWT OR PAGE_PCD);
          (r1, st1) = walk_level (cr3 AND PADDR_MASK) (table_index 39 virt_addr) caching_flags st
      in case r1 of None \<Rightarrow> st1
         | Some pdpt \<Rightarrow>
           let (r2, st2) = walk_level pdpt (table_index 30 virt_addr) caching_flags st1
           in case r2 of None \<Rightarrow> st2
              | Some pdt \<Rightarrow>
                let (r3, st3) = walk_level pdt (table_index 21 virt_addr) caching_flags st2
                in case r3 of None \<Rightarrow> st3
                   | Some pt \<Rightarrow>
                     let (s, m) = st3 in
                     (s, m(pt := (m pt)(table_index 12 virt_addr := phys_addr OR flags))))"

fun map_pages :: "u64 \<Rightarrow> u64 \<Rightarrow> u64 \<Rightarrow> nat \<Rightarrow> nat \<Rightarrow> mm \<times> page_tables \<Rightarrow> mm \<times> page_tables" where
  "map_pages cr3 phys_base virt_base i 0 st = st"
| "map_pages cr3 phys_base virt_base i (Suc n) st =
     map_pages cr3 phys_base virt_base (Suc i) n
       (map_page cr3 (phys_base + of_nat i * PAGE_SIZE) (virt_base + of_nat i * PAGE_SIZE)
          (PAGE_PRESENT OR PAGE_RW OR PAGE_PCD) st)"

definition mmio_pages :: "u64 \<Rightarrow> u64 \<Rightarrow> nat" where
  "mmio_pages physical_addr sz =
     (let pages_needed = unat (sz + (physical_addr AND 0xFFF) + PAGE_SIZE - 1) div unat PAGE_SIZE;
          pages_needed = (if pages_needed = 0 then 1 else pages_needed)
      in if 64 < pages_needed then 64 else pages_needed)"

definition mmio_remap :: "u64 \<Rightarrow> u64 \<Rightarrow> u64 \<Rightarrow> mm \<times> page_tables \<Rightarrow> u64 \<times> mm \<times> page_tables" where
  "mmio_remap cr3 physical_addr sz st =
     (if physical_addr < 0x100000000 then (physical_addr, st)
      else
        let phys_base = physical_addr AND NOT 0xFFF;
            offset = physical_addr AND 0xFFF;
            pages_needed = mmio_pages physical_addr sz;
            virt_base = next_mmio_addr (fst st);
            (s, m) = map_pages cr3 phys_base virt_base 0 pages_needed st;
            s = s\<lparr>next_mmio_addr := next_mmio_addr s + of_nat pages_needed * PAGE_SIZE\<rparr>
        in (virt_base + offset, s, m))"

subsection \<open>The walk the processor makes\<close>

fun walk :: "page_tables \<Rightarrow> u64 \<Rightarrow> nat list \<Rightarrow> u64 option" where
  "walk m f [] = None"
| "walk m f [i] = (if m f i AND PAGE_PRESENT = 0 then None else Some (m f i))"
| "walk m f (i # j # is) =
     (if m f i AND PAGE_PRESENT = 0 then None else walk m (m f i AND PADDR_MASK) (j # is))"

definition va_indices :: "u64 \<Rightarrow> nat list" where
  "va_indices v = [table_index 39 v, table_index 30 v, table_index 21 v, table_index 12 v]"

definition translate :: "u64 \<Rightarrow> page_tables \<Rightarrow> u64 \<Rightarrow> u64 option" where
  "translate cr3 m v = walk m (cr3 AND PADDR_MASK) (va_indices v)"

lemma table_index_less [simp]: "table_index sh v < 512"
proof -
  have "drop_bit sh v AND 0x1FF = take_bit 9 (drop_bit sh v)"
    by (simp add: take_bit_eq_mask mask_eq_exp_minus_1)
  moreover have "unat (take_bit 9 (drop_bit sh v)) < 2 ^ 9"
    using take_bit_nat_less_exp [of 9 "unat (drop_bit sh v)"] by (simp only: unsigned_take_bit_eq)
  ultimately show ?thesis by (simp add: table_index_def)
qed

subsection \<open>Entries\<close>

lemma PADDR_MASK_bits: "bit PADDR_MASK n \<longleftrightarrow> 12 \<le> n \<and> n < 52"
proof -
  have eq: "PADDR_MASK = mask 52 AND NOT (mask 12)"
    by (simp add: PADDR_MASK_def mask_eq_exp_minus_1)
  show ?thesis unfolding eq by (auto simp: bit_and_iff bit_not_iff bit_mask_iff)
qed

lemma low_frame_masked: "low_frame p \<Longrightarrow> p AND PADDR_MASK = p"
proof -
  assume lf: "low_frame p"
  have "take_bit 12 (unat p) = 0" using lf by (simp add: low_frame_def take_bit_eq_mod)
  then have "unat (take_bit 12 p) = 0" by (simp only: unsigned_take_bit_eq)
  then have lo: "take_bit 12 p = 0" by (simp add: unat_eq_zero)
  have "unat p < 2 ^ 52" using lf by (simp add: low_frame_def word_less_nat_alt)
  then have hi: "take_bit 52 p = p"
    by (intro unat_eqI) (simp add: unsigned_take_bit_eq take_bit_nat_eq_self)
  show ?thesis
  proof (rule bit_eqI)
    fix n
    have "bit (take_bit 12 p) n = False" by (simp add: lo)
    moreover have "bit (take_bit 52 p) n = bit p n" by (simp add: hi)
    ultimately show "bit (p AND PADDR_MASK) n \<longleftrightarrow> bit p n"
      by (auto simp: bit_and_iff PADDR_MASK_bits bit_take_bit_iff)
  qed
qed

lemma caching_zero: "(flags AND (PAGE_PWT OR PAGE_PCD)) AND PADDR_MASK = 0"
  by (simp add: and.assoc PAGE_PWT_def PAGE_PCD_def PADDR_MASK_def)

lemma caching_masked: "c AND PADDR_MASK = 0 \<Longrightarrow> (e OR c) AND PADDR_MASK = e AND PADDR_MASK"
  by (simp add: bit.conj_disj_distrib2)

lemma present_rw_masked: "(p OR PAGE_PRESENT OR PAGE_RW) AND PADDR_MASK = p AND PADDR_MASK"
  by (simp add: bit.conj_disj_distrib2 PAGE_PRESENT_def PAGE_RW_def PADDR_MASK_def)

lemma present_bit: "e AND PAGE_PRESENT = 0 \<longleftrightarrow> \<not> bit e 0"
  using and_exp_zero [of 0 e] by (simp add: PAGE_PRESENT_def)

lemma present_or: "bit e 0 \<Longrightarrow> bit (e OR c) 0" "bit (p OR PAGE_PRESENT OR PAGE_RW OR c) 0"
  by (simp_all add: bit_or_iff PAGE_PRESENT_def)

subsection \<open>Well-formed page tables\<close>

text \<open>
  The ghost map \<open>gp\<close> gives every table frame the index path from the root by which it is
  reached. It says that the tables form a tree of the right depth, and that table frames
  are not available to the frame allocator.
\<close>

definition pt_ok :: "(u64 \<rightharpoonup> nat list) \<Rightarrow> u64 \<Rightarrow> mm \<times> page_tables \<Rightarrow> bool" where
  "pt_ok gp root st \<longleftrightarrow> mm_inv (fst st) \<and> gp root = Some [] \<and>
     (\<forall>f q i. gp f = Some q \<longrightarrow> length q < 3 \<longrightarrow> i < 512 \<longrightarrow> bit (snd st f i) 0 \<longrightarrow>
        gp (snd st f i AND PADDR_MASK) = Some (q @ [i])) \<and>
     (\<forall>f. gp f \<noteq> None \<longrightarrow> f \<notin> low_avail (fst st))"

lemma pt_okD:
  assumes "pt_ok gp root (s, m)"
  shows "mm_inv s" and "gp root = Some []"
    and "gp f = Some q \<Longrightarrow> length q < 3 \<Longrightarrow> i < 512 \<Longrightarrow> bit (m f i) 0 \<Longrightarrow>
      gp (m f i AND PADDR_MASK) = Some (q @ [i])"
    and "gp f = Some q \<Longrightarrow> f \<notin> low_avail s"
  using assms by (auto simp: pt_ok_def)

text \<open>What one level of the walk does to a well-formed tree.\<close>

lemma walk_level_present:
  assumes ok: "pt_ok gp root (s, m)" and f: "gp f = Some q" "length q < 3" "i < 512"
    and present: "bit (m f i) 0" and c: "c AND PADDR_MASK = 0"
  shows "walk_level f i c (s, m) =
      (Some (m f i AND PADDR_MASK), s, m(f := (m f)(i := m f i OR c)))"
    and "pt_ok gp root (s, m(f := (m f)(i := m f i OR c)))"
proof -
  show "walk_level f i c (s, m) =
      (Some (m f i AND PADDR_MASK), s, m(f := (m f)(i := m f i OR c)))"
    using present by (simp add: walk_level_def present_bit caching_masked [OF c] Let_def)
  have c0: "bit (m f i OR c) 0" using present by (rule present_or)
  show "pt_ok gp root (s, m(f := (m f)(i := m f i OR c)))"
    using ok f present by (auto simp: pt_ok_def caching_masked [OF c])
qed

lemma walk_level_absent:
  assumes ok: "pt_ok gp root (s, m)" and f: "gp f = Some q" "length q < 3" "i < 512"
    and absent: "\<not> bit (m f i) 0" and alloc: "pfa_alloc_low s = (p, t)" "p \<noteq> 0"
    and c: "c AND PADDR_MASK = 0"
  defines "m' \<equiv> (m(p := (\<lambda>_. 0)))(f := (m f)(i := p OR PAGE_PRESENT OR PAGE_RW OR c))"
  shows "walk_level f i c (s, m) = (Some p, t, m')"
    and "pt_ok (gp(p \<mapsto> q @ [i])) root (t, m')" and "gp p = None"
    and "m' f i AND PADDR_MASK = p" and "p \<noteq> f"
proof -
  note st = low_pfa.alloc_step [OF pt_okD(1) [OF ok] alloc(1)]
  have avail: "p \<in> low_avail s" "low_avail t = low_avail s - {p}" using st(2,3) alloc(2) by auto
  have lf: "low_frame p" using low_avail_frame [OF pt_okD(1) [OF ok] avail(1)] .
  show gp: "gp p = None" using pt_okD(4) [OF ok, of p] avail(1) by (cases "gp p") auto
  with f(1) show pf: "p \<noteq> f" by auto
  have e: "(p OR PAGE_PRESENT OR PAGE_RW OR c) AND PADDR_MASK = p"
    using low_frame_masked [OF lf] caching_masked [OF c, of "p OR PAGE_PRESENT OR PAGE_RW"]
    by (simp add: present_rw_masked or.assoc)
  then show "m' f i AND PADDR_MASK = p" by (simp add: m'_def)
  show "walk_level f i c (s, m) = (Some p, t, m')"
    using absent alloc pf e by (simp add: walk_level_def present_bit m'_def Let_def)
  show "pt_ok (gp(p \<mapsto> q @ [i])) root (t, m')"
    unfolding pt_ok_def fst_conv snd_conv
  proof (intro conjI allI impI)
    show "mm_inv t" by (rule st(1))
    show "(gp(p \<mapsto> q @ [i])) root = Some []" using pt_okD(2) [OF ok] gp by auto
    fix g
    show "(gp(p \<mapsto> q @ [i])) g \<noteq> None \<Longrightarrow> g \<notin> low_avail t"
      using pt_okD(4) [OF ok, of g] avail by (auto split: if_splits)
    fix r j
    assume g: "(gp(p \<mapsto> q @ [i])) g = Some r" "length r < 3" "j < 512" "bit (m' g j) 0"
    show "(gp(p \<mapsto> q @ [i])) (m' g j AND PADDR_MASK) = Some (r @ [j])"
    proof (cases "g = p")
      case True
      with g(4) pf show ?thesis by (simp add: m'_def)
    next
      case False
      then have gg: "gp g = Some r" using g(1) by simp
      show ?thesis
      proof (cases "g = f \<and> j = i")
        case True
        with e gg f(1) show ?thesis by (simp add: m'_def)
      next
        case no: False
        then have "m' g j = m g j" using False by (auto simp: m'_def)
        with pt_okD(3) [OF ok gg g(2,3)] g(4) gp show ?thesis by auto
      qed
    qed
  qed
qed

text \<open>
  One level in any case: the tree stays well formed, entries of other tables and indices keep
  their value, and the walks through the old tables keep their result.
\<close>

lemma walk_cong:
  assumes ok: "pt_ok gp root (s, m)"
    and "gp g = Some r" "length r + length is = 4" "list_all (\<lambda>i. i < 512) is"
    and step: "\<And>h r j. gp h = Some r \<Longrightarrow> j < 512 \<Longrightarrow>
       m' h j = m h j \<or> length r < 3 \<and> bit (m h j) 0 \<and> bit (m' h j) 0 \<and>
         m' h j AND PADDR_MASK = m h j AND PADDR_MASK \<or>
       length r < 3 \<and> \<not> bit (m h j) 0 \<and> m' (m' h j AND PADDR_MASK) = (\<lambda>_. 0)"
  shows "walk m' g is = walk m g is"
  using assms(2-4)
proof (induction "is" arbitrary: g r rule: induct_list012)
  case 1
  then show ?case by simp
next
  case (2 i)
  with step [of g r i] have "m' g i = m g i" by simp
  then show ?case by simp
next
  case (3 i j js)
  then have r: "length r < 3" and i: "i < 512" by auto
  show ?case
  proof (cases "bit (m g i) 0")
    case True
    with step [OF 3(3) i] have same: "bit (m' g i) 0" "m' g i AND PADDR_MASK = m g i AND PADDR_MASK"
      by auto
    have "gp (m g i AND PADDR_MASK) = Some (r @ [i])" using pt_okD(3) [OF ok 3(3) r i True] .
    from 3(2) [OF this] 3(4,5) same True show ?thesis by (simp add: present_bit)
  next
    case False
    have zero: "walk m' f (j # js) = None" if "m' f = (\<lambda>_. 0)" for f
      using that by (cases js) simp_all
    show ?thesis
      using step [OF 3(3) i] False zero by (auto simp: present_bit)
  qed
qed

lemma walk_level_ok:
  assumes ok: "pt_ok gp root (s, m)" and f: "gp f = Some q" "length q < 3" "i < 512"
    and c: "c AND PADDR_MASK = 0" and res: "walk_level f i c (s, m) = (r, s', m')"
  shows "case r of None \<Rightarrow> (s', m') = (s, m) \<and> low_avail s = {}
    | Some f' \<Rightarrow> \<exists>gp'. pt_ok gp' root (s', m') \<and> gp \<subseteq>\<^sub>m gp' \<and> gp' f' = Some (q @ [i])
        \<and> bit (m' f i) 0 \<and> m' f i AND PADDR_MASK = f'
        \<and> (\<forall>g j. gp g \<noteq> None \<longrightarrow> (g, j) \<noteq> (f, i) \<longrightarrow> m' g j = m g j)
        \<and> (\<forall>g r is. gp g = Some r \<longrightarrow> length r + length is = 4 \<longrightarrow> list_all (\<lambda>i. i < 512) is \<longrightarrow>
             walk m' g is = walk m g is)"
proof (cases "bit (m f i) 0")
  case True
  note wl = walk_level_present [OF ok f True c]
  with res have r: "r = Some (m f i AND PADDR_MASK)" "s' = s" "m' = m(f := (m f)(i := m f i OR c))"
    by simp_all
  have "walk m' g is = walk m g is"
    if "gp g = Some r" "length r + length is = 4" "list_all (\<lambda>i. i < 512) is" for g r "is"
    by (rule walk_cong [OF ok that]) (use f(1,2) True c in \<open>auto simp: r(3) bit_or_iff caching_masked\<close>)
  moreover have "gp (m f i AND PADDR_MASK) = Some (q @ [i])" using pt_okD(3) [OF ok f True] .
  ultimately show ?thesis
    using wl(2) True c
    by (auto simp: r bit_or_iff caching_masked intro!: exI [of _ gp])
next
  case False
  obtain p t where alloc: "pfa_alloc_low s = (p, t)" by force
  show ?thesis
  proof (cases "p = 0")
    case True
    with low_pfa.alloc_step(4) [OF pt_okD(1) [OF ok] alloc] res False alloc show ?thesis
      by (auto simp: walk_level_def present_bit)
  next
    case p: False
    note wl = walk_level_absent [OF ok f False alloc p c]
    define m1 where
      "m1 = (m(p := (\<lambda>_. 0)))(f := (m f)(i := p OR PAGE_PRESENT OR PAGE_RW OR c))"
    from wl(1) res have r: "r = Some p" "s' = t" "m' = m1" by (simp_all add: m1_def)
    have other: "m1 g j = m g j" if "gp g \<noteq> None" "(g, j) \<noteq> (f, i)" for g j
      using that wl(3) by (auto simp: m1_def)
    have zero: "m1 (m1 f i AND PADDR_MASK) = (\<lambda>_. 0)"
      using wl(4,5) by (simp add: m1_def)
    have "walk m1 g is = walk m g is"
      if "gp g = Some r" "length r + length is = 4" "list_all (\<lambda>i. i < 512) is" for g r "is"
    proof (rule walk_cong [OF ok that])
      fix h :: u64 and r :: "nat list" and j :: nat assume h: "gp h = Some r" "j < 512"
      show "m1 h j = m h j \<or> length r < 3 \<and> bit (m h j) 0 \<and> bit (m1 h j) 0 \<and>
         m1 h j AND PADDR_MASK = m h j AND PADDR_MASK \<or>
       length r < 3 \<and> \<not> bit (m h j) 0 \<and> m1 (m1 h j AND PADDR_MASK) = (\<lambda>_. 0)"
        using other [of h j] h(1) f(1,2) False zero by (cases "(h, j) = (f, i)") auto
    qed
    moreover have "gp \<subseteq>\<^sub>m gp(p \<mapsto> q @ [i])" using wl(3) by (auto simp: map_le_def)
    moreover have "bit (m1 f i) 0" by (simp add: m1_def present_or)
    ultimately show ?thesis
      using wl(2,4) other
      by (auto simp: r m1_def [symmetric] intro!: exI [of _ "gp(p \<mapsto> q @ [i])"])
  qed
qed

text \<open>The last level writes the entry itself.\<close>

lemma walk_update_leaf:
  assumes ok: "pt_ok gp root (s, m)" and pt: "gp pt = Some q" "length q = 3"
    and "gp g = Some r" "length r + length is = 4" "list_all (\<lambda>i. i < 512) is" "r @ is \<noteq> q @ [i]"
  shows "walk (m(pt := (m pt)(i := e))) g is = walk m g is"
  using assms(4-)
proof (induction "is" arbitrary: g r rule: induct_list012)
  case 1
  then show ?case by simp
next
  case (2 j)
  then have "(g, j) \<noteq> (pt, i)" using pt(1) by auto
  then show ?case by auto
next
  case (3 j k ks)
  then have r: "length r < 3" "j < 512" and gpt: "g \<noteq> pt" using pt by auto
  show ?case
  proof (cases "bit (m g j) 0")
    case True
    have "gp (m g j AND PADDR_MASK) = Some (r @ [j])" using pt_okD(3) [OF ok 3(3) r True] .
    from 3(2) [OF this] 3(4-6) gpt True show ?thesis by (simp add: present_bit)
  next
    case False
    with gpt show ?thesis by (simp add: present_bit)
  qed
qed

lemma pt_ok_update_leaf:
  assumes "pt_ok gp root (s, m)" "gp pt = Some q" "length q = 3"
  shows "pt_ok gp root (s, m(pt := (m pt)(i := e)))"
  using assms by (auto simp: pt_ok_def)

lemma va_indices_ok [simp]: "list_all (\<lambda>i. i < 512) (va_indices v)" "length (va_indices v) = 4"
  by (simp_all add: va_indices_def)

text \<open>
  A level that succeeds, seen from the root: the tree grows, every translation is unchanged,
  and the entry that leads to the next table stays in place.
\<close>

definition level_done ::
  "u64 \<Rightarrow> (u64 \<rightharpoonup> nat list) \<Rightarrow> mm \<times> page_tables \<Rightarrow> (u64 \<rightharpoonup> nat list) \<Rightarrow> mm \<times> page_tables \<Rightarrow> bool" where
  "level_done root gp st gp' st' \<longleftrightarrow> pt_ok gp' root st' \<and> gp \<subseteq>\<^sub>m gp' \<and>
     (\<forall>v. walk (snd st') root (va_indices v) = walk (snd st) root (va_indices v))"

lemma walk_level_done:
  assumes ok: "pt_ok gp root (s, m)" and f: "gp f = Some q" "length q < 3" "i < 512"
    and c: "c AND PADDR_MASK = 0" and res: "walk_level f i c (s, m) = (Some f', s', m')"
  obtains gp' where "level_done root gp (s, m) gp' (s', m')" "gp' f' = Some (q @ [i])"
    "bit (m' f i) 0" "m' f i AND PADDR_MASK = f'"
    "\<And>g j. gp g \<noteq> None \<Longrightarrow> (g, j) \<noteq> (f, i) \<Longrightarrow> m' g j = m g j"
proof -
  from walk_level_ok [OF ok f c res] obtain gp' where gp':
    "pt_ok gp' root (s', m')" "gp \<subseteq>\<^sub>m gp'" "gp' f' = Some (q @ [i])"
    "bit (m' f i) 0" "m' f i AND PADDR_MASK = f'"
    "\<And>g j. gp g \<noteq> None \<Longrightarrow> (g, j) \<noteq> (f, i) \<Longrightarrow> m' g j = m g j"
    "\<And>g r is. gp g = Some r \<Longrightarrow> length r + length is = 4 \<Longrightarrow> list_all (\<lambda>i. i < 512) is \<Longrightarrow>
       walk m' g is = walk m g is"
    by auto
  moreover have "level_done root gp (s, m) gp' (s', m')"
    using gp'(1,2) gp'(7) [OF pt_okD(2) [OF ok]] by (simp add: level_done_def)
  ultimately show ?thesis using that by blast
qed

lemma walk_level_fail:
  assumes "pt_ok gp root (s, m)" "gp f = Some q" "length q < 3" "i < 512"
    "c AND PADDR_MASK = 0" "walk_level f i c (s, m) = (None, s', m')"
  shows "s' = s" "m' = m" "low_avail s = {}"
  using walk_level_ok [OF assms] by simp_all

lemma level_done_refl: "pt_ok gp root st \<Longrightarrow> level_done root gp st gp st"
  by (simp add: level_done_def)

lemma level_done_trans:
  "level_done root gp st gp1 st1 \<Longrightarrow> level_done root gp1 st1 gp2 st2 \<Longrightarrow> level_done root gp st gp2 st2"
  by (auto simp: level_done_def intro: map_le_trans)

text \<open>The four levels together.\<close>

lemma map_page_levels:
  assumes ok: "pt_ok gp root (s, m)" and root: "root = cr3 AND PADDR_MASK"
    and res: "map_page cr3 phys va flags (s, m) = (s', m')"
  obtains (fail) gp' where "level_done root gp (s, m) gp' (s', m')" "low_avail s' = {}"
  | (leaf) gp' m3 pt where "level_done root gp (s, m) gp' (s', m3)"
      "gp' pt = Some [table_index 39 va, table_index 30 va, table_index 21 va]"
      "walk m3 root (va_indices va) =
        (if bit (m3 pt (table_index 12 va)) 0 then Some (m3 pt (table_index 12 va)) else None)"
      "\<And>e. bit e 0 \<Longrightarrow> walk (m3(pt := (m3 pt)(table_index 12 va := e))) root (va_indices va) = Some e"
      "m' = m3(pt := (m3 pt)(table_index 12 va := phys OR flags))"
proof -
  define c where "c = flags AND (PAGE_PWT OR PAGE_PCD)"
  have c0: "c AND PADDR_MASK = 0" by (simp add: c_def caching_zero)
  let ?i1 = "table_index 39 va" and ?i2 = "table_index 30 va"
  let ?i3 = "table_index 21 va" and ?i4 = "table_index 12 va"
  have r0: "gp root = Some []" using pt_okD(2) [OF ok] .
  obtain f1 s1 m1 where l1: "walk_level root ?i1 c (s, m) = (f1, s1, m1)" by (metis surj_pair)
  show ?thesis
  proof (cases f1)
    case None
    with walk_level_fail [OF ok r0 _ _ c0, of ?i1 s1 m1] l1 res ok show ?thesis
      by (intro fail [of gp]) (auto simp: map_page_def c_def root level_done_refl)
  next
    case (Some f1)
    with l1 have l1': "walk_level root ?i1 c (s, m) = (Some f1, s1, m1)" by simp
    from walk_level_done [OF ok r0 _ _ c0 l1'] obtain gp1 where
      d1: "level_done root gp (s, m) gp1 (s1, m1)" "gp1 f1 = Some [?i1]"
        "bit (m1 root ?i1) 0" "m1 root ?i1 AND PADDR_MASK = f1" by auto
    then have ok1: "pt_ok gp1 root (s1, m1)" by (simp add: level_done_def)
    obtain f2 s2 m2 where l2: "walk_level f1 ?i2 c (s1, m1) = (f2, s2, m2)" by (metis surj_pair)
    show ?thesis
    proof (cases f2)
      case None
      with walk_level_fail [OF ok1 d1(2) _ _ c0, of ?i2 s2 m2] l1' l2 res d1(1) show ?thesis
        by (intro fail [of gp1]) (auto simp: map_page_def c_def root)
    next
      case (Some f2)
      with l2 have l2': "walk_level f1 ?i2 c (s1, m1) = (Some f2, s2, m2)" by simp
      from walk_level_done [OF ok1 d1(2) _ _ c0 l2'] obtain gp2 where
        d2: "level_done root gp1 (s1, m1) gp2 (s2, m2)" "gp2 f2 = Some [?i1, ?i2]"
          "bit (m2 f1 ?i2) 0" "m2 f1 ?i2 AND PADDR_MASK = f2"
          "\<And>g j. gp1 g \<noteq> None \<Longrightarrow> (g, j) \<noteq> (f1, ?i2) \<Longrightarrow> m2 g j = m1 g j" by auto
      then have ok2: "pt_ok gp2 root (s2, m2)" by (simp add: level_done_def)
      have r1: "gp1 root = Some []" using pt_okD(2) [OF ok1] .
      then have "root \<noteq> f1" using d1(2) by auto
      then have m2r: "m2 root ?i1 = m1 root ?i1" using d2(5) [of root ?i1] r1 by auto
      have g1: "gp2 f1 = Some [?i1]"
        using d2(1) d1(2) by (auto simp: level_done_def map_le_def dom_def)
      obtain f3 s3 m3 where l3: "walk_level f2 ?i3 c (s2, m2) = (f3, s3, m3)" by (metis surj_pair)
      show ?thesis
      proof (cases f3)
        case None
        with walk_level_fail [OF ok2 d2(2) _ _ c0, of ?i3 s3 m3] l1' l2' l3 res
          level_done_trans [OF d1(1) d2(1)] show ?thesis
          by (intro fail [of gp2]) (auto simp: map_page_def c_def root)
      next
        case (Some f3)
        with l3 have l3': "walk_level f2 ?i3 c (s2, m2) = (Some f3, s3, m3)" by simp
        from walk_level_done [OF ok2 d2(2) _ _ c0 l3'] obtain gp3 where
          d3: "level_done root gp2 (s2, m2) gp3 (s3, m3)" "gp3 f3 = Some [?i1, ?i2, ?i3]"
            "bit (m3 f2 ?i3) 0" "m3 f2 ?i3 AND PADDR_MASK = f3"
            "\<And>g j. gp2 g \<noteq> None \<Longrightarrow> (g, j) \<noteq> (f2, ?i3) \<Longrightarrow> m3 g j = m2 g j" by auto
        have r2: "gp2 root = Some []" using pt_okD(2) [OF ok2] .
        have ne: "root \<noteq> f2" "f1 \<noteq> f2" using d2(2) r2 g1 by auto
        have m3r: "m3 root ?i1 = m1 root ?i1" "m3 f1 ?i2 = m2 f1 ?i2"
          using d3(5) [of root ?i1] d3(5) [of f1 ?i2] r2 g1 ne m2r by auto
        have ok3: "pt_ok gp3 root (s3, m3)" using d3(1) by (simp add: level_done_def)
        have "gp3 root = Some []" "gp3 f1 = Some [?i1]" "gp3 f2 = Some [?i1, ?i2]"
          using pt_okD(2) [OF ok3] d3(1) g1 d2(2) by (auto simp: level_done_def map_le_def dom_def)
        then have ne3: "root \<noteq> f3" "f1 \<noteq> f3" "f2 \<noteq> f3" using d3(2) by auto
        have path: "walk (m3(f3 := t)) root (va_indices va) =
            (if bit (t ?i4) 0 then Some (t ?i4) else None)" for t
          using d1(3,4) d2(3,4) d3(3,4) m3r ne3 by (simp add: va_indices_def present_bit)
        show ?thesis
        proof (rule leaf [of gp3 m3 f3])
          show "level_done root gp (s, m) gp3 (s', m3)"
            using level_done_trans [OF d1(1) level_done_trans [OF d2(1) d3(1)]] l1' l2' l3' res
            by (simp add: map_page_def c_def root)
          show "m' = m3(f3 := (m3 f3)(?i4 := phys OR flags))"
            using l1' l2' l3' res by (simp add: map_page_def c_def root)
        qed (use d3(2) path [of "m3 f3"] path in simp_all)
      qed
    qed
  qed
qed

subsection \<open>Several pages in a row\<close>

lemma walk_level_frame [frame]:
  assumes "walk_level f i c (s, m) = (r, s', m')"
  shows "next_mmio_addr s' = next_mmio_addr s"
proof (cases "pfa_alloc_low s")
  case (Pair p t)
  moreover from Pair have "next_mmio_addr t = next_mmio_addr s"
    by (auto simp: pfa_alloc_low_def split: option.splits)
  ultimately show ?thesis
    using assms by (auto simp: walk_level_def Let_def split: if_splits)
qed

lemma map_page_frame [frame]:
  assumes "map_page cr3 phys va flags (s, m) = (s', m')"
  shows "next_mmio_addr s' = next_mmio_addr s"
  using assms
  by (auto simp: map_page_def Let_def split: option.splits prod.splits dest!: walk_level_frame)

lemma walk_level_avail:
  assumes "mm_inv s" and "walk_level f i c (s, m) = (r, s', m')"
  shows "mm_inv s' \<and> low_avail s' \<subseteq> low_avail s"
proof (cases "pfa_alloc_low s")
  case (Pair p t)
  note st = low_pfa.alloc_step [OF assms(1) Pair]
  then have "low_avail t \<subseteq> low_avail s" by (cases "p = 0") auto
  then show ?thesis
    using assms Pair st(1) by (auto simp: walk_level_def Let_def split: if_splits)
qed

lemma map_page_avail:
  assumes "mm_inv s" and "map_page cr3 phys va flags (s, m) = (s', m')"
  shows "mm_inv s' \<and> low_avail s' \<subseteq> low_avail s"
proof -
  define c where "c = flags AND (PAGE_PWT OR PAGE_PCD)"
  obtain r1 s1 m1 where l1:
    "walk_level (cr3 AND PADDR_MASK) (table_index 39 va) c (s, m) = (r1, s1, m1)" by (metis surj_pair)
  note a1 = walk_level_avail [OF assms(1) l1]
  obtain r2 s2 m2 where l2:
    "walk_level (the r1) (table_index 30 va) c (s1, m1) = (r2, s2, m2)" by (metis surj_pair)
  note a2 = walk_level_avail [OF conjunct1 [OF a1] l2]
  obtain r3 s3 m3 where l3:
    "walk_level (the r2) (table_index 21 va) c (s2, m2) = (r3, s3, m3)" by (metis surj_pair)
  note a3 = walk_level_avail [OF conjunct1 [OF a2] l3]
  show ?thesis
    using assms(2) a1 a2 a3 l1 l2 l3
    by (auto simp: map_page_def c_def [symmetric] Let_def split: option.splits)
qed

text \<open>The four indices of an address are the 36 bits above the page offset.\<close>

lemma table_index_eq: "table_index sh v = unat v div 2 ^ sh mod 512"
proof -
  have "drop_bit sh v AND 0x1FF = take_bit 9 (drop_bit sh v)"
    by (simp add: take_bit_eq_mask mask_eq_exp_minus_1)
  then have "table_index sh v = take_bit 9 (unat (drop_bit sh v))"
    by (simp only: table_index_def unsigned_take_bit_eq)
  also have "\<dots> = drop_bit sh (unat v) mod 2 ^ 9"
    by (simp only: take_bit_eq_mod unat_drop_bit_eq)
  finally show ?thesis by (simp add: drop_bit_eq_div)
qed

lemma page_digits:
  "(x :: nat) mod 2 ^ 36 = x mod 512 + 512 * (x div 2 ^ 9 mod 512 + 512 * (x div 2 ^ 18 mod 512
     + 512 * (x div 2 ^ 27 mod 512)))"
proof -
  have step: "y mod (512 * n) = y mod 512 + 512 * (y div 512 mod n)" for y n :: nat
    by (simp add: mod_mult2_eq)
  have "x mod (512 * (512 * (512 * 512))) = x mod 512 + 512 * (x div 512 mod 512 +
      512 * (x div 512 div 512 mod 512 + 512 * (x div 512 div 512 div 512 mod 512)))"
    by (simp only: step)
  then show ?thesis by (simp add: div_mult2_eq [symmetric])
qed

lemma va_indices_page: "va_indices v = va_indices w \<Longrightarrow>
    unat v div 4096 mod 2 ^ 36 = unat w div 4096 mod 2 ^ 36"
proof -
  assume "va_indices v = va_indices w"
  then have "unat v div 4096 mod 512 = unat w div 4096 mod 512"
    "unat v div 4096 div 2 ^ 9 mod 512 = unat w div 4096 div 2 ^ 9 mod 512"
    "unat v div 4096 div 2 ^ 18 mod 512 = unat w div 4096 div 2 ^ 18 mod 512"
    "unat v div 4096 div 2 ^ 27 mod 512 = unat w div 4096 div 2 ^ 27 mod 512"
    by (simp_all add: va_indices_def table_index_eq div_mult2_eq [symmetric])
  then show ?thesis unfolding page_digits [of "unat v div 4096"] page_digits [of "unat w div 4096"]
    by simp
qed

lemma page_offset_mod:
  assumes "i < 64"
  shows "unat (base + of_nat i * PAGE_SIZE) div 4096 mod 2 ^ 36 = (unat base div 4096 + i) mod 2 ^ 36"
proof -
  have "base + of_nat i * PAGE_SIZE = of_nat (unat base + i * 4096)" by (simp add: PAGE_SIZE_def)
  then have "unat (base + of_nat i * PAGE_SIZE) = (unat base + i * 4096) mod 2 ^ 64"
    by (simp only: unat_of_nat) simp
  also have "\<dots> = (unat base + i * 4096) mod (4096 * 2 ^ 52)" by simp
  finally have "unat (base + of_nat i * PAGE_SIZE) div 4096 = (unat base + i * 4096) div 4096 mod 2 ^ 52"
    by (simp only: mod_mult2_eq)
  then have "unat (base + of_nat i * PAGE_SIZE) div 4096 mod 2 ^ 36
      = (unat base div 4096 + i) mod 2 ^ 52 mod 2 ^ 36" by (simp add: add.commute)
  also have "\<dots> = (unat base div 4096 + i) mod 2 ^ 36"
    by (rule mod_mod_cancel) (rule le_imp_power_dvd, simp)
  finally show ?thesis .
qed

lemma consecutive_pages_differ:
  assumes "i < 64" "j < 64" "i \<noteq> j"
  shows "va_indices (base + of_nat i * PAGE_SIZE) \<noteq> va_indices (base + of_nat j * PAGE_SIZE)"
proof
  assume "va_indices (base + of_nat i * PAGE_SIZE) = va_indices (base + of_nat j * PAGE_SIZE)"
  from va_indices_page [OF this]
  have eq: "(unat base div 4096 + i) mod 2 ^ 36 = (unat base div 4096 + j) mod 2 ^ 36"
    using assms by (simp only: page_offset_mod)
  have imp: "i' = j'" if "(a + i') mod 2 ^ 36 = (a + j') mod 2 ^ 36" "i' < 64" "j' < 64" "i' \<le> j'"
    for a i' j' :: nat
  proof -
    from that(1) have "(2 :: nat) ^ 36 dvd (a + j') - (a + i')"
      using that(4) by (metis add_le_cancel_left mod_eq_dvd_iff_nat)
    then have "(2 :: nat) ^ 36 dvd j' - i'" by simp
    with that(2-4) show ?thesis by (auto dest: dvd_imp_le)
  qed
  show False
    using imp [OF eq assms(1,2)] imp [OF eq [symmetric] assms(2,1)] assms(3) by linarith
qed

text \<open>The translations and the tree after some or all levels, without the failure detail.\<close>

lemma map_page_step:
  assumes ok: "pt_ok gp (cr3 AND PADDR_MASK) (s, m)" and flags: "bit flags 0"
    and res: "map_page cr3 phys va flags (s, m) = (s', m')" and left: "low_avail s' \<noteq> {}"
  obtains gp' where "pt_ok gp' (cr3 AND PADDR_MASK) (s', m')"
    "\<And>v. va_indices v \<noteq> va_indices va \<Longrightarrow> translate cr3 m' v = translate cr3 m v"
    "translate cr3 m' va = Some (phys OR flags)"
  using ok refl res
proof (cases rule: map_page_levels)
  case (fail gp')
  with left show ?thesis by simp
next
  case (leaf gp' m3 pt)
  have len: "length [table_index 39 va, table_index 30 va, table_index 21 va] = 3" by simp
  have ok3: "pt_ok gp' (cr3 AND PADDR_MASK) (s', m3)" using leaf(1) by (simp add: level_done_def)
  have root: "gp' (cr3 AND PADDR_MASK) = Some []" using pt_okD(2) [OF ok3] .
  show ?thesis
  proof (rule that)
    show "pt_ok gp' (cr3 AND PADDR_MASK) (s', m')"
      using pt_ok_update_leaf [OF ok3 leaf(2) len] by (simp add: leaf(5))
    show "translate cr3 m' va = Some (phys OR flags)"
      using leaf(4) [of "phys OR flags"] flags by (simp add: leaf(5) bit_or_iff translate_def)
    fix v assume "va_indices v \<noteq> va_indices va"
    then show "translate cr3 m' v = translate cr3 m v"
      using walk_update_leaf [OF ok3 leaf(2) len root, of "va_indices v" "table_index 12 va"] leaf(1)
      by (simp add: leaf(5) level_done_def translate_def) (simp add: va_indices_def)
  qed
qed

lemma map_pages_ok:
  assumes "pt_ok gp (cr3 AND PADDR_MASK) (s, m)" and "k + n \<le> 64"
    and "map_pages cr3 phys_base virt_base k n (s, m) = (s', m')" and "low_avail s' \<noteq> {}"
  shows "next_mmio_addr s' = next_mmio_addr s \<and> (\<exists>gp'. pt_ok gp' (cr3 AND PADDR_MASK) (s', m'))
    \<and> (\<forall>v. (\<forall>i. k \<le> i \<longrightarrow> i < k + n \<longrightarrow> va_indices v \<noteq> va_indices (virt_base + of_nat i * PAGE_SIZE))
         \<longrightarrow> translate cr3 m' v = translate cr3 m v)
    \<and> (\<forall>i. k \<le> i \<longrightarrow> i < k + n \<longrightarrow> translate cr3 m' (virt_base + of_nat i * PAGE_SIZE) =
         Some ((phys_base + of_nat i * PAGE_SIZE) OR (PAGE_PRESENT OR PAGE_RW OR PAGE_PCD)))"
  using assms
proof (induction n arbitrary: k gp s m)
  case 0
  then show ?case by auto
next
  case (Suc n)
  let ?F = "PAGE_PRESENT OR PAGE_RW OR PAGE_PCD"
  have flags: "bit ?F 0" by (simp add: bit_or_iff PAGE_PRESENT_def)
  obtain s1 m1 where step: "map_page cr3 (phys_base + of_nat k * PAGE_SIZE)
      (virt_base + of_nat k * PAGE_SIZE) ?F (s, m) = (s1, m1)" by force
  then have rest: "map_pages cr3 phys_base virt_base (Suc k) n (s1, m1) = (s', m')"
    using Suc.prems(3) by simp
  have inv1: "mm_inv s1 \<and> low_avail s1 \<subseteq> low_avail s"
    using map_page_avail [OF pt_okD(1) [OF Suc.prems(1)] step] .
  have mono: "low_avail s' \<subseteq> low_avail s1"
    using inv1 rest
  proof (induction n arbitrary: s1 m1 k)
    case (Suc n)
    obtain s2 m2 where st2: "map_page cr3 (phys_base + of_nat (Suc k) * PAGE_SIZE)
      (virt_base + of_nat (Suc k) * PAGE_SIZE) ?F (s1, m1) = (s2, m2)" by force
    have a2: "mm_inv s2 \<and> low_avail s2 \<subseteq> low_avail s1"
      using map_page_avail [OF _ st2] Suc.prems(1) by simp
    then have "mm_inv s2 \<and> low_avail s2 \<subseteq> low_avail s" using Suc.prems(1) by auto
    from Suc.IH [OF this] st2 Suc.prems(2) a2 show ?case by auto
  qed simp
  with Suc.prems(4) have left: "low_avail s1 \<noteq> {}" by auto
  from map_page_step [OF Suc.prems(1) flags step left] obtain gp1 where g1:
    "pt_ok gp1 (cr3 AND PADDR_MASK) (s1, m1)"
    "\<And>v. va_indices v \<noteq> va_indices (virt_base + of_nat k * PAGE_SIZE) \<Longrightarrow>
       translate cr3 m1 v = translate cr3 m v"
    "translate cr3 m1 (virt_base + of_nat k * PAGE_SIZE) =
       Some ((phys_base + of_nat k * PAGE_SIZE) OR ?F)" by blast
  have le: "Suc k + n \<le> 64" using Suc.prems(2) by simp
  note IH = Suc.IH [OF g1(1) le rest Suc.prems(4)]
  have keep: "translate cr3 m' (virt_base + of_nat k * PAGE_SIZE) =
      translate cr3 m1 (virt_base + of_nat k * PAGE_SIZE)"
    using IH consecutive_pages_differ [of k _ virt_base] le by auto
  show ?case
  proof (intro conjI allI impI)
    show "next_mmio_addr s' = next_mmio_addr s" using IH map_page_frame [OF step] by simp
    show "\<exists>gp'. pt_ok gp' (cr3 AND PADDR_MASK) (s', m')" using IH by simp
    fix v assume "\<forall>i. k \<le> i \<longrightarrow> i < k + Suc n \<longrightarrow>
        va_indices v \<noteq> va_indices (virt_base + of_nat i * PAGE_SIZE)"
    then show "translate cr3 m' v = translate cr3 m v" using IH g1(2) [of v] by simp
  next
    fix i assume "k \<le> i" "i < k + Suc n"
    then show "translate cr3 m' (virt_base + of_nat i * PAGE_SIZE) =
         Some ((phys_base + of_nat i * PAGE_SIZE) OR ?F)"
      using IH keep g1(3) by (cases "i = k") auto
  qed
qed

lemma mmio_pages_bounds: "1 \<le> mmio_pages pa sz" "mmio_pages pa sz \<le> 64"
  by (auto simp: mmio_pages_def Let_def)

subsection \<open>Bytes of the window\<close>

text \<open>A page of the window and all the bytes in it have the same indices.\<close>

lemma and_mask_12: "(0xFFF :: u64) = mask 12"
  by (simp add: mask_eq_exp_minus_1)

lemma unat_and_0xFFF: "unat (x AND 0xFFF) = unat x mod 4096" for x :: u64
proof -
  have "unat (x AND 0xFFF) = take_bit 12 (unat x)"
    unfolding and_mask_12 take_bit_eq_mask [symmetric] by (simp only: unsigned_take_bit_eq)
  then show ?thesis by (simp add: take_bit_eq_mod)
qed

lemma and_parts: "(x AND NOT m) + (x AND m) = x" for x m :: u64
proof -
  have "(x AND NOT m) + (x AND m) = (x AND NOT m) OR (x AND m)"
    by (rule disjunctive_add) (auto simp: bit_and_iff bit_not_iff)
  also have "\<dots> = x" by (rule bit_eqI) (auto simp: bit_and_iff bit_not_iff bit_or_iff)
  finally show ?thesis .
qed

lemma page_base:
  fixes b :: u64
  assumes "unat b mod 4096 = 0"
  shows "(b + of_nat j) AND NOT 0xFFF = b + of_nat (j div 4096) * PAGE_SIZE"
proof -
  define x where "x = b + of_nat j"
  have "unat x mod 4096 = (unat b + unat (of_nat j :: u64)) mod 4096"
    unfolding x_def unat_word_ariths(1) by (rule mod_mod_cancel) simp
  also have "\<dots> = (unat b mod 4096 + unat (of_nat j :: u64) mod 4096) mod 4096" by (simp only: mod_add_eq)
  also have "\<dots> = unat (of_nat j :: u64) mod 4096" using assms by simp
  also have "\<dots> = j mod 4096" unfolding unat_of_nat by (rule mod_mod_cancel) simp
  finally have "unat (x AND 0xFFF) = unat (of_nat (j mod 4096) :: u64)"
    by (simp only: unat_and_0xFFF) (simp add: unat_of_nat_small)
  then have low: "x AND 0xFFF = of_nat (j mod 4096)" by (rule unat_eqI)
  have "x AND NOT 0xFFF = x - of_nat (j mod 4096)"
    using and_parts [of x "0xFFF"] unfolding low by (simp only: add_implies_diff)
  moreover have "(of_nat j :: u64) = of_nat (j div 4096) * 4096 + of_nat (j mod 4096)"
    using arg_cong [OF div_mult_mod_eq [of j 4096, symmetric], of "of_nat :: nat \<Rightarrow> u64"] by (simp only: of_nat_add of_nat_mult) simp
  ultimately show ?thesis by (simp add: PAGE_SIZE_def x_def)
qed

lemma page_aligned: "unat (x AND NOT 0xFFF) mod 4096 = 0" for x :: u64
proof -
  have "(x AND NOT m) AND m = 0" for m :: u64 by (rule bit_eqI) (simp add: bit_and_iff bit_not_iff)
  then show ?thesis using unat_and_0xFFF [of "x AND NOT 0xFFF"] by (simp only: unat_0)
qed

lemma table_index_page: "12 \<le> sh \<Longrightarrow> table_index sh (v AND NOT 0xFFF) = table_index sh v"
proof -
  assume "12 \<le> sh"
  then have "drop_bit sh (v AND NOT (mask 12)) = drop_bit sh v"
    by (intro bit_eqI) (auto simp: bit_drop_bit_eq bit_and_iff bit_not_iff bit_mask_iff dest: bit_imp_le_length)
  then show ?thesis unfolding table_index_def and_mask_12 by (rule arg_cong)
qed

lemma translate_page: "translate cr3 m (v AND NOT 0xFFF) = translate cr3 m v"
  unfolding translate_def va_indices_def by (simp only: table_index_page)

lemma mmio_pages_exact:
  assumes "unat sz + unat pa mod 4096 + 4095 < 2 ^ 64"
  shows "mmio_pages pa sz = max 1 (min 64 ((unat pa mod 4096 + unat sz + 4095) div 4096))"
proof -
  have "sz + (pa AND 0xFFF) + PAGE_SIZE - 1 = sz + (pa AND 0xFFF) + 4095" by (simp add: PAGE_SIZE_def)
  moreover have "unat (sz + (pa AND 0xFFF) + 4095) = unat sz + unat pa mod 4096 + 4095"
    using assms unfolding unat_word_ariths(1) unat_and_0xFFF by simp
  ultimately have eq: "unat (sz + (pa AND 0xFFF) + PAGE_SIZE - 1) div unat PAGE_SIZE
      = (unat pa mod 4096 + unat sz + 4095) div 4096" by (simp only: unat_PAGE_SIZE add.commute)
  have "(let p = q; p = (if p = 0 then 1 else p) in if 64 < p then 64 else p) = max 1 (min 64 q)" for q :: nat
    by (simp add: max_def min_def)
  then show ?thesis unfolding mmio_pages_def Let_def eq .
qed

lemma mmio_pages_cover:
  assumes "unat sz + unat pa mod 4096 + 4095 < 2 ^ 64"
  shows "unat pa mod 4096 + unat sz \<le> 64 * 4096 \<Longrightarrow> unat pa mod 4096 + unat sz \<le> mmio_pages pa sz * 4096"
    and "64 * 4096 < unat pa mod 4096 + unat sz \<Longrightarrow> mmio_pages pa sz = 64"
    and "1 < mmio_pages pa sz \<Longrightarrow> (mmio_pages pa sz - 1) * 4096 < unat pa mod 4096 + unat sz"
  unfolding mmio_pages_exact [OF assms] by (auto simp: max_def min_def)

lemma aligned_add_pages:
  fixes b :: u64
  assumes "unat b mod 4096 = 0"
  shows "unat (b + of_nat n * 4096) mod 4096 = 0"
proof -
  have "(4096 :: nat) dvd 2 ^ LENGTH(64)" by simp
  then have "unat (b + of_nat n * 4096) mod 4096 = (unat b + unat (of_nat n :: u64) * 4096) mod 4096"
    unfolding unat_word_ariths by (simp add: mod_mod_cancel mod_add_right_eq)
  then show ?thesis using assms by auto
qed

subsection \<open>Properties\<close>

text \<open>
  C4 (functional, paging). On well-formed page tables \<open>map_page\<close> keeps them well formed and
  leaves the translation of every other page as it was. The page itself afterwards translates
  to the given frame and flags, unless the low allocator ran dry, in which case its old
  translation is still in place.
\<close>

theorem map_page_translates:
  assumes ok: "pt_ok gp (cr3 AND PADDR_MASK) (s, m)" and flags: "bit flags 0"
    and res: "map_page cr3 phys va flags (s, m) = (s', m')"
  shows "(\<exists>gp'. gp \<subseteq>\<^sub>m gp' \<and> pt_ok gp' (cr3 AND PADDR_MASK) (s', m'))
    \<and> (\<forall>v. va_indices v \<noteq> va_indices va \<longrightarrow> translate cr3 m' v = translate cr3 m v)
    \<and> (translate cr3 m' va = Some (phys OR flags)
       \<or> low_avail s' = {} \<and> translate cr3 m' va = translate cr3 m va)"
  using ok refl res
proof (cases rule: map_page_levels)
  case (fail gp')
  then show ?thesis by (auto simp: level_done_def translate_def)
next
  case (leaf gp' m3 pt)
  have pt: "length [table_index 39 va, table_index 30 va, table_index 21 va] = 3" by simp
  have ok3: "pt_ok gp' (cr3 AND PADDR_MASK) (s', m3)" using leaf(1) by (simp add: level_done_def)
  have root: "gp' (cr3 AND PADDR_MASK) = Some []" using pt_okD(2) [OF ok3] .
  have "walk m' (cr3 AND PADDR_MASK) (va_indices v) = walk m (cr3 AND PADDR_MASK) (va_indices v)"
    if "va_indices v \<noteq> va_indices va" for v
    using walk_update_leaf [OF ok3 leaf(2) pt root, of "va_indices v" "table_index 12 va"] that leaf(1)
    by (simp add: leaf(5) level_done_def) (simp add: va_indices_def)
  moreover have "walk m' (cr3 AND PADDR_MASK) (va_indices va) = Some (phys OR flags)"
    using leaf(4) [of "phys OR flags"] flags by (simp add: leaf(5) bit_or_iff)
  moreover have "pt_ok gp' (cr3 AND PADDR_MASK) (s', m')"
    using pt_ok_update_leaf [OF ok3 leaf(2) pt] by (simp add: leaf(5))
  ultimately show ?thesis
    using leaf(1) by (auto simp: level_done_def translate_def)
qed

definition demo_mm :: mm where
  "demo_mm = snd (mm_init 0 (Some demo_map) mm_boot)"

lemma demo_pt_ok: "pt_ok [0x1000 \<mapsto> []] (0x1000 AND PADDR_MASK) (demo_mm, \<lambda>_ _. 0)"
  using mm_init_ready_snd [OF demo_placement, of 0]
  by (auto simp: pt_ok_def demo_mm_def PADDR_MASK_def usable_page_def demo_map_def usable_entry_def
      region_start_def region_end_def PAGE_SIZE_def LIMINE_MEMMAP_USABLE_def
      LIMINE_MEMMAP_BOOTLOADER_RECLAIMABLE_def low_frame_def)

theorem map_page_translates_witness:
  "let r = map_page 0x1000 0x200000000 0xFFFFFFFF80000000 3 (demo_mm, \<lambda>_ _. 0) in
     translate 0x1000 (snd r) 0xFFFFFFFF80000000 = Some (0x200000000 OR 3) \<or>
     low_avail (fst r) = {}"
  using map_page_translates [OF demo_pt_ok _ prod.collapse [symmetric], of 3 "0x200000000" "0xFFFFFFFF80000000"]
  by (auto simp: Let_def)

text \<open>
  C5 (functional, paging). \<open>mmio_remap\<close> of a device region at or above 4 GB makes every byte of its first
  64 pages reachable: as long as the low allocator does not run dry, the page of the returned
  address plus \<open>k\<close> translates to the frame of the physical address plus \<open>k\<close>, uncached and writable, for
  every \<open>k\<close> below the size that lies in those pages. The window moves to the end of the last page
  that is used, by at least one and at most 64 pages, and no translation outside is changed.
  A byte of a larger region that lies behind the 64 pages keeps the translation its address had.
\<close>

theorem mmio_remap_maps:
  assumes ok: "pt_ok gp (cr3 AND PADDR_MASK) (s, m)" and high: "0x100000000 \<le> pa"
    and window: "unat (next_mmio_addr s) mod 4096 = 0" and fits: "unat sz + unat pa mod 4096 + 4095 < 2 ^ 64"
    and res: "mmio_remap cr3 pa sz (s, m) = (va, s', m')" and left: "low_avail s' \<noteq> {}"
  shows "(\<forall>k. k < unat sz \<longrightarrow> unat pa mod 4096 + k < 64 * 4096 \<longrightarrow>
        translate cr3 m' (va + of_nat k) = Some (((pa + of_nat k) AND NOT 0xFFF) OR (PAGE_PRESENT OR PAGE_RW OR PAGE_PCD)))
    \<and> va = next_mmio_addr s + of_nat (unat pa mod 4096)
    \<and> (\<exists>pages. 1 \<le> pages \<and> pages \<le> 64 \<and> next_mmio_addr s' = next_mmio_addr s + of_nat pages * 4096
        \<and> (unat pa mod 4096 + unat sz \<le> 64 * 4096 \<longrightarrow> unat pa mod 4096 + unat sz \<le> pages * 4096)
        \<and> (64 * 4096 < unat pa mod 4096 + unat sz \<longrightarrow> pages = 64)
        \<and> (1 < pages \<longrightarrow> (pages - 1) * 4096 < unat pa mod 4096 + unat sz)
        \<and> (\<forall>v. (\<forall>i<pages. va_indices v \<noteq> va_indices (next_mmio_addr s + of_nat i * 4096)) \<longrightarrow>
             translate cr3 m' v = translate cr3 m v))
    \<and> unat (next_mmio_addr s') mod 4096 = 0"
proof -
  define n where "n = mmio_pages pa sz"
  obtain s1 m1 where run: "map_pages cr3 (pa AND NOT 0xFFF) (next_mmio_addr s) 0 n (s, m) = (s1, m1)" by force
  have nlt: "\<not> pa < 0x100000000" using high by (simp add: not_less)
  from run res nlt have r: "va = next_mmio_addr s + (pa AND 0xFFF)" "m' = m1"
      "s' = s1\<lparr>next_mmio_addr := next_mmio_addr s1 + of_nat n * PAGE_SIZE\<rparr>"
    by (simp_all add: mmio_remap_def Let_def n_def)
  have "low_avail s1 \<noteq> {}" using left r(3) by (simp add: low_avail_def)
  note maps = map_pages_ok [OF ok _ run this]
  have n: "1 \<le> n" "n \<le> 64" using mmio_pages_bounds [of pa sz] by (simp_all add: n_def)
  have off: "pa AND 0xFFF = of_nat (unat pa mod 4096)"
    by (rule unat_eqI) (simp only: unat_and_0xFFF, simp add: unat_of_nat_small)
  have n_eq: "n = max 1 (min 64 ((unat pa mod 4096 + unat sz + 4095) div 4096))"
    using mmio_pages_exact [OF fits] by (simp add: n_def)
  have moved: "next_mmio_addr s' = next_mmio_addr s + of_nat n * 4096" using maps n by (simp add: r(3) PAGE_SIZE_def)
  have bytes: "translate cr3 m' (va + of_nat k) = Some (((pa + of_nat k) AND NOT 0xFFF) OR (PAGE_PRESENT OR PAGE_RW OR PAGE_PCD))"
    if k: "k < unat sz" "unat pa mod 4096 + k < 64 * 4096" for k
  proof -
    define j where "j = unat pa mod 4096 + k"
    have "j div 4096 < n" using k unfolding n_eq j_def by (simp add: max_def min_def) linarith
    moreover have "va + of_nat k = next_mmio_addr s + of_nat j" by (simp add: r(1) off j_def)
    moreover have "pa + of_nat k = (pa AND NOT 0xFFF) + of_nat j"
      using and_parts [of pa "0xFFF"] unfolding off j_def by (simp add: add.assoc [symmetric])
    ultimately show ?thesis
      using maps n page_base [OF window, of j] page_base [OF page_aligned, of pa j] translate_page
      by (simp add: r(2)) metis
  qed
  have kept: "\<forall>v. (\<forall>i<n. va_indices v \<noteq> va_indices (next_mmio_addr s + of_nat i * 4096)) \<longrightarrow>
      translate cr3 m' v = translate cr3 m v"
    using maps n by (simp add: r(2) PAGE_SIZE_def)
  show ?thesis
    using bytes moved n kept r(1) mmio_pages_cover [OF fits] aligned_add_pages [OF window, of n]
    unfolding off n_def [symmetric] by (intro conjI exI [of _ n]) simp_all
qed

lemma demo_low_page: "low_avail demo_mm \<noteq> {}"
proof -
  have "0x120000 \<in> low_avail demo_mm"
    by (simp add: demo_mm_def mm_init_ready_snd(3) [OF demo_placement])
      (simp add: demo_map_def usable_page_def usable_entry_def LIMINE_MEMMAP_USABLE_def low_frame_def
        LIMINE_MEMMAP_BOOTLOADER_RECLAIMABLE_def region_start_def region_end_def PAGE_SIZE_def
        page_reserved_def req_size_def)
  then show ?thesis by auto
qed

text \<open>A kernel whose upper three levels already exist for the MMIO window: nothing is allocated.\<close>

definition demo_tables :: page_tables where
  "demo_tables f i = (if f = 0x1000 \<and> i = 511 then 0x2001 else if f = 0x2000 \<and> i = 510 then 0x3001
     else if f = 0x3000 \<and> i = 0 then 0x4001 else 0)"

definition demo_tree :: "u64 \<Rightarrow> nat list option" where
  "demo_tree = [0x1000 \<mapsto> [], 0x2000 \<mapsto> [511], 0x3000 \<mapsto> [511, 510], 0x4000 \<mapsto> [511, 510, 0]]"

lemma demo_tables_ok: "pt_ok demo_tree (0x1000 AND PADDR_MASK) (demo_mm, demo_tables)"
proof -
  have "f \<notin> low_avail demo_mm" if "demo_tree f \<noteq> None" for f
    using that mm_init_ready_snd(3) [OF demo_placement, of 0]
    by (auto simp: demo_tree_def demo_mm_def usable_page_def demo_map_def usable_entry_def
        region_start_def region_end_def PAGE_SIZE_def LIMINE_MEMMAP_USABLE_def
        LIMINE_MEMMAP_BOOTLOADER_RECLAIMABLE_def low_frame_def split: if_splits)
  moreover have "demo_tree (demo_tables f i AND PADDR_MASK) = Some (q @ [i])"
    if "demo_tree f = Some q" "length q < 3" "bit (demo_tables f i) 0" for f q i
    using that by (auto simp: demo_tree_def demo_tables_def PADDR_MASK_def split: if_splits)
  moreover have "mm_inv demo_mm"
    using mm_init_ready_snd [OF demo_placement, of 0] by (simp add: demo_mm_def)
  ultimately show ?thesis
    by (auto simp: pt_ok_def) (simp add: demo_tree_def PADDR_MASK_def)
qed

lemma demo_window: "next_mmio_addr demo_mm = 0xFFFFFFFF80000000"
  using demo_placement by (simp add: demo_mm_def mm_init_def Let_def)

theorem mmio_remap_maps_witness:
  "let r = mmio_remap 0x1000 0xFEC0000123 0x1000 (demo_mm, demo_tables) in
     fst r = 0xFFFFFFFF80000123 \<and>
     translate 0x1000 (snd (snd r)) (0xFFFFFFFF80000123 + 0xFFF) = Some (0xFEC0001000 OR 19)"
proof -
  obtain va s' m' where r: "mmio_remap 0x1000 0xFEC0000123 0x1000 (demo_mm, demo_tables) = (va, s', m')"
    by (metis surj_pair)
  have n: "mmio_pages 0xFEC0000123 0x1000 = Suc (Suc 0)"
    by (simp add: mmio_pages_def PAGE_SIZE_def)
  have left: "low_avail s' \<noteq> {}"
    using r demo_low_page
    by (auto simp: mmio_remap_def n demo_window map_page_def walk_level_def Let_def
        table_index_def demo_tables_def PADDR_MASK_def PAGE_SIZE_def PAGE_PRESENT_def PAGE_RW_def
        PAGE_PCD_def PAGE_PWT_def low_avail_def)
  note maps = mmio_remap_maps [OF demo_tables_ok _ _ _ r left]
  have "va = 0xFFFFFFFF80000123"
    using maps [THEN conjunct2, THEN conjunct1] by (simp add: demo_window)
  moreover have "\<forall>k. k < 4096 \<longrightarrow> 291 + k < 64 * 4096 \<longrightarrow> translate 0x1000 m' (va + of_nat k) =
      Some (((0xFEC0000123 + of_nat k) AND NOT 0xFFF) OR (PAGE_PRESENT OR PAGE_RW OR PAGE_PCD))"
    using maps [THEN conjunct1] by (simp add: demo_window)
  then have "translate 0x1000 m' (va + of_nat 4095) =
      Some (((0xFEC0000123 + of_nat 4095) AND NOT 0xFFF) OR (PAGE_PRESENT OR PAGE_RW OR PAGE_PCD))"
    by (elim allE [of _ 4095] impE) simp_all
  ultimately show ?thesis by (simp add: r PAGE_PRESENT_def PAGE_RW_def PAGE_PCD_def)
qed

end
