(* ===== verification/Links.thy ===== *)
theory Links
  imports Prelude
begin

text \<open>
  Singly linked lists threaded through a store, as the scheduler (\<open>task_t.next\<close>), the block
  layer (\<open>blk_request_t.next\<close>) and the file systems (\<open>vfs_dentry.next\<close>) keep them. A store is
  read through its successor function; \<open>lseg n p xs q\<close> says that following \<open>n\<close> from
  pointer \<open>p\<close> visits exactly \<open>xs\<close> and then holds \<open>q\<close>. NULL is \<open>None\<close>.
\<close>

fun lseg :: "('r \<Rightarrow> 'r option) \<Rightarrow> 'r option \<Rightarrow> 'r list \<Rightarrow> 'r option \<Rightarrow> bool" where
  "lseg n p [] q \<longleftrightarrow> p = q"
| "lseg n p (x # xs) q \<longleftrightarrow> p = Some x \<and> lseg n (n x) xs q"

abbreviation chain :: "('r \<Rightarrow> 'r option) \<Rightarrow> 'r option \<Rightarrow> 'r list \<Rightarrow> bool" where
  "chain n p xs \<equiv> lseg n p xs None"

lemma chain_None [simp]: "chain n None xs \<longleftrightarrow> xs = []"
  by (cases xs) auto

lemma chain_Some: "chain n (Some x) xs \<longleftrightarrow> (\<exists>ys. xs = x # ys \<and> chain n (n x) ys)"
  by (cases xs) auto

lemma chain_fun: "chain n p xs \<Longrightarrow> chain n p ys \<Longrightarrow> xs = ys"
proof (induction xs arbitrary: p ys)
  case (Cons x xs)
  then show ?case by (cases ys) auto
qed simp

lemma lseg_append: "lseg n p (xs @ ys) q \<longleftrightarrow> (\<exists>r. lseg n p xs r \<and> lseg n r ys q)"
  by (induction xs arbitrary: p) auto

lemma lseg_upd [simp]: "x \<notin> set xs \<Longrightarrow> lseg (n(x := v)) p xs q \<longleftrightarrow> lseg n p xs q"
  by (induction xs arbitrary: p) auto

lemma lseg_cong: "(\<And>x. x \<in> set xs \<Longrightarrow> n x = n' x) \<Longrightarrow> lseg n p xs q \<longleftrightarrow> lseg n' p xs q"
  by (induction xs arbitrary: p) auto

lemma chain_distinct: "chain n p xs \<Longrightarrow> distinct xs"
proof (induction xs arbitrary: p)
  case (Cons x xs)
  have "x \<notin> set xs"
  proof
    assume "x \<in> set xs"
    then obtain ys zs where xs: "xs = ys @ x # zs" by (meson split_list)
    with Cons.prems have "chain n (n x) zs" "chain n (n x) (ys @ x # zs)"
      by (auto simp: lseg_append)
    from chain_fun [OF this] show False by simp
  qed
  with Cons show ?case by auto
qed simp

text \<open>Linking a new element after the element \<open>c\<close>, and after the last one.\<close>

lemma chain_insert_after:
  assumes "chain n p (xs @ c # ys)" and "r \<notin> set (xs @ c # ys)"
  shows "chain (n(r := n c, c := Some r)) p (xs @ c # r # ys)"
proof -
  have "c \<notin> set xs" "c \<notin> set ys" using chain_distinct [OF assms(1)] by auto
  with assms show ?thesis by (auto simp: lseg_append)
qed

lemma chain_append_last:
  assumes "chain n p (xs @ [c])" and "r \<notin> set (xs @ [c])" and "n r = None"
  shows "chain (n(c := Some r)) p (xs @ [c, r])"
  using chain_insert_after [of n p xs c "[]" r] assms by (auto simp: lseg_append fun_upd_idem)

text \<open>
  The loop \<open>while (tail->next) tail = tail->next\<close>. It diverges on a cyclic list, so it is
  partial; on a list that ends it returns the last element.
\<close>

partial_function (option) last_link :: "('r \<Rightarrow> 'r option) \<Rightarrow> 'r \<Rightarrow> 'r option" where
  "last_link n r = (case n r of None \<Rightarrow> Some r | Some r' \<Rightarrow> last_link n r')"

declare last_link.simps [code]

lemma last_link_chain: "chain n (Some r) xs \<Longrightarrow> last_link n r = Some (last xs)"
proof (induction xs arbitrary: r)
  case (Cons x xs)
  then show ?case by (subst last_link.simps) (cases "n x"; auto)
qed simp

text \<open>The loop \<open>while (q) { load++; q = q->next; }\<close>.\<close>

partial_function (option) count_links :: "('r \<Rightarrow> 'r option) \<Rightarrow> 'r option \<Rightarrow> int \<Rightarrow> int option" where
  "count_links n q load =
     (case q of None \<Rightarrow> Some load | Some r \<Rightarrow> count_links n (n r) (load + 1))"

declare count_links.simps [code]

lemma count_links_chain: "chain n q xs \<Longrightarrow> count_links n q load = Some (load + int (length xs))"
proof (induction xs arbitrary: q load)
  case Nil
  then show ?case by (subst count_links.simps) simp
next
  case (Cons x xs)
  then show ?case by (subst count_links.simps) simp
qed

end
