(* ===== verification/Sched.thy ===== *)
theory Sched
  imports Links
begin

text \<open>
  The scheduler of \<^verbatim>\<open>core/sched.c\<close>, in the configuration of \<^verbatim>\<open>include/autoconf.h\<close>
  (\<^verbatim>\<open>CONFIG_SMP\<close> and \<^verbatim>\<open>CONFIG_SMT_SCHED\<close>). The task pool and the per-CPU idle tasks are one
  store of tasks, so that a run queue is the list threaded through \<open>tnext\<close>. Copying a task
  name that does not fit its 64 byte buffer is a fault. Lemmas: what each operation does to
  the queues as lists, the invariant of every reachable state, and round robin fairness.
\<close>

subsection \<open>State and operations\<close>

definition TASK_READY :: u32 where "TASK_READY = 1"
definition MAX_CPUS :: int where "MAX_CPUS = 64"
definition MAX_TASKS :: nat where "MAX_TASKS = 256"

datatype task_ref = Pool nat | Idle nat

record task =
  tid :: u32
  tstate :: u32
  tcpu_id :: u32
  time_slice :: u64
  total_runtime :: u64
  tnext :: "task_ref option"
  tname :: string

record cpu_info =
  cid :: u32
  apic_id :: u32
  is_bsp :: bool
  is_smt :: bool
  core_id :: u32
  package_id :: u32
  online :: bool
  current :: "task_ref option"
  run_queue :: "task_ref option"

record sched =
  cpus :: "nat \<Rightarrow> cpu_info"
  cpu_count :: int
  tasks :: "task_ref \<Rightarrow> task"
  next_task_id :: nat
  smt_aware :: int

definition zero_task :: task where
  "zero_task = \<lparr>tid = 0, tstate = 0, tcpu_id = 0, time_slice = 0, total_runtime = 0,
     tnext = None, tname = []\<rparr>"

definition zero_cpu :: cpu_info where
  "zero_cpu = \<lparr>cid = 0, apic_id = 0, is_bsp = False, is_smt = False, core_id = 0,
     package_id = 0, online = False, current = None, run_queue = None\<rparr>"

definition sched_boot :: sched where
  "sched_boot = \<lparr>cpus = (\<lambda>_. zero_cpu), cpu_count = 0, tasks = (\<lambda>_. zero_task),
     next_task_id = 0, smt_aware = 1\<rparr>"

definition links :: "sched \<Rightarrow> task_ref \<Rightarrow> task_ref option" where
  "links s = (\<lambda>r. tnext (tasks s r))"

definition upd_cpu :: "nat \<Rightarrow> (cpu_info \<Rightarrow> cpu_info) \<Rightarrow> sched \<Rightarrow> sched" where
  "upd_cpu i f s = s\<lparr>cpus := (cpus s)(i := f (cpus s i))\<rparr>"

definition upd_task :: "task_ref \<Rightarrow> (task \<Rightarrow> task) \<Rightarrow> sched \<Rightarrow> sched" where
  "upd_task r f s = s\<lparr>tasks := (tasks s)(r := f (tasks s r))\<rparr>"

text \<open>The copy into \<open>char name[64]\<close>, terminator included.\<close>

definition sched_strcpy :: "string \<Rightarrow> string option" where
  "sched_strcpy src = (if length src < 64 then Some src else None)"

definition init_cpu :: "(nat \<Rightarrow> u32) \<Rightarrow> nat \<Rightarrow> sched \<Rightarrow> sched" where
  "init_cpu acpi_cpu_apic_ids i s =
     (let a = acpi_cpu_apic_ids i;
          s1 = upd_cpu i (\<lambda>c. c\<lparr>cid := of_nat i, apic_id := a, is_bsp := (i = 0),
                 online := (i = 0), run_queue := None, current := None,
                 is_smt := (a AND 1 \<noteq> 0 \<and> 1 < cpu_count s), core_id := drop_bit 1 a,
                 package_id := 0\<rparr>) s
      in upd_task (Idle i) (\<lambda>t. t\<lparr>tid := 0xFFFF0000 OR of_nat i, tstate := TASK_READY,
           tcpu_id := of_nat i, tname := ''idle''\<rparr>) s1)"

fun init_cpus :: "(nat \<Rightarrow> u32) \<Rightarrow> nat \<Rightarrow> nat \<Rightarrow> sched \<Rightarrow> sched" where
  "init_cpus acpi_cpu_apic_ids i 0 s = s"
| "init_cpus acpi_cpu_apic_ids i (Suc n) s =
     init_cpus acpi_cpu_apic_ids (Suc i) n (init_cpu acpi_cpu_apic_ids i s)"

definition sched_init :: "int \<Rightarrow> (nat \<Rightarrow> u32) \<Rightarrow> sched \<Rightarrow> sched" where
  "sched_init acpi_cpu_count acpi_cpu_apic_ids s =
     (let n = (if 0 < acpi_cpu_count then acpi_cpu_count else 1);
          n = (if MAX_CPUS < n then MAX_CPUS else n);
          s1 = s\<lparr>cpus := (\<lambda>_. zero_cpu), cpu_count := n,
                 tasks := (\<lambda>r. case r of Pool _ \<Rightarrow> zero_task | Idle _ \<Rightarrow> tasks s r)\<rparr>
      in init_cpus acpi_cpu_apic_ids 0 (nat n) s1)"

definition sched_cpu_count :: "sched \<Rightarrow> int" where
  "sched_cpu_count s = cpu_count s"

definition sched_get_cpu :: "int \<Rightarrow> sched \<Rightarrow> nat option" where
  "sched_get_cpu i s = (if i < 0 \<or> cpu_count s \<le> i then None else Some (nat i))"

text \<open>The choice of the least loaded CPU; \<open>n\<close> CPUs are left from \<open>i\<close> on.\<close>

fun least_loaded :: "sched \<Rightarrow> nat \<Rightarrow> nat \<Rightarrow> nat \<Rightarrow> int \<Rightarrow> nat option" where
  "least_loaded s i 0 target_cpu min_load = Some target_cpu"
| "least_loaded s i (Suc n) target_cpu min_load =
     (if \<not> online (cpus s i) then least_loaded s (Suc i) n target_cpu min_load
      else if smt_aware s \<noteq> 0 \<and> is_smt (cpus s i) then least_loaded s (Suc i) n target_cpu min_load
      else do {
        load \<leftarrow> count_links (links s) (run_queue (cpus s i)) 0;
        if load < min_load then least_loaded s (Suc i) n i load
        else least_loaded s (Suc i) n target_cpu min_load
      })"

definition sched_create_task :: "string \<Rightarrow> sched \<Rightarrow> (task_ref option \<times> sched) option" where
  "sched_create_task name s =
     (if MAX_TASKS \<le> next_task_id s then Some (None, s)
      else
        let t = Pool (next_task_id s); s1 = s\<lparr>next_task_id := Suc (next_task_id s)\<rparr>
        in do {
          nm \<leftarrow> sched_strcpy name;
          let s2 = upd_task t (\<lambda>u. u\<lparr>tid := of_nat (next_task_id s1), tstate := TASK_READY,
                     time_slice := 10, total_runtime := 0, tname := nm\<rparr>) s1;
          target_cpu \<leftarrow> least_loaded s2 0 (nat (cpu_count s2)) 0 0x7FFFFFFF;
          let s3 = upd_task t (\<lambda>u. u\<lparr>tcpu_id := of_nat target_cpu,
                     tnext := run_queue (cpus s2 target_cpu)\<rparr>) s2;
          Some (Some t, upd_cpu target_cpu (\<lambda>c. c\<lparr>run_queue := Some t\<rparr>) s3)
        })"

definition sched_schedule :: "sched \<Rightarrow> sched option" where
  "sched_schedule s =
     (case run_queue (cpus s 0) of
        None \<Rightarrow> Some (upd_cpu 0 (\<lambda>c. c\<lparr>current := Some (Idle 0)\<rparr>) s)
      | Some nx \<Rightarrow>
          if tstate (tasks s nx) = TASK_READY then
            let s1 = upd_cpu 0 (\<lambda>c. c\<lparr>current := Some nx, run_queue := tnext (tasks s nx)\<rparr>) s;
                s2 = upd_task nx (\<lambda>t. t\<lparr>tnext := None\<rparr>) s1
            in case run_queue (cpus s2 0) of
                 Some h \<Rightarrow> do {
                   tail \<leftarrow> last_link (links s2) h;
                   Some (upd_task tail (\<lambda>t. t\<lparr>tnext := Some nx\<rparr>) s2)
                 }
               | None \<Rightarrow> Some (upd_cpu 0 (\<lambda>c. c\<lparr>run_queue := Some nx\<rparr>) s2)
          else Some s)"

definition sched_yield :: "sched \<Rightarrow> sched option" where
  "sched_yield s = sched_schedule s"

definition tick_task :: "task \<Rightarrow> task" where
  "tick_task t =
     (if 0 < time_slice t then
        let t1 = t\<lparr>time_slice := time_slice t - 1, total_runtime := total_runtime t + 1\<rparr>
        in if time_slice t1 = 0 then t1\<lparr>time_slice := 10\<rparr> else t1
      else t)"

definition tick_cpu :: "nat \<Rightarrow> sched \<Rightarrow> sched" where
  "tick_cpu i s =
     (if \<not> online (cpus s i) then s
      else case current (cpus s i) of None \<Rightarrow> s | Some r \<Rightarrow> upd_task r tick_task s)"

fun tick_cpus :: "nat \<Rightarrow> nat \<Rightarrow> sched \<Rightarrow> sched" where
  "tick_cpus i 0 s = s"
| "tick_cpus i (Suc n) s = tick_cpus (Suc i) n (tick_cpu i s)"

definition sched_tick :: "sched \<Rightarrow> sched" where
  "sched_tick s = tick_cpus 0 (nat (cpu_count s)) s"

definition sched_set_smt_aware :: "int \<Rightarrow> sched \<Rightarrow> sched" where
  "sched_set_smt_aware enabled s = s\<lparr>smt_aware := enabled\<rparr>"

subsection \<open>Frame and link lemmas\<close>

lemma upd_task_simps [simp]:
  "cpus (upd_task r f s) = cpus s" "cpu_count (upd_task r f s) = cpu_count s"
  "next_task_id (upd_task r f s) = next_task_id s" "smt_aware (upd_task r f s) = smt_aware s"
  "tasks (upd_task r f s) = (tasks s)(r := f (tasks s r))"
  by (simp_all add: upd_task_def)

lemma upd_cpu_simps [simp]:
  "cpus (upd_cpu i f s) = (cpus s)(i := f (cpus s i))" "cpu_count (upd_cpu i f s) = cpu_count s"
  "next_task_id (upd_cpu i f s) = next_task_id s" "smt_aware (upd_cpu i f s) = smt_aware s"
  "tasks (upd_cpu i f s) = tasks s"
  by (simp_all add: upd_cpu_def)

lemma links_upd [simp]:
  "links (upd_cpu i f s) = links s"
  "links (upd_task r g s) = (links s)(r := tnext (g (tasks s r)))"
  "links (s\<lparr>next_task_id := k\<rparr>) = links s"
  "links (s\<lparr>smt_aware := e\<rparr>) = links s"
  by (auto simp: links_def fun_eq_iff)

subsection \<open>The run queues as lists\<close>

text \<open>
  \<open>sched_inv qs s\<close>: \<open>qs c\<close> is the run queue of CPU \<open>c\<close>; the queues share no task and
  together hold exactly the created tasks; every created task is READY with a slice of 1 to
  10 ticks, idle tasks have none; what a CPU runs is an idle task or a created one.
\<close>

definition created :: "sched \<Rightarrow> task_ref set" where
  "created s = Pool ` {..<next_task_id s}"

definition task_ok :: "task \<Rightarrow> bool" where
  "task_ok t \<longleftrightarrow> tstate t = TASK_READY \<and> 1 \<le> unat (time_slice t) \<and> unat (time_slice t) \<le> 10"

definition sched_inv :: "(nat \<Rightarrow> task_ref list) \<Rightarrow> sched \<Rightarrow> bool" where
  "sched_inv qs s \<longleftrightarrow>
     (\<forall>c. chain (links s) (run_queue (cpus s c)) (qs c)) \<and>
     (\<Union>c. set (qs c)) = created s \<and>
     (\<forall>c d. c \<noteq> d \<longrightarrow> set (qs c) \<inter> set (qs d) = {}) \<and>
     (\<forall>r \<in> created s. task_ok (tasks s r)) \<and>
     (\<forall>i. time_slice (tasks s (Idle i)) = 0) \<and>
     next_task_id s \<le> MAX_TASKS \<and> 0 \<le> cpu_count s \<and> cpu_count s \<le> MAX_CPUS \<and>
     (\<forall>c r. current (cpus s c) = Some r \<longrightarrow> r \<in> created s \<union> range Idle)"

lemma created_simps [simp]:
  "created (upd_task r f s) = created s" "created (upd_cpu i g s) = created s"
  "created (s\<lparr>smt_aware := e\<rparr>) = created s"
  by (simp_all add: created_def)

lemma Idle_notin_created [simp]: "Idle i \<notin> created s"
  by (auto simp: created_def)

lemma sched_invD:
  assumes "sched_inv qs s"
  shows "chain (links s) (run_queue (cpus s c)) (qs c)"
    and "(\<Union>c. set (qs c)) = created s"
    and "c \<noteq> d \<Longrightarrow> r \<in> set (qs c) \<Longrightarrow> r \<notin> set (qs d)"
    and "r \<in> created s \<Longrightarrow> task_ok (tasks s r)"
    and "time_slice (tasks s (Idle i)) = 0"
    and "r \<in> set (qs c) \<Longrightarrow> r \<in> created s"
    and "current (cpus s c) = Some r \<Longrightarrow> r \<in> created s \<union> range Idle"
    and "next_task_id s \<le> MAX_TASKS" and "0 \<le> cpu_count s" and "cpu_count s \<le> MAX_CPUS"
proof -
  show un: "(\<Union>c. set (qs c)) = created s" using assms by (simp add: sched_inv_def)
  then show "r \<in> set (qs c) \<Longrightarrow> r \<in> created s" by blast
  show "c \<noteq> d \<Longrightarrow> r \<in> set (qs c) \<Longrightarrow> r \<notin> set (qs d)"
    using assms unfolding sched_inv_def disjoint_iff by blast
qed (use assms in \<open>simp_all add: sched_inv_def\<close>)

lemma rotated_sets [simp]: "set ((qs(0 := rotate1 (qs 0))) c) = set (qs c)" for qs :: "nat \<Rightarrow> 'a list"
  by simp

text \<open>Taking the head of the queue of CPU 0 and linking it behind its last task rotates it.\<close>

lemma rotate_links:
  assumes "chain n (Some t) (t # u # us)"
  shows "chain (n(t := None, last (u # us) := Some t)) (n t) ((u # us) @ [t])"
proof -
  obtain xs c where xs: "u # us = xs @ [c]" by (metis list.distinct(1) rev_exhaust)
  have t: "t \<notin> set (xs @ [c])" using chain_distinct [OF assms] xs by simp
  have "chain (n(t := None)) (n t) (xs @ [c])" using assms t xs by simp
  from chain_append_last [OF this t] show ?thesis unfolding xs by simp
qed

lemma schedule_rotates:
  assumes inv: "sched_inv qs s"
  obtains s' where "sched_schedule s = Some s'" "sched_inv (qs(0 := rotate1 (qs 0))) s'"
    "current (cpus s' 0) = Some (case qs 0 of [] \<Rightarrow> Idle 0 | t # _ \<Rightarrow> t)"
proof (cases "qs 0")
  case Nil
  then have run: "run_queue (cpus s 0) = None" using sched_invD(1) [OF inv, of 0] by simp
  have same: "qs(0 := rotate1 (qs 0)) = qs" using Nil by (simp add: fun_upd_idem)
  let ?s = "upd_cpu 0 (\<lambda>c. c\<lparr>current := Some (Idle 0)\<rparr>) s"
  show ?thesis
  proof (rule that [of ?s])
    show "sched_inv (qs(0 := rotate1 (qs 0))) ?s"
      unfolding same using inv by (simp add: sched_inv_def)
  qed (simp_all add: sched_schedule_def run Nil)
next
  case (Cons t ts)
  note ch = sched_invD(1) [OF inv, of 0]
  have run: "run_queue (cpus s 0) = Some t" and tn: "chain (links s) (tnext (tasks s t)) ts"
    using ch Cons by (auto simp: links_def)
  have ready: "tstate (tasks s t) = TASK_READY"
    using sched_invD(4) [OF inv, of t] sched_invD(6) [OF inv, of t 0] Cons by (simp add: task_ok_def)
  show ?thesis
  proof (cases ts)
    case Nil
    with tn have no: "tnext (tasks s t) = None" by simp
    let ?s = "upd_cpu 0 (\<lambda>c. c\<lparr>current := Some t, run_queue := Some t\<rparr>)
      (upd_task t (\<lambda>x. x\<lparr>tnext := None\<rparr>) s)"
    have same: "qs(0 := rotate1 (qs 0)) = qs" using Cons Nil by (simp add: fun_upd_idem)
    have stay: "x\<lparr>tnext := None\<rparr> = x" if "tnext x = None" for x :: task using that by simp
    have l: "(links s)(t := None) = links s" and q0: "chain (links s) (Some t) (qs 0)"
      using no Cons Nil ch run by (auto simp: links_def fun_upd_idem)
    show ?thesis
    proof (rule that [of ?s])
      show "sched_inv (qs(0 := rotate1 (qs 0))) ?s"
        unfolding same using inv run no sched_invD(6) [OF inv, of t 0] Cons
        by (simp add: sched_inv_def stay l) (use q0 Cons in simp)
    qed (use run ready no Cons in \<open>simp_all add: sched_schedule_def upd_cpu_def upd_task_def\<close>)
  next
    case ts: (Cons u us)
    then have nt: "tnext (tasks s t) = Some u" using tn by simp
    let ?l = "last (u # us)"
    have t: "t \<notin> set ts" "t \<in> created s" "?l \<in> created s" "?l \<noteq> t" "?l \<in> set (qs 0)"
      using chain_distinct [OF ch] sched_invD(6) [OF inv, of _ 0] Cons ts by auto
    define s2 where "s2 = upd_task t (\<lambda>x. x\<lparr>tnext := None\<rparr>)
      (upd_cpu 0 (\<lambda>c. c\<lparr>current := Some t, run_queue := tnext (tasks s t)\<rparr>) s)"
    have last: "last_link (links s2) u = Some ?l"
    proof -
      have "chain (links s2) (Some u) ts" using tn t(1) unfolding nt by (simp add: s2_def)
      from last_link_chain [OF this] show ?thesis unfolding ts .
    qed
    define s3 where "s3 = upd_task ?l (\<lambda>x. x\<lparr>tnext := Some t\<rparr>) s2"
    have res: "sched_schedule s = Some s3"
      using run ready last nt by (simp add: sched_schedule_def Let_def s2_def [symmetric] s3_def)
        (simp add: s2_def)
    have l3: "links s3 = (links s)(t := None, ?l := Some t)"
      by (simp add: s3_def s2_def)
    have q0: "chain (links s3) (run_queue (cpus s3 0)) (u # us @ [t])"
      using rotate_links [of "links s" t u us] ch run Cons ts l3
      by (simp add: s3_def s2_def links_def [of s])
    have qc: "chain (links s3) (run_queue (cpus s3 c)) (qs c)" if "c \<noteq> 0" for c
      using sched_invD(1) [OF inv, of c] sched_invD(3) [OF inv, of 0 c] that t(5) Cons l3
      by (simp add: s3_def s2_def)
    show ?thesis
    proof (rule that [OF res])
      show "current (cpus s3 0) = Some (case qs 0 of [] \<Rightarrow> Idle 0 | t # _ \<Rightarrow> t)"
        by (simp add: s3_def s2_def Cons)
      show "sched_inv (qs(0 := rotate1 (qs 0))) s3"
        unfolding sched_inv_def
      proof (intro conjI allI impI ballI)
        fix c show "chain (links s3) (run_queue (cpus s3 c)) ((qs(0 := rotate1 (qs 0))) c)"
          using q0 qc [of c] Cons ts by simp
      next
        fix r assume "r \<in> created s3"
        then show "task_ok (tasks s3 r)"
          using sched_invD(4) [OF inv, of r] sched_invD(4) [OF inv] t(2,3)
          by (auto simp: s3_def s2_def task_ok_def)
      next
        fix i show "time_slice (tasks s3 (Idle i)) = 0"
          using sched_invD(5) [OF inv, of i] by (auto simp: s3_def s2_def)
      next
        fix c r assume "current (cpus s3 c) = Some r"
        then show "r \<in> created s3 \<union> range Idle"
          using sched_invD(7) [OF inv, of c r] t(2) by (auto simp: s3_def s2_def split: if_splits)
      next
        show "(\<Union>c. set ((qs(0 := rotate1 (qs 0))) c)) = created s3"
          unfolding rotated_sets using sched_invD(2) [OF inv] by (simp add: s3_def s2_def)
      next
        fix c d :: nat assume "c \<noteq> d"
        then show "set ((qs(0 := rotate1 (qs 0))) c) \<inter> set ((qs(0 := rotate1 (qs 0))) d) = {}"
          unfolding rotated_sets using sched_invD(3) [OF inv, of c d] by auto
      qed (use sched_invD(8-10) [OF inv] in \<open>simp_all add: s3_def s2_def\<close>)
    qed
  qed
qed

subsection \<open>Creating a task\<close>

lemma links_keep [simp]: "(links s)(r := tnext (tasks s r)) = links s"
  by (simp add: links_def fun_eq_iff)

text \<open>A CPU the search considers, and what the search returns over a range of CPUs.\<close>

definition eligible :: "sched \<Rightarrow> nat \<Rightarrow> bool" where
  "eligible s c \<longleftrightarrow> int c < cpu_count s \<and> online (cpus s c) \<and> \<not> (smt_aware s \<noteq> 0 \<and> is_smt (cpus s c))"

lemma all_range_Suc:
  "(\<forall>d. i \<le> d \<longrightarrow> d < i + Suc n \<longrightarrow> P d) \<longleftrightarrow> P i \<and> (\<forall>d. Suc i \<le> d \<longrightarrow> d < Suc i + n \<longrightarrow> P d)"
  by (metis Suc_leD Suc_leI add_Suc add_Suc_right le_eq_less_or_eq le_add1 less_Suc_eq_le)

lemma least_loaded_picks:
  assumes "\<And>c. chain (links s) (run_queue (cpus s c)) (qs c)" and "int (i + n) \<le> cpu_count s"
  obtains c where "least_loaded s i n t m = Some c"
    "c = t \<and> (\<forall>d. i \<le> d \<longrightarrow> d < i + n \<longrightarrow> eligible s d \<longrightarrow> m \<le> int (length (qs d))) \<or>
     i \<le> c \<and> c < i + n \<and> eligible s c \<and> int (length (qs c)) < m \<and>
     (\<forall>d. i \<le> d \<longrightarrow> d < i + n \<longrightarrow> eligible s d \<longrightarrow> length (qs c) \<le> length (qs d))"
  using assms(2)
proof (induction n arbitrary: i t m thesis)
  case 0
  then show ?case by simp
next
  case (Suc n)
  have le: "int (Suc i + n) \<le> cpu_count s" using Suc.prems(2) by simp
  show ?case
  proof (cases "eligible s i")
    case False
    then have step: "least_loaded s i (Suc n) t m = least_loaded s (Suc i) n t m"
      using Suc.prems(2) by (auto simp: eligible_def)
    obtain c where c: "least_loaded s (Suc i) n t m = Some c"
      "c = t \<and> (\<forall>d. Suc i \<le> d \<longrightarrow> d < Suc i + n \<longrightarrow> eligible s d \<longrightarrow> m \<le> int (length (qs d))) \<or>
       Suc i \<le> c \<and> c < Suc i + n \<and> eligible s c \<and> int (length (qs c)) < m \<and>
       (\<forall>d. Suc i \<le> d \<longrightarrow> d < Suc i + n \<longrightarrow> eligible s d \<longrightarrow> length (qs c) \<le> length (qs d))"
      by (rule Suc.IH [OF that le])
    show ?thesis
    proof (rule Suc.prems(1) [unfolded all_range_Suc])
      show "least_loaded s i (Suc n) t m = Some c" using c step by simp
    qed (use c(2) False in auto)
  next
    case True
    define m' where "m' = (if int (length (qs i)) < m then int (length (qs i)) else m)"
    define t' where "t' = (if int (length (qs i)) < m then i else t)"
    have step: "least_loaded s i (Suc n) t m = least_loaded s (Suc i) n t' m'"
      using True count_links_chain [OF assms(1) [of i], of 0]
      by (auto simp: eligible_def m'_def t'_def)
    obtain c where c: "least_loaded s (Suc i) n t' m' = Some c"
      "c = t' \<and> (\<forall>d. Suc i \<le> d \<longrightarrow> d < Suc i + n \<longrightarrow> eligible s d \<longrightarrow> m' \<le> int (length (qs d))) \<or>
       Suc i \<le> c \<and> c < Suc i + n \<and> eligible s c \<and> int (length (qs c)) < m' \<and>
       (\<forall>d. Suc i \<le> d \<longrightarrow> d < Suc i + n \<longrightarrow> eligible s d \<longrightarrow> length (qs c) \<le> length (qs d))"
      by (rule Suc.IH [OF that le])
    show ?thesis
    proof (rule Suc.prems(1) [unfolded all_range_Suc])
      show "least_loaded s i (Suc n) t m = Some c" using c step by simp
    qed (use c(2) True in \<open>auto simp: m'_def t'_def split: if_splits\<close>)
  qed
qed

lemma queue_length:
  assumes "sched_inv qs s"
  shows "length (qs c) \<le> next_task_id s"
proof -
  have "length (qs c) = card (set (qs c))"
    using chain_distinct [OF sched_invD(1) [OF assms]] by (simp add: distinct_card)
  also have "\<dots> \<le> card (created s)"
    using sched_invD(6) [OF assms] by (intro card_mono) (auto simp: created_def)
  also have "\<dots> = next_task_id s" by (simp add: created_def card_image inj_on_def)
  finally show ?thesis .
qed

text \<open>The CPU chosen by \<open>sched_create_task\<close>: the least loaded eligible one, else CPU 0.\<close>

definition least_eligible :: "(nat \<Rightarrow> task_ref list) \<Rightarrow> sched \<Rightarrow> nat \<Rightarrow> bool" where
  "least_eligible qs s c \<longleftrightarrow>
     (if \<exists>d. eligible s d
      then eligible s c \<and> (\<forall>d. eligible s d \<longrightarrow> length (qs c) \<le> length (qs d)) else c = 0)"

lemma create_pushes:
  assumes inv: "sched_inv qs s" and room: "next_task_id s < MAX_TASKS" and nm: "length name < 64"
  obtains c s' where
    "sched_create_task name s = Some (Some (Pool (next_task_id s)), s')"
    "sched_inv (qs(c := Pool (next_task_id s) # qs c)) s'" "least_eligible qs s c"
    "next_task_id s' = Suc (next_task_id s)"
proof -
  let ?t = "Pool (next_task_id s)"
  have t: "?t \<notin> created s" by (auto simp: created_def)
  then have tq: "?t \<notin> set (qs c)" for c using sched_invD(6) [OF inv] by blast
  define s2 where "s2 = upd_task ?t (\<lambda>u. u\<lparr>tid := of_nat (Suc (next_task_id s)), tstate := TASK_READY,
     time_slice := 10, total_runtime := 0, tname := name\<rparr>) (s\<lparr>next_task_id := Suc (next_task_id s)\<rparr>)"
  have l2: "links s2 = links s" by (simp add: s2_def)
  have s2: "cpus s2 = cpus s" "cpu_count s2 = cpu_count s" "smt_aware s2 = smt_aware s"
    "next_task_id s2 = Suc (next_task_id s)" by (simp_all add: s2_def)
  have el: "eligible s2 d = eligible s d" for d by (simp add: eligible_def s2)
  have small: "int (length (qs d)) < 0x7FFFFFFF" for d
    using queue_length [OF inv, of d] room by (simp add: MAX_TASKS_def)
  have bound: "int (0 + nat (cpu_count s)) \<le> cpu_count s2"
    using sched_invD(9) [OF inv] by (simp add: s2)
  obtain c where c: "least_loaded s2 0 (nat (cpu_count s)) 0 0x7FFFFFFF = Some c" "least_eligible qs s c"
  proof (rule least_loaded_picks [of s2 qs 0 "nat (cpu_count s)" 0 "0x7FFFFFFF", OF _ bound])
    show "chain (links s2) (run_queue (cpus s2 c)) (qs c)" for c
      using sched_invD(1) [OF inv] by (simp add: l2 s2)
    have ran: "eligible s d \<Longrightarrow> d < nat (cpu_count s)" for d by (auto simp: eligible_def)
    fix c assume c: "least_loaded s2 0 (nat (cpu_count s)) 0 0x7FFFFFFF = Some c"
      "c = 0 \<and> (\<forall>d. 0 \<le> d \<longrightarrow> d < 0 + nat (cpu_count s) \<longrightarrow> eligible s2 d \<longrightarrow>
         0x7FFFFFFF \<le> int (length (qs d))) \<or>
       0 \<le> c \<and> c < 0 + nat (cpu_count s) \<and> eligible s2 c \<and> int (length (qs c)) < 0x7FFFFFFF \<and>
       (\<forall>d. 0 \<le> d \<longrightarrow> d < 0 + nat (cpu_count s) \<longrightarrow> eligible s2 d \<longrightarrow> length (qs c) \<le> length (qs d))"
    have "least_eligible qs s c"
    proof (cases "\<exists>d. eligible s d")
      case True
      then obtain d where "eligible s d" by blast
      with c(2) ran [of d] small [of d] have "eligible s c"
        "\<forall>d. d < nat (cpu_count s) \<longrightarrow> eligible s d \<longrightarrow> length (qs c) \<le> length (qs d)"
        by (auto simp: el not_less [symmetric])
      with True ran show ?thesis by (auto simp: least_eligible_def)
    next
      case False
      with c(2) show ?thesis by (auto simp: least_eligible_def el)
    qed
    then show thesis using that c(1) by blast
  qed
  define s' where "s' = upd_cpu c (\<lambda>x. x\<lparr>run_queue := Some ?t\<rparr>)
    (upd_task ?t (\<lambda>u. u\<lparr>tcpu_id := of_nat c, tnext := run_queue (cpus s2 c)\<rparr>) s2)"
  have res: "sched_create_task name s = Some (Some ?t, s')"
    using room nm c(1) by (simp add: sched_create_task_def sched_strcpy_def s2 s'_def)
      (simp add: s2_def Let_def)
  have l': "links s' = (links s)(?t := run_queue (cpus s c))" by (simp add: s'_def l2 s2)
  have cr: "created s' = insert ?t (created s)"
    by (auto simp: s'_def created_def s2 lessThan_Suc)
  have sets: "set ((qs(c := ?t # qs c)) d) = (if d = c then insert ?t (set (qs d)) else set (qs d))"
    for d by simp
  show ?thesis
  proof (rule that [OF res _ c(2)])
    show "next_task_id s' = Suc (next_task_id s)" by (simp add: s'_def s2)
    show "sched_inv (qs(c := ?t # qs c)) s'"
      unfolding sched_inv_def
    proof (intro conjI allI impI ballI)
      fix d show "chain (links s') (run_queue (cpus s' d)) ((qs(c := ?t # qs c)) d)"
        using sched_invD(1) [OF inv, of d] tq l' by (cases "d = c") (simp_all add: s'_def s2)
    next
      show "(\<Union>d. set ((qs(c := ?t # qs c)) d)) = created s'"
        unfolding sets cr sched_invD(2) [OF inv, symmetric] by (auto split: if_splits)
    next
      fix d e :: nat assume "d \<noteq> e"
      then show "set ((qs(c := ?t # qs c)) d) \<inter> set ((qs(c := ?t # qs c)) e) = {}"
        unfolding sets using sched_invD(3) [OF inv, of d e] tq by auto
    next
      fix r assume "r \<in> created s'"
      then show "task_ok (tasks s' r)"
        using sched_invD(4) [OF inv, of r] cr by (auto simp: s'_def s2_def task_ok_def)
    next
      fix i show "time_slice (tasks s' (Idle i)) = 0"
        using sched_invD(5) [OF inv, of i] by (simp add: s'_def s2_def)
    next
      fix d r assume "current (cpus s' d) = Some r"
      then show "r \<in> created s' \<union> range Idle"
        using sched_invD(7) [OF inv, of d r] cr by (auto simp: s'_def s2 split: if_splits)
    qed (use sched_invD(9,10) [OF inv] room in \<open>simp_all add: s'_def s2\<close>)
  qed
qed

lemma sched_create_ex:
  assumes "sched_inv qs s" and "next_task_id s < MAX_TASKS" and "length name < 64"
  shows "\<exists>c s'. sched_create_task name s = Some (Some (Pool (next_task_id s)), s') \<and>
    sched_inv (qs(c := Pool (next_task_id s) # qs c)) s' \<and> least_eligible qs s c \<and>
    next_task_id s' = Suc (next_task_id s)"
  by (rule create_pushes [OF assms]) blast

subsection \<open>Ticks and the initial state\<close>

lemma tick_task_simps [simp]:
  "tnext (tick_task t) = tnext t" "tstate (tick_task t) = tstate t"
  "time_slice t = 0 \<Longrightarrow> tick_task t = t"
  by (auto simp: tick_task_def Let_def)

lemma tick_task_ok:
  assumes "task_ok t"
  shows "task_ok (tick_task t)"
    and "unat (time_slice (tick_task t)) =
      (if unat (time_slice t) = 1 then 10 else unat (time_slice t) - 1)"
    and "total_runtime (tick_task t) = total_runtime t + 1"
proof -
  have nz: "time_slice t \<noteq> 0" and gt: "0 < time_slice t"
    using assms by (auto simp: task_ok_def word_less_nat_alt unat_gt_0)
  have m1: "unat (time_slice t - 1) = unat (time_slice t) - 1"
    using nz by (simp add: unat_minus_one)
  have z: "time_slice t - 1 = 0 \<longleftrightarrow> unat (time_slice t) = 1"
    unfolding word_unat_eq_iff m1 unat_0 using assms by (auto simp: task_ok_def)
  show "unat (time_slice (tick_task t)) =
      (if unat (time_slice t) = 1 then 10 else unat (time_slice t) - 1)"
    using gt m1 z by (simp add: tick_task_def Let_def)
  then show "task_ok (tick_task t)" using assms by (auto simp: task_ok_def)
  show "total_runtime (tick_task t) = total_runtime t + 1" using gt by (simp add: tick_task_def Let_def)
qed

lemma tick_cpu_simps [simp]:
  "cpus (tick_cpu i s) = cpus s" "cpu_count (tick_cpu i s) = cpu_count s"
  "next_task_id (tick_cpu i s) = next_task_id s" "created (tick_cpu i s) = created s"
  "links (tick_cpu i s) = links s" "smt_aware (tick_cpu i s) = smt_aware s"
  by (auto simp: tick_cpu_def created_def links_def [of s] fun_upd_idem split: option.splits)

lemma tick_cpu_inv: "sched_inv qs s \<Longrightarrow> sched_inv qs (tick_cpu i s)"
  unfolding sched_inv_def tick_cpu_simps
  by (auto simp: tick_cpu_def tick_task_ok(1) split: option.splits)

lemma tick_cpus_keep:
  "cpus (tick_cpus i n s) = cpus s \<and> cpu_count (tick_cpus i n s) = cpu_count s"
  by (induction n arbitrary: i s) auto

lemma tick_cpus_inv: "sched_inv qs s \<Longrightarrow> sched_inv qs (tick_cpus i n s)"
  by (induction n arbitrary: i s) (auto simp: tick_cpu_inv)

lemma tick_inv: "sched_inv qs s \<Longrightarrow> sched_inv qs (sched_tick s)"
  by (simp add: sched_tick_def tick_cpus_inv)

text \<open>CPUs that run nothing take no part in a tick.\<close>

lemma tick_cpus_quiet:
  "(\<And>c. i \<le> c \<Longrightarrow> c < i + n \<Longrightarrow> current (cpus s c) = None) \<Longrightarrow> tick_cpus i n s = s"
proof (induction n arbitrary: i)
  case (Suc n)
  then have "tick_cpu i s = s" by (auto simp: tick_cpu_def)
  with Suc show ?case by simp
qed simp

lemma init_cpus_spec:
  "tasks (init_cpus a i n s) (Pool k) = tasks s (Pool k) \<and>
   time_slice (tasks (init_cpus a i n s) (Idle k)) = time_slice (tasks s (Idle k)) \<and>
   cpu_count (init_cpus a i n s) = cpu_count s \<and> next_task_id (init_cpus a i n s) = next_task_id s \<and>
   (\<forall>c. c < i \<or> i + n \<le> c \<longrightarrow> cpus (init_cpus a i n s) c = cpus s c) \<and>
   (\<forall>c. i \<le> c \<longrightarrow> c < i + n \<longrightarrow> run_queue (cpus (init_cpus a i n s) c) = None \<and>
      current (cpus (init_cpus a i n s) c) = None \<and> (online (cpus (init_cpus a i n s) c) \<longleftrightarrow> c = 0))"
proof (induction n arbitrary: i s)
  case (Suc n)
  note IH = Suc.IH [of "Suc i" "init_cpu a i s"]
  show ?case
  proof (intro conjI allI impI)
    fix c assume c: "i \<le> c" "c < i + Suc n"
    show "run_queue (cpus (init_cpus a i (Suc n) s) c) = None"
      "current (cpus (init_cpus a i (Suc n) s) c) = None"
      "online (cpus (init_cpus a i (Suc n) s) c) \<longleftrightarrow> c = 0"
      using IH c by (cases "c = i"; auto simp: init_cpu_def Let_def)+
  qed (use IH in \<open>auto simp: init_cpu_def Let_def\<close>)
qed simp

lemma init_inv:
  assumes s: "s = sched_init n ids sched_boot"
  shows "sched_inv (\<lambda>_. []) s" and "\<forall>c. current (cpus s c) = None" and "\<forall>c. online (cpus s c) \<longrightarrow> c = 0"
proof -
  define k where "k = (if MAX_CPUS < (if 0 < n then n else 1) then MAX_CPUS else (if 0 < n then n else 1))"
  define s0 where "s0 = sched_boot\<lparr>cpus := (\<lambda>_. zero_cpu), cpu_count := k,
      tasks := (\<lambda>r. case r of Pool _ \<Rightarrow> zero_task | Idle _ \<Rightarrow> tasks sched_boot r)\<rparr>"
  have k: "0 \<le> k" "k \<le> MAX_CPUS" by (auto simp: k_def MAX_CPUS_def)
  have eq: "s = init_cpus ids 0 (nat k) s0"
    by (simp add: s sched_init_def Let_def k_def s0_def)
  note spec = init_cpus_spec [of ids 0 "nat k" s0, folded eq]
  have z: "cpus s0 c = zero_cpu" for c by (simp add: s0_def)
  have all: "run_queue (cpus s c) = None \<and> current (cpus s c) = None \<and> (online (cpus s c) \<longrightarrow> c = 0)" for c
  proof (cases "c < nat k")
    case True with spec show ?thesis by auto
  next
    case False
    with spec have "cpus s c = zero_cpu" by (simp add: z)
    then show ?thesis by (simp add: zero_cpu_def)
  qed
  then show "\<forall>c. current (cpus s c) = None" "\<forall>c. online (cpus s c) \<longrightarrow> c = 0" by auto
  have n0: "next_task_id s = 0" "cpu_count s = k" "\<And>i. time_slice (tasks s (Idle i)) = 0"
    using init_cpus_spec [of ids 0 "nat k" s0, folded eq]
    by (simp_all add: s0_def sched_boot_def zero_task_def)
  show "sched_inv (\<lambda>_. []) s"
    using all n0 k by (simp add: sched_inv_def created_def)
qed

subsection \<open>Reachable states and repeated scheduling\<close>

text \<open>The states of the scheduler after \<open>sched_init\<close> and any calls of its interface.\<close>

inductive sched_reach :: "sched \<Rightarrow> bool" where
  reach_init: "sched_reach (sched_init n ids sched_boot)"
| reach_create: "sched_reach s \<Longrightarrow> sched_create_task name s = Some (r, s') \<Longrightarrow> sched_reach s'"
| reach_schedule: "sched_reach s \<Longrightarrow> sched_schedule s = Some s' \<Longrightarrow> sched_reach s'"
| reach_tick: "sched_reach s \<Longrightarrow> sched_reach (sched_tick s)"
| reach_smt: "sched_reach s \<Longrightarrow> sched_reach (sched_set_smt_aware e s)"

lemma create_full: "MAX_TASKS \<le> next_task_id s \<Longrightarrow> sched_create_task name s = Some (None, s)"
  by (simp add: sched_create_task_def)

lemma create_result:
  assumes inv: "sched_inv qs s" and res: "sched_create_task name s = Some (r, s')"
  shows "\<exists>qs'. sched_inv qs' s'"
proof (cases "MAX_TASKS \<le> next_task_id s")
  case True
  with res inv show ?thesis by (auto simp: create_full)
next
  case False
  moreover from this res have "length name < 64"
    by (auto simp: sched_create_task_def sched_strcpy_def Let_def split: if_splits)
  ultimately show ?thesis using sched_create_ex [OF inv, of name] res by auto
qed

lemma reach_inv: "sched_reach s \<Longrightarrow> \<exists>qs. sched_inv qs s"
proof (induction rule: sched_reach.induct)
  case (reach_init n ids)
  then show ?case using init_inv(1) by blast
next
  case (reach_create s name r s')
  then show ?case using create_result by blast
next
  case (reach_schedule s s')
  then show ?case by (metis option.inject schedule_rotates)
next
  case (reach_tick s)
  then show ?case using tick_inv by blast
next
  case (reach_smt s e)
  then show ?case by (auto simp: sched_set_smt_aware_def sched_inv_def)
qed

fun schedules :: "nat \<Rightarrow> sched \<Rightarrow> sched option" where
  "schedules 0 s = Some s"
| "schedules (Suc n) s = do { s' \<leftarrow> schedules n s; sched_schedule s' }"

lemma schedules_rotate:
  assumes "sched_inv qs s"
  shows "\<exists>s'. schedules n s = Some s' \<and> sched_inv (qs(0 := rotate n (qs 0))) s'"
proof (induction n)
  case 0
  with assms show ?case by (simp add: fun_upd_idem)
next
  case (Suc n)
  then obtain s' where s': "schedules n s = Some s'" "sched_inv (qs(0 := rotate n (qs 0))) s'"
    by blast
  from schedule_rotates [OF s'(2)] obtain s2 where "sched_schedule s' = Some s2"
      "sched_inv (qs(0 := rotate (Suc n) (qs 0))) s2" by (auto simp: rotate_def)
  with s'(1) show ?case by (auto simp: fun_upd_def)
qed

subsection \<open>Properties\<close>

text \<open>
  C6 (functional, scheduler). Round robin: calls of \<open>sched_schedule\<close> terminate, and after
  \<open>k + 1\<close> of them CPU 0 runs the task at position \<open>k\<close>, modulo the length, of the queue it
  started with, so that each stretch of as many calls as there are tasks runs every task once.
\<close>

theorem sched_round_robin:
  assumes inv: "sched_inv qs s" and tasks: "qs 0 \<noteq> []"
  shows "\<exists>s'. schedules (Suc k) s = Some s' \<and>
    current (cpus s' 0) = Some (qs 0 ! (k mod length (qs 0))) \<and>
    sched_inv (qs(0 := rotate (Suc k) (qs 0))) s'"
proof -
  obtain s' where s': "schedules k s = Some s'" "sched_inv (qs(0 := rotate k (qs 0))) s'"
    using schedules_rotate [OF inv] by blast
  have hd: "rotate k (qs 0) \<noteq> []" "hd (rotate k (qs 0)) = qs 0 ! (k mod length (qs 0))"
    using tasks by (simp_all add: hd_rotate_conv_nth)
  from schedule_rotates [OF s'(2)] obtain s2 where "sched_schedule s' = Some s2"
      "sched_inv (qs(0 := rotate (Suc k) (qs 0))) s2"
      "current (cpus s2 0) = Some (case rotate k (qs 0) of [] \<Rightarrow> Idle 0 | t # _ \<Rightarrow> t)"
    by (auto simp: rotate_def)
  moreover obtain t ts where "rotate k (qs 0) = t # ts" using hd(1) by (meson neq_Nil_conv)
  ultimately show ?thesis using s'(1) hd(2) by auto
qed

text \<open>
  In every well-formed state \<open>sched_create_task\<close> reports a full
  pool without changing anything, and otherwise puts the new task at the head of the queue of
  the least loaded eligible CPU, keeping the invariant.
\<close>

theorem sched_create_least_loaded:
  assumes inv: "sched_inv qs s" and name: "length name < 64"
  shows "if next_task_id s = MAX_TASKS then sched_create_task name s = Some (None, s)
    else \<exists>c s'. sched_create_task name s = Some (Some (Pool (next_task_id s)), s') \<and>
      least_eligible qs s c \<and> sched_inv (qs(c := Pool (next_task_id s) # qs c)) s'"
proof (cases "next_task_id s = MAX_TASKS")
  case False
  then have "next_task_id s < MAX_TASKS" using sched_invD(8) [OF inv] by simp
  from sched_create_ex [OF inv this name] False show ?thesis by auto
qed (simp add: create_full)

text \<open>
  C7 (safety, scheduler). In every state reachable through the interface the run queues are
  finite lists that share no task and together hold each created task, and every task is READY
  with 1 to 10 ticks left of its slice. Every call returns: \<open>sched_schedule\<close> and \<open>sched_yield\<close> end
  their walk over the queue, \<open>sched_create_task\<close> answers that no task is left when 256
  have been created, and creates one otherwise; its one failure is a name of 64 or more characters, which is
  copied behind the end of the name of the task. (The tick and the choice of the SMT
  mode are total.)
\<close>

theorem sched_reachable_ok:
  assumes "sched_reach s"
  shows "(\<exists>qs. (\<forall>c. chain (links s) (run_queue (cpus s c)) (qs c)) \<and> (\<Union>c. set (qs c)) = created s \<and>
      (\<forall>c d. c \<noteq> d \<longrightarrow> set (qs c) \<inter> set (qs d) = {})) \<and> (\<forall>r \<in> created s. task_ok (tasks s r)) \<and>
    (\<exists>s'. sched_schedule s = Some s') \<and> (\<exists>s'. sched_yield s = Some s') \<and>
    (\<forall>name. (next_task_id s = 256 \<longrightarrow> sched_create_task name s = Some (None, s)) \<and>
      (next_task_id s \<noteq> 256 \<longrightarrow> next_task_id s < 256 \<and>
        (if length name < 64
         then \<exists>s'. sched_create_task name s = Some (Some (Pool (next_task_id s)), s') \<and>
            created s' = insert (Pool (next_task_id s)) (created s)
         else sched_create_task name s = None)))"
proof -
  obtain qs where inv: "sched_inv qs s" using reach_inv [OF assms] by blast
  obtain s' where "sched_schedule s = Some s'" using schedule_rotates [OF inv] by metis
  moreover have "next_task_id s \<le> 256" using sched_invD(8) [OF inv] by (simp add: MAX_TASKS_def)
  moreover have "sched_create_task name s = Some (None, s)" if "next_task_id s = 256" for name
    using that by (intro create_full) (simp add: MAX_TASKS_def)
  moreover have "\<exists>s'. sched_create_task name s = Some (Some (Pool (next_task_id s)), s') \<and>
      created s' = insert (Pool (next_task_id s)) (created s)"
    if room: "next_task_id s < 256" and short: "length name < 64" for name
  proof -
    obtain c s' where c: "sched_create_task name s = Some (Some (Pool (next_task_id s)), s')"
        "next_task_id s' = Suc (next_task_id s)"
      using sched_create_ex [OF inv _ short] room by (auto simp: MAX_TASKS_def)
    then show ?thesis by (auto simp: created_def less_Suc_eq)
  qed
  moreover have "sched_create_task name s = None" if "next_task_id s < 256" "\<not> length name < 64" for name
    using that by (simp add: sched_create_task_def sched_strcpy_def Let_def MAX_TASKS_def)
  ultimately show ?thesis
    using inv unfolding sched_inv_def sched_yield_def by (auto simp: order_le_less)
qed

text \<open>
  Two tasks on the boot processor. The queue is \<open>[second, first]\<close>, as tasks are pushed in front.
\<close>

definition demo_sched :: sched where
  "demo_sched = snd (the (sched_create_task ''b'' (snd (the (sched_create_task ''a''
     (sched_init 1 (\<lambda>_. 0) sched_boot))))))"

lemma demo_sched_inv: "sched_inv ((\<lambda>_. [])(0 := [Pool 1, Pool 0])) demo_sched \<and> sched_reach demo_sched"
proof -
  let ?s = "sched_init 1 (\<lambda>_. 0) sched_boot"
  have n: "next_task_id ?s = 0" "cpu_count ?s = 1"
    by (simp_all add: sched_init_def init_cpu_def Let_def sched_boot_def MAX_CPUS_def)
  note inv = init_inv(1) [OF refl, of 1 "\<lambda>_. 0"]
  have zero: "c = 0" if "least_eligible qs s c" "cpu_count s = 1" for qs s c
    using that by (auto simp: least_eligible_def eligible_def split: if_splits)
  have cc: "cpu_count s' = cpu_count s" if "sched_create_task nm s = Some (r, s')" for nm s r s'
    using that by (auto simp: sched_create_task_def Let_def bind_eq_Some_conv split: if_splits)
  obtain c s1 where s1: "sched_create_task ''a'' ?s = Some (Some (Pool 0), s1)"
      "sched_inv ((\<lambda>_. [])(c := [Pool 0])) s1" "next_task_id s1 = 1" "least_eligible (\<lambda>_. []) ?s c"
    using sched_create_ex [OF inv, of "''a''"] n by (auto simp: MAX_TASKS_def)
  note cc1 = cc [OF s1(1)]
  have c: "c = 0" using zero [OF s1(4) n(2)] .
  obtain d s2 where s2: "sched_create_task ''b'' s1 = Some (Some (Pool 1), s2)"
      "sched_inv ((\<lambda>_. [])(0 := [Pool 0], d := Pool 1 # ((\<lambda>_. [])(0 := [Pool 0])) d)) s2"
      "least_eligible ((\<lambda>_. [])(0 := [Pool 0])) s1 d"
    using sched_create_ex [OF s1(2) [unfolded c], of "''b''"] s1(3) by (auto simp: MAX_TASKS_def)
  have d: "d = 0" using zero [OF s2(3)] cc1 n(2) by simp
  have "demo_sched = s2" by (simp add: demo_sched_def s1(1) s2(1))
  moreover have "sched_reach s2" using s1(1) s2(1) by (metis sched_reach.intros(1,2))
  ultimately show ?thesis using s2(2) d by simp
qed

theorem sched_round_robin_witness:
  "\<exists>s'. schedules 4 demo_sched = Some s' \<and> current (cpus s' 0) = Some (Pool 0)"
  using sched_round_robin [OF conjunct1 [OF demo_sched_inv], of 3]
  by (auto simp: eval_nat_numeral mod_Suc)

theorem sched_create_least_loaded_witness:
  "\<exists>r s'. sched_create_task ''c'' demo_sched = Some (r, s')"
  using sched_create_least_loaded [OF conjunct1 [OF demo_sched_inv], of "''c''"]
  by (auto split: if_splits)

theorem sched_reachable_ok_witness:
  "sched_schedule demo_sched \<noteq> None \<and> sched_create_task ''c'' demo_sched \<noteq> None"
proof -
  note ok = sched_reachable_ok [OF conjunct2 [OF demo_sched_inv]]
  have "sched_schedule demo_sched \<noteq> None" using ok by auto
  moreover have "sched_create_task ''c'' demo_sched \<noteq> None"
    using ok [THEN conjunct2, THEN conjunct2, THEN conjunct2, THEN conjunct2, THEN spec, of "''c''"]
    by (cases "next_task_id demo_sched = 256") auto
  ultimately show ?thesis by simp
qed

end
