(* ===== verification/Blk.thy ===== *)
theory Blk
  imports Links "HOL-Library.Multiset"
begin

text \<open>
  The block layer of \<^verbatim>\<open>core/blk.c\<close>: two request queues threaded through \<open>blk_request_t.next\<close>
  and the three I/O schedulers, of which \<open>blk_init\<close> selects mq-deadline in the configuration
  of \<^verbatim>\<open>include/autoconf.h\<close>. A request is a reference into the store of requests; a function
  pointer of \<open>iosched_t\<close> is a branch on the scheduler. The interface of a scheduler is the
  locale \<open>io_scheduler\<close>, interpreted for the three of them.
\<close>

subsection \<open>State and operations\<close>

type_synonym req_ref = nat

record blk_request =
  sector :: u64
  rcount :: u32
  buffer :: u64
  read :: int
  priority :: int
  deadline :: u64
  rnext :: "req_ref option"

datatype iosched = Mq_deadline | Kyber | Bfq

record blk =
  requests :: "req_ref \<Rightarrow> blk_request"
  read_queue :: "req_ref option"
  write_queue :: "req_ref option"
  current_scheduler :: "iosched option"

definition set_next :: "req_ref \<Rightarrow> req_ref option \<Rightarrow> blk \<Rightarrow> blk" where
  "set_next r nx s = s\<lparr>requests := (requests s)(r := requests s r\<lparr>rnext := nx\<rparr>)\<rparr>"

definition queue_of :: "req_ref \<Rightarrow> blk \<Rightarrow> req_ref option" where
  "queue_of req s = (if read (requests s req) \<noteq> 0 then read_queue s else write_queue s)"

definition set_queue_of :: "req_ref \<Rightarrow> req_ref option \<Rightarrow> blk \<Rightarrow> blk" where
  "set_queue_of req q s =
     (if read (requests s req) \<noteq> 0 then s\<lparr>read_queue := q\<rparr> else s\<lparr>write_queue := q\<rparr>)"

text \<open>The loop that passes every request whose deadline is not later.\<close>

partial_function (option) insert_point ::
  "(req_ref \<Rightarrow> blk_request) \<Rightarrow> u64 \<Rightarrow> req_ref \<Rightarrow> req_ref option" where
  "insert_point rq dl cur =
     (case rnext (rq cur) of
        None \<Rightarrow> Some cur
      | Some nx \<Rightarrow> if deadline (rq nx) \<le> dl then insert_point rq dl nx else Some cur)"

declare insert_point.simps [code]

definition mq_deadline_add :: "req_ref \<Rightarrow> blk \<Rightarrow> blk option" where
  "mq_deadline_add req s =
     (case queue_of req s of
        None \<Rightarrow> Some (set_queue_of req (Some req) (set_next req None s))
      | Some h \<Rightarrow>
          if deadline (requests s req) < deadline (requests s h) then
            Some (set_queue_of req (Some req) (set_next req (Some h) s))
          else do {
            cur \<leftarrow> insert_point (requests s) (deadline (requests s req)) h;
            let s1 = set_next req (rnext (requests s cur)) s;
            Some (set_next cur (Some req) s1)
          })"

definition mq_deadline_get_next :: "blk \<Rightarrow> req_ref option \<times> blk" where
  "mq_deadline_get_next s =
     (case read_queue s of
        Some req \<Rightarrow> (Some req, s\<lparr>read_queue := rnext (requests s req)\<rparr>)
      | None \<Rightarrow>
          (case write_queue s of
             Some req \<Rightarrow> (Some req, s\<lparr>write_queue := rnext (requests s req)\<rparr>)
           | None \<Rightarrow> (None, s)))"

definition kyber_add :: "req_ref \<Rightarrow> blk \<Rightarrow> blk option" where
  "kyber_add req s = mq_deadline_add req s"

definition kyber_get_next :: "blk \<Rightarrow> req_ref option \<times> blk" where
  "kyber_get_next s = mq_deadline_get_next s"

definition bfq_add :: "req_ref \<Rightarrow> blk \<Rightarrow> blk option" where
  "bfq_add req s = mq_deadline_add req s"

definition bfq_get_next :: "blk \<Rightarrow> req_ref option \<times> blk" where
  "bfq_get_next s = mq_deadline_get_next s"

definition blk_boot :: "(req_ref \<Rightarrow> blk_request) \<Rightarrow> blk" where
  "blk_boot rq = \<lparr>requests = rq, read_queue = None, write_queue = None, current_scheduler = None\<rparr>"

definition blk_init :: "blk \<Rightarrow> blk" where
  "blk_init s = s\<lparr>current_scheduler := Some Mq_deadline\<rparr>"

definition blk_submit_request :: "req_ref \<Rightarrow> blk \<Rightarrow> blk option" where
  "blk_submit_request req s =
     (case current_scheduler s of
        None \<Rightarrow> Some s
      | Some Mq_deadline \<Rightarrow> mq_deadline_add req s
      | Some Kyber \<Rightarrow> kyber_add req s
      | Some Bfq \<Rightarrow> bfq_add req s)"

definition blk_dispatch :: "blk \<Rightarrow> req_ref option \<times> blk" where
  "blk_dispatch s =
     (case current_scheduler s of
        None \<Rightarrow> (None, s)
      | Some Mq_deadline \<Rightarrow> mq_deadline_get_next s
      | Some Kyber \<Rightarrow> kyber_get_next s
      | Some Bfq \<Rightarrow> bfq_get_next s)"

subsection \<open>The interface of an I/O scheduler\<close>

text \<open>
  \<open>repr s xs\<close>: the requests pending in \<open>s\<close>, in the order in which they will be served. A new
  request enters somewhere in that order and moves no other request; the next one served is
  the first.
\<close>

locale io_scheduler =
  fixes add :: "'r \<Rightarrow> 's \<Rightarrow> 's option"
    and get_next :: "'s \<Rightarrow> 'r option \<times> 's"
    and repr :: "'s \<Rightarrow> 'r list \<Rightarrow> bool"
  assumes add_inserts: "repr s (xs @ ys) \<Longrightarrow> r \<notin> set (xs @ ys) \<Longrightarrow>
      \<exists>s' us vs. add r s = Some s' \<and> us @ vs = xs @ ys \<and> repr s' (us @ r # vs)"
    and get_empty: "repr s [] \<Longrightarrow> get_next s = (None, s)"
    and get_first: "repr s (x # xs) \<Longrightarrow> \<exists>s'. get_next s = (Some x, s') \<and> repr s' xs"
    and repr_distinct: "repr s xs \<Longrightarrow> distinct xs"

text \<open>A client submits requests and dispatches; it submits no request that is still pending.\<close>

datatype 'r io_call = Submit 'r | Dispatch

fun run_io :: "('r \<Rightarrow> 's \<Rightarrow> 's option) \<Rightarrow> ('s \<Rightarrow> 'r option \<times> 's) \<Rightarrow> 'r io_call list \<Rightarrow> 's \<Rightarrow>
    ('r list \<times> 's) option" where
  "run_io add get_next [] s = Some ([], s)"
| "run_io add get_next (Submit r # cs) s = do { s' \<leftarrow> add r s; run_io add get_next cs s' }"
| "run_io add get_next (Dispatch # cs) s =
     (let (r, s') = get_next s in do {
        (served, s2) \<leftarrow> run_io add get_next cs s';
        Some ((case r of None \<Rightarrow> [] | Some x \<Rightarrow> [x]) @ served, s2)
      })"

fun submitted :: "'r io_call list \<Rightarrow> 'r list" where
  "submitted [] = []"
| "submitted (Submit r # cs) = r # submitted cs"
| "submitted (Dispatch # cs) = submitted cs"

context io_scheduler begin

text \<open>Nothing is lost, duplicated or made up: what was pending or submitted is served or pending.\<close>

lemma run_conserves:
  assumes "repr s xs" and "distinct (xs @ submitted cs)"
  shows "\<exists>served s' ys. run_io add get_next cs s = Some (served, s') \<and> repr s' ys \<and>
    mset served + mset ys = mset xs + mset (submitted cs)"
  using assms
proof (induction cs arbitrary: s xs)
  case Nil
  then show ?case by auto
next
  case (Cons c cs)
  show ?case
  proof (cases c)
    case (Submit r)
    with Cons.prems add_inserts [of s xs "[]" r] obtain s' us vs where
      a: "add r s = Some s'" "us @ vs = xs" "repr s' (us @ r # vs)" by auto
    have "distinct ((us @ r # vs) @ submitted cs)" using Cons.prems(2) Submit a(2) by auto
    from Cons.IH [OF a(3) this] a Submit show ?thesis by auto
  next
    case Dispatch
    show ?thesis
    proof (cases xs)
      case Nil
      with Cons.IH [OF Cons.prems(1)] Cons.prems get_empty [of s] Dispatch show ?thesis by auto
    next
      case (Cons x xs')
      with Cons.prems(1) get_first obtain s' where g: "get_next s = (Some x, s')" "repr s' xs'"
        by blast
      have "distinct (xs' @ submitted cs)" using Cons.prems(2) Cons Dispatch by auto
      from Cons.IH [OF g(2) this] g(1) Cons Dispatch show ?thesis by auto
    qed
  qed
qed

lemma drain: "repr s xs \<Longrightarrow>
    \<exists>s'. run_io add get_next (replicate (length xs) Dispatch) s = Some (xs, s') \<and> repr s' []"
proof (induction xs arbitrary: s)
  case (Cons x xs)
  then obtain s' where "get_next s = (Some x, s')" "repr s' xs" using get_first by blast
  with Cons.IH [OF this(2)] show ?case by auto
qed auto

end

subsection \<open>The queues as sorted lists\<close>

definition rlinks :: "blk \<Rightarrow> req_ref \<Rightarrow> req_ref option" where
  "rlinks s = (\<lambda>r. rnext (requests s r))"

definition due :: "blk \<Rightarrow> req_ref \<Rightarrow> u64" where
  "due s r = deadline (requests s r)"

lemma set_next_simps [simp]:
  "rlinks (set_next r nx s) = (rlinks s)(r := nx)" "due (set_next r nx s) = due s"
  "read (requests (set_next r nx s) x) = read (requests s x)"
  "read_queue (set_next r nx s) = read_queue s" "write_queue (set_next r nx s) = write_queue s"
  by (auto simp: set_next_def rlinks_def due_def fun_eq_iff)

lemma set_queue_of_simps [simp]:
  "rlinks (set_queue_of r q s) = rlinks s" "due (set_queue_of r q s) = due s"
  "requests (set_queue_of r q s) = requests s"
  "read_queue (set_queue_of r q s) = (if read (requests s r) \<noteq> 0 then q else read_queue s)"
  "write_queue (set_queue_of r q s) = (if read (requests s r) \<noteq> 0 then write_queue s else q)"
  by (auto simp: set_queue_of_def rlinks_def due_def fun_eq_iff)

text \<open>Stable insertion by deadline: behind every request that is due no later.\<close>

definition insort_due :: "blk \<Rightarrow> req_ref \<Rightarrow> req_ref list \<Rightarrow> req_ref list" where
  "insort_due s r xs =
     takeWhile (\<lambda>x. due s x \<le> due s r) xs @ r # dropWhile (\<lambda>x. due s x \<le> due s r) xs"

lemma insort_due_sorted: "sorted (map (due s) xs) \<Longrightarrow> sorted (map (due s) (insort_due s r xs))"
proof (induction xs)
  case (Cons x xs)
  then show ?case
    by (auto simp: insort_due_def dest!: set_takeWhileD set_dropWhileD)
qed (simp add: insort_due_def)

lemma insort_due_set [simp]: "set (insort_due s r xs) = insert r (set xs)"
proof -
  have "set (takeWhile P xs) \<union> set (dropWhile P xs) = set xs" for P :: "req_ref \<Rightarrow> bool"
    by (metis set_append takeWhile_dropWhile_id)
  then show ?thesis by (auto simp: insort_due_def)
qed

lemma insert_point_chain:
  assumes "chain (rlinks s) (Some h) (h # xs)"
  shows "\<exists>us c. insert_point (requests s) dl h = Some c \<and>
    us @ [c] = h # takeWhile (\<lambda>x. due s x \<le> dl) xs"
  using assms
proof (induction xs arbitrary: h)
  case Nil
  then show ?case by (subst insert_point.simps) (simp add: rlinks_def)
next
  case (Cons x xs)
  then have nx: "rnext (requests s h) = Some x" by (simp add: rlinks_def)
  show ?case
  proof (cases "due s x \<le> dl")
    case True
    obtain us c where "insert_point (requests s) dl x = Some c"
        "us @ [c] = x # takeWhile (\<lambda>x. due s x \<le> dl) xs"
      using Cons.IH [of x] Cons.prems by auto
    moreover from this have "insert_point (requests s) dl h = Some c"
      using True nx by (subst insert_point.simps) (simp add: due_def)
    ultimately show ?thesis using True by (intro exI [of _ "h # us"] exI [of _ c]) auto
  next
    case False
    then show ?thesis using nx by (subst insert_point.simps) (simp add: due_def)
  qed
qed

text \<open>
  \<open>blk_inv rs ws s\<close>: \<open>rs\<close> and \<open>ws\<close> are the pending reads and writes, each sorted by deadline.
\<close>

definition blk_inv :: "req_ref list \<Rightarrow> req_ref list \<Rightarrow> blk \<Rightarrow> bool" where
  "blk_inv rs ws s \<longleftrightarrow>
     chain (rlinks s) (read_queue s) rs \<and> chain (rlinks s) (write_queue s) ws \<and>
     sorted (map (due s) rs) \<and> sorted (map (due s) ws) \<and>
     (\<forall>r \<in> set rs. read (requests s r) \<noteq> 0) \<and> (\<forall>r \<in> set ws. read (requests s r) = 0)"

lemma queue_insert:
  assumes ch: "chain (rlinks s) (queue_of req s) xs" and new: "req \<notin> set xs"
  shows "\<exists>s' q. mq_deadline_add req s = Some (set_queue_of req q s') \<and> 
    chain (rlinks s') q (insort_due s req xs) \<and> due s' = due s \<and>
    (\<forall>r. read (requests s' r) = read (requests s r)) \<and>
    read_queue s' = read_queue s \<and> write_queue s' = write_queue s \<and>
    (\<forall>r. r \<noteq> req \<longrightarrow> r \<notin> set xs \<longrightarrow> rlinks s' r = rlinks s r)"
proof (cases xs)
  case Nil
  with ch have "queue_of req s = None" by simp
  then show ?thesis
    by (intro exI [of _ "set_next req None s"] exI [of _ "Some req"])
      (simp add: mq_deadline_add_def insort_due_def Nil)
next
  case (Cons h hs)
  with ch have q: "queue_of req s = Some h" by simp
  show ?thesis
  proof (cases "due s req < due s h")
    case True
    then have "\<not> due s h \<le> due s req" by simp
    then have "insort_due s req xs = req # xs" by (simp add: insort_due_def Cons)
    with True show ?thesis using ch new q
      by (intro exI [of _ "set_next req (Some h) s"] exI [of _ "Some req"])
        (simp add: mq_deadline_add_def due_def)
  next
    case False
    let ?P = "\<lambda>x. due s x \<le> due s req"
    obtain us c where c: "insert_point (requests s) (due s req) h = Some c"
        "us @ [c] = h # takeWhile ?P hs"
      using insert_point_chain [of s h hs "due s req"] ch Cons q by auto
    have split: "xs = us @ c # dropWhile ?P hs"
    proof -
      have "xs = (us @ [c]) @ dropWhile ?P hs" unfolding c(2) Cons by simp
      then show ?thesis by simp
    qed
    have ins: "insort_due s req xs = us @ c # req # dropWhile ?P hs"
    proof -
      have "insort_due s req xs = (us @ [c]) @ req # dropWhile ?P hs"
        unfolding c(2) insort_due_def Cons using False by (simp add: not_less)
      then show ?thesis by simp
    qed
    have cin: "c \<in> set xs" using split by simp
    define s' where "s' = set_next c (Some req) (set_next req (rnext (requests s c)) s)"
    have same: "set_queue_of req (queue_of req s) s' = s'"
      by (simp add: set_queue_of_def queue_of_def s'_def set_next_def)
    have links: "rlinks s' = (rlinks s)(req := rlinks s c, c := Some req)"
      by (simp add: s'_def rlinks_def [of s])
    have "mq_deadline_add req s = Some s'"
      using False c(1) q by (simp add: mq_deadline_add_def due_def s'_def Let_def)
    moreover have "chain (rlinks s') (queue_of req s) (insort_due s req xs)"
      unfolding links ins using chain_insert_after [of "rlinks s" "queue_of req s" us c "dropWhile ?P hs" req]
        ch new split by simp
    moreover have "rlinks s' r = rlinks s r" if "r \<noteq> req" "r \<notin> set xs" for r
      using that cin by (auto simp: links)
    ultimately show ?thesis
      by (intro exI [of _ s'] exI [of _ "queue_of req s"]) (simp add: same, simp add: s'_def)
  qed
qed

text \<open>What a submission does to the two queues as lists.\<close>

lemma mq_add:
  assumes inv: "blk_inv rs ws s" and new: "req \<notin> set rs \<union> set ws"
  shows "\<exists>s'. mq_deadline_add req s = Some s' \<and>
    (if read (requests s req) \<noteq> 0 then blk_inv (insort_due s req rs) ws s'
     else blk_inv rs (insort_due s req ws) s')"
proof -
  have disj: "r \<in> set rs \<Longrightarrow> r \<notin> set ws" for r using inv by (auto simp: blk_inv_def)
  show ?thesis
proof (cases "read (requests s req) \<noteq> 0")
  case True
  with inv have ch: "chain (rlinks s) (queue_of req s) rs" by (simp add: blk_inv_def queue_of_def)
  obtain s' q where s': "mq_deadline_add req s = Some (set_queue_of req q s')"
      "chain (rlinks s') q (insort_due s req rs)" "due s' = due s"
      "\<And>r. read (requests s' r) = read (requests s r)" "write_queue s' = write_queue s"
      "\<And>r. r \<noteq> req \<Longrightarrow> r \<notin> set rs \<Longrightarrow> rlinks s' r = rlinks s r"
    using queue_insert [OF ch] new by auto
  have "chain (rlinks s') (write_queue s) ws \<longleftrightarrow> chain (rlinks s) (write_queue s) ws"
    using new disj s'(6) by (intro lseg_cong) (metis UnI1 UnI2)
  with True inv s'(1-5) show ?thesis by (auto simp: blk_inv_def insort_due_sorted)
next
  case False
  with inv have ch: "chain (rlinks s) (queue_of req s) ws" by (simp add: blk_inv_def queue_of_def)
  obtain s' q where s': "mq_deadline_add req s = Some (set_queue_of req q s')"
      "chain (rlinks s') q (insort_due s req ws)" "due s' = due s"
      "\<And>r. read (requests s' r) = read (requests s r)" "read_queue s' = read_queue s"
      "\<And>r. r \<noteq> req \<Longrightarrow> r \<notin> set ws \<Longrightarrow> rlinks s' r = rlinks s r"
    using queue_insert [OF ch] new by auto
  have "chain (rlinks s') (read_queue s) rs \<longleftrightarrow> chain (rlinks s) (read_queue s) rs"
    using new disj s'(6) by (intro lseg_cong) (metis UnI1 UnI2)
  with False inv s'(1-5) show ?thesis by (auto simp: blk_inv_def insort_due_sorted)
qed
qed

lemma mq_get:
  assumes "blk_inv rs ws s"
  shows "rs = [] \<Longrightarrow> ws = [] \<Longrightarrow> mq_deadline_get_next s = (None, s)"
    and "rs = r # rs' \<Longrightarrow> \<exists>s'. mq_deadline_get_next s = (Some r, s') \<and> blk_inv rs' ws s'"
    and "rs = [] \<Longrightarrow> ws = r # ws' \<Longrightarrow> \<exists>s'. mq_deadline_get_next s = (Some r, s') \<and> blk_inv [] ws' s'"
proof -
  have l: "rlinks (s\<lparr>read_queue := a\<rparr>) = rlinks s" "rlinks (s\<lparr>write_queue := a\<rparr>) = rlinks s"
    "due (s\<lparr>read_queue := a\<rparr>) = due s" "due (s\<lparr>write_queue := a\<rparr>) = due s" for a
    by (simp_all add: rlinks_def due_def fun_eq_iff)
  show "rs = [] \<Longrightarrow> ws = [] \<Longrightarrow> mq_deadline_get_next s = (None, s)"
    using assms by (simp add: blk_inv_def mq_deadline_get_next_def)
  show "rs = r # rs' \<Longrightarrow> \<exists>s'. mq_deadline_get_next s = (Some r, s') \<and> blk_inv rs' ws s'"
    "rs = [] \<Longrightarrow> ws = r # ws' \<Longrightarrow> \<exists>s'. mq_deadline_get_next s = (Some r, s') \<and> blk_inv [] ws' s'"
    using assms by (auto simp: blk_inv_def mq_deadline_get_next_def l) (auto simp: rlinks_def)
qed

subsection \<open>The three schedulers provide the interface\<close>

definition pending :: "blk \<Rightarrow> req_ref list \<Rightarrow> bool" where
  "pending s xs \<longleftrightarrow> (\<exists>rs ws. xs = rs @ ws \<and> blk_inv rs ws s)"

lemma pending_distinct: "pending s xs \<Longrightarrow> distinct xs"
  using chain_distinct by (fastforce simp: pending_def blk_inv_def)

lemma mq_pending_add:
  assumes "pending s (xs @ ys)" and new: "r \<notin> set (xs @ ys)"
  shows "\<exists>s' us vs. mq_deadline_add r s = Some s' \<and> us @ vs = xs @ ys \<and> pending s' (us @ r # vs)"
proof -
  obtain rs ws where inv: "xs @ ys = rs @ ws" "blk_inv rs ws s" using assms(1) by (auto simp: pending_def)
  then obtain s' where s': "mq_deadline_add r s = Some s'"
    "if read (requests s r) \<noteq> 0 then blk_inv (insort_due s r rs) ws s'
     else blk_inv rs (insort_due s r ws) s'"
    using mq_add [of rs ws s r] new by (metis set_append)
  let ?P = "\<lambda>x. due s x \<le> due s r"
  show ?thesis
  proof (cases "read (requests s r) \<noteq> 0")
    case True
    with s' have "pending s' (takeWhile ?P rs @ r # (dropWhile ?P rs @ ws))"
      unfolding pending_def by (intro exI [of _ "insort_due s r rs"] exI [of _ ws]) (auto simp: insort_due_def)
    then show ?thesis
      using s'(1) inv(1) by (metis append.assoc takeWhile_dropWhile_id)
  next
    case False
    with s' have "pending s' ((rs @ takeWhile ?P ws) @ r # dropWhile ?P ws)"
      unfolding pending_def by (intro exI [of _ rs] exI [of _ "insort_due s r ws"]) (auto simp: insort_due_def)
    then show ?thesis
      using s'(1) inv(1) by (metis append.assoc takeWhile_dropWhile_id)
  qed
qed

lemma mq_pending_get:
  "pending s [] \<Longrightarrow> mq_deadline_get_next s = (None, s)"
  "pending s (x # xs) \<Longrightarrow> \<exists>s'. mq_deadline_get_next s = (Some x, s') \<and> pending s' xs"
proof -
  show "pending s [] \<Longrightarrow> mq_deadline_get_next s = (None, s)"
    by (auto simp: pending_def mq_get(1))
  assume "pending s (x # xs)"
  then obtain rs ws where eq: "x # xs = rs @ ws" and inv: "blk_inv rs ws s" by (auto simp: pending_def)
  show "\<exists>s'. mq_deadline_get_next s = (Some x, s') \<and> pending s' xs"
  proof (cases rs)
    case Nil
    with mq_get(3) [OF inv, of x xs] eq show ?thesis unfolding pending_def by force
  next
    case (Cons r rs')
    with mq_get(2) [OF inv, of r rs'] eq show ?thesis unfolding pending_def by force
  qed
qed

interpretation mq: io_scheduler mq_deadline_add mq_deadline_get_next pending
  by unfold_locales (rule mq_pending_add mq_pending_get pending_distinct; assumption)+

lemma delegates:
  "kyber_add = mq_deadline_add" "kyber_get_next = mq_deadline_get_next"
  "bfq_add = mq_deadline_add" "bfq_get_next = mq_deadline_get_next"
  by (simp_all add: fun_eq_iff kyber_add_def kyber_get_next_def bfq_add_def bfq_get_next_def)

interpretation ky: io_scheduler kyber_add kyber_get_next pending
  unfolding delegates by (rule mq.io_scheduler_axioms)

interpretation bf: io_scheduler bfq_add bfq_get_next pending
  unfolding delegates by (rule mq.io_scheduler_axioms)

subsection \<open>Properties\<close>

lemma scheduler_ops:
  "current_scheduler s = Some Mq_deadline \<Longrightarrow> blk_submit_request r s = mq_deadline_add r s"
  "current_scheduler s = Some Mq_deadline \<Longrightarrow> blk_dispatch s = mq_deadline_get_next s"
  by (simp_all add: blk_submit_request_def blk_dispatch_def)

lemma mq_keeps_scheduler [frame]:
  "mq_deadline_add r s = Some s' \<Longrightarrow> current_scheduler s' = current_scheduler s"
  "current_scheduler (snd (mq_deadline_get_next s)) = current_scheduler s"
  by (auto simp: mq_deadline_add_def set_queue_of_def set_next_def mq_deadline_get_next_def Let_def
      bind_eq_Some_conv split: option.splits if_splits)

lemma run_io_blk:
  "current_scheduler s = Some Mq_deadline \<Longrightarrow>
    run_io blk_submit_request blk_dispatch cs s = run_io mq_deadline_add mq_deadline_get_next cs s"
proof (induction cs arbitrary: s)
  case (Cons c cs)
  show ?case
  proof (cases c)
    case (Submit r)
    with Cons show ?thesis
      by (cases "mq_deadline_add r s") (auto simp: scheduler_ops frame)
  next
    case Dispatch
    with Cons show ?thesis
      using mq_keeps_scheduler(2) [of s] by (cases "mq_deadline_get_next s") (auto simp: scheduler_ops)
  qed
qed simp

lemma blk_init_pending: "pending (blk_init (blk_boot rq)) []"
  by (simp add: pending_def blk_inv_def blk_init_def blk_boot_def)

text \<open>
  C8 (safety, block layer). After \<open>blk_init\<close>, any sequence of submissions of distinct requests
  and dispatches runs to its end, and each request submitted has then been dispatched exactly
  once or is pending exactly once: none is lost, served twice or made up.
\<close>

theorem blk_conserves_requests:
  assumes "distinct (submitted cs)"
  shows "\<exists>served s' ys.
    run_io blk_submit_request blk_dispatch cs (blk_init (blk_boot rq)) = Some (served, s') \<and>
    pending s' ys \<and> mset served + mset ys = mset (submitted cs)"
proof -
  have "current_scheduler (blk_init (blk_boot rq)) = Some Mq_deadline" by (simp add: blk_init_def)
  from run_io_blk [OF this] mq.run_conserves [OF blk_init_pending, of cs rq] assms show ?thesis by simp
qed

text \<open>
  C9 (functional, block layer). A submission to well-formed queues returns and inserts the
  request in its queue behind every request due no later (so equal deadlines keep arrival
  order), leaves the other queue alone and keeps both sorted; and dispatching until nothing is
  left then yields first all reads and then all writes in that order.
\<close>

theorem mq_deadline_order:
  assumes inv: "blk_inv rs ws s" and new: "req \<notin> set rs \<union> set ws"
  shows "\<exists>s'. mq_deadline_add req s = Some s' \<and>
    (let rs' = (if read (requests s req) \<noteq> 0 then insort_due s req rs else rs);
         ws' = (if read (requests s req) \<noteq> 0 then ws else insort_due s req ws)
     in blk_inv rs' ws' s' \<and>
        (\<exists>s2. run_io mq_deadline_add mq_deadline_get_next
           (replicate (length (rs' @ ws')) Dispatch) s' = Some (rs' @ ws', s2) \<and> pending s2 []))"
proof -
  obtain s' where s': "mq_deadline_add req s = Some s'"
    "if read (requests s req) \<noteq> 0 then blk_inv (insort_due s req rs) ws s'
     else blk_inv rs (insort_due s req ws) s'"
    using mq_add [OF inv new] by blast
  have dr: "\<exists>s2. run_io mq_deadline_add mq_deadline_get_next
      (replicate (length (as @ bs)) Dispatch) s' = Some (as @ bs, s2) \<and> pending s2 []"
    if "blk_inv as bs s'" for as bs
    using that by (intro mq.drain) (auto simp: pending_def)
  show ?thesis using s' dr by (auto simp: Let_def)
qed

definition demo_request :: "int \<Rightarrow> u64 \<Rightarrow> blk_request" where
  "demo_request rd dl = \<lparr>sector = 0, rcount = 1, buffer = 0, read = rd, priority = 0,
     deadline = dl, rnext = None\<rparr>"

theorem blk_conserves_requests_witness:
  "\<exists>served s' ys. run_io blk_submit_request blk_dispatch [Submit 0, Submit 1, Dispatch, Submit 2]
     (blk_init (blk_boot (\<lambda>r. demo_request 1 (of_nat r)))) = Some (served, s') \<and>
     mset served + mset ys = {#0, 1, 2#}"
  using blk_conserves_requests [of "[Submit 0, Submit 1, Dispatch, Submit 2]" "\<lambda>r. demo_request 1 (of_nat r)"]
  by (auto simp: add_mset_commute)

theorem mq_deadline_order_witness:
  "\<exists>s'. mq_deadline_add 7 (blk_boot (\<lambda>r. demo_request 0 5)) = Some s' \<and> blk_inv [] [7] s'"
proof -
  have "blk_inv [] [] (blk_boot (\<lambda>r. demo_request 0 5))" by (simp add: blk_inv_def blk_boot_def)
  from mq_deadline_order [OF this, of 7] show ?thesis
    by (auto simp: blk_boot_def demo_request_def insort_due_def Let_def)
qed

end
