(* ===== verification/Vfs.thy ===== *)
theory Vfs
  imports Prelude
begin

text \<open>
  The virtual file system of \<^verbatim>\<open>fs/vfs.c\<close> and \<^verbatim>\<open>include/vfs.h\<close>: file system registry, mount
  table, descriptor table, path resolution and the file operations. Nodes live in a store
  indexed by \<open>node_ref\<close>. A node's function pointers are tags of type \<open>fs_kind\<close>, NULL is
  \<open>None\<close>, and a table \<open>tbl\<close> from tags to functions is what the pointers point to; the theories
  of the file systems define its entries. Each file system extends the state record with its
  own variables. C strings are lists without the terminator; a copy into a fixed buffer cuts
  them as the code does. \<open>None\<close> is a fault (a NULL dereference); results of the C functions
  are the values inside \<open>Some\<close>.
\<close>

subsection \<open>State\<close>

definition VFS_FILE :: u32 where "VFS_FILE = 1"
definition VFS_DIRECTORY :: u32 where "VFS_DIRECTORY = 2"
definition VFS_MOUNTPOINT :: u32 where "VFS_MOUNTPOINT = 0x40"
definition O_CREAT :: u32 where "O_CREAT = 0x100"
definition O_APPEND :: u32 where "O_APPEND = 0x400"
definition MAX_MOUNTS :: nat where "MAX_MOUNTS = 16"
definition MAX_FDS :: nat where "MAX_FDS = 256"
definition MAX_FS_TYPES :: nat where "MAX_FS_TYPES = 16"

datatype fs_kind = Ramfs | Devfs | Procfs | Fat32

datatype node_ref = Ram nat | Dev_root | Dev nat | Proc_root | Proc nat | Heap u64

datatype fs_data = No_data | Ram_dir nat | Dev_data u64 | Proc_text nat | Fat_data u64

record vfs_node =
  node_name :: string
  inode :: u32
  node_size :: u32
  node_flags :: u32
  n_open :: "fs_kind option"
  n_close :: "fs_kind option"
  n_read :: "fs_kind option"
  n_write :: "fs_kind option"
  n_readdir :: "fs_kind option"
  n_finddir :: "fs_kind option"
  n_create :: "fs_kind option"
  n_unlink :: "fs_kind option"
  n_mkdir :: "fs_kind option"
  fs_data :: fs_data
  node_mount :: "nat option"

record mount_point =
  mp_path :: string
  mp_root :: "node_ref option"
  fs_private :: u64
  mp_refcount :: int

record file_descriptor =
  fd_node :: "node_ref option"
  fd_offset :: u64
  fd_flags :: u32
  fd_refcount :: int

record filesystem_type =
  fs_name :: string
  fs_mount :: "fs_kind option"
  fs_unmount :: "fs_kind option"

record dirent =
  d_inode :: u32
  d_name :: string
  d_type :: u8

record vfs =
  nodes :: "node_ref \<Rightarrow> vfs_node"
  g_mounts :: "nat \<Rightarrow> mount_point"
  g_mount_count :: nat
  g_fds :: "nat \<Rightarrow> file_descriptor"
  g_fs_types :: "nat \<Rightarrow> filesystem_type"
  g_fs_type_count :: nat
  g_vfs_root :: "node_ref option"

text \<open>The functions the pointers of one file system point to.\<close>

record 's fs_ops =
  f_mount :: "string \<Rightarrow> nat \<Rightarrow> 's \<Rightarrow> (int \<times> 's) option"
  f_open :: "node_ref \<Rightarrow> u32 \<Rightarrow> 's \<Rightarrow> (int \<times> 's) option"
  f_close :: "node_ref \<Rightarrow> 's \<Rightarrow> 's option"
  f_read :: "node_ref \<Rightarrow> u64 \<Rightarrow> u32 \<Rightarrow> 's \<Rightarrow> ((int \<times> u8 list) \<times> 's) option"
  f_write :: "node_ref \<Rightarrow> u64 \<Rightarrow> u8 list \<Rightarrow> 's \<Rightarrow> (int \<times> 's) option"
  f_readdir :: "node_ref \<Rightarrow> u32 \<Rightarrow> 's \<Rightarrow> (node_ref option \<times> 's) option"
  f_finddir :: "node_ref \<Rightarrow> string \<Rightarrow> 's \<Rightarrow> (node_ref option \<times> 's) option"
  f_create :: "node_ref \<Rightarrow> string \<Rightarrow> u32 \<Rightarrow> 's \<Rightarrow> (int \<times> 's) option"
  f_unlink :: "node_ref \<Rightarrow> string \<Rightarrow> 's \<Rightarrow> (int \<times> 's) option"
  f_mkdir :: "node_ref \<Rightarrow> string \<Rightarrow> 's \<Rightarrow> (int \<times> 's) option"

definition zero_node :: vfs_node where
  "zero_node = \<lparr>node_name = [], inode = 0, node_size = 0, node_flags = 0, n_open = None,
     n_close = None, n_read = None, n_write = None, n_readdir = None, n_finddir = None,
     n_create = None, n_unlink = None, n_mkdir = None, fs_data = No_data, node_mount = None\<rparr>"

definition zero_mount :: mount_point where
  "zero_mount = \<lparr>mp_path = [], mp_root = None, fs_private = 0, mp_refcount = 0\<rparr>"

definition zero_fd :: file_descriptor where
  "zero_fd = \<lparr>fd_node = None, fd_offset = 0, fd_flags = 0, fd_refcount = 0\<rparr>"

definition zero_fs_type :: filesystem_type where
  "zero_fs_type = \<lparr>fs_name = [], fs_mount = None, fs_unmount = None\<rparr>"

definition upd_node :: "node_ref \<Rightarrow> (vfs_node \<Rightarrow> vfs_node) \<Rightarrow> 'a vfs_scheme \<Rightarrow> 'a vfs_scheme" where
  "upd_node r f s = s\<lparr>nodes := (nodes s)(r := f (nodes s r))\<rparr>"

definition upd_mount :: "nat \<Rightarrow> (mount_point \<Rightarrow> mount_point) \<Rightarrow> 'a vfs_scheme \<Rightarrow> 'a vfs_scheme" where
  "upd_mount i f s = s\<lparr>g_mounts := (g_mounts s)(i := f (g_mounts s i))\<rparr>"

definition upd_fd :: "nat \<Rightarrow> (file_descriptor \<Rightarrow> file_descriptor) \<Rightarrow> 'a vfs_scheme \<Rightarrow> 'a vfs_scheme" where
  "upd_fd i f s = s\<lparr>g_fds := (g_fds s)(i := f (g_fds s i))\<rparr>"

subsection \<open>Strings\<close>

fun my_strcmp :: "string \<Rightarrow> string \<Rightarrow> int" where
  "my_strcmp (a # s1) (b # s2) =
     (if a = b then my_strcmp s1 s2 else int (of_char a) - int (of_char b))"
| "my_strcmp (a # s1) [] = int (of_char a)"
| "my_strcmp [] (b # s2) = - int (of_char b)"
| "my_strcmp [] [] = 0"

text \<open>\<open>my_strncpy\<close> into a buffer that is then terminated at index \<open>n\<close>.\<close>

definition my_strncpy :: "string \<Rightarrow> nat \<Rightarrow> string" where
  "my_strncpy src n = take n src"

text \<open>The scan for the last slash: what follows it, and what precedes it.\<close>

fun basename_scan :: "string \<Rightarrow> string \<Rightarrow> string" where
  "basename_scan [] last_slash = last_slash"
| "basename_scan (c # p) last_slash = basename_scan p (if c = CHR ''/'' then p else last_slash)"

definition vfs_basename :: "string \<Rightarrow> string" where
  "vfs_basename path = basename_scan path path"

fun last_slash_index :: "string \<Rightarrow> nat \<Rightarrow> nat option \<Rightarrow> nat option" where
  "last_slash_index [] i last_slash = last_slash"
| "last_slash_index (c # p) i last_slash =
     last_slash_index p (Suc i) (if c = CHR ''/'' then Some i else last_slash)"

definition vfs_dirname :: "string \<Rightarrow> nat \<Rightarrow> string" where
  "vfs_dirname path out_size =
     (case last_slash_index path 0 None of
        None \<Rightarrow> my_strncpy ''.'' out_size
      | Some len \<Rightarrow>
          let len = (if len = 0 then 1 else len);
              len = (if out_size \<le> len then out_size - 1 else len)
          in my_strncpy path len)"

subsection \<open>Registry and path resolution\<close>

definition vfs_init :: "'a vfs_scheme \<Rightarrow> 'a vfs_scheme" where
  "vfs_init s = s\<lparr>g_mounts := (\<lambda>_. zero_mount), g_fds := (\<lambda>_. zero_fd),
     g_fs_types := (\<lambda>_. zero_fs_type), g_mount_count := 0, g_fs_type_count := 0,
     g_vfs_root := None\<rparr>"

definition vfs_register_filesystem ::
  "string \<Rightarrow> fs_kind option \<Rightarrow> fs_kind option \<Rightarrow> 'a vfs_scheme \<Rightarrow> int \<times> 'a vfs_scheme" where
  "vfs_register_filesystem name mnt unmnt s =
     (if MAX_FS_TYPES \<le> g_fs_type_count s then (-1, s)
      else (0, s\<lparr>g_fs_types := (g_fs_types s)(g_fs_type_count s :=
                   \<lparr>fs_name = my_strncpy name 31, fs_mount = mnt, fs_unmount = unmnt\<rparr>),
                 g_fs_type_count := Suc (g_fs_type_count s)\<rparr>))"

fun find_fs_from :: "(nat \<Rightarrow> filesystem_type) \<Rightarrow> string \<Rightarrow> nat \<Rightarrow> nat \<Rightarrow> filesystem_type option" where
  "find_fs_from ts name i 0 = None"
| "find_fs_from ts name i (Suc n) =
     (if my_strcmp (fs_name (ts i)) name = 0 then Some (ts i) else find_fs_from ts name (Suc i) n)"

definition find_fs_type :: "string \<Rightarrow> 'a vfs_scheme \<Rightarrow> filesystem_type option" where
  "find_fs_type name s = find_fs_from (g_fs_types s) name 0 (g_fs_type_count s)"

text \<open>
  The next component of a path, in a buffer of 256 bytes, and the rest of the path after one
  slash. A component of more than 255 characters is cut and the rest taken for another one.
\<close>

definition next_component :: "string \<Rightarrow> string \<times> string" where
  "next_component p =
     (let comp = take 255 (takeWhile (\<lambda>c. c \<noteq> CHR ''/'') p);
          rest = drop (length comp) p
      in (comp, case rest of [] \<Rightarrow> [] | c # cs \<Rightarrow> if c = CHR ''/'' then cs else rest))"

lemma drop_eq_Cons: "drop k xs = y # ys \<Longrightarrow> length ys < length xs"
  by (metis Suc_le_eq diff_le_self length_Cons length_drop)

lemma next_component_shorter: "(c, r) = next_component p \<Longrightarrow> p \<noteq> [] \<Longrightarrow> length r < length p"
  by (cases p) (auto simp: next_component_def Let_def dest: drop_eq_Cons split: list.splits if_splits)

text \<open>The step from the node found to the root of what is mounted on it.\<close>

definition cross_mount :: "'a vfs_scheme \<Rightarrow> node_ref \<Rightarrow> node_ref option" where
  "cross_mount s nx =
     (if node_flags (nodes s nx) AND VFS_MOUNTPOINT \<noteq> 0
      then case node_mount (nodes s nx) of None \<Rightarrow> Some nx
           | Some m \<Rightarrow> mp_root (g_mounts s m)
      else Some nx)"

text \<open>The loop of \<open>vfs_resolve_path\<close>; \<open>cur\<close> is NULL when a mount has no root.\<close>

function resolve_from :: "(fs_kind \<Rightarrow> 'a vfs_scheme fs_ops) \<Rightarrow> string \<Rightarrow> node_ref option \<Rightarrow>
    'a vfs_scheme \<Rightarrow> (node_ref option \<times> 'a vfs_scheme) option" where
  "resolve_from tbl p cur s =
     (if p = [] then Some (cur, s)
      else
        let (comp, rest) = next_component p
        in if comp = [] then resolve_from tbl rest cur s
           else case cur of None \<Rightarrow> None
             | Some c \<Rightarrow>
               (case n_finddir (nodes s c) of None \<Rightarrow> Some (None, s)
                | Some k \<Rightarrow>
                  (case f_finddir (tbl k) c comp s of None \<Rightarrow> None
                   | Some (None, s1) \<Rightarrow> Some (None, s1)
                   | Some (Some nx, s1) \<Rightarrow>
                       resolve_from tbl rest (cross_mount s1 nx) s1)))"
  by pat_completeness auto

termination
  by (relation "measure (\<lambda>(tbl, p, cur, s). length p)")
    (auto intro: next_component_shorter)

declare resolve_from.simps [simp del]

definition vfs_resolve_path :: "(fs_kind \<Rightarrow> 'a vfs_scheme fs_ops) \<Rightarrow> string \<Rightarrow>
    'a vfs_scheme \<Rightarrow> (node_ref option \<times> 'a vfs_scheme) option" where
  "vfs_resolve_path tbl path s =
     (case g_vfs_root s of None \<Rightarrow> Some (None, s)
      | Some r \<Rightarrow>
          (case path of [] \<Rightarrow> Some (None, s)
           | c # p \<Rightarrow>
               if c \<noteq> CHR ''/'' then Some (None, s)
               else if p = [] then Some (Some r, s)
               else resolve_from tbl p (Some r) s))"

subsection \<open>Mounting\<close>

definition vfs_mount :: "(fs_kind \<Rightarrow> 'a vfs_scheme fs_ops) \<Rightarrow> string \<Rightarrow> string \<Rightarrow> string \<Rightarrow>
    'a vfs_scheme \<Rightarrow> (int \<times> 'a vfs_scheme) option" where
  "vfs_mount tbl path fstype device s =
     (if MAX_MOUNTS \<le> g_mount_count s then Some (-1, s)
      else case find_fs_type fstype s of None \<Rightarrow> Some (-1, s)
      | Some fs \<Rightarrow>
        let mp = g_mount_count s;
            s1 = upd_mount mp (\<lambda>_. \<lparr>mp_path = my_strncpy path 255, mp_root = None,
                   fs_private = 0, mp_refcount = 0\<rparr>) s
        in do {
          k \<leftarrow> fs_mount fs;
          (rc, s2) \<leftarrow> f_mount (tbl k) device mp s1;
          if rc \<noteq> 0 then Some (-1, s2)
          else if my_strcmp path ''/'' = 0 then do {
            r \<leftarrow> mp_root (g_mounts s2 mp);
            let s3 = upd_node r (\<lambda>x. x\<lparr>node_flags := node_flags x OR VFS_MOUNTPOINT,
                       node_mount := Some mp\<rparr>) (s2\<lparr>g_vfs_root := Some r\<rparr>);
            Some (0, s3\<lparr>g_mount_count := Suc mp\<rparr>)
          } else do {
            (mount_node, s3) \<leftarrow> vfs_resolve_path tbl path s2;
            (case mount_node of None \<Rightarrow> Some (-1, s3)
             | Some r \<Rightarrow>
                 if node_flags (nodes s3 r) AND VFS_DIRECTORY = 0 then Some (-1, s3)
                 else Some (0, (upd_node r (\<lambda>x. x\<lparr>node_flags := node_flags x OR VFS_MOUNTPOINT,
                        node_mount := Some mp\<rparr>) s3)\<lparr>g_mount_count := Suc mp\<rparr>))
          }
        })"

fun shift_mounts :: "nat \<Rightarrow> nat \<Rightarrow> (nat \<Rightarrow> mount_point) \<Rightarrow> nat \<Rightarrow> mount_point" where
  "shift_mounts j 0 ms = ms"
| "shift_mounts j (Suc n) ms = shift_mounts (Suc j) n (ms(j := ms (Suc j)))"

text \<open>\<open>n\<close> entries of the mount table are left to compare from \<open>i\<close> on.\<close>

fun unmount_from :: "string \<Rightarrow> nat \<Rightarrow> nat \<Rightarrow> 'a vfs_scheme \<Rightarrow> int \<times> 'a vfs_scheme" where
  "unmount_from path i 0 s = (-1, s)"
| "unmount_from path i (Suc n) s =
     (if my_strcmp (mp_path (g_mounts s i)) path = 0 then
        if 0 < mp_refcount (g_mounts s i) then (-1, s)
        else (0, s\<lparr>g_mounts := shift_mounts i (g_mount_count s - 1 - i) (g_mounts s),
                   g_mount_count := g_mount_count s - 1\<rparr>)
      else unmount_from path (Suc i) n s)"

definition vfs_unmount :: "string \<Rightarrow> 'a vfs_scheme \<Rightarrow> int \<times> 'a vfs_scheme" where
  "vfs_unmount path s = unmount_from path 0 (g_mount_count s) s"

subsection \<open>File operations\<close>

definition vfs_create :: "(fs_kind \<Rightarrow> 'a vfs_scheme fs_ops) \<Rightarrow> string \<Rightarrow>
    'a vfs_scheme \<Rightarrow> (int \<times> 'a vfs_scheme) option" where
  "vfs_create tbl path s = do {
     (parent, s1) \<leftarrow> vfs_resolve_path tbl (vfs_dirname path 256) s;
     (case parent of None \<Rightarrow> Some (-1, s1)
      | Some r \<Rightarrow>
        (case n_create (nodes s1 r) of None \<Rightarrow> Some (-1, s1)
         | Some k \<Rightarrow> f_create (tbl k) r (vfs_basename path) VFS_FILE s1))
   }"

definition vfs_unlink :: "(fs_kind \<Rightarrow> 'a vfs_scheme fs_ops) \<Rightarrow> string \<Rightarrow>
    'a vfs_scheme \<Rightarrow> (int \<times> 'a vfs_scheme) option" where
  "vfs_unlink tbl path s = do {
     (parent, s1) \<leftarrow> vfs_resolve_path tbl (vfs_dirname path 256) s;
     (case parent of None \<Rightarrow> Some (-1, s1)
      | Some r \<Rightarrow>
        (case n_unlink (nodes s1 r) of None \<Rightarrow> Some (-1, s1)
         | Some k \<Rightarrow> f_unlink (tbl k) r (vfs_basename path) s1))
   }"

definition vfs_mkdir :: "(fs_kind \<Rightarrow> 'a vfs_scheme fs_ops) \<Rightarrow> string \<Rightarrow>
    'a vfs_scheme \<Rightarrow> (int \<times> 'a vfs_scheme) option" where
  "vfs_mkdir tbl path s = do {
     (parent, s1) \<leftarrow> vfs_resolve_path tbl (vfs_dirname path 256) s;
     (case parent of None \<Rightarrow> Some (-1, s1)
      | Some r \<Rightarrow>
        (case n_mkdir (nodes s1 r) of None \<Rightarrow> Some (-1, s1)
         | Some k \<Rightarrow> f_mkdir (tbl k) r (vfs_basename path) s1))
   }"

fun free_fd_from :: "(nat \<Rightarrow> file_descriptor) \<Rightarrow> nat \<Rightarrow> nat \<Rightarrow> nat option" where
  "free_fd_from fds i 0 = None"
| "free_fd_from fds i (Suc n) =
     (if fd_refcount (fds i) = 0 then Some i else free_fd_from fds (Suc i) n)"

text \<open>The part of \<open>vfs_open\<close> after the node is known.\<close>

definition open_node :: "(fs_kind \<Rightarrow> 'a vfs_scheme fs_ops) \<Rightarrow> node_ref \<Rightarrow> u32 \<Rightarrow>
    'a vfs_scheme \<Rightarrow> (int \<times> 'a vfs_scheme) option" where
  "open_node tbl node flags s =
     (case free_fd_from (g_fds s) 3 (MAX_FDS - 3) of None \<Rightarrow> Some (-1, s)
      | Some fd \<Rightarrow> do {
          (rc, s1) \<leftarrow> (case n_open (nodes s node) of None \<Rightarrow> Some (0, s)
                      | Some k \<Rightarrow> f_open (tbl k) node flags s);
          if rc \<noteq> 0 then Some (-1, s1)
          else Some (int fd, upd_fd fd (\<lambda>_. \<lparr>fd_node = Some node,
                 fd_offset = (if flags AND O_APPEND \<noteq> 0 then ucast (node_size (nodes s1 node)) else 0),
                 fd_flags = flags, fd_refcount = 1\<rparr>) s1)
        })"

definition vfs_open :: "(fs_kind \<Rightarrow> 'a vfs_scheme fs_ops) \<Rightarrow> string \<Rightarrow> u32 \<Rightarrow>
    'a vfs_scheme \<Rightarrow> (int \<times> 'a vfs_scheme) option" where
  "vfs_open tbl path flags s = do {
     (node, s1) \<leftarrow> vfs_resolve_path tbl path s;
     if node = None \<and> flags AND O_CREAT \<noteq> 0 then do {
       (rc, s2) \<leftarrow> vfs_create tbl path s1;
       if rc \<noteq> 0 then Some (-1, s2)
       else do {
         (node, s3) \<leftarrow> vfs_resolve_path tbl path s2;
         (case node of None \<Rightarrow> Some (-1, s3) | Some r \<Rightarrow> open_node tbl r flags s3)
       }
     }
     else (case node of None \<Rightarrow> Some (-1, s1) | Some r \<Rightarrow> open_node tbl r flags s1)
   }"

definition bad_fd :: "int \<Rightarrow> 'a vfs_scheme \<Rightarrow> bool" where
  "bad_fd fd s \<longleftrightarrow> fd < 0 \<or> int MAX_FDS \<le> fd \<or> fd_refcount (g_fds s (nat fd)) = 0"

definition vfs_close :: "(fs_kind \<Rightarrow> 'a vfs_scheme fs_ops) \<Rightarrow> int \<Rightarrow>
    'a vfs_scheme \<Rightarrow> (int \<times> 'a vfs_scheme) option" where
  "vfs_close tbl fd s =
     (if bad_fd fd s then Some (-1, s)
      else
        let i = nat fd;
            s1 = upd_fd i (\<lambda>f. f\<lparr>fd_refcount := fd_refcount f - 1\<rparr>) s
        in if fd_refcount (g_fds s1 i) = 0 then do {
             s2 \<leftarrow> (case fd_node (g_fds s1 i) of None \<Rightarrow> Some s1
                   | Some r \<Rightarrow> (case n_close (nodes s1 r) of None \<Rightarrow> Some s1
                               | Some k \<Rightarrow> f_close (tbl k) r s1));
             Some (0, upd_fd i (\<lambda>f. f\<lparr>fd_node := None\<rparr>) s2)
           }
           else Some (0, s1))"

definition advance :: "nat \<Rightarrow> int \<Rightarrow> 'a vfs_scheme \<Rightarrow> 'a vfs_scheme" where
  "advance i n s =
     (if 0 < n then upd_fd i (\<lambda>f. f\<lparr>fd_offset := fd_offset f + of_int n\<rparr>) s else s)"

text \<open>The result of \<open>vfs_read\<close> is the returned number and the bytes stored in the buffer.\<close>

definition vfs_read :: "(fs_kind \<Rightarrow> 'a vfs_scheme fs_ops) \<Rightarrow> int \<Rightarrow> u64 \<Rightarrow>
    'a vfs_scheme \<Rightarrow> ((int \<times> u8 list) \<times> 'a vfs_scheme) option" where
  "vfs_read tbl fd count s =
     (if bad_fd fd s then Some ((-1, []), s)
      else case fd_node (g_fds s (nat fd)) of None \<Rightarrow> Some ((-1, []), s)
      | Some r \<Rightarrow>
        (case n_read (nodes s r) of None \<Rightarrow> Some ((-1, []), s)
         | Some k \<Rightarrow> do {
             ((n, bytes), s1) \<leftarrow> f_read (tbl k) r (fd_offset (g_fds s (nat fd))) (ucast count) s;
             Some ((n, bytes), advance (nat fd) n s1)
           }))"

definition vfs_write :: "(fs_kind \<Rightarrow> 'a vfs_scheme fs_ops) \<Rightarrow> int \<Rightarrow> u8 list \<Rightarrow>
    'a vfs_scheme \<Rightarrow> (int \<times> 'a vfs_scheme) option" where
  "vfs_write tbl fd buffer s =
     (if bad_fd fd s then Some (-1, s)
      else case fd_node (g_fds s (nat fd)) of None \<Rightarrow> Some (-1, s)
      | Some r \<Rightarrow>
        (case n_write (nodes s r) of None \<Rightarrow> Some (-1, s)
         | Some k \<Rightarrow> do {
             (n, s1) \<leftarrow> f_write (tbl k) r (fd_offset (g_fds s (nat fd)))
                          (take (length buffer mod 2 ^ 32) buffer) s;
             Some (n, advance (nat fd) n s1)
           }))"

definition vfs_seek :: "int \<Rightarrow> u64 \<Rightarrow> int \<Rightarrow> 'a vfs_scheme \<Rightarrow> int \<times> 'a vfs_scheme" where
  "vfs_seek fd offset whence s =
     (if bad_fd fd s then (-1, s)
      else if whence = 0 then (0, upd_fd (nat fd) (\<lambda>f. f\<lparr>fd_offset := offset\<rparr>) s)
      else if whence = 1 then (0, upd_fd (nat fd) (\<lambda>f. f\<lparr>fd_offset := fd_offset f + offset\<rparr>) s)
      else if whence = 2 then
        (0, case fd_node (g_fds s (nat fd)) of None \<Rightarrow> s
            | Some r \<Rightarrow> upd_fd (nat fd)
                (\<lambda>f. f\<lparr>fd_offset := ucast (node_size (nodes s r)) + offset\<rparr>) s)
      else (-1, s))"

definition vfs_tell :: "int \<Rightarrow> 'a vfs_scheme \<Rightarrow> u64" where
  "vfs_tell fd s = (if bad_fd fd s then - 1 else fd_offset (g_fds s (nat fd)))"

definition vfs_readdir :: "(fs_kind \<Rightarrow> 'a vfs_scheme fs_ops) \<Rightarrow> int \<Rightarrow>
    'a vfs_scheme \<Rightarrow> ((int \<times> dirent option) \<times> 'a vfs_scheme) option" where
  "vfs_readdir tbl fd s =
     (if bad_fd fd s then Some ((-1, None), s)
      else case fd_node (g_fds s (nat fd)) of None \<Rightarrow> Some ((-1, None), s)
      | Some r \<Rightarrow>
        (case n_readdir (nodes s r) of None \<Rightarrow> Some ((-1, None), s)
         | Some k \<Rightarrow> do {
             (child, s1) \<leftarrow> f_readdir (tbl k) r (ucast (fd_offset (g_fds s (nat fd)))) s;
             (case child of None \<Rightarrow> Some ((-1, None), s1)
              | Some c \<Rightarrow> Some ((0, Some \<lparr>d_inode = inode (nodes s1 c),
                    d_name = my_strncpy (node_name (nodes s1 c)) 255,
                    d_type = ucast (node_flags (nodes s1 c))\<rparr>), advance (nat fd) 1 s1))
           }))"

subsection \<open>Paths as lists of components\<close>

lemma str_cases_slash: "dropWhile (\<lambda>c. c \<noteq> a) p = [] \<or> (\<exists>r. dropWhile (\<lambda>c. c \<noteq> a) p = a # r)"
  by (induction p) auto

fun segments :: "string \<Rightarrow> string list" where
  "segments [] = [[]]"
| "segments (c # p) =
     (if c = CHR ''/'' then [] # segments p else (c # hd (segments p)) # tl (segments p))"

definition components :: "string \<Rightarrow> string list" where
  "components p = filter (\<lambda>x. x \<noteq> []) (segments p)"

lemma segments_unfold:
  "segments p = takeWhile (\<lambda>c. c \<noteq> CHR ''/'') p #
     (case dropWhile (\<lambda>c. c \<noteq> CHR ''/'') p of [] \<Rightarrow> [] | _ # r \<Rightarrow> segments r)"
proof (induction p)
  case (Cons c p)
  note h = arg_cong [OF Cons.IH, of hd, simplified list.sel] arg_cong [OF Cons.IH, of tl, simplified list.sel]
  show ?case
  proof (cases "c = CHR ''/''")
    case False then show ?thesis by (simp add: h)
  qed simp
qed simp

lemma components_Nil [simp]: "components [] = []"
  by (simp add: components_def)

lemma next_component_short:
  assumes "length (takeWhile (\<lambda>c. c \<noteq> CHR ''/'') p) \<le> 255"
  shows "next_component p = (takeWhile (\<lambda>c. c \<noteq> CHR ''/'') p,
    case dropWhile (\<lambda>c. c \<noteq> CHR ''/'') p of [] \<Rightarrow> [] | _ # r \<Rightarrow> r)"
proof -
  let ?w = "takeWhile (\<lambda>c. c \<noteq> CHR ''/'') p"
  have "drop (length ?w) p = dropWhile (\<lambda>c. c \<noteq> CHR ''/'') p" by (simp only: dropWhile_eq_drop)
  moreover have "take 255 ?w = ?w" using assms by (simp only: take_all)
  ultimately have "next_component p = (?w, case dropWhile (\<lambda>c. c \<noteq> CHR ''/'') p of [] \<Rightarrow> []
      | c # cs \<Rightarrow> if c = CHR ''/'' then cs else dropWhile (\<lambda>c. c \<noteq> CHR ''/'') p)"
    unfolding next_component_def Let_def by (simp only:)
  then show ?thesis
    using str_cases_slash [of "CHR ''/''" p] by (auto simp only: list.case refl if_True)
qed

lemma components_unfold:
  "components p = (let w = takeWhile (\<lambda>c. c \<noteq> CHR ''/'') p in if w = [] then [] else [w]) @
     (case dropWhile (\<lambda>c. c \<noteq> CHR ''/'') p of [] \<Rightarrow> [] | _ # r \<Rightarrow> components r)"
  unfolding components_def segments_unfold [of p] Let_def
  by (cases "dropWhile (\<lambda>c. c \<noteq> CHR ''/'') p") (simp_all only: filter.simps list.case append.simps split: if_split, simp_all)

lemma components_next:
  assumes "\<forall>x \<in> set (components p). length x \<le> 255" and "next_component p = (c, r)"
  shows "components p = (if c = [] then [] else [c]) @ components r"
proof -
  let ?w = "takeWhile (\<lambda>c. c \<noteq> CHR ''/'') p"
  have "?w = [] \<or> ?w \<in> set (components p)" unfolding components_unfold [of p] Let_def by simp
  then have "length ?w \<le> 255" using assms(1) by auto
  from next_component_short [OF this] assms(2)
  have "c = ?w" "r = (case dropWhile (\<lambda>c. c \<noteq> CHR ''/'') p of [] \<Rightarrow> [] | _ # r \<Rightarrow> r)" by simp_all
  then show ?thesis
    unfolding components_unfold [of p] Let_def
    by (cases "dropWhile (\<lambda>c. c \<noteq> CHR ''/'') p") (simp_all only: list.case components_Nil)
qed

text \<open>The components the loop of \<open>vfs_resolve_path\<close> sees, and when they are those of the path.\<close>

function chunks :: "string \<Rightarrow> string list" where
  "chunks p =
     (if p = [] then []
      else let (c, r) = next_component p in (if c = [] then [] else [c]) @ chunks r)"
  by pat_completeness auto

termination
  by (relation "measure length") (auto intro: next_component_shorter)

declare chunks.simps [simp del]

lemma chunks_components:
  "\<forall>x \<in> set (components p). length x \<le> 255 \<Longrightarrow> chunks p = components p"
proof (induction p rule: chunks.induct)
  case (1 p)
  show ?case
  proof (cases "p = []")
    case False
    obtain c r where n: "next_component p = (c, r)" by force
    note cs = components_next [OF "1.prems" n]
    have "chunks r = components r"
      using "1.IH" [OF False n [symmetric] refl] "1.prems" cs by auto
    with cs False n show ?thesis by (subst chunks.simps) simp
  qed (simp add: chunks.simps)
qed

text \<open>
  \<open>basename\<close> and \<open>dirname\<close>: what follows the last slash, and what precedes it.
\<close>

lemma basename_scan_split: "CHR ''/'' \<notin> set b \<Longrightarrow> basename_scan (d @ CHR ''/'' # b) x = b"
proof (induction d arbitrary: x)
  case Nil
  then have "basename_scan b y = y" for y by (induction b arbitrary: y) auto
  then show ?case by simp
qed simp

lemma last_slash_split:
  "CHR ''/'' \<notin> set b \<Longrightarrow> last_slash_index (d @ CHR ''/'' # b) i x = Some (i + length d)"
proof (induction d arbitrary: i x)
  case Nil
  then have "last_slash_index b j y = y" for j y by (induction b arbitrary: j y) auto
  then show ?case by simp
qed simp

lemma dir_base:
  assumes "CHR ''/'' \<notin> set b"
  shows "vfs_basename (d @ CHR ''/'' # b) = b"
    and "vfs_dirname (d @ CHR ''/'' # b) n = (if d = [] then take (min 1 (n - 1)) ''/'' else take (n - 1) d)"
proof -
  show "vfs_basename (d @ CHR ''/'' # b) = b" by (simp only: vfs_basename_def basename_scan_split [OF assms])
  note ls = last_slash_split [OF assms, of d 0 None]
  show "vfs_dirname (d @ CHR ''/'' # b) n = (if d = [] then take (min 1 (n - 1)) ''/'' else take (n - 1) d)"
  proof (cases d)
    case Nil
    with ls show ?thesis by (auto simp: vfs_dirname_def my_strncpy_def min_def)
  next
    case (Cons x xs)
    then show ?thesis
      unfolding vfs_dirname_def ls my_strncpy_def by (auto simp: Let_def not_le take_Cons split: nat.split)
  qed
qed

subsection \<open>Resolution without side effects\<close>

fun follow :: "(node_ref \<Rightarrow> string \<Rightarrow> node_ref option) \<Rightarrow> node_ref \<Rightarrow> string list \<Rightarrow> node_ref option" where
  "follow st c [] = Some c"
| "follow st c (x # xs) = (case st c x of None \<Rightarrow> None | Some d \<Rightarrow> follow st d xs)"

lemma follow_append:
  "follow st c (xs @ ys) = (case follow st c xs of None \<Rightarrow> None | Some d \<Rightarrow> follow st d ys)"
  by (induction xs arbitrary: c) (auto split: option.splits)

text \<open>
  One step of the resolution when \<open>look\<close> is what the file systems answer to a lookup, and the
  node a path names.
\<close>

definition lookup_step :: "('a vfs_scheme \<Rightarrow> node_ref \<Rightarrow> string \<Rightarrow> node_ref option) \<Rightarrow>
    'a vfs_scheme \<Rightarrow> node_ref \<Rightarrow> string \<Rightarrow> node_ref option" where
  "lookup_step look s c nm =
     (if n_finddir (nodes s c) = None then None
      else case look s c nm of None \<Rightarrow> None | Some nx \<Rightarrow> cross_mount s nx)"

definition named :: "('a vfs_scheme \<Rightarrow> node_ref \<Rightarrow> string \<Rightarrow> node_ref option) \<Rightarrow>
    'a vfs_scheme \<Rightarrow> string \<Rightarrow> node_ref option" where
  "named look s path =
     (case g_vfs_root s of None \<Rightarrow> None
      | Some r \<Rightarrow> if path = [] \<or> hd path \<noteq> CHR ''/'' then None
                  else follow (lookup_step look s) r (chunks (tl path)))"

text \<open>
  \<open>look\<close> is what the file systems answer to a lookup. Where answering changes nothing and no
  mounted file system lacks a root, a path names the node reached by its components.
\<close>

locale pure_lookup =
  fixes tbl :: "fs_kind \<Rightarrow> 'a vfs_scheme fs_ops"
    and look :: "'a vfs_scheme \<Rightarrow> node_ref \<Rightarrow> string \<Rightarrow> node_ref option"
    and ok :: "'a vfs_scheme \<Rightarrow> bool"
  assumes lookup: "ok s \<Longrightarrow> n_finddir (nodes s c) = Some k \<Longrightarrow>
      f_finddir (tbl k) c nm s = Some (look s c nm, s)"
    and rooted: "ok s \<Longrightarrow> node_mount (nodes s c) = Some m \<Longrightarrow> mp_root (g_mounts s m) \<noteq> None"
begin

abbreviation step :: "'a vfs_scheme \<Rightarrow> node_ref \<Rightarrow> string \<Rightarrow> node_ref option" where
  "step \<equiv> lookup_step look"

lemma resolve_follow:
  assumes "ok s"
  shows "resolve_from tbl p (Some c) s = Some (follow (step s) c (chunks p), s)"
proof (induction p arbitrary: c rule: chunks.induct)
  case (1 p)
  show ?case
  proof (cases "p = []")
    case True
    then show ?thesis by (simp add: resolve_from.simps chunks.simps)
  next
    case False
    obtain comp rest where n: "next_component p = (comp, rest)" by force
    note IH = "1.IH" [OF False n [symmetric] refl]
    have cs: "chunks p = (if comp = [] then [] else [comp]) @ chunks rest"
      using False n by (subst chunks.simps) simp
    have sm: "cross_mount s nx \<noteq> None" for nx
      using rooted [OF assms(1)] by (auto simp: cross_mount_def split: option.splits)
    show ?thesis
    proof (cases "comp = [] \<or> n_finddir (nodes s c) = None")
      case True
      show ?thesis
      proof (cases "comp = []")
        case True
        then show ?thesis using False n cs IH by (subst resolve_from.simps) simp
      next
        case nonempty: False
        with True have "step s c comp = None" by (simp add: lookup_step_def)
        with nonempty show ?thesis using True False n cs by (subst resolve_from.simps) simp
      qed
    next
      case nonempty: False
      then obtain k where k: "n_finddir (nodes s c) = Some k" by auto
      show ?thesis
      proof (cases "look s c comp")
        case None
        with k have "step s c comp = None" by (simp add: lookup_step_def)
        then show ?thesis using None False nonempty n cs k lookup [OF assms(1) k]
          by (subst resolve_from.simps) simp
      next
        case (Some nx)
        obtain d where d: "cross_mount s nx = Some d" using sm by auto
        with Some k have "step s c comp = Some d" by (simp add: lookup_step_def)
        then show ?thesis using d False nonempty n cs k lookup [OF assms(1) k] Some IH [of d]
          by (subst resolve_from.simps) simp
      qed
    qed
  qed
qed

lemma resolve_named: "ok s \<Longrightarrow> vfs_resolve_path tbl path s = Some (named look s path, s)"
  by (auto simp: vfs_resolve_path_def named_def resolve_follow chunks.simps split: option.splits list.splits)

lemma named_components:
  assumes "\<forall>x \<in> set (components p). length x \<le> 255" and "g_vfs_root s = Some r"
  shows "named look s (CHR ''/'' # p) = follow (step s) r (components p)"
  using chunks_components [OF assms(1)] assms(2) by (simp add: named_def)

end

subsection \<open>Descriptors\<close>

lemma free_fd_least:
  "free_fd_from fds i n = Some fd \<Longrightarrow> is_least (\<lambda>j. fd_refcount (fds j) = 0) i fd \<and> fd < i + n"
  by (induction n arbitrary: i) (fastforce intro: is_least_start is_least_step split: if_splits)+

lemma free_fd_none:
  "free_fd_from fds i n = None \<Longrightarrow> i \<le> j \<Longrightarrow> j < i + n \<Longrightarrow> fd_refcount (fds j) \<noteq> 0"
proof (induction n arbitrary: i)
  case (Suc n)
  then show ?case by (cases "j = i") (auto split: if_splits)
qed simp

lemma upd_fd_simps [simp]:
  "nodes (upd_fd i f s) = nodes s" "g_mounts (upd_fd i f s) = g_mounts s"
  "g_mount_count (upd_fd i f s) = g_mount_count s" "g_fds (upd_fd i f s) = (g_fds s)(i := f (g_fds s i))"
  "g_fs_types (upd_fd i f s) = g_fs_types s" "g_fs_type_count (upd_fd i f s) = g_fs_type_count s"
  "g_vfs_root (upd_fd i f s) = g_vfs_root s"
  by (simp_all add: upd_fd_def)

text \<open>
  What opening does to the descriptor table: the lowest free descriptor from 3 on is given to
  the node of the path and nothing else changes, or \<open>-1\<close> is returned and nothing changes.
\<close>

definition opened :: "string \<Rightarrow> u32 \<Rightarrow> 'a vfs_scheme \<Rightarrow> int \<Rightarrow> 'a vfs_scheme \<Rightarrow> bool" where
  "opened path flags s rc s' \<longleftrightarrow>
     (if rc = -1 then g_fds s' = g_fds s
      else \<exists>i n. rc = int i \<and> i < MAX_FDS \<and> is_least (\<lambda>j. fd_refcount (g_fds s j) = 0) 3 i \<and>
        g_fds s' = (g_fds s)(i := \<lparr>fd_node = Some n, fd_offset =
          (if flags AND O_APPEND \<noteq> 0 then ucast (node_size (nodes s' n)) else 0),
          fd_flags = flags, fd_refcount = 1\<rparr>))"

subsection \<open>File systems whose calls return\<close>

text \<open>
  What the file operations need of the file systems: a call through a pointer of a node
  returns and keeps the invariant \<open>ok\<close>, which does not depend on the descriptor table.
\<close>

locale safe_fs = pure_lookup +
  assumes fds: "ok s \<Longrightarrow> ok (upd_fd i f s)"
    and create_safe: "ok s \<Longrightarrow> n_create (nodes s c) = Some k \<Longrightarrow>
      \<exists>rc s'. f_create (tbl k) c nm fl s = Some (rc, s') \<and> ok s' \<and> g_fds s' = g_fds s"
    and mkdir_safe: "ok s \<Longrightarrow> n_mkdir (nodes s c) = Some k \<Longrightarrow>
      \<exists>rc s'. f_mkdir (tbl k) c nm s = Some (rc, s') \<and> ok s'"
    and unlink_safe: "ok s \<Longrightarrow> n_unlink (nodes s c) = Some k \<Longrightarrow>
      \<exists>rc s'. f_unlink (tbl k) c nm s = Some (rc, s') \<and> ok s'"
    and open_safe: "ok s \<Longrightarrow> n_open (nodes s c) = Some k \<Longrightarrow>
      \<exists>rc s'. f_open (tbl k) c fl s = Some (rc, s') \<and> ok s' \<and> g_fds s' = g_fds s"
    and close_safe: "ok s \<Longrightarrow> n_close (nodes s c) = Some k \<Longrightarrow> \<exists>s'. f_close (tbl k) c s = Some s' \<and> ok s'"
    and read_safe: "ok s \<Longrightarrow> n_read (nodes s c) = Some k \<Longrightarrow>
      \<exists>r s'. f_read (tbl k) c off cnt s = Some (r, s') \<and> ok s'"
    and write_safe: "ok s \<Longrightarrow> n_write (nodes s c) = Some k \<Longrightarrow>
      \<exists>rc s'. f_write (tbl k) c off buf s = Some (rc, s') \<and> ok s'"
    and readdir_safe: "ok s \<Longrightarrow> n_readdir (nodes s c) = Some k \<Longrightarrow>
      \<exists>r s'. f_readdir (tbl k) c idx s = Some (r, s') \<and> ok s'"
begin

abbreviation returns :: "('r \<times> 'a vfs_scheme) option \<Rightarrow> bool" where
  "returns res \<equiv> \<exists>r s'. res = Some (r, s') \<and> ok s'"

lemma create_ex: "ok s \<Longrightarrow> \<exists>rc s'. vfs_create tbl path s = Some (rc, s') \<and> ok s' \<and> g_fds s' = g_fds s"
  using create_safe [of s] by (auto simp: vfs_create_def resolve_named split: option.splits)

lemma create_returns: "ok s \<Longrightarrow> returns (vfs_create tbl path s)"
  using create_ex by blast

lemma mkdir_returns: "ok s \<Longrightarrow> returns (vfs_mkdir tbl path s)"
  using mkdir_safe [of s] by (auto simp: vfs_mkdir_def resolve_named split: option.splits)

lemma unlink_returns: "ok s \<Longrightarrow> returns (vfs_unlink tbl path s)"
  using unlink_safe [of s] by (auto simp: vfs_unlink_def resolve_named split: option.splits)

lemma open_node_returns: "ok s \<Longrightarrow> returns (open_node tbl r flags s)"
proof -
  assume ok: "ok s"
  show ?thesis
  proof (cases "free_fd_from (g_fds s) 3 (MAX_FDS - 3)")
    case None
    then show ?thesis using ok by (simp add: open_node_def)
  next
    case (Some fd)
    obtain rc s1 where "(case n_open (nodes s r) of None \<Rightarrow> Some (0, s)
        | Some k \<Rightarrow> f_open (tbl k) r flags s) = Some (rc, s1)" "ok s1"
    proof (cases "n_open (nodes s r)")
      case (Some k)
      then show thesis using that open_safe [OF ok Some, of flags] by auto
    qed (use that ok in simp)
    then show ?thesis using Some fds by (simp add: open_node_def)
  qed
qed

lemma open_returns: "ok s \<Longrightarrow> returns (vfs_open tbl path flags s)"
proof -
  assume ok: "ok s"
  obtain rc s2 where c: "vfs_create tbl path s = Some (rc, s2)" "ok s2"
    using create_returns [OF ok] by blast
  show ?thesis
    using open_node_returns [OF ok] open_node_returns [OF c(2)] c ok
    by (auto simp: vfs_open_def resolve_named split: option.splits)
qed

lemma open_node_opened:
  assumes ok: "ok s" and res: "open_node tbl r flags s = Some (rc, s')"
  shows "opened path flags s rc s'"
proof (cases "free_fd_from (g_fds s) 3 (MAX_FDS - 3)")
  case None
  then show ?thesis using res by (simp add: open_node_def opened_def)
next
  case (Some fd)
  note least = free_fd_least [OF Some]
  obtain rc1 s1 where o: "(case n_open (nodes s r) of None \<Rightarrow> Some (0, s)
      | Some k \<Rightarrow> f_open (tbl k) r flags s) = Some (rc1, s1)" "g_fds s1 = g_fds s"
  proof (cases "n_open (nodes s r)")
    case (Some k)
    then show thesis using that open_safe [OF ok Some, of flags] by auto
  qed (use that in simp)
  then show ?thesis
    using Some res least unfolding open_node_def opened_def
    by (auto simp: MAX_FDS_def split: if_splits)
qed

lemma open_opened:
  assumes ok: "ok s" and res: "vfs_open tbl path flags s = Some (rc, s')"
  shows "opened path flags s rc s'"
proof -
  obtain c s2 where c: "vfs_create tbl path s = Some (c, s2)" "ok s2" "g_fds s2 = g_fds s"
    using create_ex [OF ok] by blast
  have fds: "opened path flags s rc s'" if "opened path flags s2 rc s'" 
    using that unfolding opened_def c(3) .
  show ?thesis
    using res c open_node_opened [OF ok] fds [OF open_node_opened [OF c(2)]]
      resolve_named [OF ok, of path] resolve_named [OF c(2), of path]
    by (auto simp: vfs_open_def opened_def [of _ _ _ "-1"] split: option.splits if_splits)
qed

lemma close_returns: "ok s \<Longrightarrow> returns (vfs_close tbl fd s)"
proof -
  assume ok: "ok s"
  define s1 where "s1 = upd_fd (nat fd) (\<lambda>f. f\<lparr>fd_refcount := fd_refcount f - 1\<rparr>) s"
  have ok1: "ok s1" using ok by (simp add: s1_def fds)
  obtain s2 where "(case fd_node (g_fds s1 (nat fd)) of None \<Rightarrow> Some s1
      | Some r \<Rightarrow> (case n_close (nodes s1 r) of None \<Rightarrow> Some s1
                  | Some k \<Rightarrow> f_close (tbl k) r s1)) = Some s2" "ok s2"
  proof (cases "fd_node (g_fds s1 (nat fd))")
    case (Some r)
    show thesis
    proof (cases "n_close (nodes s1 r)")
      case None
      then show thesis using that [of s1] Some ok1 by simp
    next
      case (Some k)
      then show thesis using that close_safe [OF ok1 Some] \<open>fd_node (g_fds s1 (nat fd)) = Some r\<close> by auto
    qed
  qed (use that ok1 in simp)
  then show ?thesis
    using ok ok1 fds unfolding vfs_close_def Let_def s1_def [symmetric] by auto
qed

lemma advance_ok: "ok s \<Longrightarrow> ok (advance i n s)"
  by (simp add: advance_def fds)

lemma read_returns: "ok s \<Longrightarrow> returns (vfs_read tbl fd count s)"
proof -
  assume ok: "ok s"
  show ?thesis
  proof (cases "\<exists>r k. \<not> bad_fd fd s \<and> fd_node (g_fds s (nat fd)) = Some r \<and> n_read (nodes s r) = Some k")
    case True
    then obtain r k where rk: "\<not> bad_fd fd s" "fd_node (g_fds s (nat fd)) = Some r"
      "n_read (nodes s r) = Some k" by blast
    obtain x s1 where x: "f_read (tbl k) r (fd_offset (g_fds s (nat fd))) (ucast count) s = Some (x, s1)" "ok s1"
      using read_safe [OF ok rk(3)] by blast
    then show ?thesis using rk advance_ok [OF x(2)] ok by (auto simp: vfs_read_def split: prod.split option.split)
  next
    case False
    then show ?thesis using ok by (auto simp: vfs_read_def split: option.split)
  qed
qed

lemma write_returns: "ok s \<Longrightarrow> returns (vfs_write tbl fd buffer s)"
proof -
  assume ok: "ok s"
  show ?thesis
  proof (cases "\<exists>r k. \<not> bad_fd fd s \<and> fd_node (g_fds s (nat fd)) = Some r \<and> n_write (nodes s r) = Some k")
    case True
    then obtain r k where rk: "\<not> bad_fd fd s" "fd_node (g_fds s (nat fd)) = Some r"
      "n_write (nodes s r) = Some k" by blast
    obtain x s1 where x: "f_write (tbl k) r (fd_offset (g_fds s (nat fd))) (take (length buffer mod 2 ^ 32) buffer) s = Some (x, s1)" "ok s1"
      using write_safe [OF ok rk(3)] by blast
    then show ?thesis using rk advance_ok [OF x(2)] ok by (auto simp: vfs_write_def split: prod.split option.split)
  next
    case False
    then show ?thesis using ok by (auto simp: vfs_write_def split: option.split)
  qed
qed

lemma readdir_returns: "ok s \<Longrightarrow> returns (vfs_readdir tbl fd s)"
proof -
  assume ok: "ok s"
  show ?thesis
  proof (cases "\<exists>r k. \<not> bad_fd fd s \<and> fd_node (g_fds s (nat fd)) = Some r \<and> n_readdir (nodes s r) = Some k")
    case True
    then obtain r k where rk: "\<not> bad_fd fd s" "fd_node (g_fds s (nat fd)) = Some r"
      "n_readdir (nodes s r) = Some k" by blast
    obtain x s1 where x: "f_readdir (tbl k) r (ucast (fd_offset (g_fds s (nat fd)))) s = Some (x, s1)" "ok s1"
      using readdir_safe [OF ok rk(3)] by blast
    then show ?thesis using rk advance_ok [OF x(2)] ok by (auto simp: vfs_readdir_def split: prod.split option.split)
  next
    case False
    then show ?thesis using ok by (auto simp: vfs_readdir_def split: option.split)
  qed
qed

lemma seek_ok: "ok s \<Longrightarrow> ok (snd (vfs_seek fd off wh s))"
  using fds by (auto simp: vfs_seek_def split: option.splits)

end

subsection \<open>Reading a file to its end\<close>

text \<open>
  A readable stream: \<open>rest s xs\<close> says that \<open>xs\<close> is left to read in \<open>s\<close>; a read takes a prefix of it of
  the requested length, or all of it. The client reads until it gets nothing.
\<close>

locale byte_stream =
  fixes rd :: "u64 \<Rightarrow> 's \<Rightarrow> ((int \<times> u8 list) \<times> 's) option"
    and rest :: "'s \<Rightarrow> u8 list \<Rightarrow> bool"
    and limit :: "u64 \<Rightarrow> nat"
  assumes read_prefix: "rest s xs \<Longrightarrow> \<exists>s'. rd cnt s =
      Some ((int (length (take (limit cnt) xs)), take (limit cnt) xs), s') \<and>
      rest s' (drop (limit cnt) xs)"

fun read_loop :: "(u64 \<Rightarrow> 's \<Rightarrow> ((int \<times> u8 list) \<times> 's) option) \<Rightarrow> u64 \<Rightarrow> nat \<Rightarrow> 's \<Rightarrow>
    (u8 list \<times> 's) option" where
  "read_loop rd cnt 0 s = None"
| "read_loop rd cnt (Suc fuel) s = do {
     ((n, b), s1) \<leftarrow> rd cnt s;
     if n \<le> 0 then Some ([], s1)
     else do { (bs, s2) \<leftarrow> read_loop rd cnt fuel s1; Some (b @ bs, s2) }
   }"

context byte_stream begin

lemma read_loop_all:
  assumes "rest s xs" and "0 < limit cnt" and "length xs < fuel"
  shows "\<exists>s'. read_loop rd cnt fuel s = Some (xs, s') \<and> rest s' []"
  using assms
proof (induction fuel arbitrary: s xs)
  case (Suc fuel)
  obtain s1 where s1: "rd cnt s =
      Some ((int (length (take (limit cnt) xs)), take (limit cnt) xs), s1)"
      "rest s1 (drop (limit cnt) xs)" using read_prefix [OF Suc.prems(1)] by blast
  show ?case
  proof (cases "xs = []")
    case True
    then show ?thesis using s1 by simp
  next
    case False
    then have "length (drop (limit cnt) xs) < fuel"
      using Suc.prems(2,3) by (cases xs) auto
    from Suc.IH [OF s1(2) Suc.prems(2) this] obtain s2 where
      "read_loop rd cnt fuel s1 = Some (drop (limit cnt) xs, s2)" "rest s2 []" by blast
    then show ?thesis using s1 False Suc.prems(2) by simp
  qed
qed simp

end

subsection \<open>Unmounting\<close>

lemma shift_mounts_apply:
  "shift_mounts j n ms = (\<lambda>m. if j \<le> m \<and> m < j + n then ms (Suc m) else ms m)"
  by (induction n arbitrary: j ms) (auto simp: fun_eq_iff)

lemma unmount_from_Some:
  "unmount_from path i n s = (0, s') \<Longrightarrow> \<exists>j. i \<le> j \<and> j < i + n \<and>
     my_strcmp (mp_path (g_mounts s j)) path = 0 \<and> mp_refcount (g_mounts s j) \<le> 0 \<and>
     s' = s\<lparr>g_mounts := shift_mounts j (g_mount_count s - 1 - j) (g_mounts s),
            g_mount_count := g_mount_count s - 1\<rparr>"
proof (induction n arbitrary: i)
  case (Suc n)
  show ?case
  proof (cases "my_strcmp (mp_path (g_mounts s i)) path = 0")
    case True
    with Suc.prems show ?thesis by (intro exI [of _ i]) (auto split: if_splits)
  next
    case False
    with Suc.prems have "unmount_from path (Suc i) n s = (0, s')" by simp
    from Suc.IH [OF this] show ?thesis by (auto intro: Suc_leD)
  qed
qed simp

text \<open>
  A successful \<open>vfs_unmount\<close> removes an entry of the mount
  table whose path is the one given, by shifting those behind it, but does not touch any node:
  the directory it was mounted on still crosses into a mount, and each node that indexes the
  entry removed or one behind it, except the last, now crosses into the file system mounted
  after its own.
\<close>

theorem unmount_misdirects:
  assumes "vfs_unmount path s = (0, s')"
  shows "\<exists>i < g_mount_count s. my_strcmp (mp_path (g_mounts s i)) path = 0 \<and>
    g_mount_count s' = g_mount_count s - 1 \<and> nodes s' = nodes s \<and>
    (\<forall>r m. node_flags (nodes s r) AND VFS_MOUNTPOINT \<noteq> 0 \<longrightarrow> node_mount (nodes s r) = Some m \<longrightarrow>
      cross_mount s' r = mp_root (g_mounts s (if i \<le> m \<and> Suc m < g_mount_count s then Suc m else m)))"
proof -
  obtain i where i: "i < g_mount_count s" "my_strcmp (mp_path (g_mounts s i)) path = 0"
    and s': "s' = s\<lparr>g_mounts := shift_mounts i (g_mount_count s - 1 - i) (g_mounts s),
      g_mount_count := g_mount_count s - 1\<rparr>"
    using unmount_from_Some [OF assms [unfolded vfs_unmount_def]] by auto
  then show ?thesis
    by (intro exI [of _ i]) (auto simp: cross_mount_def shift_mounts_apply)
qed

definition demo_mounted :: vfs where
  "demo_mounted = \<lparr>nodes = (\<lambda>r. zero_node\<lparr>node_flags := 66, node_mount := (case r of Ram i \<Rightarrow> Some i | _ \<Rightarrow> None)\<rparr>),
     g_mounts = (\<lambda>i. zero_mount\<lparr>mp_path := (if i = 0 then ''/'' else if i = 1 then ''/a'' else ''/b''),
       mp_root := Some (if i = 0 then Ram 0 else if i = 1 then Dev_root else Proc_root)\<rparr>),
     g_mount_count = 3, g_fds = (\<lambda>_. zero_fd), g_fs_types = (\<lambda>_. zero_fs_type), g_fs_type_count = 0,
     g_vfs_root = Some (Ram 0)\<rparr>"

theorem unmount_misdirects_witness:
  "cross_mount demo_mounted (Ram 1) = Some Dev_root \<and>
   (\<exists>s'. vfs_unmount ''/a'' demo_mounted = (0, s') \<and> cross_mount s' (Ram 1) = Some Proc_root)"
proof
  show "cross_mount demo_mounted (Ram 1) = Some Dev_root"
    by (simp add: cross_mount_def demo_mounted_def VFS_MOUNTPOINT_def zero_node_def zero_mount_def)
  have "fst (vfs_unmount ''/a'' demo_mounted) = 0"
    by (simp add: vfs_unmount_def demo_mounted_def zero_mount_def eval_nat_numeral)
  then obtain s' where u: "vfs_unmount ''/a'' demo_mounted = (0, s')" by (metis prod.collapse)
  have only: "i = 1" if "my_strcmp (mp_path (g_mounts demo_mounted i)) ''/a'' = 0" for i
    using that by (auto simp: demo_mounted_def zero_mount_def split: if_splits)
  have n: "node_flags (nodes demo_mounted (Ram 1)) AND VFS_MOUNTPOINT \<noteq> 0"
    "node_mount (nodes demo_mounted (Ram 1)) = Some 1" "g_mount_count demo_mounted = 3"
    "mp_root (g_mounts demo_mounted 2) = Some Proc_root"
    by (simp_all add: demo_mounted_def VFS_MOUNTPOINT_def zero_node_def zero_mount_def)
  obtain i where "my_strcmp (mp_path (g_mounts demo_mounted i)) ''/a'' = 0"
    and cr: "\<And>r m. node_flags (nodes demo_mounted r) AND VFS_MOUNTPOINT \<noteq> 0 \<Longrightarrow>
      node_mount (nodes demo_mounted r) = Some m \<Longrightarrow> cross_mount s' r =
      mp_root (g_mounts demo_mounted (if i \<le> m \<and> Suc m < g_mount_count demo_mounted then Suc m else m))"
    using unmount_misdirects [OF u] by blast
  with only have "i = 1" by blast
  with cr [OF n(1,2)] n(3,4) have "cross_mount s' (Ram 1) = Some Proc_root" by (simp add: numeral_2_eq_2)
  with u show "\<exists>s'. vfs_unmount ''/a'' demo_mounted = (0, s') \<and> cross_mount s' (Ram 1) = Some Proc_root"
    by blast
qed

end
