(* ===== verification/Mem_Fs.thy ===== *)
theory Mem_Fs
  imports Vfs
begin

text \<open>
  The file systems that live in kernel memory: \<^verbatim>\<open>fs/ramfs.c\<close>, \<^verbatim>\<open>fs/devfs.c\<close> and
  \<^verbatim>\<open>fs/procfs.c\<close>. Each extends the state of the virtual file system with its static
  variables; its operations are what the function pointers of its nodes point to. A node whose
  \<open>fs_data\<close> is not of its own file system cannot arise there and is a fault.
\<close>

subsection \<open>ramfs\<close>

definition RAMFS_MAX_CHILDREN :: nat where "RAMFS_MAX_CHILDREN = 64"
definition MAX_RAMFS_NODES :: nat where "MAX_RAMFS_NODES = 64"

record ramfs = vfs +
  child_names :: "nat \<Rightarrow> nat \<Rightarrow> string"
  children :: "nat \<Rightarrow> nat \<Rightarrow> node_ref option"
  ramfs_node_count :: nat

text \<open>The character loop that compares two names.\<close>

fun str_match :: "string \<Rightarrow> string \<Rightarrow> bool" where
  "str_match (a # n1) (b # n2) = (if a \<noteq> b then False else str_match n1 n2)"
| "str_match [] [] = True"
| "str_match n1 n2 = False"

definition ramfs_alloc_node ::
  "string \<Rightarrow> u32 \<Rightarrow> 'a ramfs_scheme \<Rightarrow> node_ref option \<times> 'a ramfs_scheme" where
  "ramfs_alloc_node name flags s =
     (if MAX_RAMFS_NODES \<le> ramfs_node_count s then (None, s)
      else
        let index = ramfs_node_count s;
            node = zero_node\<lparr>node_name := take 255 name, node_flags := flags, node_size := 0,
              fs_data := (if flags AND VFS_DIRECTORY \<noteq> 0 then Ram_dir index else No_data)\<rparr>;
            s1 = s\<lparr>ramfs_node_count := Suc index,
                   children := (children s)(index := \<lambda>_. None),
                   child_names := (child_names s)(index := \<lambda>_. [])\<rparr>
        in (Some (Ram index), upd_node (Ram index) (\<lambda>_. node) s1))"

fun find_child :: "(nat \<Rightarrow> node_ref option) \<Rightarrow> (nat \<Rightarrow> string) \<Rightarrow> string \<Rightarrow> nat \<Rightarrow> nat \<Rightarrow> node_ref option" where
  "find_child kids names name i 0 = None"
| "find_child kids names name i (Suc n) =
     (if kids i \<noteq> None \<and> str_match name (names i) then kids i
      else find_child kids names name (Suc i) n)"

definition ramfs_finddir ::
  "node_ref \<Rightarrow> string \<Rightarrow> 'a ramfs_scheme \<Rightarrow> (node_ref option \<times> 'a ramfs_scheme) option" where
  "ramfs_finddir node name s =
     (if node_flags (nodes s node) AND VFS_DIRECTORY = 0 then Some (None, s)
      else case fs_data (nodes s node) of
        No_data \<Rightarrow> Some (None, s)
      | Ram_dir d \<Rightarrow> Some (find_child (children s d) (child_names s d) name 0 RAMFS_MAX_CHILDREN, s)
      | _ \<Rightarrow> None)"

text \<open>The child number \<open>index\<close> among those present; \<open>count\<close> have been passed.\<close>

fun nth_child :: "(nat \<Rightarrow> node_ref option) \<Rightarrow> nat \<Rightarrow> nat \<Rightarrow> nat \<Rightarrow> nat \<Rightarrow> node_ref option" where
  "nth_child kids index count i 0 = None"
| "nth_child kids index count i (Suc n) =
     (if kids i \<noteq> None then
        (if count = index then kids i else nth_child kids index (Suc count) (Suc i) n)
      else nth_child kids index count (Suc i) n)"

definition ramfs_readdir ::
  "node_ref \<Rightarrow> u32 \<Rightarrow> 'a ramfs_scheme \<Rightarrow> (node_ref option \<times> 'a ramfs_scheme) option" where
  "ramfs_readdir node index s =
     (if node_flags (nodes s node) AND VFS_DIRECTORY = 0 then Some (None, s)
      else case fs_data (nodes s node) of
        No_data \<Rightarrow> Some (None, s)
      | Ram_dir d \<Rightarrow> Some (nth_child (children s d) (unat index) 0 0 RAMFS_MAX_CHILDREN, s)
      | _ \<Rightarrow> None)"

fun free_slot :: "(nat \<Rightarrow> node_ref option) \<Rightarrow> nat \<Rightarrow> nat \<Rightarrow> nat option" where
  "free_slot kids i 0 = None"
| "free_slot kids i (Suc n) = (if kids i = None then Some i else free_slot kids (Suc i) n)"

definition ramfs_create ::
  "node_ref \<Rightarrow> string \<Rightarrow> u32 \<Rightarrow> 'a ramfs_scheme \<Rightarrow> (int \<times> 'a ramfs_scheme) option" where
  "ramfs_create parent name flags s =
     (if node_flags (nodes s parent) AND VFS_DIRECTORY = 0 then Some (-1, s)
      else case fs_data (nodes s parent) of
        No_data \<Rightarrow> Some (-1, s)
      | Ram_dir d \<Rightarrow>
          (case free_slot (children s d) 0 RAMFS_MAX_CHILDREN of None \<Rightarrow> Some (-1, s)
           | Some slot \<Rightarrow>
             (case ramfs_alloc_node name flags s of
                (None, s1) \<Rightarrow> Some (-1, s1)
              | (Some new_node, s1) \<Rightarrow>
                  let s2 = upd_node new_node (\<lambda>x. x\<lparr>n_finddir := Some Ramfs,
                        n_readdir := Some Ramfs, n_create := Some Ramfs, n_mkdir := Some Ramfs\<rparr>) s1
                  in Some (0, s2\<lparr>children :=
                          (children s2)(d := (children s2 d)(slot := Some new_node)),
                        child_names := (child_names s2)(d := (child_names s2 d)(slot := take 31 name))\<rparr>)))
      | _ \<Rightarrow> None)"

definition ramfs_mkdir_op :: "node_ref \<Rightarrow> string \<Rightarrow> 'a ramfs_scheme \<Rightarrow> (int \<times> 'a ramfs_scheme) option" where
  "ramfs_mkdir_op parent name s = ramfs_create parent name VFS_DIRECTORY s"

definition ramfs_mount_op :: "string \<Rightarrow> nat \<Rightarrow> 'a ramfs_scheme \<Rightarrow> (int \<times> 'a ramfs_scheme) option" where
  "ramfs_mount_op device mp s =
     (case ramfs_alloc_node ''/'' VFS_DIRECTORY s of
        (None, s1) \<Rightarrow> Some (-1, s1)
      | (Some root, s1) \<Rightarrow>
          let s2 = upd_node root (\<lambda>x. x\<lparr>inode := 0, n_readdir := Some Ramfs,
                n_finddir := Some Ramfs, n_create := Some Ramfs, n_mkdir := Some Ramfs\<rparr>) s1
          in Some (0, upd_mount mp (\<lambda>m. m\<lparr>mp_root := Some root, fs_private := 0\<rparr>) s2))"

definition ramfs_register :: "'a ramfs_scheme \<Rightarrow> 'a ramfs_scheme" where
  "ramfs_register s = snd (vfs_register_filesystem ''ramfs'' (Some Ramfs) (Some Ramfs) s)"

definition null_ops :: "'s fs_ops" where
  "null_ops = \<lparr>f_mount = (\<lambda>_ _ _. None), f_open = (\<lambda>_ _ _. None), f_close = (\<lambda>_ _. None),
     f_read = (\<lambda>_ _ _ _. None), f_write = (\<lambda>_ _ _ _. None), f_readdir = (\<lambda>_ _ _. None),
     f_finddir = (\<lambda>_ _ _. None), f_create = (\<lambda>_ _ _ _. None), f_unlink = (\<lambda>_ _ _. None),
     f_mkdir = (\<lambda>_ _ _. None)\<rparr>"

definition ramfs_ops :: "'a ramfs_scheme fs_ops" where
  "ramfs_ops = null_ops\<lparr>f_mount := ramfs_mount_op, f_finddir := ramfs_finddir,
     f_readdir := ramfs_readdir, f_create := ramfs_create, f_mkdir := ramfs_mkdir_op\<rparr>"

subsection \<open>devfs and procfs\<close>

definition MAX_DEVFS_NODES :: nat where "MAX_DEVFS_NODES = 16"
definition MAX_PROCFS_NODES :: nat where "MAX_PROCFS_NODES = 16"

record memfs = ramfs +
  devfs_node_count :: nat
  devfs_children :: "nat \<Rightarrow> node_ref option"
  procfs_node_count :: nat
  procfs_children :: "nat \<Rightarrow> node_ref option"
  procfs_content :: "nat \<Rightarrow> string"

text \<open>
  The lookup loop of both: the pointers in the child array are dereferenced, and a name in the
  node itself is compared.
\<close>

fun find_named :: "(nat \<Rightarrow> node_ref option) \<Rightarrow> (node_ref \<Rightarrow> vfs_node) \<Rightarrow> string \<Rightarrow> nat \<Rightarrow> nat
    \<Rightarrow> node_ref option option" where
  "find_named kids nds name i 0 = Some None"
| "find_named kids nds name i (Suc n) =
     (case kids i of None \<Rightarrow> None
      | Some r \<Rightarrow> if str_match (node_name (nds r)) name then Some (Some r)
                  else find_named kids nds name (Suc i) n)"

definition devfs_finddir ::
  "node_ref \<Rightarrow> string \<Rightarrow> 'a memfs_scheme \<Rightarrow> (node_ref option \<times> 'a memfs_scheme) option" where
  "devfs_finddir node name s = do {
     r \<leftarrow> find_named (devfs_children s) (nodes s) name 0 (devfs_node_count s);
     Some (r, s) }"

definition devfs_readdir ::
  "node_ref \<Rightarrow> u32 \<Rightarrow> 'a memfs_scheme \<Rightarrow> (node_ref option \<times> 'a memfs_scheme) option" where
  "devfs_readdir node index s =
     (if of_nat (devfs_node_count s) \<le> index then Some (None, s)
      else Some (devfs_children s (unat index), s))"

definition devfs_mount_op :: "string \<Rightarrow> nat \<Rightarrow> 'a memfs_scheme \<Rightarrow> (int \<times> 'a memfs_scheme) option" where
  "devfs_mount_op device mp s =
     (let s1 = upd_node Dev_root (\<lambda>x. x\<lparr>node_flags := VFS_DIRECTORY, fs_data := No_data,
            n_finddir := Some Devfs, n_readdir := Some Devfs\<rparr>) s
      in Some (0, upd_mount mp (\<lambda>m. m\<lparr>mp_root := Some Dev_root\<rparr>) s1))"

definition devfs_add_device :: "string \<Rightarrow> u64 \<Rightarrow> 'a memfs_scheme \<Rightarrow> 'a memfs_scheme" where
  "devfs_add_device name device_data s =
     (if MAX_DEVFS_NODES \<le> devfs_node_count s then s
      else
        let i = devfs_node_count s;
            s1 = upd_node (Dev i) (\<lambda>x. x\<lparr>node_name := take 31 name, node_flags := VFS_FILE,
                   fs_data := Dev_data device_data, node_size := 0\<rparr>) s
        in s1\<lparr>devfs_children := (devfs_children s)(i := Some (Dev i)), devfs_node_count := Suc i\<rparr>)"

definition devfs_register :: "'a memfs_scheme \<Rightarrow> 'a memfs_scheme" where
  "devfs_register s = snd (vfs_register_filesystem ''DeviceFS'' (Some Devfs) (Some Devfs) s)"

definition devfs_ops :: "'a memfs_scheme fs_ops" where
  "devfs_ops = null_ops\<lparr>f_mount := devfs_mount_op, f_finddir := devfs_finddir,
     f_readdir := devfs_readdir\<rparr>"

definition procfs_finddir ::
  "node_ref \<Rightarrow> string \<Rightarrow> 'a memfs_scheme \<Rightarrow> (node_ref option \<times> 'a memfs_scheme) option" where
  "procfs_finddir node name s = do {
     r \<leftarrow> find_named (procfs_children s) (nodes s) name 0 (procfs_node_count s);
     Some (r, s) }"

definition procfs_readdir ::
  "node_ref \<Rightarrow> u32 \<Rightarrow> 'a memfs_scheme \<Rightarrow> (node_ref option \<times> 'a memfs_scheme) option" where
  "procfs_readdir node index s =
     (if of_nat (procfs_node_count s) \<le> index then Some (None, s)
      else Some (procfs_children s (unat index), s))"

text \<open>The copy loop of \<open>procfs_read\<close>; \<open>n\<close> bytes may still be copied, from \<open>pos\<close> on.\<close>

fun copy_content :: "string \<Rightarrow> u64 \<Rightarrow> nat \<Rightarrow> nat \<Rightarrow> u8 list" where
  "copy_content content offset i 0 = []"
| "copy_content content offset i (Suc n) =
     (if of_nat (length content) \<le> offset + of_nat i then []
      else of_char (content ! unat (offset + of_nat i)) # copy_content content offset (Suc i) n)"

definition procfs_read :: "node_ref \<Rightarrow> u64 \<Rightarrow> u32 \<Rightarrow> 'a memfs_scheme \<Rightarrow>
    ((int \<times> u8 list) \<times> 'a memfs_scheme) option" where
  "procfs_read node offset count s =
     (case fs_data (nodes s node) of
        No_data \<Rightarrow> Some ((0, []), s)
      | Proc_text t \<Rightarrow>
          let content = procfs_content s t
          in if of_nat (length content) \<le> offset then Some ((0, []), s)
             else let bytes = copy_content content offset 0 (unat count)
                  in Some ((int (length bytes), bytes), s)
      | _ \<Rightarrow> None)"

definition procfs_mount_op :: "string \<Rightarrow> nat \<Rightarrow> 'a memfs_scheme \<Rightarrow> (int \<times> 'a memfs_scheme) option" where
  "procfs_mount_op device mp s =
     (let s1 = upd_node Proc_root (\<lambda>x. x\<lparr>node_flags := VFS_DIRECTORY, fs_data := No_data,
            n_finddir := Some Procfs, n_readdir := Some Procfs\<rparr>) s
      in Some (0, upd_mount mp (\<lambda>m. m\<lparr>mp_root := Some Proc_root\<rparr>) s1))"

definition procfs_add_entry :: "string \<Rightarrow> string \<Rightarrow> 'a memfs_scheme \<Rightarrow> 'a memfs_scheme" where
  "procfs_add_entry name content s =
     (if MAX_PROCFS_NODES \<le> procfs_node_count s then s
      else
        let i = procfs_node_count s;
            store = take 255 content;
            s1 = upd_node (Proc i) (\<lambda>x. x\<lparr>node_name := take 31 name, node_flags := VFS_FILE,
                   fs_data := Proc_text i, node_size := of_nat (length store),
                   n_read := Some Procfs\<rparr>) s
        in s1\<lparr>procfs_content := (procfs_content s)(i := store),
              procfs_children := (procfs_children s)(i := Some (Proc i)),
              procfs_node_count := Suc i\<rparr>)"

definition procfs_register :: "'a memfs_scheme \<Rightarrow> 'a memfs_scheme" where
  "procfs_register s = snd (vfs_register_filesystem ''ProcessFS'' (Some Procfs) (Some Procfs) s)"

definition procfs_ops :: "'a memfs_scheme fs_ops" where
  "procfs_ops = null_ops\<lparr>f_mount := procfs_mount_op, f_finddir := procfs_finddir,
     f_readdir := procfs_readdir, f_read := procfs_read\<rparr>"

text \<open>
  The table of function pointers of a kernel without a disk file system; \<open>fat\<close> is the entry of
  the disk file system.
\<close>

definition mem_tbl :: "'a memfs_scheme fs_ops \<Rightarrow> fs_kind \<Rightarrow> 'a memfs_scheme fs_ops" where
  "mem_tbl fat k = (case k of Ramfs \<Rightarrow> ramfs_ops | Devfs \<Rightarrow> devfs_ops | Procfs \<Rightarrow> procfs_ops
     | Fat32 \<Rightarrow> fat)"

declare null_ops_def [code_unfold] ramfs_ops_def [code_unfold] devfs_ops_def [code_unfold]
  procfs_ops_def [code_unfold]

definition mem_boot :: memfs where
  "mem_boot = \<lparr>nodes = (\<lambda>_. zero_node), g_mounts = (\<lambda>_. zero_mount), g_mount_count = 0,
     g_fds = (\<lambda>_. zero_fd), g_fs_types = (\<lambda>_. zero_fs_type), g_fs_type_count = 0,
     g_vfs_root = None, child_names = (\<lambda>_ _. []), children = (\<lambda>_ _. None),
     ramfs_node_count = 0, devfs_node_count = 0, devfs_children = (\<lambda>_. None),
     procfs_node_count = 0, procfs_children = (\<lambda>_. None), procfs_content = (\<lambda>_. [])\<rparr>"

subsection \<open>The invariant of the kernel's in-memory file systems\<close>

text \<open>Which function pointers and data a node may carry, by where it lives.\<close>

definition ref_ok :: "node_ref \<Rightarrow> vfs_node \<Rightarrow> bool" where
  "ref_ok r n \<longleftrightarrow>
     n_open n = None \<and> n_close n = None \<and> n_write n = None \<and> n_unlink n = None \<and>
     (case r of
        Ram _ \<Rightarrow> n_read n = None \<and> fs_data n \<in> insert No_data (range Ram_dir) \<and>
          {n_finddir n, n_readdir n, n_create n, n_mkdir n} \<subseteq> {None, Some Ramfs}
      | Dev_root \<Rightarrow> n_read n = None \<and> n_create n = None \<and> n_mkdir n = None \<and>
          {n_finddir n, n_readdir n} \<subseteq> {None, Some Devfs}
      | Proc_root \<Rightarrow> n_read n = None \<and> n_create n = None \<and> n_mkdir n = None \<and>
          {n_finddir n, n_readdir n} \<subseteq> {None, Some Procfs}
      | Proc _ \<Rightarrow> n_finddir n = None \<and> n_readdir n = None \<and> n_create n = None \<and> n_mkdir n = None \<and>
          n_read n \<in> {None, Some Procfs} \<and> fs_data n \<in> insert No_data (range Proc_text)
      | _ \<Rightarrow> n_read n = None \<and> n_finddir n = None \<and> n_readdir n = None \<and> n_create n = None \<and>
          n_mkdir n = None)"

text \<open>A file system type: one of the three, or the disk file system under its name.\<close>

definition type_ok :: "filesystem_type \<Rightarrow> bool" where
  "type_ok t \<longleftrightarrow> fs_mount t \<in> {Some Ramfs, Some Devfs, Some Procfs} \<or>
     (fs_name t = ''fat32'' \<and> fs_mount t = Some Fat32)"

definition mem_inv :: "'a memfs_scheme \<Rightarrow> bool" where
  "mem_inv s \<longleftrightarrow>
     (\<forall>r. ref_ok r (nodes s r)) \<and>
     (\<forall>i < devfs_node_count s. devfs_children s i \<noteq> None) \<and>
     (\<forall>i < procfs_node_count s. procfs_children s i \<noteq> None) \<and>
     (\<forall>r m. node_mount (nodes s r) = Some m \<longrightarrow> m < g_mount_count s) \<and>
     (\<forall>m < g_mount_count s. mp_root (g_mounts s m) \<noteq> None) \<and>
     (\<forall>i < g_fs_type_count s. type_ok (g_fs_types s i))"

lemma mem_invD:
  assumes "mem_inv s"
  shows "ref_ok r (nodes s r)"
    and "i < devfs_node_count s \<Longrightarrow> devfs_children s i \<noteq> None"
    and "i < procfs_node_count s \<Longrightarrow> procfs_children s i \<noteq> None"
    and "node_mount (nodes s r) = Some m \<Longrightarrow> m < g_mount_count s"
    and "m < g_mount_count s \<Longrightarrow> mp_root (g_mounts s m) \<noteq> None"
    and "i < g_fs_type_count s \<Longrightarrow> type_ok (g_fs_types s i)"
  using assms unfolding mem_inv_def by blast+

text \<open>A changed node keeps the invariant when it stays within its rights and its mount.\<close>

lemma mem_inv_upd_node:
  assumes "mem_inv s" and "ref_ok r (f (nodes s r))"
    and "\<And>m. node_mount (f (nodes s r)) = Some m \<Longrightarrow> m < g_mount_count s"
  shows "mem_inv (upd_node r f s)"
  using assms by (auto simp: mem_inv_def upd_node_def)

lemma upd_node_simps [simp]:
  "nodes (upd_node r f s) = (nodes s)(r := f (nodes s r))"
  "g_mounts (upd_node r f s) = g_mounts s" "g_mount_count (upd_node r f s) = g_mount_count s"
  "g_fds (upd_node r f s) = g_fds s" "g_fs_types (upd_node r f s) = g_fs_types s"
  "g_fs_type_count (upd_node r f s) = g_fs_type_count s" "g_vfs_root (upd_node r f s) = g_vfs_root s"
  by (simp_all add: upd_node_def)

lemma upd_node_mem_simps [simp]:
  fixes s :: "'a memfs_scheme"
  shows "devfs_node_count (upd_node r f s) = devfs_node_count s"
    and "devfs_children (upd_node r f s) = devfs_children s"
    and "procfs_node_count (upd_node r f s) = procfs_node_count s"
    and "procfs_children (upd_node r f s) = procfs_children s"
    and "procfs_content (upd_node r f s) = procfs_content s"
  by (simp_all add: upd_node_def)

lemma upd_node_ram_simps [simp]:
  fixes s :: "'a ramfs_scheme"
  shows "children (upd_node r f s) = children s" and "child_names (upd_node r f s) = child_names s"
    and "ramfs_node_count (upd_node r f s) = ramfs_node_count s"
  by (simp_all add: upd_node_def)

lemma mem_inv_cong:
  assumes "mem_inv s" and "nodes s' = nodes s" "g_mount_count s' = g_mount_count s"
    "g_fs_types s' = g_fs_types s" "g_fs_type_count s' = g_fs_type_count s"
    "devfs_node_count s' = devfs_node_count s" "devfs_children s' = devfs_children s"
    "procfs_node_count s' = procfs_node_count s" "procfs_children s' = procfs_children s"
    "\<And>m. m < g_mount_count s \<Longrightarrow> mp_root (g_mounts s' m) = mp_root (g_mounts s m)"
  shows "mem_inv s'"
  using assms by (simp add: mem_inv_def)

subsection \<open>Operations keep it and do not fault\<close>

text \<open>What \<open>vfs.c\<close> relies on: a call through a node's own pointer returns and keeps the invariant.\<close>

definition same_mounts :: "'a vfs_scheme \<Rightarrow> 'a vfs_scheme \<Rightarrow> bool" where
  "same_mounts s s' \<longleftrightarrow> g_mount_count s' = g_mount_count s \<and> g_fs_type_count s' = g_fs_type_count s \<and>
     g_fds s' = g_fds s"

lemma same_mounts_refl [simp]: "same_mounts s s"
  by (simp add: same_mounts_def)

lemma ramfs_alloc_safe:
  assumes inv: "mem_inv s" and res: "ramfs_alloc_node name flags s = (r, s')"
  shows "mem_inv s' \<and> g_mounts s' = g_mounts s \<and> same_mounts s s' \<and>
    (\<forall>x. r = Some x \<longrightarrow> x = Ram (ramfs_node_count s) \<and> ref_ok x (nodes s' x) \<and>
       n_read (nodes s' x) = None \<and> node_mount (nodes s' x) = None)"
proof (cases "MAX_RAMFS_NODES \<le> ramfs_node_count s")
  case True
  with res inv show ?thesis by (auto simp: ramfs_alloc_node_def)
next
  case False
  define s1 where "s1 = s\<lparr>ramfs_node_count := Suc (ramfs_node_count s),
     children := (children s)(ramfs_node_count s := \<lambda>_. None),
     child_names := (child_names s)(ramfs_node_count s := \<lambda>_. [])\<rparr>"
  define node where "node = zero_node\<lparr>node_name := take 255 name, node_flags := flags, node_size := 0,
    fs_data := (if flags AND VFS_DIRECTORY \<noteq> 0 then Ram_dir (ramfs_node_count s) else No_data)\<rparr>"
  have r: "r = Some (Ram (ramfs_node_count s))" "s' = upd_node (Ram (ramfs_node_count s)) (\<lambda>_. node) s1"
    using res False by (simp_all add: ramfs_alloc_node_def Let_def s1_def node_def)
  have inv1: "mem_inv s1" by (rule mem_inv_cong [OF inv]) (simp_all add: s1_def)
  have node: "ref_ok (Ram i) node" "node_mount node = None" "n_read node = None" for i
    by (auto simp: ref_ok_def node_def zero_node_def)
  have "mem_inv s'" unfolding r(2) by (rule mem_inv_upd_node [OF inv1]) (simp_all add: node)
  then show ?thesis by (simp add: r node) (simp add: s1_def same_mounts_def)
qed

lemma ramfs_create_safe:
  assumes inv: "mem_inv s" and own: "fs_data (nodes s p) \<in> insert No_data (range Ram_dir)"
  shows "\<exists>rc s'. ramfs_create p name flags s = Some (rc, s') \<and> mem_inv s' \<and> same_mounts s s'"
proof (cases "node_flags (nodes s p) AND VFS_DIRECTORY = 0 \<or> fs_data (nodes s p) = No_data")
  case True
  then show ?thesis using inv by (auto simp: ramfs_create_def)
next
  case False
  then obtain d where d: "fs_data (nodes s p) = Ram_dir d" using own by auto
  obtain r s1 where al: "ramfs_alloc_node name flags s = (r, s1)" by force
  note safe = ramfs_alloc_safe [OF inv al]
  show ?thesis
  proof (cases "free_slot (children s d) 0 RAMFS_MAX_CHILDREN = None \<or> r = None")
    case True
    then show ?thesis using False d al safe inv
      by (auto simp: ramfs_create_def split: option.splits)
  next
    case room: False
    then obtain slot x where x: "free_slot (children s d) 0 RAMFS_MAX_CHILDREN = Some slot" "r = Some x"
      by auto
    define s2 where "s2 = upd_node x (\<lambda>x. x\<lparr>n_finddir := Some Ramfs,
        n_readdir := Some Ramfs, n_create := Some Ramfs, n_mkdir := Some Ramfs\<rparr>) s1"
    have inv2: "mem_inv s2"
      unfolding s2_def using safe x(2)
      by (intro mem_inv_upd_node) (auto simp: ref_ok_def)
    define s3 where "s3 = s2\<lparr>children := (children s2)(d := (children s2 d)(slot := Some x)),
        child_names := (child_names s2)(d := (child_names s2 d)(slot := take 31 name))\<rparr>"
    have "mem_inv s3" by (rule mem_inv_cong [OF inv2]) (simp_all add: s3_def)
    moreover have "ramfs_create p name flags s = Some (0, s3)"
      using False d x al by (simp add: ramfs_create_def Let_def s2_def s3_def)
    moreover have "same_mounts s s3" using safe by (simp add: s3_def s2_def same_mounts_def)
    ultimately show ?thesis by blast
  qed
qed

lemma find_named_safe:
  "(\<And>j. i \<le> j \<Longrightarrow> j < i + n \<Longrightarrow> kids j \<noteq> None) \<Longrightarrow> find_named kids nds nm i n \<noteq> None"
proof (induction n arbitrary: i)
  case (Suc n)
  then have "find_named kids nds nm (Suc i) n \<noteq> None" "kids i \<noteq> None" by auto
  then show ?case by auto
qed simp

text \<open>What a lookup through the pointer of a node answers.\<close>

definition mem_look :: "'a memfs_scheme \<Rightarrow> node_ref \<Rightarrow> string \<Rightarrow> node_ref option" where
  "mem_look s c nm =
     (case c of
        Ram _ \<Rightarrow> fst (the (ramfs_finddir c nm s))
      | Dev_root \<Rightarrow> the (find_named (devfs_children s) (nodes s) nm 0 (devfs_node_count s))
      | _ \<Rightarrow> the (find_named (procfs_children s) (nodes s) nm 0 (procfs_node_count s)))"

lemma mem_lookup:
  assumes inv: "mem_inv s" and k: "n_finddir (nodes s c) = Some k"
  shows "f_finddir (mem_tbl fat k) c nm s = Some (mem_look s c nm, s)"
proof -
  note ok = mem_invD(1) [OF inv, of c]
  have dev: "find_named (devfs_children s) (nodes s) nm 0 (devfs_node_count s) \<noteq> None"
    and proc: "find_named (procfs_children s) (nodes s) nm 0 (procfs_node_count s) \<noteq> None"
    by (intro find_named_safe mem_invD(2,3) [OF inv]; simp)+
  show ?thesis
  proof (cases c)
    case (Ram i)
    then show ?thesis using ok k
      by (auto simp: ref_ok_def mem_tbl_def ramfs_ops_def ramfs_finddir_def mem_look_def)
  next
    case Dev_root
    then show ?thesis using ok k dev
      by (auto simp: ref_ok_def mem_tbl_def devfs_ops_def devfs_finddir_def mem_look_def)
  next
    case Proc_root
    then show ?thesis using ok k proc
      by (auto simp: ref_ok_def mem_tbl_def procfs_ops_def procfs_finddir_def mem_look_def)
  qed (use ok k in \<open>auto simp: ref_ok_def\<close>)
qed

lemma mem_rooted: "mem_inv s \<Longrightarrow> node_mount (nodes s c) = Some m \<Longrightarrow> mp_root (g_mounts s m) \<noteq> None"
  using mem_invD(4,5) by blast

lemma mem_no_ops:
  assumes "mem_inv s"
  shows "n_open (nodes s c) = None" "n_close (nodes s c) = None" "n_write (nodes s c) = None"
    "n_unlink (nodes s c) = None"
  using mem_invD(1) [OF assms, of c] by (auto simp: ref_ok_def)

lemma mem_create_safe:
  assumes "mem_inv s"
  shows "n_create (nodes s c) = Some k \<Longrightarrow>
      \<exists>rc s'. f_create (mem_tbl fat k) c nm fl s = Some (rc, s') \<and> mem_inv s' \<and> g_fds s' = g_fds s"
    and "n_mkdir (nodes s c) = Some k \<Longrightarrow>
      \<exists>rc s'. f_mkdir (mem_tbl fat k) c nm s = Some (rc, s') \<and> mem_inv s' \<and> g_fds s' = g_fds s"
proof -
  have ram: "k = Ramfs \<and> fs_data (nodes s c) \<in> insert No_data (range Ram_dir)"
    if "n_create (nodes s c) = Some k \<or> n_mkdir (nodes s c) = Some k"
    using mem_invD(1) [OF assms, of c] that by (cases c) (auto simp: ref_ok_def)
  then show "n_create (nodes s c) = Some k \<Longrightarrow>
      \<exists>rc s'. f_create (mem_tbl fat k) c nm fl s = Some (rc, s') \<and> mem_inv s' \<and> g_fds s' = g_fds s"
    "n_mkdir (nodes s c) = Some k \<Longrightarrow>
      \<exists>rc s'. f_mkdir (mem_tbl fat k) c nm s = Some (rc, s') \<and> mem_inv s' \<and> g_fds s' = g_fds s"
    using ramfs_create_safe [OF assms, of c nm]
    by (fastforce simp: same_mounts_def mem_tbl_def ramfs_ops_def ramfs_mkdir_op_def)+
qed

lemma mem_read_safe:
  assumes "mem_inv s" and "n_read (nodes s c) = Some k"
  shows "\<exists>r. f_read (mem_tbl fat k) c off cnt s = Some (r, s)"
proof -
  have "k = Procfs \<and> fs_data (nodes s c) \<in> insert No_data (range Proc_text)"
    using mem_invD(1) [OF assms(1), of c] assms(2) by (cases c) (auto simp: ref_ok_def)
  then show ?thesis by (auto simp: mem_tbl_def procfs_ops_def procfs_read_def Let_def)
qed

lemma mem_readdir_safe:
  assumes "mem_inv s" and "n_readdir (nodes s c) = Some k"
  shows "\<exists>r. f_readdir (mem_tbl fat k) c idx s = Some (r, s)"
  using mem_invD(1) [OF assms(1), of c] assms(2)
  by (cases c) (auto simp: ref_ok_def mem_tbl_def ramfs_ops_def ramfs_readdir_def devfs_ops_def
      devfs_readdir_def procfs_ops_def procfs_readdir_def)

lemma mem_inv_upd_fd: "mem_inv s \<Longrightarrow> mem_inv (upd_fd i f s)"
  by (rule mem_inv_cong) (simp_all add: upd_fd_def)

interpretation mem: safe_fs "mem_tbl fat" mem_look mem_inv for fat
proof
  fix s :: "'a memfs_scheme" and fat c k nm fl off cnt idx buf i f
  assume inv: "mem_inv s"
  show "n_finddir (nodes s c) = Some k \<Longrightarrow> f_finddir (mem_tbl fat k) c nm s = Some (mem_look s c nm, s)"
    by (rule mem_lookup [OF inv])
  show "node_mount (nodes s c) = Some m \<Longrightarrow> mp_root (g_mounts s m) \<noteq> None" for m
    by (rule mem_rooted [OF inv])
  show "mem_inv (upd_fd i f s)" by (rule mem_inv_upd_fd [OF inv])
  show "n_create (nodes s c) = Some k \<Longrightarrow>
      \<exists>rc s'. f_create (mem_tbl fat k) c nm fl s = Some (rc, s') \<and> mem_inv s' \<and> g_fds s' = g_fds s"
    by (rule mem_create_safe(1) [OF inv])
  show "n_mkdir (nodes s c) = Some k \<Longrightarrow>
      \<exists>rc s'. f_mkdir (mem_tbl fat k) c nm s = Some (rc, s') \<and> mem_inv s'"
    using mem_create_safe(2) [OF inv] by blast
  show "n_read (nodes s c) = Some k \<Longrightarrow>
      \<exists>r s'. f_read (mem_tbl fat k) c off cnt s = Some (r, s') \<and> mem_inv s'"
    using mem_read_safe [OF inv] inv by blast
  show "n_readdir (nodes s c) = Some k \<Longrightarrow>
      \<exists>r s'. f_readdir (mem_tbl fat k) c idx s = Some (r, s') \<and> mem_inv s'"
    using mem_readdir_safe [OF inv] inv by blast
qed (simp_all add: mem_no_ops)

subsection \<open>Mounting and the reachable states\<close>

lemma upd_mount_simps [simp]:
  "nodes (upd_mount i f s) = nodes s" "g_mount_count (upd_mount i f s) = g_mount_count s"
  "g_mounts (upd_mount i f s) = (g_mounts s)(i := f (g_mounts s i))"
  "g_fds (upd_mount i f s) = g_fds s" "g_fs_types (upd_mount i f s) = g_fs_types s"
  "g_fs_type_count (upd_mount i f s) = g_fs_type_count s" "g_vfs_root (upd_mount i f s) = g_vfs_root s"
  by (simp_all add: upd_mount_def)

lemma mem_inv_upd_mount: "mem_inv s \<Longrightarrow> g_mount_count s \<le> i \<Longrightarrow> mem_inv (upd_mount i f s)"
  by (rule mem_inv_cong) (auto simp: upd_mount_def)

text \<open>The three \<open>mount\<close> operations give the new mount a root, or fail.\<close>

lemma mem_mount_safe:
  assumes inv: "mem_inv s" and k: "k \<in> {Ramfs, Devfs, Procfs}" and i: "i = g_mount_count s"
  shows "\<exists>rc s'. f_mount (mem_tbl fat k) dev i s = Some (rc, s') \<and> mem_inv s' \<and>
    g_mount_count s' = g_mount_count s \<and> (rc = 0 \<longrightarrow> mp_root (g_mounts s' i) \<noteq> None)"
proof -
  have node: "mem_inv (upd_node r f s)" if "ref_ok r (f (nodes s r))" "node_mount (f (nodes s r)) = node_mount (nodes s r)"
    for r f using mem_inv_upd_node [of s r f] inv that mem_invD(4) [OF inv] by simp
  consider "k = Ramfs" | "k = Devfs" | "k = Procfs" using k by auto
  then show ?thesis
  proof cases
    case 1
    obtain r s1 where al: "ramfs_alloc_node ''/'' VFS_DIRECTORY s = (r, s1)" by force
    note safe = ramfs_alloc_safe [OF inv al]
    show ?thesis
    proof (cases r)
      case None
      then show ?thesis using 1 al safe
        by (simp add: mem_tbl_def ramfs_ops_def ramfs_mount_op_def same_mounts_def)
    next
      case (Some x)
      define s2 where "s2 = upd_node x (\<lambda>x. x\<lparr>inode := 0, n_readdir := Some Ramfs,
          n_finddir := Some Ramfs, n_create := Some Ramfs, n_mkdir := Some Ramfs\<rparr>) s1"
      have "mem_inv s2" unfolding s2_def
        using safe Some by (intro mem_inv_upd_node) (auto simp: ref_ok_def)
      then have "mem_inv (upd_mount i (\<lambda>m. m\<lparr>mp_root := Some x, fs_private := 0\<rparr>) s2)"
        using safe i by (intro mem_inv_upd_mount) (auto simp: s2_def same_mounts_def)
      then show ?thesis using 1 al Some safe
        by (simp add: mem_tbl_def ramfs_ops_def ramfs_mount_op_def same_mounts_def Let_def s2_def)
    qed
  next
    case 2
    have "mem_inv (upd_node Dev_root (\<lambda>x. x\<lparr>node_flags := VFS_DIRECTORY, fs_data := No_data,
        n_finddir := Some Devfs, n_readdir := Some Devfs\<rparr>) s)"
      using mem_invD(1) [OF inv, of Dev_root] by (intro node) (auto simp: ref_ok_def)
    from mem_inv_upd_mount [OF this, of i "\<lambda>m. m\<lparr>mp_root := Some Dev_root\<rparr>"] 2 i show ?thesis
      by (simp add: mem_tbl_def devfs_ops_def devfs_mount_op_def Let_def)
  next
    case 3
    have "mem_inv (upd_node Proc_root (\<lambda>x. x\<lparr>node_flags := VFS_DIRECTORY, fs_data := No_data,
        n_finddir := Some Procfs, n_readdir := Some Procfs\<rparr>) s)"
      using mem_invD(1) [OF inv, of Proc_root] by (intro node) (auto simp: ref_ok_def)
    from mem_inv_upd_mount [OF this, of i "\<lambda>m. m\<lparr>mp_root := Some Proc_root\<rparr>"] 3 i show ?thesis
      by (simp add: mem_tbl_def procfs_ops_def procfs_mount_op_def Let_def)
  qed
qed

lemma find_fs_type_found:
  "find_fs_from ts nm i n = Some fs \<Longrightarrow> \<exists>j. i \<le> j \<and> j < i + n \<and> fs = ts j \<and> my_strcmp (fs_name fs) nm = 0"
proof (induction n arbitrary: i)
  case (Suc n)
  show ?case
  proof (cases "my_strcmp (fs_name (ts i)) nm = 0")
    case True
    with Suc.prems show ?thesis by (intro exI [of _ i]) simp
  next
    case False
    with Suc.prems have "find_fs_from ts nm (Suc i) n = Some fs" by simp
    from Suc.IH [OF this] show ?thesis by (auto intro: Suc_leD)
  qed
qed simp

lemma mem_link_mount:
  assumes inv: "mem_inv s" and root: "mp_root (g_mounts s (g_mount_count s)) \<noteq> None"
    and s': "s' = (upd_node r (\<lambda>x. x\<lparr>node_flags := node_flags x OR VFS_MOUNTPOINT,
      node_mount := Some (g_mount_count s)\<rparr>) s)\<lparr>g_mount_count := Suc (g_mount_count s)\<rparr>"
  shows "mem_inv s'"
proof -
  have "ref_ok q (nodes s' q)" for q
    using mem_invD(1) [OF inv, of q] by (auto simp: s' ref_ok_def split: node_ref.splits)
  moreover have "node_mount (nodes s' q) = Some m \<Longrightarrow> m < g_mount_count s'" for q m
    using mem_invD(4) [OF inv, of q m] by (auto simp: s' less_Suc_eq split: if_splits)
  moreover have "m < g_mount_count s' \<Longrightarrow> mp_root (g_mounts s' m) \<noteq> None" for m
    using mem_invD(5) [OF inv, of m] root by (auto simp: s' less_Suc_eq)
  ultimately show ?thesis
    using inv unfolding mem_inv_def by (simp add: s')
qed

lemma mem_vfs_mount_safe:
  assumes inv: "mem_inv s" and own: "my_strcmp ''fat32'' fstype \<noteq> 0"
  shows "\<exists>rc s'. vfs_mount (mem_tbl fat) path fstype dev s = Some (rc, s') \<and> mem_inv s'"
proof (cases "MAX_MOUNTS \<le> g_mount_count s \<or> find_fs_type fstype s = None")
  case True
  then show ?thesis using inv by (auto simp: vfs_mount_def)
next
  case False
  then obtain fs where fs: "find_fs_type fstype s = Some fs" by auto
  then obtain j where "j < g_fs_type_count s" "fs = g_fs_types s j" "my_strcmp (fs_name fs) fstype = 0"
    using find_fs_type_found [OF fs [unfolded find_fs_type_def]] by auto
  then obtain k where k: "fs_mount fs = Some k" "k \<in> {Ramfs, Devfs, Procfs}"
    using mem_invD(6) [OF inv, of j] own by (auto simp: type_ok_def)
  let ?mp = "g_mount_count s"
  define s1 where "s1 = upd_mount ?mp (\<lambda>_. \<lparr>mp_path = my_strncpy path 255, mp_root = None,
      fs_private = 0, mp_refcount = 0\<rparr>) s"
  have inv1: "mem_inv s1" unfolding s1_def by (rule mem_inv_upd_mount [OF inv]) simp
  obtain rc s2 where s2: "f_mount (mem_tbl fat k) dev ?mp s1 = Some (rc, s2)" "mem_inv s2"
      "g_mount_count s2 = ?mp" "rc = 0 \<longrightarrow> mp_root (g_mounts s2 ?mp) \<noteq> None"
    using mem_mount_safe [OF inv1 k(2), of ?mp fat dev] by (auto simp: s1_def)
  note run = vfs_mount_def [of "mem_tbl fat" path fstype dev s, unfolded Let_def fs, folded s1_def]
  show ?thesis
  proof (cases "rc \<noteq> 0")
    case True
    then show ?thesis using False k(1) s2 by (simp add: run)
  next
    case ok: False
    then obtain root where root: "mp_root (g_mounts s2 ?mp) = Some root" using s2(4) by auto
    have link: "mem_inv ((upd_node r (\<lambda>x. x\<lparr>node_flags := node_flags x OR VFS_MOUNTPOINT,
        node_mount := Some ?mp\<rparr>) s2)\<lparr>g_mount_count := Suc ?mp\<rparr>)" for r
      using mem_link_mount [OF s2(2), of _ r] root s2(3) by simp
    have inv3: "mem_inv ((s2\<lparr>g_vfs_root := Some root\<rparr>))"
      by (rule mem_inv_cong [OF s2(2)]) simp_all
    have link3: "mem_inv ((upd_node root (\<lambda>x. x\<lparr>node_flags := node_flags x OR VFS_MOUNTPOINT,
        node_mount := Some ?mp\<rparr>) (s2\<lparr>g_vfs_root := Some root\<rparr>))\<lparr>g_mount_count := Suc ?mp\<rparr>)"
      using mem_link_mount [OF inv3, of _ root] root s2(3) by simp
    show ?thesis
    proof (cases "my_strcmp path ''/'' = 0")
      case True
      then show ?thesis using False ok k(1) s2 root link3 by (simp add: run)
    next
      case other: False
      then show ?thesis
        using False ok k(1) s2 link mem.resolve_named [OF s2(2), of fat path]
        by (cases "named mem_look s2 path") (simp_all add: run)
    qed
  qed
qed

text \<open>The static variables before the start.\<close>

definition cold :: "'a memfs_scheme \<Rightarrow> bool" where
  "cold s \<longleftrightarrow> nodes s = (\<lambda>_. zero_node) \<and> children s = (\<lambda>_ _. None) \<and> ramfs_node_count s = 0 \<and>
     devfs_node_count s = 0 \<and> procfs_node_count s = 0"

text \<open>
  The states a kernel reaches with these file systems: it registers them and the disk file system,
  adds devices and process entries, mounts all but the disk file system, and uses the calls of
  \<open>vfs.c\<close>. Unmounting is excluded: it leaves nodes that index the mount table where it is shifted
  (\<open>unmount_misdirects\<close> in the theory of the virtual file system), and a failed mount may then leave
  their entry without a root.
\<close>

inductive mem_reach :: "'a memfs_scheme fs_ops \<Rightarrow> 'a memfs_scheme \<Rightarrow> bool" for fat where
  mem_start: "cold s \<Longrightarrow> mem_reach fat (vfs_init s)"
| mem_fat: "mem_reach fat s \<Longrightarrow> mem_reach fat (snd (vfs_register_filesystem ''fat32'' (Some Fat32) (Some Fat32) s))"
| mem_ramfs: "mem_reach fat s \<Longrightarrow> mem_reach fat (ramfs_register s)"
| mem_devfs: "mem_reach fat s \<Longrightarrow> mem_reach fat (devfs_register s)"
| mem_procfs: "mem_reach fat s \<Longrightarrow> mem_reach fat (procfs_register s)"
| mem_device: "mem_reach fat s \<Longrightarrow> mem_reach fat (devfs_add_device nm d s)"
| mem_entry: "mem_reach fat s \<Longrightarrow> mem_reach fat (procfs_add_entry nm txt s)"
| mem_mount: "mem_reach fat s \<Longrightarrow> my_strcmp ''fat32'' ty \<noteq> 0 \<Longrightarrow> vfs_mount (mem_tbl fat) path ty dev s = Some (rc, s') \<Longrightarrow> mem_reach fat s'"
| mem_open: "mem_reach fat s \<Longrightarrow> vfs_open (mem_tbl fat) path fl s = Some (rc, s') \<Longrightarrow> mem_reach fat s'"
| mem_close: "mem_reach fat s \<Longrightarrow> vfs_close (mem_tbl fat) fd s = Some (rc, s') \<Longrightarrow> mem_reach fat s'"
| mem_read: "mem_reach fat s \<Longrightarrow> vfs_read (mem_tbl fat) fd cnt s = Some (res, s') \<Longrightarrow> mem_reach fat s'"
| mem_write: "mem_reach fat s \<Longrightarrow> vfs_write (mem_tbl fat) fd buf s = Some (rc, s') \<Longrightarrow> mem_reach fat s'"
| mem_seek: "mem_reach fat s \<Longrightarrow> mem_reach fat (snd (vfs_seek fd off wh s))"
| mem_readdir: "mem_reach fat s \<Longrightarrow> vfs_readdir (mem_tbl fat) fd s = Some (ent, s') \<Longrightarrow> mem_reach fat s'"
| mem_create: "mem_reach fat s \<Longrightarrow> vfs_create (mem_tbl fat) path s = Some (rc, s') \<Longrightarrow> mem_reach fat s'"
| mem_unlink: "mem_reach fat s \<Longrightarrow> vfs_unlink (mem_tbl fat) path s = Some (rc, s') \<Longrightarrow> mem_reach fat s'"
| mem_mkdir: "mem_reach fat s \<Longrightarrow> vfs_mkdir (mem_tbl fat) path s = Some (rc, s') \<Longrightarrow> mem_reach fat s'"

lemma register_inv:
  assumes "mem_inv s" and "k \<in> {Ramfs, Devfs, Procfs} \<or> k = Fat32 \<and> nm = ''fat32''"
  shows "mem_inv (snd (vfs_register_filesystem nm (Some k) u s))"
  using assms by (auto simp: vfs_register_filesystem_def mem_inv_def less_Suc_eq type_ok_def my_strncpy_def)

lemma ref_ok_leaf:
  assumes "ref_ok (Dev i) n"
  shows "ref_ok (Dev i) (n\<lparr>node_name := nm, node_flags := fl, fs_data := d, node_size := sz\<rparr>)"
  using assms by (simp add: ref_ok_def)

lemma add_device_inv: "mem_inv s \<Longrightarrow> mem_inv (devfs_add_device nm d s)"
proof (cases "MAX_DEVFS_NODES \<le> devfs_node_count s")
  case False
  assume inv: "mem_inv s"
  let ?i = "devfs_node_count s"
  have "mem_inv (upd_node (Dev ?i) (\<lambda>x. x\<lparr>node_name := take 31 nm, node_flags := VFS_FILE,
      fs_data := Dev_data d, node_size := 0\<rparr>) s)"
    using ref_ok_leaf [OF mem_invD(1) [OF inv, of "Dev ?i"]] mem_invD(4) [OF inv, of "Dev ?i"]
    by (intro mem_inv_upd_node [OF inv]) auto
  then show ?thesis using False
    by (simp add: devfs_add_device_def Let_def mem_inv_def less_Suc_eq)
qed (simp add: devfs_add_device_def)

lemma add_entry_inv: "mem_inv s \<Longrightarrow> mem_inv (procfs_add_entry nm txt s)"
proof (cases "MAX_PROCFS_NODES \<le> procfs_node_count s")
  case False
  assume inv: "mem_inv s"
  let ?i = "procfs_node_count s"
  have "mem_inv (upd_node (Proc ?i) (\<lambda>x. x\<lparr>node_name := take 31 nm, node_flags := VFS_FILE,
      fs_data := Proc_text ?i, node_size := of_nat (length (take 255 txt)), n_read := Some Procfs\<rparr>) s)"
    using mem_invD(1) [OF inv, of "Proc ?i"] mem_invD(4) [OF inv, of "Proc ?i"]
    by (intro mem_inv_upd_node [OF inv]) (auto simp: ref_ok_def)
  then show ?thesis using False
    by (simp add: procfs_add_entry_def Let_def mem_inv_def less_Suc_eq)
qed (simp add: procfs_add_entry_def)

lemma mem_reach_inv: "mem_reach fat s \<Longrightarrow> mem_inv s"
proof (induction rule: mem_reach.induct)
  case (mem_start s)
  have "ref_ok r zero_node" for r by (cases r) (auto simp: ref_ok_def zero_node_def)
  with mem_start show ?case by (simp add: mem_inv_def vfs_init_def cold_def) (simp add: zero_node_def)
next
  case (mem_mount s ty path dev rc s')
  then show ?case using mem_vfs_mount_safe [of s ty fat path dev] by auto
next
  case (mem_open s path fl rc s')
  then show ?case using mem.open_returns [of s fat path fl] by auto
next
  case (mem_close s fd rc s')
  then show ?case using mem.close_returns [of s fat fd] by auto
next
  case (mem_read s fd cnt res s')
  then show ?case using mem.read_returns [of s fat fd cnt] by auto
next
  case (mem_write s fd buf rc s')
  then show ?case using mem.write_returns [of s fat fd buf] by auto
next
  case (mem_readdir s fd ent s')
  then show ?case using mem.readdir_returns [of s fat fd] by auto
next
  case (mem_create s path rc s')
  then show ?case using mem.create_returns [of s fat path] by auto
next
  case (mem_unlink s path rc s')
  then show ?case using mem.unlink_returns [of s fat path] by auto
next
  case (mem_mkdir s path rc s')
  then show ?case using mem.mkdir_returns [of s fat path] by auto
qed (simp_all add: ramfs_register_def devfs_register_def procfs_register_def register_inv
    add_device_inv add_entry_inv mem.seek_ok)

subsection \<open>Directories and files as lookups and byte sequences\<close>

lemma str_match_eq: "str_match a b \<longleftrightarrow> a = b"
  by (induction a b rule: str_match.induct) auto

lemma find_child_other:
  "nm \<noteq> t \<Longrightarrow> kids slot = None \<Longrightarrow>
    find_child (kids(slot := Some x)) (names(slot := t)) nm i n = find_child kids names nm i n"
  by (induction n arbitrary: i) (auto simp: str_match_eq)

lemma find_child_new:
  "find_child kids names t i n = None \<Longrightarrow> i \<le> slot \<Longrightarrow> slot < i + n \<Longrightarrow>
    find_child (kids(slot := Some x)) (names(slot := t)) t i n = Some x"
proof (induction n arbitrary: i)
  case (Suc n)
  show ?case
  proof (cases "i = slot")
    case False
    with Suc.prems have "find_child kids names t (Suc i) n = None"
      "\<not> (kids i \<noteq> None \<and> str_match t (names i))" by (auto split: if_splits)
    with Suc False show ?thesis by auto
  qed (simp add: str_match_eq)
qed simp

lemma free_slot_Some: "free_slot kids i n = Some slot \<Longrightarrow> kids slot = None \<and> i \<le> slot \<and> slot < i + n"
proof (induction n arbitrary: i)
  case (Suc n)
  then show ?case by (cases "kids i = None") fastforce+
qed simp

text \<open>The entries of a ramfs directory, as \<open>ramfs_finddir\<close> reports them.\<close>

definition entries :: "'a ramfs_scheme \<Rightarrow> nat \<Rightarrow> string \<Rightarrow> node_ref option" where
  "entries s d nm = find_child (children s d) (child_names s d) nm 0 RAMFS_MAX_CHILDREN"

lemma ramfs_create_entries:
  assumes p: "fs_data (nodes s p) = Ram_dir d" and d: "d < ramfs_node_count s"
    and res: "ramfs_create p name flags s = Some (0, s')"
    and new: "entries s d (take 31 name) = None"
  shows "entries s' d = (entries s d)(take 31 name \<mapsto> Ram (ramfs_node_count s))"
    and "e < ramfs_node_count s \<Longrightarrow> e \<noteq> d \<Longrightarrow> entries s' e = entries s e"
    and "entries s' (ramfs_node_count s) = (\<lambda>_. None)"
proof -
  obtain slot where slot: "free_slot (children s d) 0 RAMFS_MAX_CHILDREN = Some slot"
    using res p by (auto simp: ramfs_create_def split: if_splits option.splits)
  note sl = free_slot_Some [OF slot]
  have room: "\<not> MAX_RAMFS_NODES \<le> ramfs_node_count s"
    using res p slot by (auto simp: ramfs_create_def ramfs_alloc_node_def split: if_splits)
  have kids: "children s' = (children s)(ramfs_node_count s := \<lambda>_. None,
      d := (children s d)(slot := Some (Ram (ramfs_node_count s))))"
    and names: "child_names s' = (child_names s)(ramfs_node_count s := \<lambda>_. [],
      d := (child_names s d)(slot := take 31 name))"
    using res p slot room d
    by (auto simp: ramfs_create_def ramfs_alloc_node_def Let_def split: if_splits)
  have none: "find_child (\<lambda>_. None) ns nm i n = None" for ns nm i n
    by (induction n arbitrary: i) auto
  show "entries s' d = (entries s d)(take 31 name \<mapsto> Ram (ramfs_node_count s))"
    using sl new find_child_other [of _ "take 31 name" "children s d" slot]
      find_child_new [of "children s d" "child_names s d" "take 31 name" 0 RAMFS_MAX_CHILDREN slot]
    by (auto simp: entries_def kids names fun_eq_iff)
  show "e < ramfs_node_count s \<Longrightarrow> e \<noteq> d \<Longrightarrow> entries s' e = entries s e"
    by (simp add: entries_def kids names fun_eq_iff)
  show "entries s' (ramfs_node_count s) = (\<lambda>_. None)"
    using d by (simp add: entries_def kids names none fun_eq_iff)
qed

lemma copy_content_eq:
  assumes "length content < 2 ^ 32" and "unat offset + i + n < 2 ^ 64"
  shows "copy_content content offset i n =
    map of_char (take n (drop (unat offset + i) content))"
  using assms
proof (induction n arbitrary: i)
  case (Suc n)
  have at: "unat (offset + of_nat i) = unat offset + i"
  proof -
    have "unat (of_nat i :: u64) = i" using Suc.prems(2) by (intro unat_of_nat_small) simp
    then show ?thesis using Suc.prems(2) by (simp add: unat_plus_if_size word_size)
  qed
  have len: "unat (of_nat (length content) :: u64) = length content"
    using Suc.prems(1) by (intro unat_of_nat_small) simp
  have le: "of_nat (length content) \<le> offset + of_nat i \<longleftrightarrow> length content \<le> unat offset + i"
    unfolding word_le_nat_alt at len ..
  show ?case
  proof (cases "length content \<le> unat offset + i")
    case False
    then have "drop (unat offset + i) content =
        content ! (unat offset + i) # drop (Suc (unat offset + i)) content"
      by (simp add: Cons_nth_drop_Suc)
    then show ?thesis using False Suc le at by simp
  qed (simp add: le)
qed simp

text \<open>What is left to read of a procfs file through a descriptor.\<close>

definition proc_rest :: "int \<Rightarrow> 'a memfs_scheme \<Rightarrow> u8 list option" where
  "proc_rest fd s =
     (if bad_fd fd s then None
      else case fd_node (g_fds s (nat fd)) of None \<Rightarrow> None
      | Some r \<Rightarrow>
        (case fs_data (nodes s r) of
           Proc_text t \<Rightarrow>
             if n_read (nodes s r) = Some Procfs \<and> length (procfs_content s t) < 2 ^ 31 \<and>
                unat (fd_offset (g_fds s (nat fd))) \<le> length (procfs_content s t)
             then Some (map of_char (drop (unat (fd_offset (g_fds s (nat fd)))) (procfs_content s t)))
             else None
         | _ \<Rightarrow> None))"

lemma proc_read_prefix:
  assumes "proc_rest fd s = Some xs"
  shows "\<exists>s'. vfs_read (mem_tbl fat) fd cnt s =
      Some ((int (length (take (unat (ucast cnt :: u32)) xs)), take (unat (ucast cnt :: u32)) xs), s') \<and>
      proc_rest fd s' = Some (drop (unat (ucast cnt :: u32)) xs)"
proof -
  obtain r t where r: "\<not> bad_fd fd s" "fd_node (g_fds s (nat fd)) = Some r"
      "fs_data (nodes s r) = Proc_text t" "n_read (nodes s r) = Some Procfs"
    using assms by (auto simp: proc_rest_def split: if_splits option.splits fs_data.splits)
  define c where "c = procfs_content s t"
  define off where "off = fd_offset (g_fds s (nat fd))"
  have len: "length c < 2 ^ 31" and le: "unat off \<le> length c"
    and xs: "xs = map of_char (drop (unat off) c)"
    using assms r by (auto simp: proc_rest_def c_def off_def split: if_splits)
  let ?n = "unat (ucast cnt :: u32)"
  have n: "?n < 2 ^ 32" using unsigned_less [of "ucast cnt :: u32", where 'a = nat] by simp
  have lenw: "unat (of_nat (length c) :: u64) = length c" using len by (intro unat_of_nat_small) simp
  have copy: "copy_content c off 0 ?n = take ?n xs"
    using copy_content_eq [of c off 0 ?n] len le n by (simp add: xs take_map)
  have rd: "procfs_read r off (ucast cnt) s = Some ((int (length (take ?n xs)), take ?n xs), s)"
  proof (cases "length c \<le> unat off")
    case True
    then have "xs = []" using le by (simp add: xs)
    then show ?thesis using True r lenw
      by (simp add: procfs_read_def Let_def c_def [symmetric] word_le_nat_alt)
  next
    case False
    then show ?thesis using r lenw copy
      by (simp add: procfs_read_def Let_def c_def [symmetric] word_le_nat_alt)
  qed
  define s' where "s' = advance (nat fd) (int (length (take ?n xs))) s"
  have res: "vfs_read (mem_tbl fat) fd cnt s = Some ((int (length (take ?n xs)), take ?n xs), s')"
    using r rd by (simp add: vfs_read_def off_def [symmetric] mem_tbl_def procfs_ops_def s'_def)
  have keep: "nodes s' = nodes s" "procfs_content s' = procfs_content s"
    "fd_node (g_fds s' (nat fd)) = fd_node (g_fds s (nat fd))"
    "fd_refcount (g_fds s' (nat fd)) = fd_refcount (g_fds s (nat fd))"
    by (simp_all add: s'_def advance_def upd_fd_def)
  have "unat (fd_offset (g_fds s' (nat fd))) = unat off + length (take ?n xs)"
  proof -
    have "length (take ?n xs) \<le> length c - unat off" by (simp add: xs)
    then have small: "unat off + length (take ?n xs) < 2 ^ 64" using len le by simp
    have "unat (of_int (int (length (take ?n xs))) :: u64) = length (take ?n xs)"
      using small by (simp only: of_int_of_nat_eq) (intro unat_of_nat_small, simp)
    then show ?thesis
      using small by (auto simp: s'_def advance_def off_def unat_plus_if_size word_size)
  qed
  moreover have "unat off + length (take ?n xs) \<le> length c" using le by (simp add: xs)
  ultimately have "proc_rest fd s' = Some (drop ?n xs)"
    using r len keep by (auto simp: proc_rest_def bad_fd_def c_def [symmetric] xs drop_map min_def add.commute)
  with res show ?thesis by blast
qed

interpretation proc: byte_stream "vfs_read (mem_tbl fat) fd" "\<lambda>s xs. proc_rest fd s = Some xs" "\<lambda>cnt. unat (ucast cnt :: u32)"
  for fat fd
  by unfold_locales (rule proc_read_prefix)

subsection \<open>A kernel with mounted file systems\<close>

text \<open>ramfs at the root with directories \<open>a\<close> and \<open>b\<close>.\<close>

definition run :: "('s \<Rightarrow> ('r \<times> 's) option) \<Rightarrow> 's \<Rightarrow> 's" where
  "run f s = (case f s of None \<Rightarrow> s | Some (r, s') \<Rightarrow> s')"

definition demo_reg :: memfs where
  "demo_reg = procfs_add_entry ''cpu'' ''x86'' (devfs_add_device ''sda'' 0
     (procfs_register (devfs_register (ramfs_register (vfs_init mem_boot)))))"

definition demo_root :: "memfs fs_ops \<Rightarrow> memfs" where
  "demo_root fat = run (vfs_mkdir (mem_tbl fat) ''/b'') (run (vfs_mkdir (mem_tbl fat) ''/a'')
     (run (vfs_mount (mem_tbl fat) ''/'' ''ramfs'' ''none'') demo_reg))"

lemma run_reach:
  assumes "mem_reach fat s"
  shows "my_strcmp ''fat32'' ty \<noteq> 0 \<Longrightarrow> mem_reach fat (run (vfs_mount (mem_tbl fat) path ty dev) s)"
    and "mem_reach fat (run (vfs_mkdir (mem_tbl fat) path) s)"
    and "mem_reach fat (run (vfs_open (mem_tbl fat) path fl) s)"
  using assms by (auto simp: run_def intro: mem_reach.intros split: option.splits)

lemma cold_boot: "cold mem_boot"
  by (simp add: cold_def mem_boot_def)

lemma demo_reach: "mem_reach fat (demo_reg)" "mem_reach fat (demo_root fat)"
  by (auto simp: demo_reg_def demo_root_def intro!: mem_reach.intros run_reach cold_boot)

lemma flag_and [simp]: "(2 :: u32) AND 2 = 2" "(1 :: u32) AND 2 = 0" "(66 :: u32) AND 2 = 2"
  by simp_all

subsection \<open>Properties\<close>

text \<open>
  C10 (safety, virtual file system). In every state a kernel with these file systems reaches
  without unmounting and without mounting a disk, each call of the interface returns for all
  arguments: path resolution ends, and no NULL pointer is followed.
\<close>

theorem mem_calls_return:
  assumes "mem_reach fat s"
  shows "vfs_open (mem_tbl fat) path flags s \<noteq> None \<and> vfs_close (mem_tbl fat) fd s \<noteq> None \<and>
    vfs_read (mem_tbl fat) fd count s \<noteq> None \<and> vfs_write (mem_tbl fat) fd buf s \<noteq> None \<and>
    vfs_readdir (mem_tbl fat) fd s \<noteq> None \<and> vfs_create (mem_tbl fat) path s \<noteq> None \<and>
    vfs_unlink (mem_tbl fat) path s \<noteq> None \<and> vfs_mkdir (mem_tbl fat) path s \<noteq> None \<and>
    (my_strcmp ''fat32'' fstype \<noteq> 0 \<longrightarrow> vfs_mount (mem_tbl fat) path fstype dev s \<noteq> None)"
proof -
  note inv = mem_reach_inv [OF assms]
  show ?thesis
    using mem.open_returns [OF inv, of fat path flags] mem.close_returns [OF inv, of fat fd]
      mem.read_returns [OF inv, of fat fd count] mem.write_returns [OF inv, of fat fd buf]
      mem.readdir_returns [OF inv, of fat fd] mem.create_returns [OF inv, of fat path]
      mem.unlink_returns [OF inv, of fat path] mem.mkdir_returns [OF inv, of fat path]
      mem_vfs_mount_safe [OF inv, of fstype fat path dev]
    by auto
qed

text \<open>
  C11 (equivalence, virtual file system). In those states resolving an absolute path none of
  whose components is longer than 255 characters is following, from the root, the list of its
  non-empty components, each step being the lookup of the directory's file system and the step
  over a mount; repeated and trailing slashes do not matter, and the state is unchanged.
\<close>

theorem path_names_node:
  assumes "mem_reach fat s" and "g_vfs_root s = Some r"
    and "\<forall>x \<in> set (components p). length x \<le> 255"
  shows "vfs_resolve_path (mem_tbl fat) (CHR ''/'' # p) s =
    Some (follow (lookup_step mem_look s) r (components p), s)"
  using mem.resolve_named [OF mem_reach_inv [OF assms(1)]] mem.named_components [OF assms(3,2)]
  by simp

text \<open>
  \<open>vfs_open\<close> either returns \<open>-1\<close> and leaves the
  descriptor table alone, or returns the lowest descriptor from 3 on that was free, which then
  refers to a node with count 1 at offset 0, or at its size with \<open>O_APPEND\<close>; no other
  descriptor changes.
\<close>

theorem open_lowest_descriptor:
  assumes "mem_reach fat s" and "vfs_open (mem_tbl fat) path flags s = Some (rc, s')"
  shows "opened path flags s rc s'"
  using mem.open_opened [OF mem_reach_inv [OF assms(1)] assms(2)] .

text \<open>
  A successful \<open>ramfs_create\<close> adds to its directory the new node under
  the first 31 characters of the name and touches no other entry and no other directory. A
  longer name can therefore not be looked up although it was created.
\<close>

theorem ramfs_create_entry:
  assumes "fs_data (nodes s p) = Ram_dir d" and "d < ramfs_node_count s"
    and "ramfs_create p name flags s = Some (0, s')" and "entries s d (take 31 name) = None"
  shows "entries s' d = (entries s d)(take 31 name \<mapsto> Ram (ramfs_node_count s)) \<and>
    (\<forall>e < ramfs_node_count s. e \<noteq> d \<longrightarrow> entries s' e = entries s e) \<and>
    entries s' (ramfs_node_count s) = (\<lambda>_. None) \<and>
    (31 < length name \<longrightarrow> entries s d name = None \<longrightarrow> entries s' d name = None)"
proof -
  have "take 31 name \<noteq> name" if "31 < length name"
  proof
    assume "take 31 name = name"
    then have "length name \<le> 31" by (metis length_take min.cobounded2)
    with that show False by simp
  qed
  moreover note e = ramfs_create_entries [OF assms]
  ultimately have "31 < length name \<longrightarrow> entries s d name = None \<longrightarrow> entries s' d name = None"
    unfolding e(1) by (metis fun_upd_other)
  with e show ?thesis by blast
qed

text \<open>
  C12 (liveness, virtual file system and procfs). Reading an open procfs file through \<open>vfs_read\<close>
  in pieces of any positive size until a read returns nothing ends, after at most one call more
  than there are bytes, and yields exactly the rest of the file from the descriptor's offset.
\<close>

theorem procfs_read_to_end:
  assumes "proc_rest fd s = Some xs" and "ucast cnt \<noteq> (0 :: u32)" and "length xs < fuel"
  shows "\<exists>s'. read_loop (vfs_read (mem_tbl fat) fd) cnt fuel s = Some (xs, s') \<and>
    proc_rest fd s' = Some []"
  using proc.read_loop_all [OF assms(1) _ assms(3), of cnt fat] assms(2) by (simp add: unat_gt_0)

theorem mem_calls_return_witness: "vfs_mkdir (mem_tbl null_ops) ''/a/x'' (demo_root null_ops) \<noteq> None"
  using mem_calls_return [OF demo_reach(2), where path = "''/a/x''"] by blast

theorem path_names_node_witness:
  "\<exists>r. vfs_resolve_path (mem_tbl null_ops) ''/b//'' (demo_root null_ops) =
     Some (follow (lookup_step mem_look (demo_root null_ops)) r [''b''], demo_root null_ops)"
proof -
  have "\<exists>r. g_vfs_root (demo_root null_ops) = Some r"
    by (rule exI [of _ "Ram 0"]) code_simp
  then obtain r where r: "g_vfs_root (demo_root null_ops) = Some r" by blast
  have "components ''b//'' = [''b'']" by (simp add: components_def)
  then show ?thesis
    using path_names_node [OF demo_reach(2) r, of "''b//''"] by (intro exI [of _ r]) simp
qed

theorem open_lowest_descriptor_witness:
  "\<exists>rc s'. vfs_open (mem_tbl null_ops) ''/b'' 0 (demo_root null_ops) = Some (rc, s') \<and>
     opened ''/b'' 0 (demo_root null_ops) rc s'"
proof -
  obtain rc s' where "vfs_open (mem_tbl null_ops) ''/b'' 0 (demo_root null_ops) = Some (rc, s')"
    using mem.open_returns [OF mem_reach_inv [OF demo_reach(2)]] by blast
  with open_lowest_descriptor [OF demo_reach(2) this] show ?thesis by blast
qed

theorem ramfs_create_entry_witness:
  "\<exists>s (s' :: memfs). ramfs_create (Ram 0) ''f'' 1 s = Some (0, s') \<and> entries s' 0 ''f'' = Some (Ram 1)"
proof -
  let ?s = "mem_boot\<lparr>nodes := (\<lambda>_. zero_node)(Ram 0 := zero_node\<lparr>node_flags := 2, fs_data := Ram_dir 0\<rparr>),
     ramfs_node_count := 1\<rparr>"
  have none: "find_child (\<lambda>_. None) ns nm i n = None" for ns nm i n
    by (induction n arbitrary: i) auto
  have s: "fs_data (nodes ?s (Ram 0)) = Ram_dir 0" "ramfs_node_count ?s = 1"
    "entries ?s 0 (take 31 ''f'') = None" "\<And>d. children ?s d = (\<lambda>_. None)"
    by (simp_all add: entries_def mem_boot_def none)
  have free: "free_slot (\<lambda>_. None) 0 RAMFS_MAX_CHILDREN = Some 0"
    by (simp add: RAMFS_MAX_CHILDREN_def eval_nat_numeral)
  obtain rc s' where c: "ramfs_create (Ram 0) ''f'' 1 ?s = Some (rc, s')"
    using s free by (simp add: ramfs_create_def ramfs_alloc_node_def Let_def VFS_DIRECTORY_def MAX_RAMFS_NODES_def)
  have "rc = 0"
    using c s free
    by (auto simp: ramfs_create_def ramfs_alloc_node_def Let_def VFS_DIRECTORY_def MAX_RAMFS_NODES_def)
  with ramfs_create_entry [OF s(1) _ _ s(3)] c s(2)
  have "ramfs_create (Ram 0) ''f'' 1 ?s = Some (0, s') \<and> entries s' 0 ''f'' = Some (Ram 1)" by simp
  then show ?thesis by blast
qed

theorem procfs_read_to_end_witness:
  "\<exists>fd (s :: memfs) s'. read_loop (vfs_read (mem_tbl null_ops) fd) 2 9 s = Some ([0x78, 0x38, 0x36], s')"
proof -
  let ?s = "mem_boot\<lparr>nodes := (\<lambda>_. zero_node\<lparr>fs_data := Proc_text 0, n_read := Some Procfs\<rparr>),
     g_fds := (\<lambda>_. zero_fd\<lparr>fd_node := Some (Proc 0), fd_refcount := 1\<rparr>),
     procfs_content := (\<lambda>_. ''x86'')\<rparr>"
  have "proc_rest 3 ?s = Some [0x78, 0x38, 0x36]"
    by (simp add: proc_rest_def bad_fd_def MAX_FDS_def zero_fd_def zero_node_def)
  from procfs_read_to_end [OF this, of 2 9 null_ops]
  have "\<exists>s'. read_loop (vfs_read (mem_tbl null_ops) 3) 2 9 ?s = Some ([0x78, 0x38, 0x36], s')" by auto
  then show ?thesis by blast
qed

end
