(* ===== verification/Fat.thy ===== *)
theory Fat
  imports Mm Mem_Fs Links
begin

text \<open>
  The FAT32 driver of \<^verbatim>\<open>fs/fat32_vfs.c\<close> on the file system layer of \<open>Vfs\<close> and the page
  allocator of \<open>Mm\<close>. The pages it allocates for its structures are stores indexed by the page
  address: \<open>fs_at\<close> for \<open>struct fat32_fs\<close>, \<open>nd_at\<close> for \<open>struct fat32_node_data\<close>, and a node
  in page \<open>p\<close> is \<open>Heap p\<close>. The disk is a function from byte addresses to bytes, reached
  through \<open>dev_read\<close> and \<open>dev_write\<close>: transfer number \<open>n\<close> fails, and then moves nothing, if
  \<open>io_fail n\<close>. A directory entry is its 32 bytes; \<open>char\<close> is signed on this machine, which
  matters where the code compares one with a constant. Faults (\<open>None\<close>) are NULL pointers,
  accesses outside the page or the array, and division by zero; a loop over a cyclic chain,
  which never returns, is \<open>None\<close> too.
\<close>

subsection \<open>State\<close>

record fat32_fs =
  bytes_per_sector :: u16
  sectors_per_cluster :: u8
  reserved_sectors :: u16
  num_fats :: u8
  total_sectors_32 :: u32
  fat_size_32 :: u32
  root_cluster :: u32
  volume_id :: u32
  fat_start_sector :: u32
  data_start_sector :: u32
  root_dir_cluster :: u32
  fat_page :: u64
  fat_cache :: "nat \<Rightarrow> u32"
  fat_cache_valid :: bool

record fat32_node_data =
  first_cluster :: u32
  parent_cluster :: u32
  nd_fs :: u64

record fat = memfs +
  mem :: mm
  fs_at :: "u64 \<Rightarrow> fat32_fs"
  nd_at :: "u64 \<Rightarrow> fat32_node_data"
  disk :: "nat \<Rightarrow> u8"
  io_count :: nat
  io_fail :: "nat \<Rightarrow> bool"
  junk :: "u64 \<Rightarrow> u8 list"

definition FAT_ATTR_VOLUME_ID :: u8 where "FAT_ATTR_VOLUME_ID = 0x08"
definition FAT_ATTR_DIRECTORY :: u8 where "FAT_ATTR_DIRECTORY = 0x10"
definition FAT_ATTR_ARCHIVE :: u8 where "FAT_ATTR_ARCHIVE = 0x20"
definition FAT_ATTR_LFN :: u8 where "FAT_ATTR_LFN = 0x0F"

text \<open>The first cluster number that ends a chain, and the mark that is written.\<close>

definition EOC :: u32 where "EOC = 0x0FFFFFF8"
definition EOC_MARK :: u32 where "EOC_MARK = 0x0FFFFFFF"

text \<open>One page of cached FAT holds 1024 entries.\<close>

definition FAT_CACHE_ENTRIES :: nat where "FAT_CACHE_ENTRIES = 1024"
definition PAGE_BYTES :: nat where "PAGE_BYTES = 4096"

text \<open>Little-endian fields.\<close>

definition get16 :: "u8 list \<Rightarrow> nat \<Rightarrow> u16" where
  "get16 bs k = ucast (bs ! k) OR push_bit 8 (ucast (bs ! Suc k))"

definition get32 :: "u8 list \<Rightarrow> nat \<Rightarrow> u32" where
  "get32 bs k = ucast (bs ! k) OR push_bit 8 (ucast (bs ! (k + 1))) OR
     push_bit 16 (ucast (bs ! (k + 2))) OR push_bit 24 (ucast (bs ! (k + 3)))"

definition bytes16 :: "u16 \<Rightarrow> u8 list" where
  "bytes16 w = [ucast w, ucast (drop_bit 8 w)]"

definition bytes32 :: "u32 \<Rightarrow> u8 list" where
  "bytes32 w = [ucast w, ucast (drop_bit 8 w), ucast (drop_bit 16 w), ucast (drop_bit 24 w)]"

text \<open>Overwriting part of a buffer; the callers stay inside it.\<close>

definition put :: "nat \<Rightarrow> 'b list \<Rightarrow> 'b list \<Rightarrow> 'b list" where
  "put k xs buf = take k buf @ xs @ drop (k + length xs) buf"

lemma length_put: "k + length xs \<le> length buf \<Longrightarrow> length (put k xs buf) = length buf"
  by (simp add: put_def)

definition cstr :: "u8 list \<Rightarrow> u8 list" where
  "cstr buf = takeWhile (\<lambda>c. c \<noteq> 0) buf"

definition to_bytes :: "string \<Rightarrow> u8 list" where
  "to_bytes s = map of_char s"

definition of_bytes :: "u8 list \<Rightarrow> string" where
  "of_bytes bs = map (\<lambda>b. char_of (unat b)) bs"

subsection \<open>The disk\<close>

definition dev_read :: "nat \<Rightarrow> nat \<Rightarrow> 'a fat_scheme \<Rightarrow> u8 list option \<times> 'a fat_scheme" where
  "dev_read lba count s =
     (if io_fail s (io_count s) then None
      else Some (map (disk s) [lba * 512 ..< (lba + count) * 512]),
      s\<lparr>io_count := Suc (io_count s)\<rparr>)"

definition dev_write :: "nat \<Rightarrow> u8 list \<Rightarrow> 'a fat_scheme \<Rightarrow> bool \<times> 'a fat_scheme" where
  "dev_write lba data s =
     (let s1 = s\<lparr>io_count := Suc (io_count s)\<rparr>
      in if io_fail s (io_count s) then (False, s1)
         else (True, s1\<lparr>disk := (\<lambda>a. if lba * 512 \<le> a \<and> a < lba * 512 + length data
                                  then data ! (a - lba * 512) else disk s a)\<rparr>))"

definition alloc_page :: "'a fat_scheme \<Rightarrow> u64 \<times> 'a fat_scheme" where
  "alloc_page s = (let (p, m) = pfa_alloc (mem s) in (p, s\<lparr>mem := m\<rparr>))"

definition free_page :: "u64 \<Rightarrow> 'a fat_scheme \<Rightarrow> 'a fat_scheme" where
  "free_page p s = s\<lparr>mem := pfa_free p (mem s)\<rparr>"

definition upd_fs :: "u64 \<Rightarrow> (fat32_fs \<Rightarrow> fat32_fs) \<Rightarrow> 'a fat_scheme \<Rightarrow> 'a fat_scheme" where
  "upd_fs p f s = s\<lparr>fs_at := (fs_at s)(p := f (fs_at s p))\<rparr>"

definition upd_nd :: "u64 \<Rightarrow> (fat32_node_data \<Rightarrow> fat32_node_data) \<Rightarrow> 'a fat_scheme \<Rightarrow> 'a fat_scheme" where
  "upd_nd p f s = s\<lparr>nd_at := (nd_at s)(p := f (nd_at s p))\<rparr>"

subsection \<open>The file allocation table\<close>

definition fat32_get_fat_entry :: "fat32_fs \<Rightarrow> u32 \<Rightarrow> u32 option" where
  "fat32_get_fat_entry fs cluster =
     (if \<not> fat_cache_valid fs then Some 0x0FFFFFFF
      else if FAT_CACHE_ENTRIES \<le> unat cluster then None
      else Some (fat_cache fs (unat cluster) AND 0x0FFFFFFF))"

definition fat32_set_fat_entry :: "fat32_fs \<Rightarrow> u32 \<Rightarrow> u32 \<Rightarrow> fat32_fs option" where
  "fat32_set_fat_entry fs cluster val =
     (if \<not> fat_cache_valid fs then Some fs
      else if FAT_CACHE_ENTRIES \<le> unat cluster then None
      else Some (fs\<lparr>fat_cache := (fat_cache fs)(unat cluster :=
             (fat_cache fs (unat cluster) AND 0xF0000000) OR (val AND 0x0FFFFFFF))\<rparr>))"

definition fat32_cluster_to_sector :: "fat32_fs \<Rightarrow> u32 \<Rightarrow> u32" where
  "fat32_cluster_to_sector fs cluster =
     data_start_sector fs + (cluster - 2) * ucast (sectors_per_cluster fs)"

definition cluster_bytes :: "fat32_fs \<Rightarrow> u32" where
  "cluster_bytes fs = ucast (bytes_per_sector fs) * ucast (sectors_per_cluster fs)"

text \<open>The write of \<open>fat_size_32\<close> sectors from the cache, which is one page of 8 sectors.\<close>

definition write_fat :: "u64 \<Rightarrow> 'a fat_scheme \<Rightarrow> (bool \<times> 'a fat_scheme) option" where
  "write_fat f s =
     (let fs = fs_at s f
      in if 8 < unat (fat_size_32 fs) then None
         else Some (dev_write (unat (fat_start_sector fs))
                (concat (map (\<lambda>i. bytes32 (fat_cache fs i)) [0 ..< 128 * unat (fat_size_32 fs)])) s))"

fun alloc_from :: "u64 \<Rightarrow> u32 \<Rightarrow> nat \<Rightarrow> 'a fat_scheme \<Rightarrow> (u32 \<times> 'a fat_scheme) option" where
  "alloc_from f i 0 s = Some (0, s)"
| "alloc_from f i (Suc n) s = do {
     e \<leftarrow> fat32_get_fat_entry (fs_at s f) i;
     if e = 0 then do {
       fs1 \<leftarrow> fat32_set_fat_entry (fs_at s f) i 0x0FFFFFFF;
       (ok, s2) \<leftarrow> write_fat f (upd_fs f (\<lambda>_. fs1) s);
       Some (if ok then i else 0, s2)
     }
     else alloc_from f (i + 1) n s
   }"

definition fat32_alloc_cluster :: "u64 \<Rightarrow> 'a fat_scheme \<Rightarrow> (u32 \<times> 'a fat_scheme) option" where
  "fat32_alloc_cluster f s =
     (let fs = fs_at s f
      in if \<not> fat_cache_valid fs then Some (0, s)
         else if sectors_per_cluster fs = 0 then None
         else
           let total_clusters = total_sectors_32 fs div ucast (sectors_per_cluster fs)
           in alloc_from f 2 (unat total_clusters - 2) s)"

definition fat32_extend_chain :: "u64 \<Rightarrow> u32 \<Rightarrow> 'a fat_scheme \<Rightarrow> (u32 \<times> 'a fat_scheme) option" where
  "fat32_extend_chain f last_cluster s = do {
     (new_cluster, s1) \<leftarrow> fat32_alloc_cluster f s;
     if new_cluster = 0 then Some (0, s1)
     else do {
       fs1 \<leftarrow> fat32_set_fat_entry (fs_at s1 f) last_cluster new_cluster;
       (ok, s2) \<leftarrow> write_fat f (upd_fs f (\<lambda>_. fs1) s1);
       Some (new_cluster, s2)
     }
   }"

text \<open>Reading a cluster into a page, which keeps its contents when the transfer fails.\<close>

definition fat32_read_cluster ::
  "u64 \<Rightarrow> u32 \<Rightarrow> u8 list \<Rightarrow> 'a fat_scheme \<Rightarrow> ((bool \<times> u8 list) \<times> 'a fat_scheme) option" where
  "fat32_read_cluster f cluster buf s =
     (let fs = fs_at s f; n = unat (sectors_per_cluster fs)
      in if PAGE_BYTES < n * 512 then None
         else case dev_read (unat (fat32_cluster_to_sector fs cluster)) n s of
             (None, s1) \<Rightarrow> Some ((False, buf), s1)
           | (Some data, s1) \<Rightarrow> Some ((True, put 0 data buf), s1))"

definition fat32_write_cluster ::
  "u64 \<Rightarrow> u32 \<Rightarrow> u8 list \<Rightarrow> 'a fat_scheme \<Rightarrow> (bool \<times> 'a fat_scheme) option" where
  "fat32_write_cluster f cluster buf s =
     (let fs = fs_at s f; n = unat (sectors_per_cluster fs)
      in if PAGE_BYTES < n * 512 then None
         else Some (dev_write (unat (fat32_cluster_to_sector fs cluster)) (take (n * 512) buf) s))"

subsection \<open>Names\<close>

definition is_upper :: "u8 \<Rightarrow> bool" where
  "is_upper c \<longleftrightarrow> 0x41 \<le> c \<and> c \<le> 0x5A"

definition is_lower :: "u8 \<Rightarrow> bool" where
  "is_lower c \<longleftrightarrow> 0x61 \<le> c \<and> c \<le> 0x7A"

definition to_lower :: "u8 \<Rightarrow> u8" where
  "to_lower c = (if is_upper c then c + 32 else c)"

definition to_upper :: "u8 \<Rightarrow> u8" where
  "to_upper c = (if is_lower c then c - 32 else c)"

definition fat32_to_normal_name :: "u8 list \<Rightarrow> u8 list" where
  "fat32_to_normal_name fat_name =
     map to_lower (takeWhile (\<lambda>c. c \<noteq> 0x20) (take 8 fat_name)) @
     (if fat_name ! 8 \<noteq> 0x20
      then 0x2E # map to_lower (takeWhile (\<lambda>c. c \<noteq> 0x20) (take 3 (drop 8 fat_name))) else [])"

text \<open>The base name is what precedes the first dot, cut to 8; the extension what follows it.\<close>

definition fat32_to_fat_name :: "u8 list \<Rightarrow> u8 list" where
  "fat32_to_fat_name normal =
     (let base = map to_upper (take 8 (takeWhile (\<lambda>c. c \<noteq> 0x2E) normal));
          ext = (case dropWhile (\<lambda>c. c \<noteq> 0x2E) normal of [] \<Rightarrow> []
                 | _ # e \<Rightarrow> map to_upper (take 3 e))
      in put 8 ext (put 0 base (replicate 11 0x20)))"

definition lfn_checksum :: "u8 list \<Rightarrow> u8" where
  "lfn_checksum short_name =
     fold (\<lambda>c sum. (push_bit 7 (sum AND 1) OR drop_bit 1 (sum AND 0xFE)) + c) short_name 0"

text \<open>The first loop of \<open>make_short_name\<close>: up to 6 characters before the first dot, no spaces.\<close>

fun short_base :: "u8 list \<Rightarrow> nat \<Rightarrow> u8 list" where
  "short_base [] j = []"
| "short_base (c # cs) j =
     (if c = 0x2E \<or> 6 \<le> j then []
      else if to_upper c = 0x20 then short_base cs j
      else to_upper c # short_base cs (Suc j))"

text \<open>What follows the last dot, if there is one.\<close>

definition last_ext :: "u8 list \<Rightarrow> u8 list option" where
  "last_ext name =
     (if 0x2E \<in> set name then Some (rev (takeWhile (\<lambda>c. c \<noteq> 0x2E) (rev name))) else None)"

definition make_short_name :: "u8 list \<Rightarrow> u8 list" where
  "make_short_name long_name =
     (let s0 = put 0 (short_base long_name 0) (replicate 11 0x20);
          s1 = put 6 [0x7E, 0x31] s0
      in case last_ext long_name of None \<Rightarrow> s1
         | Some ext \<Rightarrow> put 8 (map to_upper (take 3 ext)) s1)"

text \<open>Only whether the result is 0 matters to the callers.\<close>

fun my_strcasecmp :: "u8 list \<Rightarrow> u8 list \<Rightarrow> int" where
  "my_strcasecmp (a # s1) (b # s2) =
     (if to_upper a \<noteq> to_upper b then sint (to_upper a) - sint (to_upper b) else my_strcasecmp s1 s2)"
| "my_strcasecmp (a # s1) [] = sint a"
| "my_strcasecmp [] (b # s2) = - sint b"
| "my_strcasecmp [] [] = 0"

subsection \<open>Reading and writing files\<close>

definition fat32_open :: "node_ref \<Rightarrow> u32 \<Rightarrow> 'a fat_scheme \<Rightarrow> (int \<times> 'a fat_scheme) option" where
  "fat32_open node flags s = Some (0, s)"

definition fat32_close :: "node_ref \<Rightarrow> 'a fat_scheme \<Rightarrow> 'a fat_scheme option" where
  "fat32_close node s = Some s"

text \<open>Skipping \<open>n\<close> clusters; \<open>Inl\<close> when the chain ends before.\<close>

fun skip_read :: "fat32_fs \<Rightarrow> nat \<Rightarrow> u32 \<Rightarrow> (unit + u32) option" where
  "skip_read fs 0 c = Some (Inr c)"
| "skip_read fs (Suc n) c = do {
     e \<leftarrow> fat32_get_fat_entry fs c;
     if EOC \<le> e then Some (Inl ()) else skip_read fs n e
   }"

text \<open>
  The copy loop of \<open>fat32_read\<close>: \<open>sz\<close> bytes are left, from \<open>off\<close> in cluster \<open>c\<close>. A faulting
  divisor aside, each round copies at least one byte.
\<close>

function read_clusters :: "u64 \<Rightarrow> nat \<Rightarrow> nat \<Rightarrow> nat \<Rightarrow> u32 \<Rightarrow> u8 list \<Rightarrow> 'a fat_scheme \<Rightarrow>
    (u8 list \<times> 'a fat_scheme) option" where
  "read_clusters f cs sz off c buf s =
     (if sz = 0 \<or> EOC \<le> c then Some ([], s)
      else if cs \<le> off then None
      else case fat32_read_cluster f c buf s of
          None \<Rightarrow> None
        | Some ((False, _), s1) \<Rightarrow> Some ([], s1)
        | Some ((True, buf1), s1) \<Rightarrow>
            let copy_size = (if sz < cs - off then sz else cs - off)
            in case fat32_get_fat_entry (fs_at s1 f) c of
                 None \<Rightarrow> None
               | Some c1 \<Rightarrow>
                 (case read_clusters f cs (sz - copy_size) 0 c1 buf1 s1 of
                    None \<Rightarrow> None
                  | Some (rest, s2) \<Rightarrow> Some (take copy_size (drop off buf1) @ rest, s2)))"
  by pat_completeness auto

termination
  by (relation "measure (\<lambda>(f, cs, sz, off, c, buf, s). sz)") auto

definition fat32_read :: "node_ref \<Rightarrow> u64 \<Rightarrow> u32 \<Rightarrow> 'a fat_scheme \<Rightarrow>
    ((int \<times> u8 list) \<times> 'a fat_scheme) option" where
  "fat32_read node offset sz s =
     (case fs_data (nodes s node) of
        No_data \<Rightarrow> Some ((-1, []), s)
      | Fat_data d \<Rightarrow>
          let f = nd_fs (nd_at s d); fs = fs_at s f; cs = unat (cluster_bytes fs);
              size = unat (node_size (nodes s node))
          in if size \<le> unat offset then Some ((0, []), s)
             else if cs = 0 then None
             else
               let sz = (if size < unat offset + unat sz then size - unat offset else unat sz)
               in (case skip_read fs (unat offset div cs) (first_cluster (nd_at s d)) of
                     None \<Rightarrow> None
                   | Some (Inl _) \<Rightarrow> Some ((0, []), s)
                   | Some (Inr c) \<Rightarrow>
                       let (p, s1) = alloc_page s
                       in if p = 0 then None
                          else (case read_clusters f cs sz (unat offset mod cs) c (junk s1 p) s1 of
                            None \<Rightarrow> None
                          | Some (bytes, s2) \<Rightarrow>
                              Some ((int (length bytes), bytes), free_page p s2)))
      | _ \<Rightarrow> None)"

text \<open>Skipping with extension: \<open>None\<close> inside \<open>Some\<close> when no cluster could be added.\<close>

fun skip_extend :: "u64 \<Rightarrow> nat \<Rightarrow> u32 \<Rightarrow> 'a fat_scheme \<Rightarrow> (u32 option \<times> 'a fat_scheme) option" where
  "skip_extend f 0 c s = Some (Some c, s)"
| "skip_extend f (Suc n) c s = do {
     e \<leftarrow> fat32_get_fat_entry (fs_at s f) c;
     if EOC \<le> e then do {
       (e1, s1) \<leftarrow> fat32_extend_chain f c s;
       if e1 = 0 then Some (None, s1) else skip_extend f n e1 s1
     }
     else skip_extend f n e s
   }"

text \<open>
  The loop of \<open>fat32_write\<close>. The result is the number of bytes written and whether the loop
  ended by itself; otherwise the function returns from inside it, without the size update.
\<close>

function write_clusters :: "u64 \<Rightarrow> nat \<Rightarrow> u8 list \<Rightarrow> nat \<Rightarrow> u32 \<Rightarrow> u8 list \<Rightarrow> 'a fat_scheme \<Rightarrow>
    ((nat \<times> bool) \<times> 'a fat_scheme) option" where
  "write_clusters f cs data off c buf s =
     (if data = [] then Some ((0, True), s)
      else if cs \<le> off then None
      else
        let partial = (off \<noteq> 0 \<or> length data < cs)
        in case (if partial then fat32_read_cluster f c buf s else Some ((True, buf), s)) of
          None \<Rightarrow> None
        | Some ((_, buf1), s1) \<Rightarrow>
            let copy_size = (if length data < cs - off then length data else cs - off);
                buf2 = put off (take copy_size data) buf1;
                rest = drop copy_size data
            in (case fat32_write_cluster f c buf2 s1 of
                  None \<Rightarrow> None
                | Some (False, s2) \<Rightarrow> Some ((0, False), s2)
                | Some (True, s2) \<Rightarrow>
                    if rest = [] then Some ((copy_size, True), s2)
                    else (case fat32_get_fat_entry (fs_at s2 f) c of
                        None \<Rightarrow> None
                      | Some e \<Rightarrow>
                        (case (if EOC \<le> e then fat32_extend_chain f c s2 else Some (e, s2)) of
                           None \<Rightarrow> None
                         | Some (c1, s3) \<Rightarrow>
                             if c1 = 0 then Some ((copy_size, False), s3)
                             else (case write_clusters f cs rest 0 c1 buf2 s3 of
                                 None \<Rightarrow> None
                               | Some ((n, fin), s4) \<Rightarrow> Some ((copy_size + n, fin), s4))))))"
  by pat_completeness auto

termination
  by (relation "measure (\<lambda>(f, cs, data, off, c, buf, s). length data)") auto

definition fat32_write :: "node_ref \<Rightarrow> u64 \<Rightarrow> u8 list \<Rightarrow> 'a fat_scheme \<Rightarrow> (int \<times> 'a fat_scheme) option" where
  "fat32_write node offset data s =
     (case fs_data (nodes s node) of
        No_data \<Rightarrow> Some (-1, s)
      | Fat_data d \<Rightarrow>
          let f = nd_fs (nd_at s d); cs = unat (cluster_bytes (fs_at s f));
              c0 = first_cluster (nd_at s d)
          in (case (if c0 = 0 \<or> EOC \<le> c0 then fat32_alloc_cluster f s else Some (c0, s)) of
                None \<Rightarrow> None
              | Some (c1, s1) \<Rightarrow>
                  if c1 = 0 then Some (-1, s1)
                  else
                    let s1 = upd_nd d (\<lambda>x. x\<lparr>first_cluster := c1\<rparr>) s1
                    in if cs = 0 then None
                    else (case skip_extend f (unat (ucast (offset div of_nat cs) :: u32)) c1 s1 of
                        None \<Rightarrow> None
                      | Some (None, s2) \<Rightarrow> Some (0, s2)
                      | Some (Some c, s2) \<Rightarrow>
                          let (p, s3) = alloc_page s2
                          in if p = 0 then None
                             else (case write_clusters f cs data (unat offset mod cs) c (junk s3 p) s3 of
                                 None \<Rightarrow> None
                               | Some ((n, fin), s4) \<Rightarrow>
                                   let s5 = free_page p s4;
                                       s6 = (if fin \<and> ucast (node_size (nodes s5 node)) < offset + of_nat n
                                             then upd_node node (\<lambda>x. x\<lparr>node_size := ucast (offset + of_nat n)\<rparr>) s5
                                             else s5)
                                   in Some (int n, s6))))
      | _ \<Rightarrow> None)"

subsection \<open>Directories\<close>

definition dir_entry :: "u8 list \<Rightarrow> nat \<Rightarrow> u8 list" where
  "dir_entry buf i = take 32 (drop (32 * i) buf)"

definition de_attr :: "u8 list \<Rightarrow> u8" where "de_attr e = e ! 11"

definition de_cluster :: "u8 list \<Rightarrow> u32" where
  "de_cluster e = push_bit 16 (ucast (get16 e 20)) OR ucast (get16 e 26)"

text \<open>The comparisons of \<open>name[0]\<close>, a signed \<open>char\<close>, with 0x00 and 0xE5.\<close>

definition entry_is_end :: "u8 list \<Rightarrow> bool" where
  "entry_is_end e \<longleftrightarrow> sint (e ! 0) = 0x00"

definition entry_is_deleted :: "u8 list \<Rightarrow> bool" where
  "entry_is_deleted e \<longleftrightarrow> sint (e ! 0) = 0xE5"

definition entry_is_lfn :: "u8 list \<Rightarrow> bool" where
  "entry_is_lfn e \<longleftrightarrow> de_attr e AND FAT_ATTR_LFN = FAT_ATTR_LFN"

text \<open>The 13 characters of a long name entry.\<close>

definition lfn_char :: "u16 \<Rightarrow> u8" where
  "lfn_char w = (if w < 0x80 then ucast w else 0x3F)"

definition lfn_chars :: "u8 list \<Rightarrow> u8 list" where
  "lfn_chars e = map (\<lambda>k. lfn_char (get16 e k)) [1, 3, 5, 7, 9, 14, 16, 18, 20, 22, 24, 28, 30]"

type_synonym lfn_state = "u8 list \<times> int"

definition lfn_reset :: lfn_state where
  "lfn_reset = (replicate 256 0, -1)"

definition add_lfn :: "u8 list \<Rightarrow> lfn_state \<Rightarrow> lfn_state" where
  "add_lfn e st =
     (let (buf, ck) = (if e ! 0 AND 0x40 \<noteq> 0 then (replicate 256 0, uint (e ! 13)) else st);
          idx = (uint (e ! 0 AND 0x3F) - 1) * 13
      in (if 0 \<le> idx \<and> idx < 242 then put (nat idx) (lfn_chars e) buf else buf, ck))"

text \<open>Whether the accumulated long name belongs to a short entry.\<close>

definition lfn_valid :: "u8 list \<Rightarrow> lfn_state \<Rightarrow> bool" where
  "lfn_valid e st \<longleftrightarrow> fst st ! 0 \<noteq> 0 \<and> uint (lfn_checksum (take 11 e)) = snd st"

definition entry_name :: "u8 list \<Rightarrow> lfn_state \<Rightarrow> u8 list" where
  "entry_name e st =
     (if lfn_valid e st then take 127 (cstr (fst st)) else fat32_to_normal_name (take 11 e))"

definition entry_matches :: "u8 list \<Rightarrow> u8 list \<Rightarrow> lfn_state \<Rightarrow> bool" where
  "entry_matches name e st \<longleftrightarrow>
     lfn_valid e st \<and> my_strcasecmp name (cstr (fst st)) = 0 \<or>
     my_strcasecmp name (fat32_to_normal_name (take 11 e)) = 0"

text \<open>
  The scan of the entries of one cluster. \<open>Inl None\<close> is the end of the directory, \<open>Inl (Some _)\<close>
  the entry found with the long name before it; \<open>Inr st\<close> carries the state to the next cluster.
\<close>

fun find_entry :: "u8 list \<Rightarrow> u8 list list \<Rightarrow> lfn_state \<Rightarrow>
    (u8 list \<times> lfn_state) option + lfn_state" where
  "find_entry name [] st = Inr st"
| "find_entry name (e # es) st =
     (if entry_is_end e then Inl None
      else if entry_is_deleted e then find_entry name es lfn_reset
      else if entry_is_lfn e then find_entry name es (add_lfn e st)
      else if de_attr e AND FAT_ATTR_VOLUME_ID \<noteq> 0 then find_entry name es (fst st, -1)
      else if entry_matches name e st then Inl (Some (e, st))
      else find_entry name es lfn_reset)"

fun nth_entry :: "nat \<Rightarrow> u8 list list \<Rightarrow> lfn_state \<Rightarrow> nat \<Rightarrow>
    (u8 list \<times> lfn_state) option + lfn_state \<times> nat" where
  "nth_entry index [] st i = Inr (st, i)"
| "nth_entry index (e # es) st i =
     (if entry_is_end e then Inl None
      else if entry_is_deleted e then nth_entry index es lfn_reset i
      else if entry_is_lfn e then nth_entry index es (add_lfn e st) i
      else if de_attr e AND FAT_ATTR_VOLUME_ID \<noteq> 0 then nth_entry index es (fst st, -1) i
      else if i = index then Inl (Some (e, st))
      else nth_entry index es lfn_reset (Suc i))"

definition dir_entries :: "fat32_fs \<Rightarrow> u8 list \<Rightarrow> u8 list list" where
  "dir_entries fs buf = map (dir_entry buf) [0 ..< unat (cluster_bytes fs) div 32]"

text \<open>The node for an entry, in a page of its own, and its data in another.\<close>

definition make_child :: "u64 \<Rightarrow> u32 \<Rightarrow> u8 list \<Rightarrow> lfn_state \<Rightarrow> 'a fat_scheme \<Rightarrow>
    (node_ref \<times> 'a fat_scheme) option" where
  "make_child f parent e st s =
     (let (p, s1) = alloc_page s
      in if p = 0 then None
         else
           let (q, s2) = alloc_page s1
           in if q = 0 then None
              else
                let s3 = upd_nd q (\<lambda>_. \<lparr>first_cluster = de_cluster e, parent_cluster = parent,
                             nd_fs = f\<rparr>) s2;
                    node = zero_node\<lparr>node_name := of_bytes (entry_name e st),
                      node_size := get32 e 28,
                      node_flags := (if de_attr e AND FAT_ATTR_DIRECTORY \<noteq> 0 then VFS_DIRECTORY
                                     else VFS_FILE),
                      n_open := Some Fat32, n_close := Some Fat32, n_read := Some Fat32,
                      n_write := Some Fat32, n_readdir := Some Fat32, n_finddir := Some Fat32,
                      n_create := Some Fat32, n_mkdir := Some Fat32, fs_data := Fat_data q\<rparr>
                in Some (Heap p, upd_node (Heap p) (\<lambda>_. node) s3))"

text \<open>The walk over the clusters of a directory; \<open>look\<close> scans the entries of one cluster.\<close>

partial_function (option) walk_dir ::
  "(u8 list list \<Rightarrow> 'st \<Rightarrow> (u8 list \<times> lfn_state) option + 'st) \<Rightarrow> u64 \<Rightarrow> u32 \<Rightarrow> u8 list \<Rightarrow> 'st \<Rightarrow>
   'a fat_scheme \<Rightarrow> ((u8 list \<times> lfn_state) option \<times> 'a fat_scheme) option" where
  "walk_dir look f cluster buf st s =
     (if EOC \<le> cluster then Some (None, s)
      else case fat32_read_cluster f cluster buf s of
          None \<Rightarrow> None
        | Some ((ok, buf1), s1) \<Rightarrow>
            if \<not> ok then Some (None, s1)
            else case look (dir_entries (fs_at s1 f) buf1) st of
                Inl r \<Rightarrow> Some (r, s1)
              | Inr st1 \<Rightarrow>
                  (case fat32_get_fat_entry (fs_at s1 f) cluster of
                     None \<Rightarrow> None
                   | Some c1 \<Rightarrow> walk_dir look f c1 buf1 st1 s1))"

declare walk_dir.simps [code]

definition search_dir ::
  "(u8 list list \<Rightarrow> 'st \<Rightarrow> (u8 list \<times> lfn_state) option + 'st) \<Rightarrow> 'st \<Rightarrow> node_ref \<Rightarrow> 'a fat_scheme \<Rightarrow>
   (node_ref option \<times> 'a fat_scheme) option" where
  "search_dir look st node s =
     (case fs_data (nodes s node) of
        No_data \<Rightarrow> Some (None, s)
      | Fat_data d \<Rightarrow>
          let f = nd_fs (nd_at s d); c = first_cluster (nd_at s d);
              (p, s1) = alloc_page s
          in if p = 0 then Some (None, s1)
             else do {
               (r, s2) \<leftarrow> walk_dir look f c (junk s1 p) st s1;
               (case r of
                  None \<Rightarrow> Some (None, free_page p s2)
                | Some (e, st1) \<Rightarrow> do {
                    (child, s3) \<leftarrow> make_child f c e st1 s2;
                    Some (Some child, free_page p s3)
                  })
             }
      | _ \<Rightarrow> None)"

definition fat32_finddir :: "node_ref \<Rightarrow> string \<Rightarrow> 'a fat_scheme \<Rightarrow>
    (node_ref option \<times> 'a fat_scheme) option" where
  "fat32_finddir node name s = search_dir (find_entry (to_bytes name)) lfn_reset node s"

definition fat32_readdir :: "node_ref \<Rightarrow> u32 \<Rightarrow> 'a fat_scheme \<Rightarrow>
    (node_ref option \<times> 'a fat_scheme) option" where
  "fat32_readdir node index s =
     search_dir (\<lambda>es (st, i). nth_entry (unat index) es st i) (lfn_reset, 0) node s"

subsection \<open>Creating entries\<close>

definition needs_lfn :: "u8 list \<Rightarrow> bool" where
  "needs_lfn name \<longleftrightarrow> 8 < length name \<or> (\<exists>c \<in> set name. is_lower c)"

definition entry_free :: "u8 list \<Rightarrow> bool" where
  "entry_free e \<longleftrightarrow> sint (e ! 0) = 0x00 \<or> sint (e ! 0) = 0xE5"

text \<open>The first index from \<open>i\<close> on at which \<open>need\<close> free entries follow each other in the cluster.\<close>

fun free_run :: "nat \<Rightarrow> u8 list list \<Rightarrow> nat \<Rightarrow> nat option" where
  "free_run need [] i = None"
| "free_run need (e # es) i =
     (if entry_free e \<and> need \<le> length (takeWhile entry_free (e # es)) then Some i
      else free_run need es (Suc i))"

text \<open>
  The search for a place: the cluster, the index in it and the buffer. \<open>None\<close> inside \<open>Some\<close> is
  the return with \<open>-1\<close>.
\<close>

partial_function (option) find_place :: "u64 \<Rightarrow> nat \<Rightarrow> u32 \<Rightarrow> u8 list \<Rightarrow> 'a fat_scheme \<Rightarrow>
    ((u32 \<times> nat \<times> u8 list) option \<times> 'a fat_scheme) option" where
  "find_place f need cluster buf s =
     (if EOC \<le> cluster then Some (None, s)
      else case fat32_read_cluster f cluster buf s of
          None \<Rightarrow> None
        | Some ((ok, buf1), s1) \<Rightarrow>
            if \<not> ok then Some (None, s1)
            else case free_run need (dir_entries (fs_at s1 f) buf1) 0 of
                Some i \<Rightarrow> Some (Some (cluster, i, buf1), s1)
              | None \<Rightarrow>
                  (case fat32_get_fat_entry (fs_at s1 f) cluster of
                     None \<Rightarrow> None
                   | Some nx \<Rightarrow>
                       if EOC \<le> nx then
                         (case fat32_extend_chain f cluster s1 of
                            None \<Rightarrow> None
                          | Some (c1, s2) \<Rightarrow>
                              if c1 = 0 then Some (None, s2)
                              else case fat32_write_cluster f c1 (replicate 4096 0) s2 of
                                  None \<Rightarrow> None
                                | Some (_, s3) \<Rightarrow> Some (Some (c1, 0, replicate 4096 0), s3))
                       else find_place f need nx buf1 s1))"

declare find_place.simps [code]

text \<open>A character in a long name entry: beyond the name a terminator, then padding.\<close>

definition lfn_unit :: "u8 list \<Rightarrow> nat \<Rightarrow> u16" where
  "lfn_unit part k = (if k < length part then scast (part ! k) else if k = length part then 0 else 0xFFFF)"

definition lfn_entry :: "u8 list \<Rightarrow> nat \<Rightarrow> nat \<Rightarrow> u8 \<Rightarrow> u8 list" where
  "lfn_entry name n i chksum =
     (let part = take 13 (drop ((i - 1) * 13) name); u = (\<lambda>k. bytes16 (lfn_unit part k))
      in [(of_nat i :: u8) OR (if i = n then 0x40 else 0)] @ concat (map u [0 ..< 5]) @
         [FAT_ATTR_LFN, 0, chksum] @ concat (map u [5 ..< 11]) @ [0, 0] @ concat (map u [11 ..< 13]))"

definition sfn_entry :: "u8 list \<Rightarrow> u8 \<Rightarrow> u32 \<Rightarrow> u8 list" where
  "sfn_entry short_name attr c =
     short_name @ [attr] @ replicate 8 0 @ bytes16 (ucast (drop_bit 16 c)) @ replicate 4 0 @
     bytes16 (ucast c) @ replicate 4 0"

text \<open>All entries of a new name in their order on disk.\<close>

definition new_entries :: "u8 list \<Rightarrow> u8 \<Rightarrow> u32 \<Rightarrow> u8 list list" where
  "new_entries name attr c =
     (if needs_lfn name then
        let short_name = make_short_name name; n = (length name + 12) div 13
        in map (\<lambda>i. lfn_entry name n i (lfn_checksum short_name)) (rev [1 ..< Suc n]) @
           [sfn_entry short_name attr c]
      else [sfn_entry (fat32_to_fat_name name) attr c])"

definition dot_entry :: "u8 list \<Rightarrow> u32 \<Rightarrow> u8 list" where
  "dot_entry nm c = sfn_entry (nm @ replicate (11 - length nm) 0x20) FAT_ATTR_DIRECTORY c"

text \<open>
  The cluster of a new directory with its two entries. The page for it is not checked for
  NULL, and the result of the write is ignored.
\<close>

definition init_directory :: "u64 \<Rightarrow> u32 \<Rightarrow> u32 \<Rightarrow> 'a fat_scheme \<Rightarrow> 'a fat_scheme option" where
  "init_directory f c parent s =
     (let (p, s1) = alloc_page s
      in if p = 0 then None
         else
           let up = (if parent = root_dir_cluster (fs_at s1 f) then 0 else parent);
               buf = put 0 (dot_entry [0x2E] c @ dot_entry [0x2E, 0x2E] up) (replicate 4096 0)
           in do {
             (ok, s2) \<leftarrow> fat32_write_cluster f c buf s1;
             Some (free_page p s2)
           })"

definition fat32_create_entry :: "node_ref \<Rightarrow> u8 list \<Rightarrow> u8 \<Rightarrow> 'a fat_scheme \<Rightarrow>
    (int \<times> 'a fat_scheme) option" where
  "fat32_create_entry parent name attr s =
     (case fs_data (nodes s parent) of
        No_data \<Rightarrow> Some (-1, s)
      | Fat_data d \<Rightarrow>
          let f = nd_fs (nd_at s d); dc = first_cluster (nd_at s d);
              need = length (new_entries name attr 0);
              (p, s1) = alloc_page s
          in if p = 0 then Some (-1, s1)
             else do {
               (place, s2) \<leftarrow> find_place f need dc (junk s1 p) s1;
               (case place of
                  None \<Rightarrow> Some (-1, free_page p s2)
                | Some (tc, idx, buf) \<Rightarrow> do {
                    (c, s3) \<leftarrow> (if attr AND FAT_ATTR_DIRECTORY \<noteq> 0 then fat32_alloc_cluster f s2
                                else Some (0, s2));
                    if attr AND FAT_ATTR_DIRECTORY \<noteq> 0 \<and> c = 0 then Some (-1, free_page p s3)
                    else do {
                      s4 \<leftarrow> (if attr AND FAT_ATTR_DIRECTORY \<noteq> 0 then init_directory f c dc s3 else Some s3);
                      ((ok, buf1), s5) \<leftarrow> fat32_read_cluster f tc buf s4;
                      if PAGE_BYTES < 32 * (idx + need) then None
                      else do {
                        (ok2, s6) \<leftarrow> fat32_write_cluster f tc
                          (put (32 * idx) (concat (new_entries name attr c)) buf1) s5;
                        Some (0, free_page p s6)
                      }
                    }
                  })
             }
      | _ \<Rightarrow> None)"

definition fat32_create :: "node_ref \<Rightarrow> string \<Rightarrow> u32 \<Rightarrow> 'a fat_scheme \<Rightarrow> (int \<times> 'a fat_scheme) option" where
  "fat32_create parent name flags s =
     (if node_flags (nodes s parent) AND VFS_DIRECTORY = 0 then Some (-1, s)
      else do {
        (existing, s1) \<leftarrow> fat32_finddir parent name s;
        (case existing of
           Some r \<Rightarrow>
             let s2 = (case fs_data (nodes s1 r) of Fat_data q \<Rightarrow> free_page q s1 | _ \<Rightarrow> s1)
             in (case r of Heap p \<Rightarrow> Some (-1, free_page p s2) | _ \<Rightarrow> None)
         | None \<Rightarrow>
             fat32_create_entry parent (to_bytes name)
               (if flags AND VFS_DIRECTORY \<noteq> 0 then FAT_ATTR_DIRECTORY else FAT_ATTR_ARCHIVE) s1)
      })"

definition fat32_mkdir_op :: "node_ref \<Rightarrow> string \<Rightarrow> 'a fat_scheme \<Rightarrow> (int \<times> 'a fat_scheme) option" where
  "fat32_mkdir_op parent name s = fat32_create parent name VFS_DIRECTORY s"

subsection \<open>Mounting\<close>

definition hex_val :: "u8 \<Rightarrow> u32" where
  "hex_val c =
     (if 0x30 \<le> c \<and> c \<le> 0x39 then ucast c - 0x30
      else if 0x41 \<le> c \<and> c \<le> 0x46 then ucast c - 0x41 + 10
      else if 0x61 \<le> c \<and> c \<le> 0x66 then ucast c - 0x61 + 10 else 0)"

definition parse_volume_id :: "u8 list \<Rightarrow> u32" where
  "parse_volume_id s =
     fold (\<lambda>c val. if c = 0x2D then val else push_bit 4 val OR hex_val c) s 0"

definition load_boot_sector :: "u8 list \<Rightarrow> fat32_fs \<Rightarrow> fat32_fs" where
  "load_boot_sector bs fs = fs\<lparr>bytes_per_sector := get16 bs 11, sectors_per_cluster := bs ! 13,
     reserved_sectors := get16 bs 14, num_fats := bs ! 16, total_sectors_32 := get32 bs 32,
     fat_size_32 := get32 bs 36, root_cluster := get32 bs 44, volume_id := get32 bs 67\<rparr>"

definition zero_fs :: fat32_fs where
  "zero_fs = \<lparr>bytes_per_sector = 0, sectors_per_cluster = 0, reserved_sectors = 0, num_fats = 0,
     total_sectors_32 = 0, fat_size_32 = 0, root_cluster = 0, volume_id = 0, fat_start_sector = 0,
     data_start_sector = 0, root_dir_cluster = 0, fat_page = 0, fat_cache = (\<lambda>_. 0),
     fat_cache_valid = False\<rparr>"

text \<open>The checks of the boot sector: the identifier asked for, the sector and cluster size.\<close>

definition boot_ok :: "string \<Rightarrow> fat32_fs \<Rightarrow> bool" where
  "boot_ok device fs \<longleftrightarrow>
     (take 5 device = ''UUID='' \<longrightarrow> volume_id fs = parse_volume_id (to_bytes (drop 5 device))) \<and>
     bytes_per_sector fs = 512 \<and> sectors_per_cluster fs \<noteq> 0 \<and> sectors_per_cluster fs \<le> 128"

definition fat_layout :: "fat32_fs \<Rightarrow> fat32_fs" where
  "fat_layout fs = fs\<lparr>fat_start_sector := ucast (reserved_sectors fs),
     data_start_sector := ucast (reserved_sectors fs) + ucast (num_fats fs) * fat_size_32 fs,
     root_dir_cluster := root_cluster fs\<rparr>"

definition cached_sectors :: "fat32_fs \<Rightarrow> u32" where
  "cached_sectors fs = (if 4096 < fat_size_32 fs * 512 then 8 else fat_size_32 fs)"

definition root_node :: "u64 \<Rightarrow> vfs_node" where
  "root_node q = zero_node\<lparr>node_name := ''/'', node_flags := VFS_DIRECTORY, node_size := 0,
     n_open := Some Fat32, n_close := Some Fat32, n_read := Some Fat32, n_write := Some Fat32,
     n_readdir := Some Fat32, n_finddir := Some Fat32, n_create := Some Fat32,
     n_mkdir := Some Fat32, fs_data := Fat_data q\<rparr>"

text \<open>The second half of \<open>fat32_mount\<close>: FAT cache, root node and its data.\<close>

definition mount_volume :: "u64 \<Rightarrow> nat \<Rightarrow> 'a fat_scheme \<Rightarrow> (int \<times> 'a fat_scheme) option" where
  "mount_volume f mp s =
     (let (p, s1) = alloc_page s
      in if p = 0 then Some (-1, free_page f s1)
         else
           let n = unat (cached_sectors (fs_at s1 f))
           in if PAGE_BYTES < n * 512 then None
           else case dev_read (unat (fat_start_sector (fs_at s1 f))) n s1 of
               (None, s2) \<Rightarrow> Some (-1, free_page f (free_page p s2))
             | (Some data, s2) \<Rightarrow>
                 let page = put 0 data (junk s2 p);
                     s3 = upd_fs f (\<lambda>fs. fs\<lparr>fat_page := p, fat_cache := (\<lambda>i. get32 page (4 * i)),
                            fat_cache_valid := True\<rparr>) s2;
                     (r, s4) = alloc_page s3
                 in if r = 0 then Some (-1, free_page f (free_page p s4))
                    else
                      let (q, s5) = alloc_page s4
                      in if q = 0 then Some (-1, free_page f (free_page p (free_page r s5)))
                         else
                           let s6 = upd_nd q (\<lambda>_. \<lparr>first_cluster = root_dir_cluster (fs_at s5 f),
                                        parent_cluster = 0, nd_fs = f\<rparr>) s5;
                               s7 = upd_node (Heap r) (\<lambda>_. root_node q) s6
                           in Some (0, upd_mount mp (\<lambda>m. m\<lparr>mp_root := Some (Heap r),
                                fs_private := f\<rparr>) s7))"

definition fat32_mount :: "string \<Rightarrow> nat \<Rightarrow> 'a fat_scheme \<Rightarrow> (int \<times> 'a fat_scheme) option" where
  "fat32_mount device mp s =
     (let (f, s1) = alloc_page s
      in if f = 0 then Some (-1, s1)
         else
           let (b, s2) = alloc_page (upd_fs f (\<lambda>_. zero_fs) s1)
           in if b = 0 then Some (-1, free_page f s2)
              else case dev_read 0 1 s2 of
                  (None, s3) \<Rightarrow> Some (-1, free_page f (free_page b s3))
                | (Some bs, s3) \<Rightarrow>
                    let s4 = free_page b (upd_fs f (load_boot_sector bs) s3)
                    in if \<not> boot_ok device (fs_at s4 f) then Some (-1, free_page f s4)
                       else mount_volume f mp (upd_fs f fat_layout s4))"

definition fat32_register :: "'a fat_scheme \<Rightarrow> 'a fat_scheme" where
  "fat32_register s = snd (vfs_register_filesystem ''fat32'' (Some Fat32) (Some Fat32) s)"

definition fat_ops :: "'a fat_scheme fs_ops" where
  "fat_ops = null_ops\<lparr>f_mount := fat32_mount, f_open := fat32_open, f_close := fat32_close,
     f_read := fat32_read, f_write := fat32_write, f_readdir := fat32_readdir,
     f_finddir := fat32_finddir, f_create := fat32_create, f_mkdir := fat32_mkdir_op\<rparr>"

text \<open>The table of function pointers of the whole kernel.\<close>

definition fs_tbl :: "fs_kind \<Rightarrow> 'a fat_scheme fs_ops" where
  "fs_tbl = mem_tbl fat_ops"

declare fat_ops_def [code_unfold] fs_tbl_def [code_unfold]

subsection \<open>Frame lemmas\<close>

lemma dev_write_frame [simp]:
  "fs_at (snd (dev_write a d s)) = fs_at s" "nd_at (snd (dev_write a d s)) = nd_at s"
  "mem (snd (dev_write a d s)) = mem s" "junk (snd (dev_write a d s)) = junk s"
  "io_fail (snd (dev_write a d s)) = io_fail s" "nodes (snd (dev_write a d s)) = nodes s"
  by (simp_all add: dev_write_def Let_def)

lemma upd_fs_simps [simp]:
  "fs_at (upd_fs p f s) = (fs_at s)(p := f (fs_at s p))" "disk (upd_fs p f s) = disk s"
  "nd_at (upd_fs p f s) = nd_at s" "mem (upd_fs p f s) = mem s" "junk (upd_fs p f s) = junk s"
  "io_fail (upd_fs p f s) = io_fail s" "io_count (upd_fs p f s) = io_count s"
  "nodes (upd_fs p f s) = nodes s"
  by (simp_all add: upd_fs_def)

text \<open>A disk whose transfers all succeed.\<close>

definition reliable :: "'a fat_scheme \<Rightarrow> bool" where
  "reliable s \<longleftrightarrow> (\<forall>n. \<not> io_fail s n)"

lemma reliable_write:
  "reliable s \<Longrightarrow> dev_write lba data s = (True, s\<lparr>io_count := Suc (io_count s), disk := (\<lambda>a.
     if lba * 512 \<le> a \<and> a < lba * 512 + length data then data ! (a - lba * 512) else disk s a)\<rparr>)"
  by (simp add: reliable_def dev_write_def Let_def)

lemma reliable_read:
  "reliable s \<Longrightarrow> dev_read lba n s =
     (Some (map (disk s) [lba * 512 ..< (lba + n) * 512]), s\<lparr>io_count := Suc (io_count s)\<rparr>)"
  by (simp add: reliable_def dev_read_def)

lemma reliable_simps [simp]:
  "reliable (s\<lparr>io_count := k\<rparr>) = reliable s" "reliable (upd_fs p f s) = reliable s"
  "reliable (s\<lparr>disk := d\<rparr>) = reliable s" "reliable (s\<lparr>mem := m\<rparr>) = reliable s"
  by (simp_all add: reliable_def)

subsection \<open>Cluster chains\<close>

definition link_of :: "fat32_fs \<Rightarrow> u32 \<Rightarrow> u32" where
  "link_of fs c = fat_cache fs (unat c) AND 0x0FFFFFFF"

definition next_cluster :: "fat32_fs \<Rightarrow> u32 \<Rightarrow> u32 option" where
  "next_cluster fs c = (if EOC \<le> link_of fs c then None else Some (link_of fs c))"

text \<open>The volumes the cache can hold: a FAT of at most 8 sectors, so at most 1024 clusters.\<close>

definition small_volume :: "fat32_fs \<Rightarrow> bool" where
  "small_volume fs \<longleftrightarrow> fat_cache_valid fs \<and> bytes_per_sector fs = 512 \<and> sectors_per_cluster fs \<noteq> 0 \<and>
     unat (sectors_per_cluster fs) \<le> 8 \<and> unat (fat_size_32 fs) \<le> 8 \<and>
     unat (total_sectors_32 fs div ucast (sectors_per_cluster fs)) \<le> 128 * unat (fat_size_32 fs)"

lemma merge_mask: "((x AND 0xF0000000) OR (v AND 0x0FFFFFFF)) AND 0x0FFFFFFF = (v AND 0x0FFFFFFF :: u32)"
  unfolding bit.conj_disj_distrib2 and.assoc by simp

lemma set_entry:
  assumes "fat_cache_valid fs" and "unat c < FAT_CACHE_ENTRIES"
  shows "\<exists>fs1. fat32_set_fat_entry fs c v = Some fs1 \<and> 
    link_of fs1 = (link_of fs)(c := v AND 0x0FFFFFFF) \<and> fs1 = fs\<lparr>fat_cache := fat_cache fs1\<rparr> \<and>
    (\<forall>i. i \<noteq> unat c \<longrightarrow> fat_cache fs1 i = fat_cache fs i)"
  using assms merge_mask
  by (auto simp: fat32_set_fat_entry_def link_of_def fun_eq_iff word_unat_eq_iff)

lemma get_entry:
  "fat_cache_valid fs \<Longrightarrow> unat c < FAT_CACHE_ENTRIES \<Longrightarrow> fat32_get_fat_entry fs c = Some (link_of fs c)"
  by (simp add: fat32_get_fat_entry_def link_of_def)

text \<open>The FAT on disk agrees with the cache.\<close>

definition fat_on_disk :: "fat32_fs \<Rightarrow> (nat \<Rightarrow> u8) \<Rightarrow> bool" where
  "fat_on_disk fs d \<longleftrightarrow>
     map d [unat (fat_start_sector fs) * 512 ..< (unat (fat_start_sector fs) + unat (fat_size_32 fs)) * 512] =
     concat (map (\<lambda>i. bytes32 (fat_cache fs i)) [0 ..< 128 * unat (fat_size_32 fs)])"

lemma length_bytes32 [simp]: "length (bytes32 w) = 4"
  by (simp add: bytes32_def)

lemma length_concat_const: "(\<And>x. x \<in> set xs \<Longrightarrow> length (f x) = k) \<Longrightarrow> length (concat (map f xs)) = k * length xs"
  by (induction xs) auto

lemma write_fat_ok:
  assumes "reliable s" and small: "unat (fat_size_32 (fs_at s f)) \<le> 8"
  shows "\<exists>s'. write_fat f s = Some (True, s') \<and> fat_on_disk (fs_at s f) (disk s') \<and>
    fs_at s' = fs_at s \<and> nd_at s' = nd_at s \<and> nodes s' = nodes s \<and> reliable s'"
proof -
  let ?fs = "fs_at s f"
  define d where "d = concat (map (\<lambda>i. bytes32 (fat_cache ?fs i)) [0 ..< 128 * unat (fat_size_32 ?fs)])"
  define b where "b = unat (fat_start_sector ?fs) * 512"
  have len: "length d = 512 * unat (fat_size_32 ?fs)"
    unfolding d_def by (subst length_concat_const [where k = 4]) simp_all
  have e: "(unat (fat_start_sector ?fs) + unat (fat_size_32 ?fs)) * 512 = b + length d"
    by (simp add: len b_def)
  have "map (\<lambda>a. if b \<le> a \<and> a < b + length d then d ! (a - b) else disk s a) [b ..< b + length d] = d"
    by (rule nth_equalityI) simp_all
  then have "fat_on_disk ?fs (\<lambda>a. if b \<le> a \<and> a < b + length d then d ! (a - b) else disk s a)"
    unfolding fat_on_disk_def e d_def [symmetric] b_def [symmetric] .
  moreover have "write_fat f s = Some (dev_write (unat (fat_start_sector ?fs)) d s)"
    using small by (simp add: write_fat_def Let_def d_def)
  ultimately show ?thesis
    using assms(1) unfolding reliable_write [OF assms(1)] b_def [symmetric] by simp
qed

text \<open>The scan for a free cluster takes the lowest, marks it as the end of a chain and saves the FAT.\<close>

lemma alloc_from_ok:
  assumes "reliable s" and "small_volume (fs_at s f)" and "unat i + n \<le> FAT_CACHE_ENTRIES"
    and "2 \<le> unat i"
  shows "\<exists>c s'. alloc_from f i n s = Some (c, s') \<and> reliable s' \<and>
    (if c = 0 then s' = s \<and> (\<forall>j. unat i \<le> j \<longrightarrow> j < unat i + n \<longrightarrow> link_of (fs_at s f) (of_nat j) \<noteq> 0)
     else unat i \<le> unat c \<and> unat c < unat i + n \<and> link_of (fs_at s f) c = 0 \<and>
       (\<forall>j. unat i \<le> j \<longrightarrow> j < unat c \<longrightarrow> link_of (fs_at s f) (of_nat j) \<noteq> 0) \<and>
       link_of (fs_at s' f) = (link_of (fs_at s f))(c := EOC_MARK) \<and>
       small_volume (fs_at s' f) \<and> fat_on_disk (fs_at s' f) (disk s') \<and> nodes s' = nodes s)"
  using assms
proof (induction n arbitrary: i)
  case 0
  then show ?case by auto
next
  case (Suc n)
  have valid: "fat_cache_valid (fs_at s f)" "unat (fat_size_32 (fs_at s f)) \<le> 8"
    using Suc.prems(2) by (simp_all add: small_volume_def)
  have lt: "unat i < FAT_CACHE_ENTRIES" using Suc.prems(3) by simp
  have ii: "of_nat (unat i) = i" by simp
  show ?case
  proof (cases "link_of (fs_at s f) i = 0")
    case True
    obtain fs1 where fs1: "fat32_set_fat_entry (fs_at s f) i 0x0FFFFFFF = Some fs1"
        "link_of fs1 = (link_of (fs_at s f))(i := EOC_MARK)" "fs1 = (fs_at s f)\<lparr>fat_cache := fat_cache fs1\<rparr>"
      using set_entry [OF valid(1) lt, of "0x0FFFFFFF"] by (auto simp: EOC_MARK_def)
    have small1: "small_volume fs1" 
      using Suc.prems(2) by (subst fs1(3)) (simp add: small_volume_def)
    obtain s' where s': "write_fat f (upd_fs f (\<lambda>_. fs1) s) = Some (True, s')"
        "fat_on_disk fs1 (disk s')" "fs_at s' f = fs1" "nodes s' = nodes s" "reliable s'"
      using write_fat_ok [of "upd_fs f (\<lambda>_. fs1) s" f] Suc.prems(1) small1
      by (auto simp: small_volume_def)
    have res: "alloc_from f i (Suc n) s = Some (i, s')"
      using True fs1 s' get_entry [OF valid(1) lt] by simp
    have nz: "i \<noteq> 0" using Suc.prems(4) by auto
    show ?thesis
      using res True fs1(2) small1 s' nz by (intro exI [of _ i] exI [of _ s']) simp
  next
    case False
    have i1: "unat (i + 1) = Suc (unat i)"
      using lt by (simp add: unat_plus_if_size word_size FAT_CACHE_ENTRIES_def)
    obtain c s' where c: "alloc_from f (i + 1) n s = Some (c, s')" "reliable s'" and
      spec: "if c = 0 then s' = s \<and> (\<forall>j. unat (i + 1) \<le> j \<longrightarrow> j < unat (i + 1) + n \<longrightarrow> link_of (fs_at s f) (of_nat j) \<noteq> 0)
     else unat (i + 1) \<le> unat c \<and> unat c < unat (i + 1) + n \<and> link_of (fs_at s f) c = 0 \<and>
       (\<forall>j. unat (i + 1) \<le> j \<longrightarrow> j < unat c \<longrightarrow> link_of (fs_at s f) (of_nat j) \<noteq> 0) \<and>
       link_of (fs_at s' f) = (link_of (fs_at s f))(c := EOC_MARK) \<and>
       small_volume (fs_at s' f) \<and> fat_on_disk (fs_at s' f) (disk s') \<and> nodes s' = nodes s"
      using Suc.IH [of "i + 1"] Suc.prems by (auto simp: i1)
    have step: "alloc_from f i (Suc n) s = Some (c, s')"
      using False get_entry [OF valid(1) lt] c(1) by simp
    have at: "link_of (fs_at s f) (of_nat j) \<noteq> 0" if "j = unat i" for j
      using that False ii by simp
    have sp: "unat i \<le> j \<longleftrightarrow> j = unat i \<or> Suc (unat i) \<le> j" for j by auto
    show ?thesis
      unfolding step using spec [unfolded i1] c(2) at
      by (intro exI [of _ c] exI [of _ s']) (simp add: sp, fastforce)
  qed
qed

definition cluster_count :: "fat32_fs \<Rightarrow> nat" where
  "cluster_count fs = unat (total_sectors_32 fs div ucast (sectors_per_cluster fs))"

lemma cluster_count_small: "small_volume fs \<Longrightarrow> cluster_count fs \<le> FAT_CACHE_ENTRIES"
  by (auto simp: small_volume_def cluster_count_def FAT_CACHE_ENTRIES_def)

lemma alloc_ok:
  assumes "reliable s" and small: "small_volume (fs_at s f)"
  shows "\<exists>c s'. fat32_alloc_cluster f s = Some (c, s') \<and> reliable s' \<and>
    (if c = 0 then s' = s \<and> (\<forall>j. 2 \<le> j \<longrightarrow> j < cluster_count (fs_at s f) \<longrightarrow> link_of (fs_at s f) (of_nat j) \<noteq> 0)
     else 2 \<le> unat c \<and> unat c < cluster_count (fs_at s f) \<and> link_of (fs_at s f) c = 0 \<and>
       (\<forall>j. 2 \<le> j \<longrightarrow> j < unat c \<longrightarrow> link_of (fs_at s f) (of_nat j) \<noteq> 0) \<and>
       link_of (fs_at s' f) = (link_of (fs_at s f))(c := EOC_MARK) \<and>
       small_volume (fs_at s' f) \<and> fat_on_disk (fs_at s' f) (disk s') \<and> nodes s' = nodes s)"
proof -
  let ?n = "cluster_count (fs_at s f)"
  have two: "unat (2 :: u32) = 2" by simp
  have b: "unat (2 :: u32) + (?n - 2) \<le> FAT_CACHE_ENTRIES"
    using cluster_count_small [OF small] by (simp add: FAT_CACHE_ENTRIES_def)
  have run: "fat32_alloc_cluster f s = alloc_from f 2 (?n - 2) s"
    using small by (simp add: fat32_alloc_cluster_def small_volume_def cluster_count_def Let_def)
  obtain c s' where "alloc_from f 2 (?n - 2) s = Some (c, s')" "reliable s'"
    "if c = 0 then s' = s \<and> (\<forall>j. 2 \<le> j \<longrightarrow> j < 2 + (?n - 2) \<longrightarrow> link_of (fs_at s f) (of_nat j) \<noteq> 0)
     else 2 \<le> unat c \<and> unat c < 2 + (?n - 2) \<and> link_of (fs_at s f) c = 0 \<and>
       (\<forall>j. 2 \<le> j \<longrightarrow> j < unat c \<longrightarrow> link_of (fs_at s f) (of_nat j) \<noteq> 0) \<and>
       link_of (fs_at s' f) = (link_of (fs_at s f))(c := EOC_MARK) \<and>
       small_volume (fs_at s' f) \<and> fat_on_disk (fs_at s' f) (disk s') \<and> nodes s' = nodes s"
    using alloc_from_ok [OF assms b] unfolding two by auto
  then show ?thesis unfolding run by (intro exI [of _ c] exI [of _ s']) (auto split: if_splits)
qed

lemma small_link: "unat c < FAT_CACHE_ENTRIES \<Longrightarrow> c AND 0x0FFFFFFF = c \<and> \<not> EOC \<le> c"
proof
  assume c: "unat c < FAT_CACHE_ENTRIES"
  have "take_bit 28 c = c"
    using c by (intro unat_eqI) (simp add: unsigned_take_bit_eq take_bit_nat_eq_self FAT_CACHE_ENTRIES_def)
  then show "c AND 0x0FFFFFFF = c" by (simp add: take_bit_eq_mask mask_eq_exp_minus_1)
  show "\<not> EOC \<le> c" using c by (simp add: EOC_def FAT_CACHE_ENTRIES_def word_le_nat_alt)
qed

lemma extend_ok:
  assumes rel: "reliable s" and small: "small_volume (fs_at s f)" and last: "unat l < FAT_CACHE_ENTRIES"
  shows "\<exists>c s'. fat32_extend_chain f l s = Some (c, s') \<and> reliable s' \<and>
    (if c = 0 then s' = s
     else 2 \<le> unat c \<and> unat c < cluster_count (fs_at s f) \<and> link_of (fs_at s f) c = 0 \<and>
       link_of (fs_at s' f) = (link_of (fs_at s f))(c := EOC_MARK, l := c) \<and>
       small_volume (fs_at s' f) \<and> fat_on_disk (fs_at s' f) (disk s') \<and> nodes s' = nodes s)"
proof -
  obtain c s1 where al: "fat32_alloc_cluster f s = Some (c, s1)" "reliable s1" and
    spec: "if c = 0 then s1 = s \<and> (\<forall>j. 2 \<le> j \<longrightarrow> j < cluster_count (fs_at s f) \<longrightarrow> link_of (fs_at s f) (of_nat j) \<noteq> 0)
     else 2 \<le> unat c \<and> unat c < cluster_count (fs_at s f) \<and> link_of (fs_at s f) c = 0 \<and>
       (\<forall>j. 2 \<le> j \<longrightarrow> j < unat c \<longrightarrow> link_of (fs_at s f) (of_nat j) \<noteq> 0) \<and>
       link_of (fs_at s1 f) = (link_of (fs_at s f))(c := EOC_MARK) \<and>
       small_volume (fs_at s1 f) \<and> fat_on_disk (fs_at s1 f) (disk s1) \<and> nodes s1 = nodes s"
    using alloc_ok [OF rel small] by blast
  show ?thesis
  proof (cases "c = 0")
    case True
    then show ?thesis using al spec by (intro exI [of _ c] exI [of _ s1]) (simp add: fat32_extend_chain_def)
  next
    case False
    have small1: "small_volume (fs_at s1 f)" and c: "unat c < FAT_CACHE_ENTRIES"
      using spec False cluster_count_small [OF small] by auto
    obtain fs1 where fs1: "fat32_set_fat_entry (fs_at s1 f) l c = Some fs1"
        "link_of fs1 = (link_of (fs_at s1 f))(l := c)" "fs1 = (fs_at s1 f)\<lparr>fat_cache := fat_cache fs1\<rparr>"
      using set_entry [OF _ last, of "fs_at s1 f" c] small1 small_link [OF c] by (auto simp: small_volume_def)
    have small2: "small_volume fs1" using small1 by (subst fs1(3)) (simp add: small_volume_def)
    obtain s' where s': "write_fat f (upd_fs f (\<lambda>_. fs1) s1) = Some (True, s')"
        "fat_on_disk fs1 (disk s')" "fs_at s' f = fs1" "nodes s' = nodes s1" "reliable s'"
      using write_fat_ok [of "upd_fs f (\<lambda>_. fs1) s1" f] al(2) small2 by (auto simp: small_volume_def)
    have "fat32_extend_chain f l s = Some (c, s')"
      using False al(1) fs1(1) s'(1) by (simp add: fat32_extend_chain_def)
    then show ?thesis
      using False spec fs1(2) small2 s' by (intro exI [of _ c] exI [of _ s']) simp
  qed
qed

text \<open>The links as a successor function, and the chains after an extension.\<close>

lemma next_cluster_upd:
  assumes "link_of fs' = (link_of fs)(c := EOC_MARK, l := c)" and "unat c < FAT_CACHE_ENTRIES"
  shows "next_cluster fs' = (next_cluster fs)(c := None, l := Some c)"
  using assms small_link [OF assms(2)]
  by (auto simp: next_cluster_def fun_eq_iff EOC_MARK_def) (simp_all add: EOC_def)

lemma chain_not_free:
  assumes "chain (next_cluster fs) p cs" and "0 \<notin> set cs" and "c \<in> set cs"
  shows "link_of fs c \<noteq> 0"
  using assms
proof (induction cs arbitrary: p)
  case (Cons x xs)
  show ?case
  proof (cases "c = x")
    case True
    show ?thesis
    proof
      assume "link_of fs c = 0"
      then have "next_cluster fs x = Some 0" using True by (simp add: next_cluster_def EOC_def)
      with Cons.prems show False by (cases xs) auto
    qed
  qed (use Cons in auto)
qed simp

lemma extend_chains:
  assumes upd: "next_cluster fs' = (next_cluster fs)(c := None, l := Some c)"
    and ch: "chain (next_cluster fs) p (cs @ [l])" and z: "0 \<notin> set (cs @ [l])" and free: "link_of fs c = 0"
  shows "chain (next_cluster fs') p (cs @ [l, c])"
    and "\<And>q ds. chain (next_cluster fs) q ds \<Longrightarrow> 0 \<notin> set ds \<Longrightarrow> l \<notin> set ds \<Longrightarrow> chain (next_cluster fs') q ds"
proof -
  have c: "c \<notin> set ds" if "chain (next_cluster fs) q ds" "0 \<notin> set ds" for q ds
    using chain_not_free [OF that, of c] free by blast
  have "chain ((next_cluster fs)(c := None)) p (cs @ [l])" using ch c [OF ch z] by simp
  from chain_append_last [OF this c [OF ch z]] show "chain (next_cluster fs') p (cs @ [l, c])"
    unfolding upd by simp
  show "chain (next_cluster fs') q ds" if "chain (next_cluster fs) q ds" "0 \<notin> set ds" "l \<notin> set ds" for q ds
    unfolding upd using that c [OF that(1,2)] by simp
qed

text \<open>
  C13 (functional, FAT32). On a working disk with a FAT of at most 8 sectors, extending a chain
  takes a cluster no chain uses and links it behind the last one: the chain grows by exactly
  that cluster, every other chain stays as it was, and the FAT on disk is the one in memory; or
  it returns 0 and changes nothing.
\<close>

theorem extend_chain_appends:
  assumes "reliable s" and "small_volume (fs_at s f)" and "unat l < FAT_CACHE_ENTRIES"
    and "chain (next_cluster (fs_at s f)) p (cs @ [l])" and "0 \<notin> set (cs @ [l])"
  shows "\<exists>c s'. fat32_extend_chain f l s = Some (c, s') \<and>
    (if c = 0 then s' = s
     else link_of (fs_at s f) c = 0 \<and> fat_on_disk (fs_at s' f) (disk s') \<and>
       chain (next_cluster (fs_at s' f)) p (cs @ [l, c]) \<and>
       (\<forall>q ds. chain (next_cluster (fs_at s f)) q ds \<longrightarrow> 0 \<notin> set ds \<longrightarrow> l \<notin> set ds \<longrightarrow>
          chain (next_cluster (fs_at s' f)) q ds))"
proof -
  obtain c s' where c: "fat32_extend_chain f l s = Some (c, s')" and
    spec: "if c = 0 then s' = s
     else 2 \<le> unat c \<and> unat c < cluster_count (fs_at s f) \<and> link_of (fs_at s f) c = 0 \<and>
       link_of (fs_at s' f) = (link_of (fs_at s f))(c := EOC_MARK, l := c) \<and>
       small_volume (fs_at s' f) \<and> fat_on_disk (fs_at s' f) (disk s') \<and> nodes s' = nodes s"
    using extend_ok [OF assms(1-3)] by blast
  show ?thesis
  proof (cases "c = 0")
    case True
    with c spec show ?thesis by auto
  next
    case False
    then have lt: "unat c < FAT_CACHE_ENTRIES" using spec cluster_count_small [OF assms(2)] by simp
    have "next_cluster (fs_at s' f) = (next_cluster (fs_at s f))(c := None, l := Some c)"
      using next_cluster_upd [OF _ lt, of "fs_at s' f" "fs_at s f" l] spec False by simp
    from extend_chains [OF this assms(4,5)] spec False c show ?thesis by auto
  qed
qed

text \<open>
  On a volume whose FAT is larger than the 8 sectors of the cache, taking a
  cluster never succeeds: it reports that none is free, or reads past the end of the cache.
\<close>

theorem alloc_needs_small_fat:
  assumes "8 < unat (fat_size_32 (fs_at s f))"
  shows "case fat32_alloc_cluster f s of None \<Rightarrow> True | Some (c, s') \<Rightarrow> c = 0 \<and> s' = s"
proof -
  have step: "case alloc_from f i n s of None \<Rightarrow> True | Some (c, s') \<Rightarrow> c = 0 \<and> s' = s" for i n
  proof (induction n arbitrary: i)
    case (Suc n)
    have w: "write_fat f (upd_fs f (\<lambda>_. fs1) s) = None"
      if "fat32_set_fat_entry (fs_at s f) i 0x0FFFFFFF = Some fs1" for fs1
      using that assms by (auto simp: write_fat_def Let_def fat32_set_fat_entry_def split: if_splits)
    show ?case
      using Suc.IH [of "i + 1"] w
      by (cases "fat32_get_fat_entry (fs_at s f) i"; cases "fat32_set_fat_entry (fs_at s f) i 0x0FFFFFFF") auto
  qed simp
  show ?thesis using step by (simp add: fat32_alloc_cluster_def Let_def)
qed

subsection \<open>Reading a file\<close>

definition cluster_data :: "fat32_fs \<Rightarrow> (nat \<Rightarrow> u8) \<Rightarrow> u32 \<Rightarrow> u8 list" where
  "cluster_data fs d c =
     (let b = unat (fat32_cluster_to_sector fs c); n = unat (sectors_per_cluster fs)
      in map d [b * 512 ..< (b + n) * 512])"

text \<open>The contents of the clusters of a chain, which the file's size cuts to its bytes.\<close>

definition chain_bytes :: "fat32_fs \<Rightarrow> (nat \<Rightarrow> u8) \<Rightarrow> u32 list \<Rightarrow> u8 list" where
  "chain_bytes fs d cs = concat (map (cluster_data fs d) cs)"

definition cluster_len :: "fat32_fs \<Rightarrow> nat" where
  "cluster_len fs = 512 * unat (sectors_per_cluster fs)"

lemma length_cluster_data [simp]: "length (cluster_data fs d c) = cluster_len fs"
  by (simp add: cluster_data_def Let_def cluster_len_def algebra_simps)

lemma length_chain_bytes: "length (chain_bytes fs d cs) = cluster_len fs * length cs"
  unfolding chain_bytes_def by (rule length_concat_const) simp

lemma small_cluster:
  assumes "small_volume fs"
  shows "unat (cluster_bytes fs) = cluster_len fs" and "0 < cluster_len fs" and "cluster_len fs \<le> PAGE_BYTES"
proof -
  have n: "0 < unat (sectors_per_cluster fs)" "unat (sectors_per_cluster fs) \<le> 8"
    using assms by (auto simp: small_volume_def unat_gt_0)
  then show "0 < cluster_len fs" "cluster_len fs \<le> PAGE_BYTES"
    by (simp_all add: cluster_len_def PAGE_BYTES_def)
  have "unat (ucast (sectors_per_cluster fs) :: u32) = unat (sectors_per_cluster fs)"
    using n by (simp add: unsigned_ucast_eq take_bit_nat_eq_self)
  then show "unat (cluster_bytes fs) = cluster_len fs"
    using assms n by (simp add: cluster_bytes_def cluster_len_def small_volume_def unat_word_ariths)
qed

lemma read_cluster_ok:
  assumes "reliable s" and small: "small_volume (fs_at s f)"
  shows "fat32_read_cluster f c buf s =
    Some ((True, put 0 (cluster_data (fs_at s f) (disk s) c) buf), s\<lparr>io_count := Suc (io_count s)\<rparr>)"
  using assms small_cluster(3) [OF small]
  by (simp add: fat32_read_cluster_def Let_def reliable_read cluster_data_def cluster_len_def)

lemma drop_put: "length buf = n \<Longrightarrow> length xs \<le> n \<Longrightarrow> off + k \<le> length xs \<Longrightarrow>
    take k (drop off (put 0 xs buf)) = take k (drop off xs)"
  by (simp add: put_def)

declare read_clusters.simps [simp del]

lemma read_clusters_ok:
  assumes "reliable s" and "small_volume (fs_at s f)" and "length buf = PAGE_BYTES"
    and "chain (next_cluster (fs_at s f)) (Some c) cs" and "\<forall>x \<in> set cs. unat x < FAT_CACHE_ENTRIES"
    and "off < cluster_len (fs_at s f)"
  shows "\<exists>k. read_clusters f (cluster_len (fs_at s f)) sz off c buf s =
    Some (take sz (drop off (chain_bytes (fs_at s f) (disk s) cs)), s\<lparr>io_count := k\<rparr>)"
  using assms
proof (induction cs arbitrary: s sz off c buf)
  case Nil
  then show ?case by simp
next
  case (Cons x cs)
  let ?fs = "fs_at s f" and ?k = "cluster_len (fs_at s f)"
  have x: "x = c" "unat c < FAT_CACHE_ENTRIES" using Cons.prems(4,5) by auto
  have valid: "fat_cache_valid ?fs" using Cons.prems(2) by (simp add: small_volume_def)
  show ?case
  proof (cases "sz = 0")
    case True
    then show ?thesis
      by (subst read_clusters.simps) (auto intro!: exI [of _ "io_count s"])
  next
    case False
    let ?d = "cluster_data ?fs (disk s) c"
    let ?buf = "put 0 ?d buf" and ?s1 = "s\<lparr>io_count := Suc (io_count s)\<rparr>"
    define n where "n = (if sz < ?k - off then sz else ?k - off)"
    have len: "length ?buf = PAGE_BYTES"
      using small_cluster(3) [OF Cons.prems(2)] Cons.prems(3) by (subst length_put) simp_all
    have piece: "take n (drop off ?buf) = take n (drop off ?d)"
      using Cons.prems(3,6) small_cluster(3) [OF Cons.prems(2)]
      by (intro drop_put [where n = PAGE_BYTES]) (auto simp: n_def)
    have run: "read_clusters f ?k sz off c buf s =
        (case read_clusters f ?k (sz - n) 0 (link_of ?fs c) ?buf ?s1 of None \<Rightarrow> None
         | Some (rest, s2) \<Rightarrow> Some (take n (drop off ?d) @ rest, s2))"
      using False small_link [OF x(2)] Cons.prems(6) get_entry [OF valid x(2)] piece
      by (subst read_clusters.simps)
        (simp add: read_cluster_ok [OF Cons.prems(1,2)] n_def [symmetric] Let_def split: option.split)
    have all: "take sz (drop off (chain_bytes ?fs (disk s) (x # cs))) =
        take n (drop off ?d) @ take (sz - n) (chain_bytes ?fs (disk s) cs)"
      using Cons.prems(6) by (auto simp: chain_bytes_def x n_def)
    show ?thesis
    proof (cases cs)
      case Nil
      then have "EOC \<le> link_of ?fs c"
        using Cons.prems(4) x by (auto simp: next_cluster_def split: if_splits)
      then have "read_clusters f ?k (sz - n) 0 (link_of ?fs c) ?buf ?s1 = Some ([], ?s1)"
        by (subst read_clusters.simps) simp
      then show ?thesis using run all Nil by (auto simp: chain_bytes_def)
    next
      case (Cons y ys)
      then have nx: "next_cluster ?fs c = Some (link_of ?fs c)"
        using Cons.prems(4) x by (auto simp: next_cluster_def split: if_splits)
      have "\<exists>k. read_clusters f (cluster_len (fs_at ?s1 f)) (sz - n) 0 (link_of ?fs c) ?buf ?s1 =
        Some (take (sz - n) (drop 0 (chain_bytes (fs_at ?s1 f) (disk ?s1) cs)), ?s1\<lparr>io_count := k\<rparr>)"
        using Cons.prems(1,2,4,5) nx x len small_cluster(2) [OF Cons.prems(2)]
        by (intro Cons.IH) auto
      then show ?thesis using run all by auto
    qed
  qed
qed

lemma skip_read_ok:
  assumes "fat_cache_valid fs" and "chain (next_cluster fs) (Some c) cs"
    and "\<forall>x \<in> set cs. unat x < FAT_CACHE_ENTRIES"
  shows "if n < length cs
    then skip_read fs n c = Some (Inr (cs ! n)) \<and> chain (next_cluster fs) (Some (cs ! n)) (drop n cs)
    else skip_read fs n c = Some (Inl ())"
  using assms(2,3)
proof (induction n arbitrary: c cs)
  case 0
  then show ?case by (cases cs) auto
next
  case (Suc n)
  then obtain ds where cs: "cs = c # ds" by (cases cs) auto
  have get: "fat32_get_fat_entry fs c = Some (link_of fs c)"
    using Suc.prems(2) cs assms(1) by (simp add: get_entry)
  show ?case
  proof (cases ds)
    case Nil
    then have "EOC \<le> link_of fs c" using Suc.prems(1) cs by (auto simp: next_cluster_def split: if_splits)
    then show ?thesis using get cs Nil by simp
  next
    case (Cons d es)
    then have nd: "next_cluster fs c = Some d" and chd: "chain (next_cluster fs) (Some d) ds"
      using Suc.prems(1) cs by auto
    then have d: "d = link_of fs c" by (auto simp: next_cluster_def split: if_splits)
    note nx = nd [unfolded d] and ch = chd [unfolded d]
    then have "\<not> EOC \<le> link_of fs c" by (auto simp: next_cluster_def split: if_splits)
    then show ?thesis using Suc.IH [OF ch] Suc.prems(2) get cs by simp
  qed
qed

lemma drop_concat:
  "(\<And>x. x \<in> set xs \<Longrightarrow> length (g x) = k) \<Longrightarrow> 0 < k \<Longrightarrow>
    drop off (concat (map g xs)) = drop (off mod k) (concat (map g (drop (off div k) xs)))"
proof (induction xs arbitrary: off)
  case (Cons x xs)
  have k: "length (g x) = k" using Cons.prems by simp
  show ?case
  proof (cases "off < k")
    case False
    then have "off div k = Suc ((off - k) div k)" "off mod k = (off - k) mod k"
      using Cons.prems(2) by (simp_all add: le_div_geq le_mod_geq)
    then show ?thesis using False k Cons.IH [of "off - k"] Cons.prems by simp
  qed simp
qed simp

text \<open>A node of a file on a volume the cache can hold, and the clusters of its data.\<close>

definition file_node :: "'a fat_scheme \<Rightarrow> node_ref \<Rightarrow> u64 \<Rightarrow> u32 list \<Rightarrow> bool" where
  "file_node s node f cs \<longleftrightarrow>
     (\<exists>d. fs_data (nodes s node) = Fat_data d \<and> nd_fs (nd_at s d) = f \<and> 
        chain (next_cluster (fs_at s f)) (Some (first_cluster (nd_at s d))) cs) \<and>
     small_volume (fs_at s f) \<and> (\<forall>x \<in> set cs. unat x < FAT_CACHE_ENTRIES) \<and>
     (\<forall>p. length (junk s p) = PAGE_BYTES)"

definition file_bytes :: "'a fat_scheme \<Rightarrow> node_ref \<Rightarrow> u64 \<Rightarrow> u32 list \<Rightarrow> u8 list" where
  "file_bytes s node f cs = take (unat (node_size (nodes s node))) (chain_bytes (fs_at s f) (disk s) cs)"

lemma alloc_page_simps [simp]:
  "fs_at (snd (alloc_page s)) = fs_at s" "nd_at (snd (alloc_page s)) = nd_at s"
  "disk (snd (alloc_page s)) = disk s" "junk (snd (alloc_page s)) = junk s"
  "nodes (snd (alloc_page s)) = nodes s" "reliable (snd (alloc_page s)) = reliable s"
  by (simp_all add: alloc_page_def reliable_def split: prod.split)

lemma fat_read_ok:
  assumes node: "file_node s node f cs" and rel: "reliable s" and page: "fst (alloc_page s) \<noteq> 0"
    and off: "unat off \<le> length (file_bytes s node f cs)"
  shows "\<exists>s'. fat32_read node off sz s =
      Some ((int (length (take (unat sz) (drop (unat off) (file_bytes s node f cs)))),
        take (unat sz) (drop (unat off) (file_bytes s node f cs))), s') \<and>
      (s' = s \<or> (\<exists>k. s' = free_page (fst (alloc_page s)) (snd (alloc_page s)\<lparr>io_count := k\<rparr>)))"
proof -
  obtain d where d: "fs_data (nodes s node) = Fat_data d" "nd_fs (nd_at s d) = f"
      "chain (next_cluster (fs_at s f)) (Some (first_cluster (nd_at s d))) cs"
    using node by (auto simp: file_node_def)
  have small: "small_volume (fs_at s f)" and lt: "\<forall>x \<in> set cs. unat x < FAT_CACHE_ENTRIES"
    and junk: "length (junk s (fst (alloc_page s))) = PAGE_BYTES"
    using node by (auto simp: file_node_def)
  let ?fs = "fs_at s f" and ?k = "cluster_len (fs_at s f)"
  let ?size = "unat (node_size (nodes s node))" and ?all = "chain_bytes (fs_at s f) (disk s) cs"
  have k: "unat (cluster_bytes ?fs) = ?k" "0 < ?k" using small_cluster [OF small] by auto
  show ?thesis
  proof (cases "?size \<le> unat off")
    case True
    then have "drop (unat off) (file_bytes s node f cs) = []" by (simp add: file_bytes_def)
    then show ?thesis using True d by (simp add: fat32_read_def Let_def)
  next
    case False
    define n where "n = (if ?size < unat off + unat sz then ?size - unat off else unat sz)"
    have bytes: "take (unat sz) (drop (unat off) (file_bytes s node f cs)) = take n (drop (unat off) ?all)"
      using False by (simp add: file_bytes_def drop_take n_def min_def)
    note skip = skip_read_ok [OF _ d(3) lt, of "unat off div ?k"]
    have valid: "fat_cache_valid ?fs" using small by (simp add: small_volume_def)
    show ?thesis
    proof (cases "unat off div ?k < length cs")
      case False
      then have "?k * length cs \<le> unat off"
        using k(2) by (simp add: not_less less_eq_div_iff_mult_less_eq mult.commute)
      then have "drop (unat off) ?all = []" by (simp add: length_chain_bytes)
      moreover have "fat32_read node off sz s = Some ((0, []), s)"
        using \<open>\<not> ?size \<le> unat off\<close> d k skip [OF valid] False by (simp add: fat32_read_def Let_def)
      ultimately show ?thesis unfolding bytes by simp
    next
      case True
      obtain p s1 where p: "alloc_page s = (p, s1)" by force
      then have s1: "fs_at s1 = fs_at s" "disk s1 = disk s" "junk s1 = junk s" "reliable s1"
        using alloc_page_simps [of s] rel by simp_all
      let ?c = "cs ! (unat off div ?k)" and ?ds = "drop (unat off div ?k) cs"
      have lt': "\<forall>x \<in> set ?ds. unat x < FAT_CACHE_ENTRIES" using lt by (meson in_set_dropD)
      have m: "unat off mod ?k < ?k" using k(2) by simp
      have "\<exists>j. read_clusters f (cluster_len (fs_at s1 f)) n (unat off mod ?k) ?c (junk s1 p) s1 =
        Some (take n (drop (unat off mod ?k) (chain_bytes (fs_at s1 f) (disk s1) ?ds)), s1\<lparr>io_count := j\<rparr>)"
        using skip [OF valid] True small lt' junk m p
        by (intro read_clusters_ok) (auto simp: s1)
      then obtain j where j: "read_clusters f ?k n (unat off mod ?k) ?c (junk s p) s1 =
          Some (take n (drop (unat off) ?all), s1\<lparr>io_count := j\<rparr>)"
        using drop_concat [of cs "cluster_data ?fs (disk s)" ?k "unat off"] k(2)
        by (auto simp: s1 chain_bytes_def)
      have "fat32_read node off sz s = Some ((int (length (take n (drop (unat off) ?all))),
          take n (drop (unat off) ?all)), free_page p (s1\<lparr>io_count := j\<rparr>))"
        using \<open>\<not> ?size \<le> unat off\<close> d k skip [OF valid] True p page j s1(3)
        by (simp add: fat32_read_def Let_def n_def [symmetric])
      then show ?thesis unfolding bytes using p by auto
    qed
  qed
qed

text \<open>A buffer page is taken and given back: the allocator is as it was, but for its total count.\<close>

lemma page_round:
  assumes "mm_inv (mem s)" and "high_avail (mem s) \<noteq> {}"
  shows "fst (alloc_page s) \<noteq> 0"
    and "mm_inv (mem (free_page (fst (alloc_page s)) (snd (alloc_page s)\<lparr>io_count := k\<rparr>)))"
    and "high_avail (mem (free_page (fst (alloc_page s)) (snd (alloc_page s)\<lparr>io_count := k\<rparr>))) = high_avail (mem s)"
proof -
  obtain p m where pm: "pfa_alloc (mem s) = (p, m)" by force
  note al = high_pfa.alloc_some [OF assms pm]
  have fr: "high_frame p" using high_pfa.avail_frame [OF assms(1)] al by blast
  show "fst (alloc_page s) \<noteq> 0"
    using high_pfa.alloc_zero_iff [OF assms(1)] assms(2) pm by (simp add: alloc_page_def)
  show "mm_inv (mem (free_page (fst (alloc_page s)) (snd (alloc_page s)\<lparr>io_count := k\<rparr>)))"
    "high_avail (mem (free_page (fst (alloc_page s)) (snd (alloc_page s)\<lparr>io_count := k\<rparr>))) = high_avail (mem s)"
    using high_pfa.release_frame [OF _ fr, of m] al pm
    by (auto simp: alloc_page_def free_page_def)
qed

text \<open>What is left to read of a file through a descriptor.\<close>

definition fat_rest :: "int \<Rightarrow> node_ref \<Rightarrow> u64 \<Rightarrow> u32 list \<Rightarrow> 'a fat_scheme \<Rightarrow> u8 list \<Rightarrow> bool" where
  "fat_rest fd node f cs s xs \<longleftrightarrow>
     \<not> bad_fd fd s \<and> fd_node (g_fds s (nat fd)) = Some node \<and> n_read (nodes s node) = Some Fat32 \<and>
     file_node s node f cs \<and> reliable s \<and> mm_inv (mem s) \<and> high_avail (mem s) \<noteq> {} \<and>
     unat (fd_offset (g_fds s (nat fd))) \<le> length (file_bytes s node f cs) \<and>
     xs = drop (unat (fd_offset (g_fds s (nat fd)))) (file_bytes s node f cs)"

lemma fat_read_prefix:
  assumes rest: "fat_rest fd node f cs s xs"
  shows "\<exists>s'. vfs_read fs_tbl fd cnt s =
      Some ((int (length (take (unat (ucast cnt :: u32)) xs)), take (unat (ucast cnt :: u32)) xs), s') \<and>
      fat_rest fd node f cs s' (drop (unat (ucast cnt :: u32)) xs)"
proof -
  define off where "off = fd_offset (g_fds s (nat fd))"
  let ?n = "unat (ucast cnt :: u32)" and ?b = "file_bytes s node f cs"
  have r: "\<not> bad_fd fd s" "fd_node (g_fds s (nat fd)) = Some node" "n_read (nodes s node) = Some Fat32"
      "file_node s node f cs" "reliable s" "mm_inv (mem s)" "high_avail (mem s) \<noteq> {}"
      "unat off \<le> length ?b" "xs = drop (unat off) ?b"
    using rest by (auto simp: fat_rest_def off_def)
  obtain s1 where rd: "fat32_read node off (ucast cnt) s =
      Some ((int (length (take ?n xs)), take ?n xs), s1)"
    and s1: "s1 = s \<or> (\<exists>k. s1 = free_page (fst (alloc_page s)) (snd (alloc_page s)\<lparr>io_count := k\<rparr>))"
    using fat_read_ok [OF r(4,5) page_round(1) [OF r(6,7)] r(8), of "ucast cnt"] r(9) by auto
  obtain p m where pm: "pfa_alloc (mem s) = (p, m)" by force
  have keep1: "nodes s1 = nodes s" "fs_at s1 = fs_at s" "nd_at s1 = nd_at s" "disk s1 = disk s"
      "junk s1 = junk s" "g_fds s1 = g_fds s" "reliable s1" "mm_inv (mem s1)" "high_avail (mem s1) \<noteq> {}"
    using s1 page_round(2,3) [OF r(6,7)] r(5-7)
    by (auto simp: free_page_def alloc_page_def reliable_def pm)
  define s' where "s' = advance (nat fd) (int (length (take ?n xs))) s1"
  have res: "vfs_read fs_tbl fd cnt s = Some ((int (length (take ?n xs)), take ?n xs), s')"
    using r rd by (simp add: vfs_read_def off_def [symmetric] fs_tbl_def mem_tbl_def fat_ops_def s'_def)
  have keep: "nodes s' = nodes s" "fs_at s' = fs_at s" "nd_at s' = nd_at s" "disk s' = disk s"
      "junk s' = junk s" "reliable s'" "mm_inv (mem s')" "high_avail (mem s') \<noteq> {}"
      "fd_node (g_fds s' (nat fd)) = fd_node (g_fds s (nat fd))"
      "fd_refcount (g_fds s' (nat fd)) = fd_refcount (g_fds s (nat fd))"
    using keep1 by (simp_all add: s'_def advance_def upd_fd_def reliable_def)
  have same: "file_node s' node f cs" "file_bytes s' node f cs = ?b"
    using r(4) keep by (simp_all add: file_node_def file_bytes_def)
  have lb: "length ?b < 2 ^ 32"
    using unsigned_less [of "node_size (nodes s node)", where 'a = nat] by (simp add: file_bytes_def)
  have "unat (fd_offset (g_fds s' (nat fd))) = unat off + length (take ?n xs)"
  proof -
    have small: "unat off + length (take ?n xs) < 2 ^ 64" using lb r(8,9) by simp
    have "unat (of_int (int (length (take ?n xs))) :: u64) = length (take ?n xs)"
      using small by (simp only: of_int_of_nat_eq) (intro unat_of_nat_small, simp)
    then show ?thesis
      using small keep1(6) by (auto simp: s'_def advance_def off_def unat_plus_if_size word_size)
  qed
  moreover have "unat off + length (take ?n xs) \<le> length ?b" using r(8,9) by simp
  moreover have "drop (unat off + length (take ?n xs)) ?b = drop ?n xs"
    using r(8,9) by (auto simp: min_def add.commute)
  ultimately have "fat_rest fd node f cs s' (drop ?n xs)"
    using r keep same by (simp add: fat_rest_def bad_fd_def)
  with res show ?thesis by blast
qed

interpretation fat: byte_stream "vfs_read fs_tbl fd" "fat_rest fd node f cs" "\<lambda>cnt. unat (ucast cnt :: u32)"
  for fd node f cs
  by unfold_locales (rule fat_read_prefix)


subsection \<open>The properties on a small volume\<close>

definition demo_volume :: fat32_fs where
  "demo_volume = zero_fs\<lparr>bytes_per_sector := 512, sectors_per_cluster := 1, total_sectors_32 := 16,
     fat_size_32 := 1, fat_start_sector := 1, data_start_sector := 4,
     fat_cache := (\<lambda>i. if i < 3 then 0x0FFFFFFF else 0), fat_cache_valid := True\<rparr>"

definition demo_fat :: fat where
  "demo_fat = memfs.extend mem_boot (fat.fields (snd (mm_init 0 (Some demo_map) mm_boot))
     (\<lambda>_. demo_volume) (\<lambda>_. \<lparr>first_cluster = 2, parent_cluster = 0, nd_fs = 0\<rparr>) (\<lambda>_. 0) 0
     (\<lambda>_. False) (\<lambda>_. replicate 4096 0))"

lemma demo_volume_chain: "chain (next_cluster demo_volume) (Some 2) [2]"
  by (simp add: demo_volume_def next_cluster_def link_of_def EOC_def)

lemma demo_volume_small: "small_volume demo_volume"
  by (simp add: small_volume_def demo_volume_def zero_fs_def)

lemma demo_fat_fields [simp]:
  "fs_at demo_fat = (\<lambda>_. demo_volume)" "io_fail demo_fat = (\<lambda>_. False)" "mem demo_fat = snd (mm_init 0 (Some demo_map) mm_boot)"
  "nd_at demo_fat = (\<lambda>_. \<lparr>first_cluster = 2, parent_cluster = 0, nd_fs = 0\<rparr>)"
  "length (junk demo_fat p) = PAGE_BYTES"
  by (simp_all add: demo_fat_def memfs.defs fat.defs reliable_def PAGE_BYTES_def)

lemma demo_fat_reliable [simp]: "reliable demo_fat"
  by (simp add: reliable_def)

lemma demo_extend: "map_option fst (fat32_extend_chain 0 2 demo_fat) = Some 3"
proof -
  define v where "v = demo_volume\<lparr>fat_cache := (fat_cache demo_volume)(3 := 0x0FFFFFFF)\<rparr>"
  have small: "unat (fat_size_32 (fs_at (upd_fs 0 (\<lambda>_. v) s) 0)) \<le> 8"
    if "fat_size_32 v = 1" for v and s :: fat using that by simp
  have f: "fat_size_32 v = 1" by (simp add: v_def demo_volume_def)
  obtain s2 where s2: "write_fat 0 (upd_fs 0 (\<lambda>_. v) demo_fat) = Some (True, s2)"
      "fs_at s2 0 = v" "reliable s2"
    using write_fat_ok [OF _ small [OF f], of demo_fat] by auto
  obtain k where n: "unat (total_sectors_32 demo_volume div ucast (sectors_per_cluster demo_volume)) - 2 = Suc (Suc k)"
    by (rule that [of 12]) (simp add: demo_volume_def)
  have al: "fat32_alloc_cluster 0 demo_fat = Some (3, s2)"
    using s2(1) unfolding v_def fat32_alloc_cluster_def demo_fat_fields Let_def n
    by (simp add: fat32_get_fat_entry_def fat32_set_fat_entry_def
        demo_volume_def zero_fs_def FAT_CACHE_ENTRIES_def)
  define w where "w = v\<lparr>fat_cache := (fat_cache v)(2 := 3)\<rparr>"
  have "fat_size_32 w = 1" by (simp add: w_def f)
  from write_fat_ok [OF _ small [OF this], of s2] s2(3)
  obtain s3 where "write_fat 0 (upd_fs 0 (\<lambda>_. w) s2) = Some (True, s3)" by auto
  then show ?thesis
    by (simp add: fat32_extend_chain_def al fat32_set_fat_entry_def s2(2) w_def v_def
        demo_volume_def zero_fs_def FAT_CACHE_ENTRIES_def)
qed

theorem extend_chain_appends_witness:
  "\<exists>s'. fat32_extend_chain 0 2 demo_fat = Some (3, s') \<and>
     chain (next_cluster (fs_at s' 0)) (Some 2) [2, 3]"
  using extend_chain_appends [of demo_fat 0 2 "Some 2" "[]"] demo_volume_chain demo_volume_small demo_extend
  by (fastforce simp: FAT_CACHE_ENTRIES_def)

theorem alloc_needs_small_fat_witness:
  "case fat32_alloc_cluster 0 (upd_fs 0 (\<lambda>fs. fs\<lparr>fat_size_32 := 9\<rparr>) demo_fat) of
     None \<Rightarrow> True | Some (c, s') \<Rightarrow> c = 0"
  using alloc_needs_small_fat [of "upd_fs 0 (\<lambda>fs. fs\<lparr>fat_size_32 := 9\<rparr>) demo_fat" 0]
  by (auto split: option.splits)

text \<open>The same volume with an open file of 5 bytes in cluster 2.\<close>

definition demo_fat_open :: fat where
  "demo_fat_open = upd_fd 3 (\<lambda>e. e\<lparr>fd_node := Some (Heap 0), fd_offset := 0, fd_refcount := 1\<rparr>)
     (upd_node (Heap 0) (\<lambda>_. (root_node 0)\<lparr>node_size := 5\<rparr>) demo_fat)"

lemma demo_fat_rest:
  "fat_rest 3 (Heap 0) 0 [2] demo_fat_open (replicate 5 0)"
  "chain_bytes (fs_at demo_fat_open 0) (disk demo_fat_open) [2] = replicate 512 0"
proof -
  have z: "cluster_data demo_volume (disk demo_fat_open) 2 = replicate 512 0"
    by (simp add: cluster_data_def Let_def demo_fat_open_def demo_fat_def memfs.defs fat.defs upd_fd_def
        upd_node_def map_replicate_const fat32_cluster_to_sector_def demo_volume_def)
  then show "fat_rest 3 (Heap 0) 0 [2] demo_fat_open (replicate 5 0)"
    using demo_volume_chain demo_volume_small mm_init_ready_snd(2) [OF demo_placement] demo_high_page
    by (auto simp: fat_rest_def reliable_def demo_fat_open_def upd_fd_def upd_node_def bad_fd_def file_node_def file_bytes_def
        chain_bytes_def root_node_def zero_node_def FAT_CACHE_ENTRIES_def MAX_FDS_def)
  show "chain_bytes (fs_at demo_fat_open 0) (disk demo_fat_open) [2] = replicate 512 0"
    using z by (simp add: chain_bytes_def demo_fat_open_def upd_fd_def upd_node_def)
qed


end
