(* ===== verification/Fat_Dir.thy ===== *)
theory Fat_Dir
  imports Fat
begin

text \<open>
  Directory entries of the FAT32 driver: the long name a new entry is written under is read
  back by the directory scan; the volume identifier; and what signed characters do to deleted
  entries.
\<close>

subsection \<open>Bytes of words\<close>

lemma join16: "ucast (ucast w :: u8) OR push_bit 8 (ucast (ucast (drop_bit 8 w) :: u8)) = (w :: u16)"
  by (rule bit_word_eqI) (auto simp: bit_simps)

lemma get16_bytes: "get16 (xs @ bytes16 w @ ys) (length xs) = w"
  by (simp add: get16_def bytes16_def nth_append join16)

lemma join_halves: "push_bit 16 (ucast (ucast (drop_bit 16 c) :: u16)) OR ucast (ucast c :: u16) = (c :: u32)"
  by (rule bit_word_eqI) (auto simp: bit_simps)

lemma sint_u8: "sint (x :: u8) < 128"
  using sint_less [of x] by simp

lemma not_deleted: "\<not> entry_is_deleted e"
  using sint_u8 [of "e ! 0"] by (simp add: entry_is_deleted_def)

lemma scast_ascii:
  assumes "(c :: u8) < 0x80"
  shows "(scast c :: u16) = ucast c"
proof -
  have "uint c < 2 ^ 7" using assms by (simp add: word_less_alt)
  then have "signed_take_bit 7 (uint c) = uint c"
    by (intro signed_take_bit_int_eq_self order_trans [OF _ uint_ge_0]) auto
  then have "sint c = uint c" by (simp add: sint_uint)
  then show ?thesis by (simp add: scast_eq)
qed

lemma lfn_char_ascii:
  assumes "(c :: u8) < 0x80"
  shows "lfn_char (scast c) = c"
proof -
  have c: "unat c < 128" using assms by (simp add: word_less_nat_alt)
  then have u: "unat (ucast c :: u16) = unat c"
    by (simp add: unsigned_ucast_eq take_bit_nat_eq_self)
  have "(ucast c :: u16) < 0x80" using u c by (simp add: word_less_nat_alt)
  moreover have "ucast (ucast c :: u16) = c"
    using c by (intro unat_eqI) (simp add: unsigned_ucast_eq unsigned_take_bit_eq take_bit_nat_eq_self)
  ultimately show ?thesis by (simp add: lfn_char_def scast_ascii [OF assms])
qed

subsection \<open>One long name entry\<close>

lemma upt_5: "[0 ..< 5] = [0, 1, 2, 3, 4 :: nat]" and upt_6: "[5 ..< 11] = [5, 6, 7, 8, 9, 10 :: nat]"
  and upt_2: "[11 ..< 13] = [11, 12 :: nat]"
  and upt_13: "[0 ..< 13] = [0, 1, 2, 3, 4, 5, 6, 7, 8, 9, 10, 11, 12 :: nat]"
  by (simp_all add: upt_rec)

lemma lfn_entry_chars:
  "lfn_chars (lfn_entry name n i ck) =
    map (\<lambda>k. lfn_char (lfn_unit (take 13 (drop ((i - 1) * 13) name)) k)) [0 ..< 13]"
  unfolding lfn_entry_def Let_def upt_5 upt_6 upt_2 upt_13 lfn_chars_def get16_def bytes16_def
  by (simp add: join16)

lemma lfn_entry_fields:
  "lfn_entry name n i ck ! 0 = of_nat i OR (if i = n then 0x40 else 0)"
  "lfn_entry name n i ck ! 11 = FAT_ATTR_LFN" "lfn_entry name n i ck ! 13 = ck"
  unfolding lfn_entry_def Let_def upt_5 upt_6 upt_2 bytes16_def by simp_all

lemma lfn_order:
  assumes "1 \<le> i" and "i \<le> n" and "n \<le> 19"
  shows "lfn_entry name n i ck ! 0 AND 0x40 \<noteq> 0 \<longleftrightarrow> i = n"
    and "uint (lfn_entry name n i ck ! 0 AND 0x3F) = int i"
    and "\<not> entry_is_end (lfn_entry name n i ck)" and "entry_is_lfn (lfn_entry name n i ck)"
proof -
  have i: "i \<in> {1, 2, 3, 4, 5, 6, 7, 8, 9, 10, 11, 12, 13, 14, 15, 16, 17, 18, 19}"
  proof -
    have "i \<in> set [1 ..< 20]" using assms by simp
    moreover have e: "[1 ..< 20] = [1, 2, 3, 4, 5, 6, 7, 8, 9, 10, 11, 12, 13, 14, 15, 16, 17, 18, 19 :: nat]"
      by (simp add: upt_rec)
    ultimately show ?thesis unfolding e list.set by simp
  qed
  then show "lfn_entry name n i ck ! 0 AND 0x40 \<noteq> 0 \<longleftrightarrow> i = n"
    "uint (lfn_entry name n i ck ! 0 AND 0x3F) = int i"
    "\<not> entry_is_end (lfn_entry name n i ck)"
    by (auto simp: lfn_entry_fields entry_is_end_def)
  show "entry_is_lfn (lfn_entry name n i ck)"
    by (simp add: entry_is_lfn_def de_attr_def lfn_entry_fields FAT_ATTR_LFN_def)
qed

text \<open>
  What the name is padded with before it is cut into pieces of 13: a terminator, then the
  padding 0xFFFF, which the scan reads as question marks.
\<close>

definition padded :: "u8 list \<Rightarrow> u8 list" where
  "padded name = name @ 0 # replicate 13 0x3F"

definition chunk :: "u8 list \<Rightarrow> nat \<Rightarrow> u8 list" where
  "chunk name i = take 13 (drop ((i - 1) * 13) (padded name))"

lemma lfn_chunk:
  assumes ascii: "\<forall>c \<in> set name. c < 0x80" and i: "(i - 1) * 13 < length name"
  shows "lfn_chars (lfn_entry name n i ck) = chunk name i"
proof (rule nth_equalityI)
  show "length (lfn_chars (lfn_entry name n i ck)) = length (chunk name i)"
    using i by (simp add: lfn_entry_chars chunk_def padded_def)
  fix k assume "k < length (lfn_chars (lfn_entry name n i ck))"
  then have k: "k < 13" by (simp add: lfn_entry_chars)
  let ?part = "take 13 (drop ((i - 1) * 13) name)" and ?j = "(i - 1) * 13 + k"
  have l: "lfn_chars (lfn_entry name n i ck) ! k = lfn_char (lfn_unit ?part k)"
    using k by (simp add: lfn_entry_chars)
  have r: "chunk name i ! k = padded name ! ?j"
  proof -
    have "(i - 1) * 13 \<le> length (padded name)" using i by (simp add: padded_def)
    with k show ?thesis by (simp add: chunk_def)
  qed
  show "lfn_chars (lfn_entry name n i ck) ! k = chunk name i ! k"
  proof (cases "?j < length name")
    case True
    then have "k < length ?part" "?part ! k = name ! ?j" using k by simp_all
    then show ?thesis
      using l r True ascii lfn_char_ascii [of "name ! ?j"] by (simp add: lfn_unit_def padded_def nth_append)
  next
    case False
    then have p: "length ?part = length name - (i - 1) * 13" using i k by simp
    show ?thesis
    proof (cases "?j = length name")
      case True
      then have "k = length ?part" using p by simp
      then have "lfn_unit ?part k = 0" by (simp add: lfn_unit_def)
      then show ?thesis using l r True by (simp add: padded_def nth_append lfn_char_def)
    next
      case False
      then have "length name < ?j" using \<open>\<not> ?j < length name\<close> by simp
      then have "length ?part < k" using p i by linarith
      then have "\<not> k < length ?part \<and> k \<noteq> length ?part" by (metis less_irrefl less_not_sym)
      then have "lfn_unit ?part k = 0xFFFF" by (simp only: lfn_unit_def if_False not_False_eq_True)
      moreover have "padded name ! ?j = 0x3F"
        using \<open>length name < ?j\<close> k i by (simp add: padded_def nth_append nth_Cons')
      ultimately show ?thesis using l r by (simp add: lfn_char_def)
    qed
  qed
qed

lemma length_chunk: "(i - 1) * 13 < length name \<Longrightarrow> length (chunk name i) = 13"
  by (simp add: chunk_def padded_def)

lemma concat_chunks:
  "13 * n \<le> length name + 13 \<Longrightarrow> concat (map (chunk name) [1 ..< Suc n]) = take (13 * n) (padded name)"
proof (induction n)
  case (Suc n)
  have "take (13 * Suc n) (padded name) = take (13 * n) (padded name) @ take 13 (drop (13 * n) (padded name))"
    by (simp add: take_add [symmetric] add.commute)
  with Suc show ?case by (simp add: chunk_def mult.commute)
qed simp

subsection \<open>Reading all entries of a long name\<close>

text \<open>The buffer after the entries from \<open>i\<close> to \<open>n\<close> have been seen.\<close>

definition lfn_partial :: "u8 list \<Rightarrow> nat \<Rightarrow> nat \<Rightarrow> u8 list" where
  "lfn_partial name n i =
     replicate (13 * (i - 1)) 0 @ concat (map (chunk name) [i ..< Suc n]) @ replicate (256 - 13 * n) 0"

lemma put_replicate: "put k xs (replicate (k + length xs) v @ ys) = replicate k v @ xs @ ys"
  by (simp add: put_def)

lemma add_lfn_step:
  assumes ascii: "\<forall>c \<in> set name. c < 0x80" and i: "1 \<le> i" "i \<le> n" and n: "n \<le> 19"
    and cover: "13 * (n - 1) < length name"
    and st: "i < n \<Longrightarrow> st = (lfn_partial name n (Suc i), uint ck)"
  shows "add_lfn (lfn_entry name n i ck) st = (lfn_partial name n i, uint ck)"
proof -
  have "(i - 1) * 13 < length name"
    using i cover by (metis diff_le_mono le_less_trans mult.commute mult_le_mono2)
  note c = lfn_chunk [OF ascii this, of n ck] length_chunk [OF this]
  have idx: "(uint (lfn_entry name n i ck ! 0 AND 0x3F) - 1) * 13 = int (13 * (i - 1))"
    using lfn_order(2) [OF i n] i by (simp add: of_nat_diff)
  have bound: "13 * (i - 1) < 242" using i n by simp
  define buf where "buf = (if i = n then replicate 256 0 else lfn_partial name n (Suc i))"
  have buf: "buf = replicate (13 * (i - 1) + length (chunk name i)) 0 @
      concat (map (chunk name) [Suc i ..< Suc n]) @ replicate (256 - 13 * n) 0"
  proof (cases "i = n")
    case True
    have "13 * (n - 1) + 13 + (256 - 13 * n) = 256" using i n by simp
    then show ?thesis
      using True c(2) by (simp add: buf_def flip: replicate_add)
  next
    case False
    have "13 * (i - 1) + 13 = 13 * (Suc i - 1)" using i by simp
    then show ?thesis using False c(2) by (simp add: buf_def lfn_partial_def)
  qed
  have step: "add_lfn (lfn_entry name n i ck) st =
      (put (13 * (i - 1)) (chunk name i) buf, uint ck)"
    using lfn_order(1) [OF i n, of name ck] st i bound
    unfolding add_lfn_def Let_def idx nat_int c(1) buf_def
    by (cases "i = n") (auto simp: lfn_entry_fields(3))
  show ?thesis
  proof -
    have "[i ..< Suc n] = i # [Suc i ..< Suc n]" using i by (intro upt_conv_Cons) simp
    then show ?thesis unfolding step buf put_replicate lfn_partial_def by (simp only:) simp
  qed
qed

lemma find_lfn:
  assumes ascii: "\<forall>c \<in> set name. c < 0x80" and n: "n \<le> 19" and cover: "13 * (n - 1) < length name"
    and i: "i \<le> n" and st: "i < n \<Longrightarrow> st = (lfn_partial name n (Suc i), uint ck)" and pos: "1 \<le> n"
  shows "find_entry nm (map (\<lambda>i. lfn_entry name n i ck) (rev [1 ..< Suc i]) @ es) st =
    find_entry nm es (if i = 0 then st else (lfn_partial name n 1, uint ck))"
  using i st
proof (induction i arbitrary: st)
  case (Suc i)
  have s1: "add_lfn (lfn_entry name n (Suc i) ck) st = (lfn_partial name n (Suc i), uint ck)"
    using add_lfn_step [OF ascii _ _ n cover, of "Suc i" st ck] Suc.prems by simp
  have "find_entry nm (map (\<lambda>i. lfn_entry name n i ck) (rev [1 ..< Suc (Suc i)]) @ es) st =
      find_entry nm (map (\<lambda>i. lfn_entry name n i ck) (rev [1 ..< Suc i]) @ es)
        (lfn_partial name n (Suc i), uint ck)"
    using lfn_order(3,4) [of "Suc i" n name ck] Suc.prems n by (simp add: s1 not_deleted)
  also have "\<dots> = find_entry nm es (lfn_partial name n 1, uint ck)"
    using Suc.IH [of "(lfn_partial name n (Suc i), uint ck)"] Suc.prems by simp
  finally show ?case by simp
qed simp

lemma cstr_partial:
  assumes nz: "0 \<notin> set name" and n: "n = (length name + 12) div 13" and len: "length name \<le> 247"
  shows "cstr (lfn_partial name n 1) = name"
proof -
  have cover: "length name \<le> 13 * n" "13 * n \<le> length name + 12" "13 * n < 256"
    using n len by (simp_all add: algebra_simps) presburger+
  have eq: "lfn_partial name n 1 = take (13 * n) (padded name) @ replicate (256 - 13 * n) 0"
    using concat_chunks [of n name] cover by (simp add: lfn_partial_def del: upt_Suc)
  have all: "takeWhile (\<lambda>c. c \<noteq> 0) (name @ 0 # ys) = name" for ys
    using nz by (subst takeWhile_append2) auto
  show ?thesis
  proof (cases "13 * n = length name")
    case True
    have "replicate (256 - 13 * n) (0 :: u8) = 0 # replicate (255 - 13 * n) 0"
      using cover(3) by (simp flip: replicate_Suc)
    then show ?thesis unfolding eq cstr_def using True all by (simp add: padded_def)
  next
    case False
    then have "13 * n - length name = Suc (13 * n - length name - 1)" using cover by simp
    then have "take (13 * n) (padded name) = name @ 0 # take (13 * n - length name - 1) (replicate 13 0x3F)"
      using cover by (simp add: padded_def take_Cons split: nat.split)
    then show ?thesis unfolding eq cstr_def using all by simp
  qed
qed

subsection \<open>Short names\<close>

lemma to_upper_nz: "c \<noteq> 0 \<Longrightarrow> to_upper c \<noteq> 0"
proof -
  assume "c \<noteq> 0"
  have "c \<noteq> 0x20" if "is_lower c" using that by (auto simp: is_lower_def)
  with \<open>c \<noteq> 0\<close> show ?thesis by (auto simp: to_upper_def)
qed

lemma short_base_props: "length (short_base cs j) \<le> 6 - j \<and> (0 \<notin> set cs \<longrightarrow> 0 \<notin> set (short_base cs j))"
  by (induction cs j rule: short_base.induct) (auto simp: to_upper_nz Let_def)

lemma last_ext_set: "last_ext name = Some ext \<Longrightarrow> set ext \<subseteq> set name"
  by (auto simp: last_ext_def dest!: set_takeWhileD split: if_splits)

lemma set_put: "set (put k xs buf) \<subseteq> set xs \<union> set buf"
  by (auto simp: put_def dest: in_set_takeD in_set_dropD)

lemma make_short_name_props:
  assumes "0 \<notin> set name"
  shows "length (make_short_name name) = 11" and "0 \<notin> set (make_short_name name)"
proof -
  let ?s0 = "put 0 (short_base name 0) (replicate 11 0x20)"
  let ?s1 = "put 6 [0x7E, 0x31] ?s0"
  have l0: "length ?s0 = 11" using short_base_props [of name 0] by (simp add: length_put)
  then have l1: "length ?s1 = 11" by (simp add: length_put)
  have z0: "0 \<notin> set ?s0"
    using set_put [of 0 "short_base name 0" "replicate 11 0x20"] short_base_props [of name 0] assms by auto
  then have z1: "0 \<notin> set ?s1" using set_put [of 6 "[0x7E, 0x31]" ?s0] by auto
  have ext: "length (put 8 (map to_upper (take 3 e)) ?s1) = 11 \<and>
      0 \<notin> set (put 8 (map to_upper (take 3 e)) ?s1)" if "last_ext name = Some e" for e
  proof -
    have "0 \<notin> set (map to_upper (take 3 e))"
    proof
      assume "0 \<in> set (map to_upper (take 3 e))"
      then obtain x where "x \<in> set e" "to_upper x = 0" by (auto dest: in_set_takeD)
      then show False using last_ext_set [OF that] assms to_upper_nz [of x] by auto
    qed
    then show ?thesis using l1 z1 set_put [of 8 "map to_upper (take 3 e)" ?s1] by (auto simp: length_put)
  qed
  show "length (make_short_name name) = 11" "0 \<notin> set (make_short_name name)"
    using l1 z1 ext by (auto simp: make_short_name_def Let_def split: option.splits)
qed

lemma strcasecmp_self: "my_strcasecmp s s = 0"
  by (induction s) auto

lemma sfn_entry_fields:
  assumes "length sn = 11"
  shows "take 11 (sfn_entry sn attr c) = sn" "de_attr (sfn_entry sn attr c) = attr"
    "sfn_entry sn attr c ! 0 = sn ! 0" "de_cluster (sfn_entry sn attr c) = c"
  using assms join16 join_halves
  by (simp_all add: sfn_entry_def de_attr_def de_cluster_def get16_def bytes16_def nth_append nth_Cons')

subsection \<open>Properties\<close>

lemma find_entry_append:
  "find_entry nm pre st = Inr st' \<Longrightarrow> find_entry nm (pre @ es) st = find_entry nm es st'"
  by (induction pre arbitrary: st) (auto split: if_splits)

text \<open>
  C15 (roundtrip, FAT32). The entries \<open>fat32_create\<close> writes for a name that needs a long entry,
  of up to 247 ASCII characters, are read back by the directory scan: behind any entries that
  do not end the directory or match, looking for the name finds the new short entry, with the
  attribute and first cluster given, and the node gets the name, cut to 127 characters.
\<close>

theorem long_name_roundtrip:
  assumes "needs_lfn name" and "length name \<le> 247" and "\<forall>c \<in> set name. 0 < c \<and> c < 0x80"
    and "attr \<in> {FAT_ATTR_DIRECTORY, FAT_ATTR_ARCHIVE}" and "find_entry name pre st = Inr st1"
  shows "\<exists>e st'. find_entry name (pre @ new_entries name attr c @ post) st = Inl (Some (e, st')) \<and>
    take 11 e = make_short_name name \<and> de_attr e = attr \<and> de_cluster e = c \<and>
    entry_name e st' = take 127 name"
proof -
  define sn where "sn = make_short_name name"
  define n where "n = (length name + 12) div 13"
  let ?e = "sfn_entry sn attr c" and ?st = "(lfn_partial name n 1, uint (lfn_checksum sn))"
  have nz: "0 \<notin> set name" and ascii: "\<forall>c \<in> set name. c < 0x80" using assms(3) by auto
  have ne: "name \<noteq> []" using assms(1) by (auto simp: needs_lfn_def)
  have n: "1 \<le> n" "n \<le> 19" "13 * (n - 1) < length name"
    using assms(2) ne by (simp_all add: n_def Suc_le_eq) (cases name; simp)+
  note sn = make_short_name_props [OF nz, folded sn_def]
  note fields = sfn_entry_fields [OF sn(1), of attr c]
  have str: "cstr (lfn_partial name n 1) = name" by (rule cstr_partial [OF nz n_def assms(2)])
  have first: "lfn_partial name n 1 ! 0 \<noteq> 0"
    using str ne by (cases "lfn_partial name n 1") (auto simp: cstr_def split: if_splits)
  have valid: "lfn_valid ?e ?st" using first by (simp add: lfn_valid_def fields)
  have "sn ! 0 \<in> set sn" using sn(1) by simp
  then have "sn ! 0 \<noteq> 0" using sn(2) by metis
  then have not_end: "\<not> entry_is_end ?e"
    using signed_eq_0_iff [of "sn ! 0"] by (simp only: entry_is_end_def fields(3)) simp
  have attr: "\<not> entry_is_lfn ?e" "de_attr ?e AND FAT_ATTR_VOLUME_ID = 0"
    using assms(4) by (auto simp: entry_is_lfn_def fields FAT_ATTR_LFN_def FAT_ATTR_DIRECTORY_def
        FAT_ATTR_ARCHIVE_def FAT_ATTR_VOLUME_ID_def)
  have match: "entry_matches name ?e ?st" using valid str by (simp add: entry_matches_def strcasecmp_self)
  have "new_entries name attr c = map (\<lambda>i. lfn_entry name n i (lfn_checksum sn)) (rev [1 ..< Suc n]) @ [?e]"
    using assms(1) by (simp add: new_entries_def Let_def sn_def n_def)
  then have "find_entry name (pre @ new_entries name attr c @ post) st = find_entry name (?e # post) ?st"
    using find_entry_append [OF assms(5)] find_lfn [OF ascii n(2,3), of n st1 _ name "?e # post"] n(1)
    by (simp del: upt_Suc)
  also have "\<dots> = Inl (Some (?e, ?st))" using not_end attr match by (simp add: not_deleted)
  finally show ?thesis using valid str fields by (auto simp: entry_name_def sn_def)
qed

text \<open>
  A deleted entry, whose first byte is 0xE5, is not recognised: the
  directory scan neither skips it nor lets a new entry reuse it, because the byte is compared
  as a signed character. Looking for its name still finds it.
\<close>

theorem deleted_entry_found:
  assumes "e ! 0 = 0xE5" and "\<not> entry_is_lfn e" and "de_attr e AND FAT_ATTR_VOLUME_ID = 0"
    and "my_strcasecmp name (fat32_to_normal_name (take 11 e)) = 0"
  shows "\<not> entry_free e \<and> find_entry name (e # es) st = Inl (Some (e, st))"
  using assms by (simp add: entry_free_def not_deleted entry_is_end_def entry_matches_def)

text \<open>The volume identifier as it is usually written, in hexadecimal with a dash.\<close>

definition hex_digit :: "u32 \<Rightarrow> u8" where
  "hex_digit d = (if d < 10 then 0x30 + ucast d else 0x37 + ucast d)"

definition show_volume_id :: "u32 \<Rightarrow> u8 list" where
  "show_volume_id v =
     (let digit = (\<lambda>k. hex_digit (take_bit 4 (drop_bit k v)))
      in map digit [28, 24, 20, 16] @ [0x2D] @ map digit [12, 8, 4, 0])"

lemma hex_val_digits:
  "list_all (\<lambda>d. hex_val (hex_digit d) = d \<and> hex_digit d \<noteq> 0x2D) (map of_nat [0 ..< 16])"
  by code_simp

lemma hex_val_digit:
  assumes "d < 16"
  shows "hex_val (hex_digit d) = d" and "hex_digit d \<noteq> 0x2D"
proof -
  have "unat d \<in> set [0 ..< 16]" using assms by (simp add: word_less_nat_alt)
  moreover have "d = of_nat (unat d)" by simp
  ultimately have "d \<in> set (map of_nat [0 ..< 16])" unfolding set_map by (rule rev_image_eqI)
  then show "hex_val (hex_digit d) = d" "hex_digit d \<noteq> 0x2D"
    using hex_val_digits unfolding list_all_iff by blast+
qed

lemma take_top: "take_bit 4 (drop_bit 28 v) = drop_bit 28 (v :: u32)"
  by (rule bit_word_eqI) (auto simp: bit_simps dest: bit_imp_le_length)

lemma nibble_join:
  "push_bit 4 (drop_bit (k + 4) v) OR take_bit 4 (drop_bit k v) = drop_bit k (v :: u32)"
proof (rule bit_word_eqI)
  fix n assume "n < LENGTH(32)"
  then show "bit (push_bit 4 (drop_bit (k + 4) v) OR take_bit 4 (drop_bit k v)) n = bit (drop_bit k v) n"
    by (cases "n < 4") (simp_all add: bit_simps algebra_simps)
qed

text \<open>
  Parsing the written form of a volume identifier, as in \<open>UUID=F6DD-210C\<close>,
  gives the identifier back.
\<close>

theorem volume_id_roundtrip: "parse_volume_id (show_volume_id v) = v"
proof -
  have lt: "take_bit 4 (drop_bit k v) < 16" for k
  proof -
    have "take_bit 4 (unat (drop_bit k v)) < 2 ^ 4" by (rule take_bit_nat_less_exp)
    then show ?thesis by (simp add: word_less_nat_alt unsigned_take_bit_eq)
  qed
  note d = hex_val_digit(1) [OF lt] hex_val_digit(2) [OF lt]
  have "parse_volume_id (show_volume_id v) =
      push_bit 4 (push_bit 4 (push_bit 4 (push_bit 4 (push_bit 4 (push_bit 4 (push_bit 4 (
        take_bit 4 (drop_bit 28 v)) OR take_bit 4 (drop_bit 24 v)) OR take_bit 4 (drop_bit 20 v))
        OR take_bit 4 (drop_bit 16 v)) OR take_bit 4 (drop_bit 12 v)) OR take_bit 4 (drop_bit 8 v))
        OR take_bit 4 (drop_bit 4 v)) OR take_bit 4 (drop_bit 0 v)"
    unfolding parse_volume_id_def show_volume_id_def Let_def
    by (simp add: d del: drop_bit_0 take_bit_numeral_numeral)
  also have "\<dots> = v"
    unfolding take_top nibble_join [of 24 v, simplified arith_simps] nibble_join [of 20 v, simplified arith_simps]
      nibble_join [of 16 v, simplified arith_simps] nibble_join [of 12 v, simplified arith_simps]
      nibble_join [of 8 v, simplified arith_simps] nibble_join [of 4 v, simplified arith_simps]
      nibble_join [of 0 v, simplified arith_simps] by simp
  finally show ?thesis .
qed

theorem long_name_roundtrip_witness:
  "\<exists>e st'. find_entry (to_bytes ''kernel_config.txt'')
      (new_entries (to_bytes ''kernel_config.txt'') 0x20 5) (replicate 256 0, 0) = Inl (Some (e, st')) \<and>
    de_cluster e = 5 \<and> entry_name e st' = to_bytes ''kernel_config.txt''"
proof -
  let ?n = "to_bytes ''kernel_config.txt''"
  have n: "needs_lfn ?n" "length ?n = 17" "\<forall>c \<in> set ?n. 0 < c \<and> c < 0x80" by code_simp+
  show ?thesis
    using long_name_roundtrip [OF n(1) _ n(3), where attr = "0x20" and pre = "[]" and
        st = "(replicate 256 0, 0)" and c = "5" and post = "[]"] n(2)
    by (auto simp: FAT_ATTR_ARCHIVE_def)
qed

theorem deleted_entry_found_witness:
  "let e = sfn_entry (put 0 [0xE5] (make_short_name (to_bytes ''a.txt''))) 0x20 5 in
   find_entry (fat32_to_normal_name (take 11 e)) [e] (replicate 256 0, 0) = Inl (Some (e, (replicate 256 0, 0)))"
  unfolding Let_def by (intro deleted_entry_found [THEN conjunct2]) code_simp+

end
