(* ===== verification/Input.thy ===== *)
theory Input
  imports Prelude
begin

text \<open>
  Keyboard input: \<^verbatim>\<open>drivers/ps2.c\<close> and \<^verbatim>\<open>drivers/usb_hid.c\<close>, which share one ring buffer of 256
  characters. The hardware is a parameter in the state: read number \<open>n\<close> of a port \<open>p\<close> gives
  \<open>hw n p\<close>; what is written to ports is a trace. The C flags that only hold 0 and 1 are
  Booleans. \<open>usb_kbd_poll\<close>, which belongs to the xHCI driver, is an argument.
\<close>

subsection \<open>State and ports\<close>

record input =
  in_head :: u32
  in_tail :: u32
  in_buf :: "nat \<Rightarrow> u8"
  shift :: bool
  caps :: bool
  numlock :: bool
  leds_state :: u32
  extended :: bool
  kbd_modifiers :: u8
  prev_keycodes :: "u8 list"
  hw :: "nat \<Rightarrow> u16 \<Rightarrow> u8"
  n_reads :: nat
  outs :: "(u16 \<times> u8) list"
  fb_text :: string

definition KBD_DATA_PORT :: u16 where "KBD_DATA_PORT = 0x60"
definition KBD_STATUS_PORT :: u16 where "KBD_STATUS_PORT = 0x64"

definition inb :: "u16 \<Rightarrow> 'a input_scheme \<Rightarrow> u8 \<times> 'a input_scheme" where
  "inb port s = (hw s (n_reads s) port, s\<lparr>n_reads := Suc (n_reads s)\<rparr>)"

definition outb :: "u16 \<Rightarrow> u8 \<Rightarrow> 'a input_scheme \<Rightarrow> 'a input_scheme" where
  "outb port val s = s\<lparr>outs := outs s @ [(port, val)]\<rparr>"

definition show_text :: "string \<Rightarrow> 'a input_scheme \<Rightarrow> 'a input_scheme" where
  "show_text t s = s\<lparr>fb_text := fb_text s @ t\<rparr>"

subsection \<open>The ring buffer\<close>

definition input_add_char :: "u8 \<Rightarrow> 'a input_scheme \<Rightarrow> 'a input_scheme" where
  "input_add_char c s =
     (let nx = (in_head s + 1) AND 255
      in if nx \<noteq> in_tail s
         then s\<lparr>in_buf := (in_buf s)(unat (in_head s) := c), in_head := nx\<rparr>
         else s)"

text \<open>The end of \<open>ps2_getchar\<close> and \<open>try_getchar\<close>: the oldest character; \<open>char\<close> is signed.\<close>

definition take_char :: "'a input_scheme \<Rightarrow> int \<times> 'a input_scheme" where
  "take_char s =
     (sint (in_buf s (unat (in_tail s))), s\<lparr>in_tail := (in_tail s + 1) AND 255\<rparr>)"

subsection \<open>PS/2 scan codes\<close>

definition chars :: "string \<Rightarrow> u8 list" where
  "chars t = map of_char t"

definition scancode_map :: "u8 list" where
  "scancode_map = [0, 27] @ chars ''1234567890-='' @ [8, 9] @ chars ''qwertyuiop[]'' @ [10, 0] @
     chars ''asdfghjkl;'' @ [39, 96, 0, 92] @ chars ''zxcvbnm,./'' @ [0, 42, 0, 32] @ replicate 70 0"

definition scancode_shift_map :: "u8 list" where
  "scancode_shift_map = [0, 0] @ chars ''!@#$%^&*()_+'' @ [0, 0] @ chars ''QWERTYUIOP{}'' @ [10, 0] @
     chars ''ASDFGHJKL:'' @ [34, 126, 0, 124] @ chars ''ZXCVBNM<>?'' @ [0, 42, 0, 32] @ replicate 70 0"

definition keypad_num_map :: "u8 list" where
  "keypad_num_map = chars ''789-456+1230.''"

text \<open>Waiting, at most \<open>n\<close> times, for the controller to take a byte.\<close>

fun wait_clear :: "nat \<Rightarrow> 'a input_scheme \<Rightarrow> 'a input_scheme" where
  "wait_clear n s =
     (if n = 0 then s
      else let (st, s1) = inb KBD_STATUS_PORT s
           in if st AND 2 = 0 then s1 else wait_clear (n - 1) s1)"

declare wait_clear.simps [simp del]

definition send_leds :: "'a input_scheme \<Rightarrow> 'a input_scheme" where
  "send_leds s =
     (let s1 = outb KBD_DATA_PORT 0xED (wait_clear 100000 s);
          s2 = wait_clear 100000 s1
      in outb KBD_DATA_PORT (ucast (leds_state s2)) s2)"

definition press_caps :: "'a input_scheme \<Rightarrow> 'a input_scheme" where
  "press_caps s =
     (let s1 = s\<lparr>caps := \<not> caps s\<rparr>;
          s2 = s1\<lparr>leds_state := (leds_state s1 AND NOT 0x04) OR (if caps s1 then 0x04 else 0)\<rparr>;
          s3 = send_leds s2
      in if caps s3 then show_text (''CAPS ON'' @ [char_of (10 :: nat)]) s3
         else show_text (''CAPS OFF'' @ [char_of (10 :: nat)]) s3)"

definition press_numlock :: "'a input_scheme \<Rightarrow> 'a input_scheme" where
  "press_numlock s =
     (let s1 = s\<lparr>numlock := \<not> numlock s\<rparr>;
          s2 = s1\<lparr>leds_state := (leds_state s1 AND NOT 0x02) OR (if numlock s1 then 0x02 else 0)\<rparr>;
          s3 = send_leds s2
      in if numlock s3 then show_text (''NUM ON'' @ [char_of (10 :: nat)]) s3
         else show_text (''NUM OFF'' @ [char_of (10 :: nat)]) s3)"

text \<open>The character of a key in the main block.\<close>

definition key_char :: "u8 \<Rightarrow> 'a input_scheme \<Rightarrow> u8" where
  "key_char sc s =
     (let c = scancode_map ! unat sc; sc_shift = scancode_shift_map ! unat sc
      in if shift s \<and> sc_shift \<noteq> 0 then sc_shift
         else if 0x61 \<le> c \<and> c \<le> 0x7A \<and> shift s \<noteq> caps s then c - 0x20
         else c)"

text \<open>What \<open>ps2_handle_interrupt\<close> does with the scan code it has read.\<close>

definition ps2_scancode :: "u8 \<Rightarrow> 'a input_scheme \<Rightarrow> 'a input_scheme" where
  "ps2_scancode sc s =
     (if sc = 0xFA \<or> sc = 0xFE then s
      else if sc AND 0x80 \<noteq> 0 then
        let code = sc AND 0x7F;
            s1 = (if code = 0x2A \<or> code = 0x36 then s\<lparr>shift := False\<rparr> else s)
        in s1\<lparr>extended := False\<rparr>
      else if sc = 0xE0 then s\<lparr>extended := True\<rparr>
      else if sc = 0x2A \<or> sc = 0x36 then s\<lparr>shift := True\<rparr>
      else if sc = 0x3A then press_caps s
      else if sc = 0x77 then press_numlock s
      else if 0x47 \<le> sc \<and> sc \<le> 0x53 then
        (if numlock s then input_add_char (keypad_num_map ! unat (sc - 0x47)) s else s)
      else if unat sc < length scancode_map \<and> scancode_map ! unat sc \<noteq> 0
      then input_add_char (key_char sc s) s
      else s)"

definition ps2_handle_interrupt :: "'a input_scheme \<Rightarrow> 'a input_scheme" where
  "ps2_handle_interrupt s =
     (let (status, s1) = inb KBD_STATUS_PORT s
      in if status AND 1 = 0 then s1
         else let (sc, s2) = inb KBD_DATA_PORT s1 in ps2_scancode sc s2)"

subsection \<open>Reading\<close>

text \<open>One poll of both keyboards.\<close>

definition poll_keyboards :: "('a input_scheme \<Rightarrow> 'a input_scheme) \<Rightarrow> 'a input_scheme \<Rightarrow> 'a input_scheme" where
  "poll_keyboards usb_kbd_poll s =
     (let (status, s1) = inb KBD_STATUS_PORT (usb_kbd_poll s)
      in if status AND 1 \<noteq> 0 then ps2_handle_interrupt s1 else s1)"

text \<open>The blocking read returns only if a key comes.\<close>

partial_function (option) ps2_getchar ::
    "('a input_scheme \<Rightarrow> 'a input_scheme) \<Rightarrow> 'a input_scheme \<Rightarrow> (int \<times> 'a input_scheme) option" where
  "ps2_getchar usb_kbd_poll s =
     (if in_head s = in_tail s then ps2_getchar usb_kbd_poll (poll_keyboards usb_kbd_poll s)
      else Some (take_char s))"

declare ps2_getchar.simps [code]

definition try_getchar :: "('a input_scheme \<Rightarrow> 'a input_scheme) \<Rightarrow> 'a input_scheme \<Rightarrow> int \<times> 'a input_scheme" where
  "try_getchar usb_kbd_poll s =
     (let s1 = poll_keyboards usb_kbd_poll s
      in if in_head s1 = in_tail s1 then (-1, s1) else take_char s1)"

text \<open>Emptying the controller's buffer never ends while it holds data.\<close>

partial_function (option) drain :: "'a input_scheme \<Rightarrow> 'a input_scheme option" where
  "drain s =
     (let (status, s1) = inb KBD_STATUS_PORT s
      in if status AND 1 = 0 then Some s1 else drain (snd (inb KBD_DATA_PORT s1)))"

declare drain.simps [code]

fun await_ack :: "nat \<Rightarrow> 'a input_scheme \<Rightarrow> u8 \<times> 'a input_scheme" where
  "await_ack n s =
     (if n = 0 then (0, s)
      else let (status, s1) = inb KBD_STATUS_PORT s
           in if status AND 1 \<noteq> 0 then inb KBD_DATA_PORT s1 else await_ack (n - 1) s1)"

declare await_ack.simps [simp del]

definition ps2_init :: "'a input_scheme \<Rightarrow> 'a input_scheme option" where
  "ps2_init s =
     (case drain s of None \<Rightarrow> None
      | Some s1 \<Rightarrow>
          let s2 = wait_clear 10000 (outb KBD_STATUS_PORT 0xAE s1);
              s3 = outb KBD_DATA_PORT 0xF4 s2
          in Some (snd (await_ack 100000 s3)))"

subsection \<open>USB keyboards\<close>

definition hid_to_ascii :: "u8 list" where
  "hid_to_ascii = replicate 4 0 @ chars ''abcdefghijklmnopqrstuvwxyz1234567890'' @ [10, 27, 8, 9, 32] @
     chars ''-=[]'' @ [92, 35, 59, 39, 96] @ chars '',./'' @ replicate 71 0"

definition hid_to_ascii_shift :: "u8 list" where
  "hid_to_ascii_shift = replicate 4 0 @ chars ''ABCDEFGHIJKLMNOPQRSTUVWXYZ!@#$%^&*()'' @ [10, 27, 8, 9, 32] @
     chars ''_+{}'' @ [124, 126, 58, 34, 126] @ chars ''<>?'' @ replicate 71 0"

record hid_kbd_report =
  modifiers :: u8
  keycodes :: "u8 list"

text \<open>One key of a report: a character for a key that the last report did not hold.\<close>

definition hid_key :: "bool \<Rightarrow> u8 \<Rightarrow> 'a input_scheme \<Rightarrow> 'a input_scheme" where
  "hid_key shifted keycode s =
     (if keycode = 0 then s
      else
        let is_new = (keycode \<notin> set (prev_keycodes s))
        in if is_new \<and> keycode < 128 then
             let c = (if shifted then hid_to_ascii_shift else hid_to_ascii) ! unat keycode
             in if c \<noteq> 0 then input_add_char c s else s
           else s)"

definition usb_kbd_process_report :: "hid_kbd_report \<Rightarrow> 'a input_scheme \<Rightarrow> 'a input_scheme" where
  "usb_kbd_process_report report s =
     (let s1 = s\<lparr>kbd_modifiers := modifiers report\<rparr>;
          shifted = (kbd_modifiers s1 AND 0x22 \<noteq> 0);
          s2 = fold (hid_key shifted) (keycodes report) s1
      in s2\<lparr>prev_keycodes := keycodes report\<rparr>)"

lemma tables_length: "length scancode_map = 128" "length scancode_shift_map = 128"
    "length keypad_num_map = 13" "length hid_to_ascii = 128" "length hid_to_ascii_shift = 128"
  by (simp_all add: scancode_map_def scancode_shift_map_def keypad_num_map_def chars_def
      hid_to_ascii_def hid_to_ascii_shift_def)

subsection \<open>The buffer as a queue\<close>

definition ring_ok :: "'a input_scheme \<Rightarrow> bool" where
  "ring_ok s \<longleftrightarrow> unat (in_head s) < 256 \<and> unat (in_tail s) < 256"

definition queued :: "'a input_scheme \<Rightarrow> u8 list" where
  "queued s = map (\<lambda>i. in_buf s ((unat (in_tail s) + i) mod 256))
     [0 ..< (unat (in_head s) + 256 - unat (in_tail s)) mod 256]"

definition offer :: "u8 \<Rightarrow> u8 list \<Rightarrow> u8 list" where
  "offer c q = (if length q < 255 then q @ [c] else q)"

lemma unat_next: "unat ((w + 1) AND 255 :: u32) = (unat w + 1) mod 256"
proof -
  have "(w + 1) AND 255 = take_bit 8 (w + 1)"
    by (simp add: take_bit_eq_mask mask_numeral)
  then have "unat ((w + 1) AND 255) = (unat (w + 1)) mod 2 ^ 8"
    by (simp only: unsigned_take_bit_eq) (simp add: take_bit_eq_mod)
  also have "\<dots> = (unat w + 1) mod 256"
    by (simp add: unat_word_ariths mod_mod_cancel)
  finally show ?thesis .
qed

lemma ring_ok_ops:
  "ring_ok s \<Longrightarrow> ring_ok (input_add_char c s)" "ring_ok s \<Longrightarrow> ring_ok (snd (take_char s))"
  by (auto simp: ring_ok_def input_add_char_def take_char_def Let_def unat_next)

lemma wrap: "x < 512 \<Longrightarrow> x mod 256 = (if x < 256 then x else x - (256 :: nat))"
  by (simp add: mod_if)

lemma ring_space: "h < 256 \<Longrightarrow> t < 256 \<Longrightarrow> (h + 1) mod 256 \<noteq> t \<longleftrightarrow> (h + 256 - t) mod 256 < (255 :: nat)"
  by (auto simp: wrap split: if_splits)

lemma queued_add:
  assumes "ring_ok s"
  shows "queued (input_add_char c s) = offer c (queued s)"
proof -
  define h t where "h = unat (in_head s)" and "t = unat (in_tail s)"
  have b: "h < 256" "t < 256" using assms by (simp_all add: ring_ok_def h_def t_def)
  let ?n = "(h + 256 - t) mod 256"
  have full: "(in_head s + 1) AND 255 \<noteq> in_tail s \<longleftrightarrow> ?n < 255"
    unfolding ring_space [OF b, symmetric] unfolding h_def t_def unfolding unat_next [symmetric] by (simp only: word_unat_eq_iff)
  show ?thesis
  proof (cases "?n < 255")
    case True
    have n: "((h + 1) mod 256 + 256 - t) mod 256 = Suc ?n" using True b by (auto simp: wrap split: if_splits)
    have last: "(t + ?n) mod 256 = h" using b by (auto simp: wrap split: if_splits)
    have other: "(t + i) mod 256 \<noteq> h" if "i < ?n" for i using that b by (auto simp: wrap split: if_splits)
    have new: "in_head (input_add_char c s) = (in_head s + 1) AND 255" "in_tail (input_add_char c s) = in_tail s"
        "in_buf (input_add_char c s) = (in_buf s)(h := c)"
      using full True by (simp_all add: input_add_char_def Let_def h_def)
    show ?thesis
      using True n last other unfolding queued_def offer_def new unat_next h_def [symmetric] t_def [symmetric]
      by auto
  next
    case False
    then show ?thesis using full
      by (simp add: input_add_char_def offer_def queued_def h_def t_def)
  qed
qed

lemma queued_take:
  assumes "ring_ok s"
  shows "in_head s = in_tail s \<longleftrightarrow> queued s = []"
    and "queued s \<noteq> [] \<Longrightarrow> fst (take_char s) = sint (hd (queued s)) \<and> queued (snd (take_char s)) = tl (queued s)"
proof -
  define h t where "h = unat (in_head s)" and "t = unat (in_tail s)"
  have b: "h < 256" "t < 256" using assms by (simp_all add: ring_ok_def h_def t_def)
  have z: "(h + 256 - t) mod 256 = 0 \<longleftrightarrow> h = t" using b by (auto simp: wrap split: if_splits)
  then show e: "in_head s = in_tail s \<longleftrightarrow> queued s = []"
    by (simp add: queued_def h_def t_def word_unat_eq_iff)
  assume "queued s \<noteq> []"
  then have "h \<noteq> t" using e by (simp add: h_def t_def word_unat_eq_iff)
  then obtain n where n: "(h + 256 - t) mod 256 = Suc n" using z by (metis not0_implies_Suc)
  have m: "(h + 256 - (t + 1) mod 256) mod 256 = n" using n b by (auto simp: wrap split: if_splits)
  have i: "((t + 1) mod 256 + i) mod 256 = (t + Suc i) mod 256" for i
    by (simp add: mod_add_left_eq)
  have q: "queued s = map (\<lambda>i. in_buf s ((t + i) mod 256)) [0 ..< Suc n]"
    by (simp only: queued_def h_def [symmetric] t_def [symmetric] n)
  have "queued (snd (take_char s)) = map (\<lambda>i. in_buf s ((t + Suc i) mod 256)) [0 ..< n]"
    using m i by (simp add: queued_def take_char_def unat_next h_def [symmetric] t_def [symmetric])
  moreover have "[0 ..< Suc n] = 0 # map Suc [0 ..< n]" by (simp add: map_Suc_upt upt_conv_Cons del: upt_Suc)
  ultimately show "fst (take_char s) = sint (hd (queued s)) \<and> queued (snd (take_char s)) = tl (queued s)"
    using b by (simp add: q take_char_def t_def [symmetric] o_def del: upt_Suc)
qed

text \<open>A queue of bounded length, as the readers of the buffer see it.\<close>

datatype 'a queue_op = Put 'a | Get

fun run_queue :: "('a \<Rightarrow> 's \<Rightarrow> 's) \<Rightarrow> ('s \<Rightarrow> 'b \<times> 's) \<Rightarrow> 'a queue_op list \<Rightarrow> 's \<Rightarrow> 'b list \<times> 's" where
  "run_queue put get [] s = ([], s)"
| "run_queue put get (Put x # ops) s = run_queue put get ops (put x s)"
| "run_queue put get (Get # ops) s =
     (let (y, s1) = get s; (ys, s2) = run_queue put get ops s1 in (y # ys, s2))"

text \<open>Reading without waiting: \<open>-1\<close> when the buffer is empty.\<close>

definition get_char :: "'a input_scheme \<Rightarrow> int \<times> 'a input_scheme" where
  "get_char s = (if in_head s = in_tail s then (-1, s) else take_char s)"

definition list_get :: "u8 list \<Rightarrow> int \<times> u8 list" where
  "list_get q = (case q of [] \<Rightarrow> (-1, []) | c # q \<Rightarrow> (sint c, q))"

text \<open>An implementation of a queue: states with an invariant and the queue they stand for.\<close>

locale queue_impl =
  fixes put :: "'a \<Rightarrow> 's \<Rightarrow> 's" and get :: "'s \<Rightarrow> 'b \<times> 's"
    and ok :: "'s \<Rightarrow> bool" and abs :: "'s \<Rightarrow> 'q"
    and aput :: "'a \<Rightarrow> 'q \<Rightarrow> 'q" and aget :: "'q \<Rightarrow> 'b \<times> 'q"
  assumes put_abs: "ok s \<Longrightarrow> ok (put x s) \<and> abs (put x s) = aput x (abs s)"
    and get_abs: "ok s \<Longrightarrow> ok (snd (get s)) \<and> aget (abs s) = (fst (get s), abs (snd (get s)))"
begin

lemma run_abs:
  "ok s \<Longrightarrow> run_queue aput aget ops (abs s) =
     (fst (run_queue put get ops s), abs (snd (run_queue put get ops s))) \<and>
   ok (snd (run_queue put get ops s))"
proof (induction ops arbitrary: s)
  case (Cons op ops)
  show ?case
  proof (cases op)
    case (Put x)
    then show ?thesis using Cons.IH [of "put x s"] put_abs [OF Cons.prems, of x] by simp
  next
    case Get
    then show ?thesis using Cons.IH [of "snd (get s)"] get_abs [OF Cons.prems]
      by (simp add: split_beta Let_def)
  qed
qed simp

end

interpretation ring: queue_impl input_add_char get_char ring_ok queued offer list_get
proof
  fix s :: "'a input_scheme" and c
  assume s: "ring_ok s"
  then show "ring_ok (input_add_char c s) \<and> queued (input_add_char c s) = offer c (queued s)"
    by (simp add: ring_ok_ops queued_add)
  show "ring_ok (snd (get_char s)) \<and> list_get (queued s) = (fst (get_char s), queued (snd (get_char s)))"
    using s ring_ok_ops(2) [OF s] queued_take [OF s]
    by (cases "queued s") (auto simp: get_char_def list_get_def)
qed

subsection \<open>Letters\<close>

lemma ring_ok_cong: "in_head t = in_head s \<Longrightarrow> in_tail t = in_tail s \<Longrightarrow> ring_ok t = ring_ok s"
  by (simp add: ring_ok_def)

text \<open>What holds of the two tables for every key of a letter.\<close>

definition letter :: "u8 \<Rightarrow> bool" where
  "letter c \<longleftrightarrow> 0x61 \<le> c \<and> c \<le> 0x7A"

lemma letter_keys:
  "list_all (\<lambda>(k, c, d). letter c \<longrightarrow> 16 \<le> k \<and> k < (0x36 :: nat) \<and> k \<noteq> 0x2A \<and> d = c - 0x20)
     (zip [0 ..< 128] (zip scancode_map scancode_shift_map))"
  by code_simp

lemma letter_key:
  assumes "letter (scancode_map ! unat sc)" and "sc < (0x80 :: u8)"
  shows "0x10 \<le> sc \<and> sc < 0x36 \<and> sc \<noteq> 0x2A \<and> scancode_shift_map ! unat sc = scancode_map ! unat sc - 0x20"
proof -
  have k: "unat sc < 128" using assms(2) by (simp add: word_less_nat_alt)
  then have "(unat sc, scancode_map ! unat sc, scancode_shift_map ! unat sc) \<in>
      set (zip [0 ..< 128] (zip scancode_map scancode_shift_map))"
    by (force simp: set_zip tables_length)
  with letter_keys have "letter (scancode_map ! unat sc) \<longrightarrow> 16 \<le> unat sc \<and> unat sc < 0x36 \<and> unat sc \<noteq> 0x2A \<and>
      scancode_shift_map ! unat sc = scancode_map ! unat sc - 0x20"
    unfolding list_all_iff by blast
  with assms(1) show ?thesis by (auto simp: word_less_nat_alt word_le_nat_alt word_unat_eq_iff)
qed

lemma wait_clear_reads: "\<exists>k. wait_clear n s = s\<lparr>n_reads := k\<rparr>"
proof (induction n arbitrary: s)
  case (Suc n)
  show ?case
    using Suc.IH [of "s\<lparr>n_reads := Suc (n_reads s)\<rparr>"]
    by (subst wait_clear.simps) (auto simp: inb_def Let_def)
next
  case 0
  have "wait_clear 0 s = s\<lparr>n_reads := n_reads s\<rparr>" by (subst wait_clear.simps) simp
  then show ?case by blast
qed

lemma wait_clear_frame [simp]:
  "extended (wait_clear n s) = extended s" "leds_state (wait_clear n s) = leds_state s"
  "in_head (wait_clear n s) = in_head s" "in_tail (wait_clear n s) = in_tail s"
  "in_buf (wait_clear n s) = in_buf s" "caps (wait_clear n s) = caps s" "numlock (wait_clear n s) = numlock s"
  "shift (wait_clear n s) = shift s"
  using wait_clear_reads [of n s] by auto

lemma send_leds_frame [simp]:
  "extended (send_leds s) = extended s" "in_head (send_leds s) = in_head s" "in_tail (send_leds s) = in_tail s"
  "in_buf (send_leds s) = in_buf s" "caps (send_leds s) = caps s" "numlock (send_leds s) = numlock s"
  "shift (send_leds s) = shift s"
  by (simp_all add: send_leds_def outb_def Let_def)

lemma add_char_frame [simp]:
  "extended (input_add_char c s) = extended s" "shift (input_add_char c s) = shift s"
  "caps (input_add_char c s) = caps s" "prev_keycodes (input_add_char c s) = prev_keycodes s"
  by (simp_all add: input_add_char_def Let_def)

lemma press_frame [simp]:
  "extended (press_caps s) = extended s" "caps (press_caps s) = (\<not> caps s)" "queued (press_caps s) = queued s"
  "extended (press_numlock s) = extended s" "caps (press_numlock s) = caps s" "queued (press_numlock s) = queued s"
  by (simp_all add: press_caps_def press_numlock_def show_text_def Let_def queued_def)

lemma hid_held: "set ks \<subseteq> set (prev_keycodes s) \<union> {0} \<Longrightarrow> fold (hid_key b) ks s = s"
  by (induction ks) (auto simp: hid_key_def)

lemma hid_modifiers: "kbd_modifiers (fold (hid_key b) ks s) = kbd_modifiers s"
  by (induction ks arbitrary: s) (simp_all add: hid_key_def input_add_char_def Let_def)

lemma no_release_bit: "sc < (0x80 :: u8) \<Longrightarrow> sc AND 0x80 = 0"
proof -
  assume "sc < 0x80"
  then have "\<not> bit (unat sc) 7" by (simp add: bit_iff_odd word_less_nat_alt)
  then have "\<not> bit sc 7" by (simp add: bit_unsigned_iff)
  then show ?thesis using and_exp_zero [of 7 sc] by simp
qed

text \<open>A key that stays down gives one character.\<close>

lemma held_report: "usb_kbd_process_report r (usb_kbd_process_report r s) = usb_kbd_process_report r s"
proof -
  define t where "t = fold (hid_key (modifiers r AND 0x22 \<noteq> 0)) (keycodes r) (s\<lparr>kbd_modifiers := modifiers r\<rparr>)"
  have m: "kbd_modifiers t = modifiers r" by (simp add: t_def hid_modifiers)
  have same: "t\<lparr>prev_keycodes := keycodes r, kbd_modifiers := modifiers r\<rparr> = t\<lparr>prev_keycodes := keycodes r\<rparr>"
    using m by (cases t) simp
  have held: "fold (hid_key b) (keycodes r) (t\<lparr>prev_keycodes := keycodes r\<rparr>) = t\<lparr>prev_keycodes := keycodes r\<rparr>" for b
    by (rule hid_held) auto
  show ?thesis
    by (simp add: usb_kbd_process_report_def Let_def t_def [symmetric] same held)
qed

subsection \<open>Properties\<close>

text \<open>
  C18 (refinement, keyboard). The ring buffer implements a queue of at most 255 characters: any
  sequence of \<open>input_add_char\<close> and reads, from a state whose indices are in range, reads what
  the list of waiting characters would give, in order and without loss or duplication, a
  character offered to a full queue being dropped; and it ends with the list left.
\<close>

theorem ring_buffer_is_queue:
  assumes "ring_ok s"
  shows "run_queue offer list_get ops (queued s) =
      (fst (run_queue input_add_char get_char ops s), queued (snd (run_queue input_add_char get_char ops s))) \<and>
    ring_ok (snd (run_queue input_add_char get_char ops s))"
  by (rule ring.run_abs [OF assms])

definition idle_keyboard :: input where
  "idle_keyboard = \<lparr>in_head = 0, in_tail = 0, in_buf = (\<lambda>_. 0), shift = False, caps = False, numlock = False,
     leds_state = 0, extended = False, kbd_modifiers = 0, prev_keycodes = replicate 6 0,
     hw = (\<lambda>_ _. 0), n_reads = 0, outs = [], fb_text = []\<rparr>"

lemma idle_ring: "ring_ok idle_keyboard" "queued idle_keyboard = []"
  by (simp_all add: ring_ok_def idle_keyboard_def queued_def)

theorem ring_buffer_is_queue_witness:
  "fst (run_queue input_add_char get_char [Put 97, Get, Get, Put 98, Put 99, Get] idle_keyboard) = [97, -1, 98]"
proof -
  have "fst (run_queue offer list_get [Put 97, Get, Get, Put 98, Put 99, Get] []) = [97, -1, 98]"
    by (simp add: offer_def list_get_def)
  then show ?thesis using ring_buffer_is_queue [OF idle_ring(1)] idle_ring(2) by (metis fst_conv)
qed

text \<open>
  The make code of a letter key enters the letter in upper case
  exactly when Shift or Caps Lock is on. Both together do not give back the lower case, as
  the exclusive or in the code intends: the table of shifted characters is asked first.
\<close>

theorem letter_case:
  assumes "ring_ok s" and "letter (scancode_map ! unat sc)" and "sc < 0x80"
  shows "queued (ps2_scancode sc s) =
    offer (if shift s \<or> caps s then scancode_map ! unat sc - 0x20 else scancode_map ! unat sc) (queued s)"
proof -
  note k = letter_key [OF assms(2,3)]
  let ?c = "scancode_map ! unat sc"
  have nz: "?c \<noteq> 0" "?c - 0x20 \<noteq> 0" using assms(2) by (auto simp: letter_def)
  have "sc AND 0x80 = 0"
    using assms(3) by (rule no_release_bit)
  then have "ps2_scancode sc s = input_add_char (key_char sc s) s"
    using k nz assms(3) by (auto simp: ps2_scancode_def tables_length word_less_nat_alt word_le_nat_alt)
  moreover have "key_char sc s = (if shift s \<or> caps s then ?c - 0x20 else ?c)"
    using k nz assms(2) by (auto simp: key_char_def letter_def Let_def)
  ultimately show ?thesis using queued_add [OF assms(1)] by simp
qed

theorem letter_case_witness:
  "queued (ps2_scancode 0x1E (idle_keyboard\<lparr>shift := True, caps := True\<rparr>)) = [0x41]"
proof -
  have "scancode_map ! 0x1E = 0x61" by code_simp
  then show ?thesis
    using letter_case [of "idle_keyboard\<lparr>shift := True, caps := True\<rparr>" "0x1E"] idle_ring
    by (simp add: letter_def offer_def ring_ok_def queued_def idle_keyboard_def)
qed

text \<open>
  The prefix 0xE0 of an extended key is never recognised: it has the
  release bit, so it is taken for a released key before the test for it. The flag stays off
  under every scan code, and the key that follows is read as if it had no prefix.
\<close>

theorem extended_never_set:
  assumes "\<not> extended s"
  shows "ps2_scancode 0xE0 s = s \<and> \<not> extended (ps2_scancode sc s)"
  using assms by (simp add: ps2_scancode_def Let_def)

theorem extended_never_set_witness:
  "queued (ps2_scancode 0x48 (ps2_scancode 0xE0 (idle_keyboard\<lparr>numlock := True\<rparr>))) = [0x38]"
proof -
  let ?s = "idle_keyboard\<lparr>numlock := True\<rparr>"
  have "ring_ok ?s" "queued ?s = []" by (simp_all add: ring_ok_def queued_def idle_keyboard_def)
  then have "queued (ps2_scancode 0x48 ?s) = [0x38]"
    by (simp add: ps2_scancode_def queued_add offer_def keypad_num_map_def chars_def)
  then show ?thesis using extended_never_set [of ?s] by (simp add: idle_keyboard_def)
qed

end
