(* ===== verification/Irq.thy ===== *)
theory Irq
  imports Input
begin

text \<open>
  Interrupts and time: \<^verbatim>\<open>core/idt.c\<close>, \<^verbatim>\<open>core/irq.c\<close>, \<^verbatim>\<open>core/timer.c\<close> and the segment table of
  \<^verbatim>\<open>core/main.c\<close>. The machine extends the keyboard state of \<open>Input\<close>, because the dispatcher
  hands IRQ 1 to it. The addresses of the assembly stubs are arguments; \<open>hlt\<close>, which returns
  after an interrupt, is an argument of the sleeping loop.
\<close>

subsection \<open>State\<close>

record idt_entry =
  offset_lo :: u16
  selector :: u16
  ist :: u8
  type_attr :: u8
  offset_mid :: u16
  offset_hi :: u32
  zero :: u32

record gdt_entry =
  limit_low :: u16
  base_low :: u16
  base_mid :: u8
  access :: u8
  granularity :: u8
  base_high :: u8

record machine = input +
  idt :: "nat \<Rightarrow> idt_entry"
  gdt :: "nat \<Rightarrow> gdt_entry"
  g_timer_ticks :: u64
  g_timer_frequency :: u32

subsection \<open>Descriptor tables\<close>

definition set_idt_entry :: "nat \<Rightarrow> u64 \<Rightarrow> 'a machine_scheme \<Rightarrow> 'a machine_scheme" where
  "set_idt_entry n addr s = s\<lparr>idt := (idt s)(n :=
     \<lparr>offset_lo = ucast (addr AND 0xFFFF), selector = 0x08, ist = 0, type_attr = 0x8E,
      offset_mid = ucast (drop_bit 16 addr AND 0xFFFF),
      offset_hi = ucast (drop_bit 32 addr AND 0xFFFFFFFF), zero = 0\<rparr>)\<rparr>"

fun set_idt_from :: "nat \<Rightarrow> nat \<Rightarrow> u64 \<Rightarrow> 'a machine_scheme \<Rightarrow> 'a machine_scheme" where
  "set_idt_from i 0 addr s = s"
| "set_idt_from i (Suc n) addr s = set_idt_from (Suc i) n addr (set_idt_entry i addr s)"

definition pic_remap :: "'a machine_scheme \<Rightarrow> 'a machine_scheme" where
  "pic_remap s = fold (\<lambda>(p, v). outb p v)
     [(0x20, 0x11), (0xA0, 0x11), (0x21, 0x20), (0xA1, 0x28), (0x21, 0x04), (0xA1, 0x02),
      (0x21, 0x01), (0xA1, 0x01), (0x21, 0xFF AND NOT 1 AND NOT 2), (0xA1, 0xFF)] s"

definition init_idt :: "u64 \<Rightarrow> u64 \<Rightarrow> u64 \<Rightarrow> 'a machine_scheme \<Rightarrow> 'a machine_scheme" where
  "init_idt isr_default_handler isr_irq0 isr_irq1 s =
     pic_remap (set_idt_entry (32 + 1) isr_irq1 (set_idt_entry (32 + 0) isr_irq0
       (set_idt_from 0 256 isr_default_handler s)))"

definition set_gdt_entry :: "nat \<Rightarrow> u32 \<Rightarrow> u32 \<Rightarrow> u8 \<Rightarrow> u8 \<Rightarrow> 'a machine_scheme \<Rightarrow> 'a machine_scheme" where
  "set_gdt_entry i base limit acc gran s = s\<lparr>gdt := (gdt s)(i :=
     \<lparr>limit_low = ucast (limit AND 0xFFFF), base_low = ucast (base AND 0xFFFF),
      base_mid = ucast (drop_bit 16 base AND 0xFF), access = acc,
      granularity = (ucast (drop_bit 16 limit) AND 0x0F) OR (gran AND 0xF0),
      base_high = ucast (drop_bit 24 base AND 0xFF)\<rparr>)\<rparr>"

definition init_gdt :: "'a machine_scheme \<Rightarrow> 'a machine_scheme" where
  "init_gdt s = set_gdt_entry 2 0 0xFFFFFFFF 0x92 0xCF
     (set_gdt_entry 1 0 0xFFFFFFFF 0x9A 0xAF (set_gdt_entry 0 0 0 0 0 s))"

subsection \<open>The timer\<close>

definition PIT_BASE_FREQ :: u32 where "PIT_BASE_FREQ = 1193182"

definition timer_irq_handler :: "'a machine_scheme \<Rightarrow> 'a machine_scheme" where
  "timer_irq_handler s = s\<lparr>g_timer_ticks := g_timer_ticks s + 1\<rparr>"

definition pit_init :: "u32 \<Rightarrow> 'a machine_scheme \<Rightarrow> 'a machine_scheme" where
  "pit_init frequency_hz s =
     (let hz = (if frequency_hz = 0 \<or> PIT_BASE_FREQ < frequency_hz then 100 else frequency_hz);
          s1 = s\<lparr>g_timer_frequency := hz\<rparr>;
          divisor = PIT_BASE_FREQ div hz;
          (divisor1, s2) = (if 65535 < divisor
             then (65535, s1\<lparr>g_timer_frequency := PIT_BASE_FREQ div 65535\<rparr>) else (divisor, s1))
      in outb 0x40 (ucast (drop_bit 8 divisor1 AND 0xFF)) (outb 0x40 (ucast (divisor1 AND 0xFF)) (outb 0x43 0x34 s2)))"

definition timer_get_ticks :: "'a machine_scheme \<Rightarrow> u64" where
  "timer_get_ticks s = g_timer_ticks s"

definition timer_get_uptime_ms :: "'a machine_scheme \<Rightarrow> u64" where
  "timer_get_uptime_ms s =
     (if g_timer_frequency s = 0 then 0
      else (g_timer_ticks s * 1000) div ucast (g_timer_frequency s))"

definition timer_get_frequency :: "'a machine_scheme \<Rightarrow> u32" where
  "timer_get_frequency s = g_timer_frequency s"

text \<open>The loop ends only if enough timer interrupts come.\<close>

partial_function (option) wait_until ::
    "('a machine_scheme \<Rightarrow> 'a machine_scheme) \<Rightarrow> u64 \<Rightarrow> 'a machine_scheme \<Rightarrow> 'a machine_scheme option" where
  "wait_until hlt target_ticks s =
     (if g_timer_ticks s < target_ticks then wait_until hlt target_ticks (hlt s) else Some s)"

declare wait_until.simps [code]

definition timer_sleep_ms ::
    "('a machine_scheme \<Rightarrow> 'a machine_scheme) \<Rightarrow> u32 \<Rightarrow> 'a machine_scheme \<Rightarrow> 'a machine_scheme option" where
  "timer_sleep_ms hlt ms s =
     (if g_timer_frequency s = 0 then Some s
      else wait_until hlt (g_timer_ticks s + ucast ms * ucast (g_timer_frequency s) div 1000) s)"

definition irq_handler :: "int \<Rightarrow> 'a machine_scheme \<Rightarrow> 'a machine_scheme" where
  "irq_handler irq s =
     (if irq = 0 then timer_irq_handler s else if irq = 1 then ps2_handle_interrupt s else s)"

subsection \<open>Lemmas\<close>

text \<open>The address a gate leads to, as the processor reads it.\<close>

definition gate_addr :: "idt_entry \<Rightarrow> u64" where
  "gate_addr e = ucast (offset_lo e) OR push_bit 16 (ucast (offset_mid e)) OR push_bit 32 (ucast (offset_hi e))"

lemma low_masks: "w AND 0xFFFF = take_bit 16 (w :: u64)" "w AND 0xFFFFFFFF = take_bit 32 (w :: u64)"
  by (simp_all add: take_bit_eq_mask mask_numeral)

lemma gate_split: "gate_addr (idt (set_idt_entry n addr s) n) = addr"
proof (rule bit_word_eqI)
  fix k assume "k < LENGTH(64)"
  then consider "k < 16" | "16 \<le> k" "k < 32" | "32 \<le> k" "k < 64" by fastforce
  then show "bit (gate_addr (idt (set_idt_entry n addr s) n)) k = bit addr k"
    by cases (auto simp: gate_addr_def set_idt_entry_def low_masks bit_simps)
qed

lemma set_idt_entry_other: "k \<noteq> n \<Longrightarrow> idt (set_idt_entry n addr s) k = idt s k"
  by (simp add: set_idt_entry_def)

lemma set_idt_from_apply:
  "idt (set_idt_from i n addr s) k = (if i \<le> k \<and> k < i + n then idt (set_idt_entry k addr s) k else idt s k)"
  by (induction i n addr s rule: set_idt_from.induct) (auto simp: set_idt_entry_def)

lemma pic_remap_idt [simp]: "idt (pic_remap s) = idt s"
  by (simp add: pic_remap_def outb_def)

text \<open>The base and the limit of a segment; the limit has 20 bits.\<close>

definition segment_base :: "gdt_entry \<Rightarrow> u32" where
  "segment_base e = ucast (base_low e) OR push_bit 16 (ucast (base_mid e)) OR push_bit 24 (ucast (base_high e))"

definition segment_limit :: "gdt_entry \<Rightarrow> u32" where
  "segment_limit e = ucast (limit_low e) OR push_bit 16 (ucast (granularity e AND 0x0F))"

lemma gdt_masks: "w AND 0xFFFF = take_bit 16 (w :: u32)" "w AND 0xFF = take_bit 8 (w :: u32)"
    "v AND 0x0F = take_bit 4 (v :: u8)"
  by (simp_all add: take_bit_eq_mask mask_numeral)

lemma high_nibble: "v AND 0xF0 = push_bit 4 (drop_bit 4 (v :: u8))"
proof -
  have m: "(0xF0 :: u8) = push_bit 4 (mask 4)" by (simp add: push_bit_eq_mult mask_eq_exp_minus_1)
  show ?thesis unfolding m by (rule bit_word_eqI) (auto simp: bit_simps)
qed

lemma segment_split:
  "segment_base (gdt (set_gdt_entry i base limit acc gran s) i) = base"
  "segment_limit (gdt (set_gdt_entry i base limit acc gran s) i) = take_bit 20 limit"
proof -
  show "segment_base (gdt (set_gdt_entry i base limit acc gran s) i) = base"
  proof (rule bit_word_eqI)
    fix k assume "k < LENGTH(32)"
    then consider "k < 16" | "16 \<le> k" "k < 24" | "24 \<le> k" "k < 32" by fastforce
    then show "bit (segment_base (gdt (set_gdt_entry i base limit acc gran s) i)) k = bit base k"
      by cases (auto simp: segment_base_def set_gdt_entry_def gdt_masks high_nibble bit_simps)
  qed
  show "segment_limit (gdt (set_gdt_entry i base limit acc gran s) i) = take_bit 20 limit"
  proof (rule bit_word_eqI)
    fix k assume "k < LENGTH(32)"
    then consider "k < 16" | "16 \<le> k" "k < 20" | "20 \<le> k" "k < 32" by fastforce
    then show "bit (segment_limit (gdt (set_gdt_entry i base limit acc gran s) i)) k = bit (take_bit 20 limit) k"
      by cases (auto simp: segment_limit_def set_gdt_entry_def gdt_masks high_nibble bit_simps)
  qed
qed

subsection \<open>Sleeping\<close>

text \<open>With a halt that each time lets one timer interrupt in, the loop ends at the target.\<close>

lemma wait_ticks:
  assumes hlt: "\<And>s. g_timer_ticks (hlt s) = g_timer_ticks s + 1"
    and "unat target = unat (g_timer_ticks s) + n"
  shows "\<exists>s'. wait_until hlt target s = Some s' \<and> g_timer_ticks s' = target \<and> s' = (hlt ^^ n) s"
  using assms(2)
proof (induction n arbitrary: s)
  case 0
  then have "target = g_timer_ticks s" by (simp add: word_unat_eq_iff)
  then show ?case by (subst wait_until.simps) simp
next
  case (Suc n)
  have "unat (g_timer_ticks s + 1) = unat (g_timer_ticks s) + 1"
    using Suc.prems unat_less_64 [of target] by (simp add: unat_plus_if_size word_size)
  then have "unat target = unat (g_timer_ticks (hlt s)) + n" using Suc.prems by (simp add: hlt)
  from Suc.IH [OF this] Suc.prems show ?case
    by (subst wait_until.simps) (simp add: word_less_nat_alt funpow_swap1)
qed

text \<open>The tick rate for a requested frequency.\<close>

lemma pit_frequency:
  "g_timer_frequency (pit_init hz s) =
     (if hz = 0 \<or> PIT_BASE_FREQ < hz then 100 else if hz < 19 then 18 else hz)"
proof -
  have "65535 < PIT_BASE_FREQ div hz \<longleftrightarrow> hz < 19" if "hz \<noteq> 0"
  proof -
    have "unat hz \<noteq> 0" using that by (simp add: unat_eq_zero)
    then have "65535 < 1193182 div unat hz \<longleftrightarrow> unat hz < 19"
      using div_le_mono2 [of "unat hz" 18 1193182] div_le_mono2 [of 19 "unat hz" 1193182]
      by (cases "unat hz < 19") simp_all
    then show ?thesis by (simp add: word_less_nat_alt unat_div_distrib PIT_BASE_FREQ_def)
  qed
  then show ?thesis by (auto simp: pit_init_def Let_def outb_def PIT_BASE_FREQ_def)
qed

subsection \<open>Properties\<close>

definition idle_machine :: machine where
  "idle_machine = input.extend idle_keyboard (machine.fields (\<lambda>_. idt_entry.make 0 0 0 0 0 0 0)
     (\<lambda>_. gdt_entry.make 0 0 0 0 0 0) 0 0)"

text \<open>
  After \<open>init_idt\<close> the gate of every vector below 256 is present and
  leads to the right stub, of any 64-bit address: 32 to the timer's, 33 to the keyboard's, every
  other one to the default handler.
\<close>

theorem idt_dispatches:
  "let e = idt (init_idt dflt irq0 irq1 s) v in
   (v < 256 \<longrightarrow> gate_addr e = (if v = 32 then irq0 else if v = 33 then irq1 else dflt) \<and>
     type_attr e = 0x8E \<and> selector e = 0x08) \<and> (256 \<le> v \<longrightarrow> e = idt s v)"
proof -
  have attr: "type_attr (idt (set_idt_entry n a u) n) = 0x8E" "selector (idt (set_idt_entry n a u) n) = 0x08"
    for n a and u :: "'a machine_scheme" by (simp_all add: set_idt_entry_def)
  consider "v = 33" | "v = 32" | "v \<noteq> 32" "v \<noteq> 33" by blast
  then show ?thesis
    by cases (simp_all add: init_idt_def Let_def set_idt_entry_other set_idt_from_apply gate_split attr)
qed

theorem idt_dispatches_witness:
  "gate_addr (idt (init_idt 0xFFFFFFFF80201000 0xFFFFFFFF80202345 0xFFFFFFFF80203000 idle_machine) 32)
     = 0xFFFFFFFF80202345"
  using idt_dispatches [where v = 32 and dflt = "0xFFFFFFFF80201000" and ?irq0.0 = "0xFFFFFFFF80202345" and
    ?irq1.0 = "0xFFFFFFFF80203000" and s = idle_machine]
  by (simp add: Let_def)

text \<open>
  \<open>timer_sleep_ms\<close> returns when every halt ends with a timer interrupt, and
  then exactly the milliseconds times the tick rate over 1000, rounded down, have passed; as
  long as the tick counter does not pass 64 bits.
\<close>

theorem sleep_returns:
  assumes "\<And>s. g_timer_ticks (hlt s) = g_timer_ticks s + 1"
    and "n = unat ms * unat (g_timer_frequency s) div 1000" and "g_timer_frequency s \<noteq> 0"
    and "unat (g_timer_ticks s) + n < 2 ^ 64"
  shows "timer_sleep_ms hlt ms s = Some ((hlt ^^ n) s) \<and>
    unat (g_timer_ticks ((hlt ^^ n) s)) = unat (g_timer_ticks s) + n"
proof -
  let ?w = "ucast ms * ucast (g_timer_frequency s) :: u64"
  have wide: "take_bit 64 (unat w) = unat w" for w :: u32
    using unsigned_less [of w, where 'a = nat] by (intro take_bit_nat_eq_self) simp
  have "unat ms * unat (g_timer_frequency s) < 2 ^ 32 * 2 ^ 32"
    using unsigned_less [of ms, where 'a = nat] unsigned_less [of "g_timer_frequency s", where 'a = nat]
    by (intro mult_strict_mono) simp_all
  then have "unat ?w = unat ms * unat (g_timer_frequency s)"
    using wide [of ms] wide [of "g_timer_frequency s"] by (simp add: unat_word_ariths unsigned_ucast_eq)
  then have "unat (?w div 1000) = n" using assms(2) by (simp add: unat_div_distrib)
  then have t: "unat (g_timer_ticks s + ?w div 1000) = unat (g_timer_ticks s) + n"
    using assms(4) by (simp add: unat_plus_if_size word_size)
  from wait_ticks [where hlt = hlt, OF assms(1) t] assms(3) t show ?thesis
    by (auto simp: timer_sleep_ms_def)
qed

theorem sleep_returns_witness:
  "map_option g_timer_ticks (timer_sleep_ms (irq_handler 0) 250 (pit_init 100 idle_machine)) = Some 25"
proof -
  let ?s = "pit_init 100 idle_machine"
  have f: "g_timer_frequency ?s = 100" by (simp add: pit_frequency PIT_BASE_FREQ_def)
  have t: "g_timer_ticks ?s = 0"
    by (simp add: pit_init_def Let_def outb_def PIT_BASE_FREQ_def idle_machine_def input.defs machine.defs)
  have "timer_sleep_ms (irq_handler 0) 250 ?s = Some ((irq_handler 0 ^^ 25) ?s) \<and>
      unat (g_timer_ticks ((irq_handler 0 ^^ 25) ?s)) = unat (g_timer_ticks ?s) + 25"
    by (rule sleep_returns) (simp_all add: irq_handler_def timer_irq_handler_def f t)
  then show ?thesis using t by (simp add: word_unat_eq_iff)
qed

end
