(* ===== verification/Syscall.thy ===== *)
theory Syscall
  imports Fat Input
begin

text \<open>
  System calls: \<^verbatim>\<open>core/syscall.c\<close>. The kernel state extends the file systems' with the keyboard,
  the memory of the caller, the working directory and the model specific registers. A pointer
  argument is an address of that memory; a string that has no NUL in it is never read to its
  end. Console output is a trace of characters, debug messages are left out. A call that
  writes past the array \<open>cwd\<close> is \<open>None\<close>.
\<close>

subsection \<open>State\<close>

record kern = fat +
  keyb :: input
  umem :: "u64 \<Rightarrow> u8"
  cwd :: "nat \<Rightarrow> u8"
  current_pid :: int
  fb_out :: "u8 list"
  halted :: bool
  msrs :: "u32 \<Rightarrow> u64"

definition CWD_SIZE :: nat where "CWD_SIZE = 256"

definition MSR_EFER :: u32 where "MSR_EFER = 0xC0000080"
definition MSR_STAR :: u32 where "MSR_STAR = 0xC0000081"
definition MSR_LSTAR :: u32 where "MSR_LSTAR = 0xC0000082"
definition MSR_SFMASK :: u32 where "MSR_SFMASK = 0xC0000084"

definition rdmsr :: "u32 \<Rightarrow> 'a kern_scheme \<Rightarrow> u64" where
  "rdmsr m s =
     (let lo = ucast (msrs s m) :: u32; hi = ucast (drop_bit 32 (msrs s m)) :: u32
      in push_bit 32 (ucast hi) OR ucast lo)"

definition wrmsr :: "u32 \<Rightarrow> u64 \<Rightarrow> 'a kern_scheme \<Rightarrow> 'a kern_scheme" where
  "wrmsr m v s =
     (let lo = ucast v :: u32; hi = ucast (drop_bit 32 v) :: u32
      in s\<lparr>msrs := (msrs s)(m := push_bit 32 (ucast hi) OR ucast lo)\<rparr>)"

text \<open>A NUL-terminated string in memory, and one inside the array \<open>cwd\<close>.\<close>

partial_function (option) user_str :: "(u64 \<Rightarrow> u8) \<Rightarrow> u64 \<Rightarrow> u8 list option" where
  "user_str m p =
     (if m p = 0 then Some [] else do { bs \<leftarrow> user_str m (p + 1); Some (m p # bs) })"

declare user_str.simps [code]

fun array_str :: "(nat \<Rightarrow> u8) \<Rightarrow> nat \<Rightarrow> nat \<Rightarrow> u8 list option" where
  "array_str f i 0 = None"
| "array_str f i (Suc n) = (if f i = 0 then Some [] else map_option (Cons (f i)) (array_str f (Suc i) n))"

definition str_len :: "(nat \<Rightarrow> u8) \<Rightarrow> nat option" where
  "str_len f = map_option length (array_str f 0 CWD_SIZE)"

text \<open>Copying a string with its NUL into \<open>cwd\<close> or into the memory of the caller.\<close>

definition cpy_cwd :: "u8 list \<Rightarrow> 'a kern_scheme \<Rightarrow> 'a kern_scheme option" where
  "cpy_cwd src s =
     (if CWD_SIZE \<le> length src then None
      else Some (s\<lparr>cwd := (\<lambda>i. if i \<le> length src then (src @ [0]) ! i else cwd s i)\<rparr>))"

fun store_bytes :: "u64 \<Rightarrow> u8 list \<Rightarrow> (u64 \<Rightarrow> u8) \<Rightarrow> u64 \<Rightarrow> u8" where
  "store_bytes p [] m = m"
| "store_bytes p (b # bs) m = store_bytes (p + 1) bs (m(p := b))"

subsection \<open>The calls\<close>

text \<open>The processor stops with interrupts off; the return value stands for none.\<close>

definition sys_exit :: "int \<Rightarrow> 'a kern_scheme \<Rightarrow> (u64 \<times> 'a kern_scheme) option" where
  "sys_exit status s = Some (0, s\<lparr>halted := True\<rparr>)"

definition sys_write :: "int \<Rightarrow> u64 \<Rightarrow> u64 \<Rightarrow> 'a kern_scheme \<Rightarrow> (u64 \<times> 'a kern_scheme) option" where
  "sys_write fd buf count s =
     (if buf = 0 \<or> count = 0 then Some (-1, s)
      else if fd = 1 \<or> fd = 2
      then Some (count, s\<lparr>fb_out := fb_out s @ map (\<lambda>i. umem s (buf + of_nat i)) [0 ..< unat count]\<rparr>)
      else Some (-1, s))"

fun read_stdin :: "(input \<Rightarrow> input) \<Rightarrow> u64 \<Rightarrow> nat \<Rightarrow> u64 \<Rightarrow> 'a kern_scheme \<Rightarrow> (u64 \<times> 'a kern_scheme) option" where
  "read_stdin poll buf 0 i s = Some (i, s)"
| "read_stdin poll buf (Suc n) i s =
     (case ps2_getchar poll (keyb s) of None \<Rightarrow> None
      | Some (c, k) \<Rightarrow>
          if c < 0 then Some (i, s\<lparr>keyb := k\<rparr>)
          else
            let s1 = s\<lparr>keyb := k, umem := (umem s)(buf + i := word_of_int c)\<rparr>
            in if c = 10 then Some (i + 1, s1) else read_stdin poll buf n (i + 1) s1)"

definition sys_read :: "(input \<Rightarrow> input) \<Rightarrow> int \<Rightarrow> u64 \<Rightarrow> u64 \<Rightarrow> 'a kern_scheme \<Rightarrow> (u64 \<times> 'a kern_scheme) option" where
  "sys_read poll fd buf count s =
     (if buf = 0 \<or> count = 0 then Some (-1, s)
      else if fd = 0 then read_stdin poll buf (unat count) 0 s
      else Some (-1, s))"

definition sys_open :: "u64 \<Rightarrow> int \<Rightarrow> 'a kern_scheme \<Rightarrow> (u64 \<times> 'a kern_scheme) option" where
  "sys_open path flags s =
     (if path = 0 then Some (-1, s)
      else do {
        p \<leftarrow> user_str (umem s) path;
        (node, s1) \<leftarrow> vfs_resolve_path fs_tbl (of_bytes p) s;
        Some (if node = None then -1 else 3, s1)
      })"

definition sys_close :: "int \<Rightarrow> 'a kern_scheme \<Rightarrow> (u64 \<times> 'a kern_scheme) option" where
  "sys_close fd s = Some (if fd < 3 then -1 else 0, s)"

definition sys_exec :: "u64 \<Rightarrow> u64 \<Rightarrow> 'a kern_scheme \<Rightarrow> (u64 \<times> 'a kern_scheme) option" where
  "sys_exec path argv s = Some (-1, s)"

definition sys_fork :: "'a kern_scheme \<Rightarrow> (u64 \<times> 'a kern_scheme) option" where
  "sys_fork s = Some (-1, s)"

definition sys_getpid :: "'a kern_scheme \<Rightarrow> (u64 \<times> 'a kern_scheme) option" where
  "sys_getpid s = Some (word_of_int (current_pid s), s)"

definition sys_waitpid :: "int \<Rightarrow> u64 \<Rightarrow> int \<Rightarrow> 'a kern_scheme \<Rightarrow> (u64 \<times> 'a kern_scheme) option" where
  "sys_waitpid pid status options s = Some (-1, s)"

definition sys_sbrk :: "u64 \<Rightarrow> 'a kern_scheme \<Rightarrow> (u64 \<times> 'a kern_scheme) option" where
  "sys_sbrk increment s = Some (-1, s)"

definition sys_getcwd :: "u64 \<Rightarrow> u64 \<Rightarrow> 'a kern_scheme \<Rightarrow> (u64 \<times> 'a kern_scheme) option" where
  "sys_getcwd buf sz s =
     (if buf = 0 \<or> sz = 0 then Some (-1, s)
      else do {
        len \<leftarrow> str_len (cwd s);
        if unat sz \<le> len then Some (-1, s)
        else Some (of_nat len, s\<lparr>umem := store_bytes buf (map (cwd s) [0 ..< Suc len]) (umem s)\<rparr>)
      })"

definition sys_chdir :: "u64 \<Rightarrow> 'a kern_scheme \<Rightarrow> (u64 \<times> 'a kern_scheme) option" where
  "sys_chdir path s =
     (if path = 0 then Some (-1, s)
      else do {
        p \<leftarrow> user_str (umem s) path;
        (node, s1) \<leftarrow> vfs_resolve_path fs_tbl (of_bytes p) s;
        case node of None \<Rightarrow> Some (-1, s1)
        | Some n \<Rightarrow>
            if node_flags (nodes s1 n) AND VFS_DIRECTORY = 0 then Some (-1, s1)
            else do { s2 \<leftarrow> cpy_cwd p s1; Some (0, s2) }
      })"

definition sys_mkdir :: "u64 \<Rightarrow> 'a kern_scheme \<Rightarrow> (u64 \<times> 'a kern_scheme) option" where
  "sys_mkdir path s =
     (if path = 0 then Some (-1, s)
      else do {
        p \<leftarrow> user_str (umem s) path;
        (r, s1) \<leftarrow> vfs_mkdir fs_tbl (of_bytes p) s;
        Some (word_of_int r, s1)
      })"

definition sys_stat :: "u64 \<Rightarrow> u64 \<Rightarrow> 'a kern_scheme \<Rightarrow> (u64 \<times> 'a kern_scheme) option" where
  "sys_stat path statbuf s = Some (-1, s)"

definition sys_readdir :: "int \<Rightarrow> u64 \<Rightarrow> 'a kern_scheme \<Rightarrow> (u64 \<times> 'a kern_scheme) option" where
  "sys_readdir fd dirp s = Some (-1, s)"

text \<open>The conversion of an argument to \<open>int\<close>.\<close>

definition to_int :: "u64 \<Rightarrow> int" where
  "to_int a = sint (ucast a :: u32)"

definition syscall_handler :: "(input \<Rightarrow> input) \<Rightarrow> u64 \<Rightarrow> u64 \<Rightarrow> u64 \<Rightarrow> u64 \<Rightarrow> u64 \<Rightarrow> u64 \<Rightarrow>
    'a kern_scheme \<Rightarrow> (u64 \<times> 'a kern_scheme) option" where
  "syscall_handler poll num arg1 arg2 arg3 arg4 arg5 s =
     (if num = 0 then sys_exit (to_int arg1) s
      else if num = 1 then sys_write (to_int arg1) arg2 arg3 s
      else if num = 2 then sys_read poll (to_int arg1) arg2 arg3 s
      else if num = 3 then sys_open arg1 (to_int arg2) s
      else if num = 4 then sys_close (to_int arg1) s
      else if num = 5 then sys_exec arg1 arg2 s
      else if num = 6 then sys_fork s
      else if num = 7 then sys_getpid s
      else if num = 8 then sys_waitpid (to_int arg1) arg2 (to_int arg3) s
      else if num = 9 then sys_sbrk arg1 s
      else if num = 10 then sys_getcwd arg1 arg2 s
      else if num = 11 then sys_chdir arg1 s
      else if num = 12 then sys_mkdir arg1 s
      else if num = 13 then sys_stat arg1 arg2 s
      else if num = 14 then sys_readdir (to_int arg1) arg2 s
      else Some (-1, s))"

definition syscall_init :: "u64 \<Rightarrow> 'a kern_scheme \<Rightarrow> 'a kern_scheme" where
  "syscall_init syscall_entry s =
     (let s1 = wrmsr MSR_EFER (rdmsr MSR_EFER s OR 1) s;
          s2 = wrmsr MSR_STAR (push_bit 32 0x08 OR push_bit 48 0x1B) s1;
          s3 = wrmsr MSR_LSTAR syscall_entry s2
      in wrmsr MSR_SFMASK 0x200 s3)"

subsection \<open>Strings\<close>

lemma user_str_unfold:
  "user_str m p = Some bs \<longleftrightarrow>
     (if m p = 0 then bs = [] else \<exists>cs. bs = m p # cs \<and> user_str m (p + 1) = Some cs)"
  by (subst user_str.simps) (auto simp: bind_eq_Some_conv)

lemma user_str_sound: "user_str m p = Some bs \<Longrightarrow> 0 \<notin> set bs"
proof (induction bs arbitrary: p)
  case (Cons b bs)
  then show ?case by (auto simp: user_str_unfold [of m p] split: if_splits)
qed simp

lemma store_other:
  "(\<And>i. i < length bs \<Longrightarrow> q \<noteq> p + of_nat i) \<Longrightarrow> store_bytes p bs m q = m q"
proof (induction p bs m rule: store_bytes.induct)
  case (2 p b bs m)
  have "q \<noteq> p + 1 + of_nat i" if "i < length bs" for i
    using 2(2) [of "Suc i"] that by (simp add: algebra_simps)
  then have "store_bytes (p + 1) bs (m(p := b)) q = (m(p := b)) q" by (rule 2(1))
  moreover have "q \<noteq> p" using 2(2) [of 0] by simp
  ultimately show ?case by simp
qed simp

lemma offset_distinct:
  assumes "0 < k" and "k < 2 ^ 64"
  shows "(p :: u64) \<noteq> p + of_nat k"
proof
  assume "p = p + of_nat k"
  then have "of_nat k = (0 :: u64)" by simp
  then have "unat (of_nat k :: u64) = 0" by (simp only: unsigned_0)
  with assms show False by (simp add: unat_of_nat_small)
qed

lemma user_str_store:
  "0 \<notin> set bs \<Longrightarrow> length bs < 2 ^ 32 \<Longrightarrow> user_str (store_bytes p (bs @ [0]) m) p = Some bs"
proof (induction bs arbitrary: p m)
  case Nil
  then show ?case by (simp add: user_str_unfold)
next
  case (Cons b bs)
  have "p \<noteq> p + 1 + of_nat i" if "i < length (bs @ [0])" for i
    using offset_distinct [of "Suc i" p] that Cons.prems(2) by (simp add: add.assoc)
  then have "store_bytes (p + 1) (bs @ [0]) (m(p := b)) p = (m(p := b)) p" by (rule store_other)
  moreover have "user_str (store_bytes (p + 1) (bs @ [0]) (m(p := b))) (p + 1) = Some bs"
    using Cons by simp
  ultimately show ?case using Cons.prems(1) by (simp add: user_str_unfold [of _ p])
qed

lemma array_str_of:
  "0 \<notin> set bs \<Longrightarrow> length bs < n \<Longrightarrow> (\<And>j. j \<le> length bs \<Longrightarrow> f (i + j) = (bs @ [0]) ! j) \<Longrightarrow>
    array_str f i n = Some bs"
proof (induction bs arbitrary: i n)
  case Nil
  have "f i = 0" using Nil(3) [of 0] by simp
  with Nil(2) show ?case by (cases n) simp_all
next
  case (Cons b bs)
  then obtain m where n: "n = Suc m" by (cases n) auto
  have "array_str f (Suc i) m = Some bs"
  proof (rule Cons.IH)
    fix j assume "j \<le> length bs"
    then show "f (Suc i + j) = (bs @ [0]) ! j" using Cons.prems(3) [of "Suc j"] by simp
  qed (use Cons.prems n in auto)
  with n show ?case using Cons.prems(1) Cons.prems(3) [of 0] by simp
qed

subsection \<open>Properties\<close>

text \<open>
  C17 (functional, system calls). \<open>chdir\<close> accepts exactly the paths that lead to a directory: a path that
  leads nowhere or to something else is refused with \<open>-1\<close>, as is the null pointer. After a path of
  less than 256 characters is accepted, \<open>getcwd\<close> returns its length and leaves exactly the path in the
  caller's buffer, or answers \<open>-1\<close> and changes nothing when the buffer has no room for it and its
  NUL. A directory path of 256 characters or more is not refused but written past the array.
\<close>

theorem chdir_getcwd:
  assumes path: "user_str (umem s) p = Some bs" "p \<noteq> 0"
    and node: "vfs_resolve_path fs_tbl (of_bytes bs) s = Some (r, s1)"
  shows "syscall_handler poll 11 0 a2 a3 a4 a5 s = Some (-1, s) \<and>
    (if r = None \<or> node_flags (nodes s1 (the r)) AND VFS_DIRECTORY = 0
     then syscall_handler poll 11 p a2 a3 a4 a5 s = Some (-1, s1)
     else if 256 \<le> length bs then syscall_handler poll 11 p a2 a3 a4 a5 s = None
     else \<exists>s2. syscall_handler poll 11 p a2 a3 a4 a5 s = Some (0, s2) \<and>
       (\<forall>buf sz b3 b4 b5. buf \<noteq> 0 \<longrightarrow>
         (if length bs < unat sz
          then \<exists>s3. syscall_handler poll 10 buf sz b3 b4 b5 s2 = Some (of_nat (length bs), s3) \<and>
            user_str (umem s3) buf = Some bs
          else syscall_handler poll 10 buf sz b3 b4 b5 s2 = Some (-1, s2))))"
proof -
  have null: "syscall_handler poll 11 0 a2 a3 a4 a5 s = Some (-1, s)"
    by (simp add: syscall_handler_def sys_chdir_def)
  have bad: "syscall_handler poll 11 p a2 a3 a4 a5 s = Some (-1, s1)"
    if "r = None \<or> node_flags (nodes s1 (the r)) AND VFS_DIRECTORY = 0"
    using path node that by (cases r) (auto simp: syscall_handler_def sys_chdir_def)
  have long: "syscall_handler poll 11 p a2 a3 a4 a5 s = None"
    if "r \<noteq> None" "node_flags (nodes s1 (the r)) AND VFS_DIRECTORY \<noteq> 0" "256 \<le> length bs"
    using path node that by (auto simp: syscall_handler_def sys_chdir_def cpy_cwd_def CWD_SIZE_def)
  define s2 where "s2 = s1\<lparr>cwd := (\<lambda>i. if i \<le> length bs then (bs @ [0]) ! i else cwd s1 i)\<rparr>"
  have ok: "syscall_handler poll 11 p a2 a3 a4 a5 s = Some (0, s2)"
    if "r \<noteq> None" "node_flags (nodes s1 (the r)) AND VFS_DIRECTORY \<noteq> 0" "length bs < 256"
    using path node that by (auto simp: syscall_handler_def sys_chdir_def cpy_cwd_def CWD_SIZE_def s2_def)
  have nz: "0 \<notin> set bs" using path(1) by (rule user_str_sound)
  have cwd: "map (cwd s2) [0 ..< Suc (length bs)] = bs @ [0]"
    by (rule nth_equalityI) (auto simp: s2_def nth_append less_Suc_eq simp del: upt_Suc)
  have get: "if length bs < unat sz
      then \<exists>s3. syscall_handler poll 10 buf sz b3 b4 b5 s2 = Some (of_nat (length bs), s3) \<and>
        user_str (umem s3) buf = Some bs
      else syscall_handler poll 10 buf sz b3 b4 b5 s2 = Some (-1, s2)"
    if "length bs < 256" "buf \<noteq> 0" for buf sz b3 b4 b5
  proof -
    have "str_len (cwd s2) = Some (length bs)"
      using array_str_of [OF nz, of CWD_SIZE "cwd s2" 0] that(1)
      by (simp add: str_len_def s2_def CWD_SIZE_def)
    moreover have "length bs < unat sz \<Longrightarrow> sz \<noteq> 0" by auto
    ultimately show ?thesis
      using that cwd user_str_store [OF nz, of buf "umem s2"]
      by (auto simp: syscall_handler_def sys_getcwd_def not_less simp del: upt_Suc)
  qed
  show ?thesis using null bad long ok get by (auto simp: not_le)
qed

text \<open>
  \<open>chdir\<close> to a path of 256 characters or more that names a directory,
  which can be any directory with its slashes repeated, writes past the working directory's
  array.
\<close>

theorem chdir_overflows:
  assumes "user_str (umem s) p = Some bs" and "p \<noteq> 0" and "256 \<le> length bs"
    and "vfs_resolve_path fs_tbl (of_bytes bs) s = Some (Some n, s1)"
    and "node_flags (nodes s1 n) AND VFS_DIRECTORY \<noteq> 0"
  shows "syscall_handler poll 11 p a2 a3 a4 a5 s = None"
  using assms by (simp add: syscall_handler_def sys_chdir_def cpy_cwd_def CWD_SIZE_def)

text \<open>
  A call with a number that is not implemented, whether it has a stub
  (exec, fork, waitpid, sbrk, stat, readdir) or none, returns \<open>-1\<close> and changes nothing, whatever
  its arguments. Every implemented call that takes a pointer refuses the null pointer so.
\<close>

theorem bad_calls_refused:
  "(num \<in> {5, 6, 8, 9, 13, 14} \<or> 14 < num \<longrightarrow> syscall_handler poll num a1 a2 a3 a4 a5 s = Some (-1, s)) \<and>
   (num \<in> {1, 2} \<longrightarrow> syscall_handler poll num a1 0 a3 a4 a5 s = Some (-1, s)) \<and>
   (num \<in> {3, 10, 11, 12} \<longrightarrow> syscall_handler poll num 0 a2 a3 a4 a5 s = Some (-1, s))"
  by (auto simp: syscall_handler_def sys_exec_def sys_fork_def sys_waitpid_def sys_sbrk_def sys_stat_def
      sys_readdir_def sys_write_def sys_read_def sys_open_def sys_getcwd_def sys_chdir_def sys_mkdir_def)

subsection \<open>A caller on a root directory\<close>

definition demo_kern :: "u8 list \<Rightarrow> kern" where
  "demo_kern bs = (fat.extend demo_fat (kern.fields idle_keyboard (store_bytes 0x1000 (bs @ [0]) (\<lambda>_. 0))
     (\<lambda>_. 0) 1 [] False (\<lambda>_. 0)))\<lparr>g_vfs_root := Some (Heap 0), nodes := (\<lambda>_. root_node 0)\<rparr>"

lemma demo_kern_simps:
  "umem (demo_kern bs) = store_bytes 0x1000 (bs @ [0]) (\<lambda>_. 0)" "g_vfs_root (demo_kern bs) = Some (Heap 0)"
  "nodes (demo_kern bs) = (\<lambda>_. root_node 0)"
  by (simp_all add: demo_kern_def fat.defs kern.defs)

lemma resolve_slashes: "resolve_from tbl (replicate k CHR ''/'') (Some r) s = Some (Some r, s)"
proof (induction k)
  case (Suc k)
  have "next_component (CHR ''/'' # replicate k CHR ''/'') = ([], replicate k CHR ''/'')"
    by (simp add: next_component_def Let_def)
  with Suc show ?case by (subst resolve_from.simps) (simp add: Let_def)
qed (subst resolve_from.simps, simp)

lemma slash_char: "(char_of (47 :: nat)) = CHR ''/''"
  by code_simp

lemma resolve_root_slashes:
  "vfs_resolve_path fs_tbl (of_bytes (replicate (Suc k) 0x2F)) (demo_kern bs) = Some (Some (Heap 0), demo_kern bs)"
  using resolve_slashes [of fs_tbl k "Heap 0" "demo_kern bs"] slash_char
  by (simp add: vfs_resolve_path_def of_bytes_def demo_kern_simps)

lemma root_is_directory: "node_flags (root_node 0) AND VFS_DIRECTORY \<noteq> 0"
  by (simp add: root_node_def zero_node_def VFS_DIRECTORY_def)

theorem chdir_getcwd_witness:
  "\<exists>s2 s3. syscall_handler id 11 0x1000 0 0 0 0 (demo_kern [0x2F]) = Some (0, s2) \<and>
     syscall_handler id 10 0x2000 64 0 0 0 s2 = Some (1, s3) \<and> user_str (umem s3) 0x2000 = Some [0x2F]"
proof -
  let ?s = "demo_kern [0x2F]"
  have s: "user_str (umem ?s) 0x1000 = Some [0x2F]"
    unfolding demo_kern_simps by (rule user_str_store) simp_all
  have r: "vfs_resolve_path fs_tbl (of_bytes [0x2F]) ?s = Some (Some (Heap 0), ?s)"
    using resolve_root_slashes [of 0 "[0x2F]"] by simp
  have d: "node_flags (nodes ?s (Heap 0)) AND VFS_DIRECTORY \<noteq> 0"
    unfolding demo_kern_simps by (rule root_is_directory)
  have "\<exists>s2. syscall_handler id 11 0x1000 0 0 0 0 ?s = Some (0, s2) \<and>
      (\<forall>buf sz b3 b4 b5. buf \<noteq> 0 \<longrightarrow> (if length [0x2F :: u8] < unat sz
         then \<exists>s3. syscall_handler id 10 buf sz b3 b4 b5 s2 = Some (of_nat (length [0x2F :: u8]), s3) \<and>
           user_str (umem s3) buf = Some [0x2F]
         else syscall_handler id 10 buf sz b3 b4 b5 s2 = Some (-1, s2)))"
    using chdir_getcwd [OF s _ r, of id 0 0 0 0] d by simp
  then obtain s2 where s2: "syscall_handler id 11 0x1000 0 0 0 0 ?s = Some (0, s2)" and
      get: "\<forall>buf sz b3 b4 b5. buf \<noteq> 0 \<longrightarrow> (if length [0x2F :: u8] < unat sz
         then \<exists>s3. syscall_handler id 10 buf sz b3 b4 b5 s2 = Some (of_nat (length [0x2F :: u8]), s3) \<and>
           user_str (umem s3) buf = Some [0x2F]
         else syscall_handler id 10 buf sz b3 b4 b5 s2 = Some (-1, s2))" by blast
  from get [rule_format, of "0x2000" 64 0 0 0] s2 show ?thesis by simp
qed

theorem chdir_overflows_witness:
  "syscall_handler id 11 0x1000 0 0 0 0 (demo_kern (replicate 256 0x2F)) = None"
proof (rule chdir_overflows)
  let ?bs = "replicate 256 (0x2F :: u8)"
  show "user_str (umem (demo_kern ?bs)) 0x1000 = Some ?bs"
    unfolding demo_kern_simps by (rule user_str_store) simp_all
  have "?bs = replicate (Suc 255) 0x2F" by simp
  then show "vfs_resolve_path fs_tbl (of_bytes ?bs) (demo_kern ?bs) = Some (Some (Heap 0), demo_kern ?bs)"
    using resolve_root_slashes [of 255 ?bs] by (simp only:)
  show "node_flags (nodes (demo_kern ?bs) (Heap 0)) AND VFS_DIRECTORY \<noteq> 0"
    unfolding demo_kern_simps by (rule root_is_directory)
qed simp_all

theorem bad_calls_refused_witness:
  "syscall_handler id 6 1 2 3 4 5 (demo_kern []) = Some (-1, demo_kern [])"
  using bad_calls_refused [of 6 id 1 2 3 4 5 "demo_kern []"] by simp

end
