(* ===== verification/Elf.thy ===== *)
theory Elf
  imports Prelude
begin

text \<open>
  The loader of \<^verbatim>\<open>core/elf.c\<close>, which copies the program init into place and jumps to it. The
  image and the places its segments go to lie in one memory of bytes, so a segment may
  overwrite the headers that are still being read: every field is read from the memory at the
  moment the code reads it. A normal end is the jump, \<open>Inr\<close> the entry address; \<open>Inl\<close> is a
  return code.
\<close>

type_synonym memory = "u64 \<Rightarrow> u8"

definition m16 :: "memory \<Rightarrow> u64 \<Rightarrow> u16" where
  "m16 m a = ucast (m a) OR push_bit 8 (ucast (m (a + 1)))"

definition m32 :: "memory \<Rightarrow> u64 \<Rightarrow> u32" where
  "m32 m a = ucast (m16 m a) OR push_bit 16 (ucast (m16 m (a + 2)))"

definition m64 :: "memory \<Rightarrow> u64 \<Rightarrow> u64" where
  "m64 m a = ucast (m32 m a) OR push_bit 32 (ucast (m32 m (a + 4)))"

text \<open>Fields of \<open>struct elf64_hdr\<close> and \<open>struct elf64_phdr\<close> by their offsets.\<close>

definition e_entry :: "memory \<Rightarrow> u64 \<Rightarrow> u64" where "e_entry m eh = m64 m (eh + 24)"
definition e_phoff :: "memory \<Rightarrow> u64 \<Rightarrow> u64" where "e_phoff m eh = m64 m (eh + 32)"
definition e_phnum :: "memory \<Rightarrow> u64 \<Rightarrow> u16" where "e_phnum m eh = m16 m (eh + 56)"
definition p_type :: "memory \<Rightarrow> u64 \<Rightarrow> u32" where "p_type m ph = m32 m ph"
definition p_offset :: "memory \<Rightarrow> u64 \<Rightarrow> u64" where "p_offset m ph = m64 m (ph + 8)"
definition p_vaddr :: "memory \<Rightarrow> u64 \<Rightarrow> u64" where "p_vaddr m ph = m64 m (ph + 16)"
definition p_paddr :: "memory \<Rightarrow> u64 \<Rightarrow> u64" where "p_paddr m ph = m64 m (ph + 24)"
definition p_filesz :: "memory \<Rightarrow> u64 \<Rightarrow> u64" where "p_filesz m ph = m64 m (ph + 32)"
definition p_memsz :: "memory \<Rightarrow> u64 \<Rightarrow> u64" where "p_memsz m ph = m64 m (ph + 40)"

definition PT_LOAD :: u32 where "PT_LOAD = 1"
definition EHDR_SIZE :: u32 where "EHDR_SIZE = 64"
definition PHDR_SIZE :: u64 where "PHDR_SIZE = 56"

lemma count_up: "k < (n :: u64) \<Longrightarrow> 2 ^ 64 - unat (k + 1) < 2 ^ 64 - unat k"
proof -
  assume "k < n"
  then have "unat k < unat n" by (simp add: word_less_nat_alt)
  then have "unat (k + 1) = unat k + 1" "unat k < 2 ^ 64"
    using unat_less_64 [of n] by (simp_all add: unat_plus_if_size word_size)
  then show ?thesis by simp
qed

function copy_loop :: "u64 \<Rightarrow> u64 \<Rightarrow> u64 \<Rightarrow> u64 \<Rightarrow> memory \<Rightarrow> memory" where
  "copy_loop ph src dst k m =
     (if k < p_filesz m ph then copy_loop ph src dst (k + 1) (m(dst + k := m (src + k))) else m)"
  by pat_completeness auto

termination
  by (relation "measure (\<lambda>(ph, src, dst, k, m). 2 ^ 64 - unat k)") (simp_all add: count_up del: power_numeral)

function zero_loop :: "u64 \<Rightarrow> u64 \<Rightarrow> u64 \<Rightarrow> memory \<Rightarrow> memory" where
  "zero_loop ph dst k m =
     (if k < p_memsz m ph then zero_loop ph dst (k + 1) (m(dst + k := 0)) else m)"
  by pat_completeness auto

termination
  by (relation "measure (\<lambda>(ph, dst, k, m). 2 ^ 64 - unat k)") (simp_all add: count_up del: power_numeral)

declare copy_loop.simps [simp del] zero_loop.simps [simp del]

definition segment_dest :: "memory \<Rightarrow> u64 \<Rightarrow> u64" where
  "segment_dest m ph = (if p_paddr m ph \<noteq> 0 then p_paddr m ph else p_vaddr m ph)"

text \<open>One PT_LOAD header: copy the file's bytes, then fill up with zeros.\<close>

definition load_segment :: "u64 \<Rightarrow> u64 \<Rightarrow> memory \<Rightarrow> memory" where
  "load_segment data ph m =
     (let src = data + p_offset m ph; dst = segment_dest m ph;
          m1 = copy_loop ph src dst 0 m
      in zero_loop ph dst (p_filesz m1 ph) m1)"

lemma e_phnum_less: "unat (e_phnum m a) < 2 ^ 16"
  using unsigned_less [of "e_phnum m a", where 'a = nat] by simp

function load_from :: "u64 \<Rightarrow> u32 \<Rightarrow> u64 \<Rightarrow> nat \<Rightarrow> memory \<Rightarrow> (int + u64) \<times> memory" where
  "load_from data sz ph i m =
     (if i < unat (e_phnum m data) then
        (if p_type m ph = PT_LOAD then
           (if ucast sz < p_offset m ph + p_filesz m ph then (Inl (-3), m)
            else load_from data sz (ph + PHDR_SIZE) (Suc i) (load_segment data ph m))
         else load_from data sz (ph + PHDR_SIZE) (Suc i) m)
      else (Inr (e_entry m data), m))"
  by pat_completeness auto

termination
  by (relation "measure (\<lambda>(data, sz, ph, i, m). 2 ^ 16 - i)")
    (simp_all add: diff_less_mono2 less_trans [OF _ e_phnum_less] del: power_numeral)

declare load_from.simps [simp del]

definition elf64_load_and_run :: "u64 \<Rightarrow> u32 \<Rightarrow> memory \<Rightarrow> (int + u64) \<times> memory" where
  "elf64_load_and_run img sz m =
     (if img = 0 \<or> sz < EHDR_SIZE then (Inl (-1), m)
      else if m img \<noteq> 0x7F \<or> m (img + 1) \<noteq> 0x45 \<or> m (img + 2) \<noteq> 0x4C \<or> m (img + 3) \<noteq> 0x46
      then (Inl (-2), m)
      else load_from img sz (img + e_phoff m img) 0 m)"

subsection \<open>What a segment does to memory\<close>

text \<open>The addresses of a block of bytes, which may wrap around.\<close>

definition in_block :: "u64 \<Rightarrow> u64 \<Rightarrow> u64 \<Rightarrow> bool" where
  "in_block base n a \<longleftrightarrow> a - base < n"

text \<open>The memory after a segment has been placed: \<open>fs\<close> bytes from \<open>src\<close>, zeros up to \<open>ms\<close>.\<close>

definition placed :: "u64 \<Rightarrow> u64 \<Rightarrow> u64 \<Rightarrow> u64 \<Rightarrow> memory \<Rightarrow> memory" where
  "placed src dst fs ms m a =
     (if in_block dst fs a then m (src + (a - dst)) else if in_block dst ms a then 0 else m a)"

definition same_on :: "(u64 \<Rightarrow> bool) \<Rightarrow> memory \<Rightarrow> memory \<Rightarrow> bool" where
  "same_on P m m' \<longleftrightarrow> (\<forall>a. P a \<longrightarrow> m a = m' a)"

lemma same_on_fields:
  assumes "same_on P m m'" and "\<And>j. j < 8 \<Longrightarrow> P (a + of_nat j)"
  shows "m64 m a = m64 m' a"
proof -
  have "m (a + of_nat j) = m' (a + of_nat j)" if "j < 8" for j
    using assms that by (simp add: same_on_def)
  from this [of 0] this [of 1] this [of 2] this [of 3] this [of 4] this [of 5] this [of 6] this [of 7]
  show ?thesis by (simp add: m64_def m32_def m16_def add.assoc)
qed

lemma same_on_refl: "same_on P m m"
  by (simp add: same_on_def)

lemma field_kept:
  assumes "\<And>j. j < 8 \<Longrightarrow> \<not> in_block dst n (f + of_nat j)" and "\<And>a. \<not> in_block dst n a \<Longrightarrow> m' a = m a"
  shows "m64 m' f = m64 m f"
  by (rule same_on_fields [where P = "\<lambda>a. \<not> in_block dst n a"]) (use assms in \<open>auto simp: same_on_def\<close>)

lemma next_offset: "k < n \<Longrightarrow> (d :: u64) < k + 1 \<longleftrightarrow> d < k \<or> d = k"
proof -
  assume "k < n"
  then have "unat (k + 1) = unat k + 1"
    using unat_less_64 [of n] by (simp add: unat_plus_if_size word_size word_less_nat_alt)
  then show ?thesis by (auto simp: word_less_nat_alt word_unat_eq_iff)
qed

lemma copy_loop_block:
  assumes n: "n = p_filesz m ph"
    and field: "\<And>j. j < 8 \<Longrightarrow> \<not> in_block dst n (ph + 32 + of_nat j)"
    and src: "\<And>k. k < n \<Longrightarrow> \<not> in_block dst n (src + k)"
  shows "k \<le> n \<Longrightarrow> m' = (\<lambda>a. if in_block dst k a then m (src + (a - dst)) else m a) \<Longrightarrow>
    copy_loop ph src dst k m' = (\<lambda>a. if in_block dst n a then m (src + (a - dst)) else m a)"
proof (induction "unat n - unat k" arbitrary: k m')
  case 0
  then have "k = n" by (simp add: word_le_nat_alt word_unat_eq_iff)
  have "p_filesz m' ph = n"
    unfolding n p_filesz_def using field n 0(3) \<open>k = n\<close>
    by (intro field_kept [where dst = dst and n = n]) (auto simp: p_filesz_def)
  then show ?case using 0(3) \<open>k = n\<close> by (subst copy_loop.simps) simp
next
  case (Suc d)
  have "unat k < unat n" using Suc(2) by simp
  then have k: "k < n" by (simp add: word_less_nat_alt)
  then have k1: "unat (k + 1) = unat k + 1"
    using unat_less_64 [of n] by (simp add: unat_plus_if_size word_size word_less_nat_alt)
  have fs: "p_filesz m' ph = n"
    unfolding n p_filesz_def using field n Suc(4) k
    by (intro field_kept [where dst = dst and n = n]) (auto simp: p_filesz_def in_block_def)
  have read: "m' (src + k) = m (src + k)"
    using src [OF k] Suc(4) k by (auto simp: in_block_def)
  have "m'(dst + k := m' (src + k)) = (\<lambda>a. if in_block dst (k + 1) a then m (src + (a - dst)) else m a)"
    unfolding read unfolding Suc(4) by (rule ext) (auto simp: in_block_def next_offset [OF k])
  with Suc(1) [of "k + 1"] Suc(2) k k1 fs show ?case
    by (subst copy_loop.simps) (simp add: word_le_nat_alt word_less_nat_alt)
qed

lemma zero_loop_block:
  assumes n: "n = p_memsz m ph"
    and field: "\<And>j. j < 8 \<Longrightarrow> \<not> in_block dst n (ph + 40 + of_nat j)"
  shows "i \<le> k \<Longrightarrow> m' = (\<lambda>a. if i \<le> a - dst \<and> a - dst < k then 0 else m a) \<Longrightarrow> k \<le> n \<Longrightarrow>
    zero_loop ph dst k m' = (\<lambda>a. if i \<le> a - dst \<and> a - dst < n then 0 else m a)"
proof (induction "unat n - unat k" arbitrary: k m')
  case 0
  then have "k = n" by (simp add: word_le_nat_alt word_unat_eq_iff)
  have "p_memsz m' ph = n"
    unfolding n p_memsz_def using field n 0(3) \<open>k = n\<close>
    by (intro field_kept [where dst = dst and n = n]) (auto simp: p_memsz_def in_block_def)
  then show ?case using 0(3) \<open>k = n\<close> by (subst zero_loop.simps) simp
next
  case (Suc d)
  have "unat k < unat n" using Suc(2) by simp
  then have k: "k < n" by (simp add: word_less_nat_alt)
  then have k1: "unat (k + 1) = unat k + 1"
    using unat_less_64 [of n] by (simp add: unat_plus_if_size word_size word_less_nat_alt)
  have ms: "p_memsz m' ph = n"
    unfolding n p_memsz_def using field n Suc(4) k
    by (intro field_kept [where dst = dst and n = n]) (auto simp: p_memsz_def in_block_def)
  have "m'(dst + k := 0) = (\<lambda>a. if i \<le> a - dst \<and> a - dst < k + 1 then 0 else m a)"
    unfolding Suc(4) using Suc(3) by (intro ext) (auto simp: next_offset [OF k])
  with Suc(1) [of "k + 1"] Suc(2,3) k k1 ms show ?case
    by (subst zero_loop.simps) (simp add: word_le_nat_alt word_less_nat_alt)
qed

text \<open>A segment whose place keeps clear of its header and of its bytes in the file.\<close>

lemma load_segment_placed:
  fixes m ph data
  defines "fs \<equiv> p_filesz m ph" and "ms \<equiv> p_memsz m ph" and "dst \<equiv> segment_dest m ph"
    and "src \<equiv> data + p_offset m ph"
  assumes hdr: "\<And>j. j < 56 \<Longrightarrow> \<not> in_block dst fs (ph + of_nat j) \<and> \<not> in_block dst ms (ph + of_nat j)"
    and srcs: "\<And>k. k < fs \<Longrightarrow> \<not> in_block dst fs (src + k)"
  shows "load_segment data ph m = placed src dst fs ms m"
proof -
  define m1 where "m1 = (\<lambda>a. if in_block dst fs a then m (src + (a - dst)) else m a)"
  have f32: "\<not> in_block dst fs (ph + 32 + of_nat j)" "\<not> in_block dst fs (ph + 40 + of_nat j)"
    "\<not> in_block dst ms (ph + 40 + of_nat j)" if "j < 8" for j
    using hdr [of "32 + j"] hdr [of "40 + j"] that by (simp_all add: add.assoc)
  have c: "copy_loop ph src dst 0 m = m1"
    unfolding m1_def
    by (rule copy_loop_block) (use f32 srcs in \<open>auto simp: fs_def in_block_def\<close>)
  have fs1: "p_filesz m1 ph = fs" "p_memsz m1 ph = ms"
    unfolding fs_def ms_def p_filesz_def p_memsz_def
    by (rule field_kept [where dst = dst and n = fs], use f32 in \<open>auto simp: m1_def\<close>)+
  have z: "zero_loop ph dst fs m1 = (\<lambda>a. if fs \<le> a - dst \<and> a - dst < ms then 0 else m1 a)"
  proof (cases "fs \<le> ms")
    case True
    then show ?thesis
      by (intro zero_loop_block) (use f32 fs1 in \<open>auto simp: fun_eq_iff not_le\<close>)
  next
    case False
    then show ?thesis using fs1 by (subst zero_loop.simps) (auto simp: fun_eq_iff)
  qed
  show ?thesis
    unfolding load_segment_def Let_def src_def [symmetric] dst_def [symmetric] c fs1 z
    by (rule ext) (auto simp: placed_def m1_def in_block_def)
qed

subsection \<open>Loading a whole image\<close>

definition phdr :: "memory \<Rightarrow> u64 \<Rightarrow> nat \<Rightarrow> u64" where
  "phdr m img i = img + e_phoff m img + of_nat i * PHDR_SIZE"

text \<open>What header number \<open>i\<close> of the image in \<open>m\<close> asks for, done to the memory \<open>m'\<close>.\<close>

definition place_segment :: "memory \<Rightarrow> u64 \<Rightarrow> nat \<Rightarrow> memory \<Rightarrow> memory" where
  "place_segment m img i m' =
     (let ph = phdr m img i; dst = segment_dest m ph
      in if p_type m ph \<noteq> PT_LOAD then m'
         else (\<lambda>a. if in_block dst (p_filesz m ph) a then m (img + p_offset m ph + (a - dst))
                   else if in_block dst (p_memsz m ph) a then 0 else m' a))"

text \<open>Every segment lies inside the image and goes to a place outside it.\<close>

definition image_ok :: "memory \<Rightarrow> u64 \<Rightarrow> u32 \<Rightarrow> bool" where
  "image_ok m img sz \<longleftrightarrow>
     m img = 0x7F \<and> m (img + 1) = 0x45 \<and> m (img + 2) = 0x4C \<and> m (img + 3) = 0x46 \<and>
     img \<noteq> 0 \<and> EHDR_SIZE \<le> sz \<and>
     unat (e_phoff m img) + 56 * unat (e_phnum m img) \<le> unat sz \<and>
     (\<forall>i < unat (e_phnum m img). p_type m (phdr m img i) = PT_LOAD \<longrightarrow>
        unat (p_offset m (phdr m img i)) + unat (p_filesz m (phdr m img i)) \<le> unat sz \<and>
        (\<forall>a. in_block img (ucast sz) a \<longrightarrow>
           \<not> in_block (segment_dest m (phdr m img i)) (p_filesz m (phdr m img i)) a \<and>
           \<not> in_block (segment_dest m (phdr m img i)) (p_memsz m (phdr m img i)) a))"

lemma unat_sz: "unat (ucast (sz :: u32) :: u64) = unat sz"
proof -
  have "take_bit 64 (unat sz) = unat sz"
    using unsigned_less [of sz, where 'a = nat] by (intro take_bit_nat_eq_self) simp
  then show ?thesis by (simp add: unsigned_ucast_eq)
qed

lemma image_ok_table: "image_ok m img sz \<Longrightarrow> unat (e_phoff m img) + 56 * unat (e_phnum m img) \<le> unat sz"
  by (simp add: image_ok_def)

lemma in_image: "k < unat sz \<Longrightarrow> in_block img (ucast (sz :: u32)) (img + of_nat k)"
  using unsigned_less [of sz, where 'a = nat]
  by (simp add: in_block_def word_less_nat_alt unat_sz unat_of_nat_small)

lemma header_in_image:
  assumes "image_ok m img sz" and "i < unat (e_phnum m img)" and "j < 56"
  shows "in_block img (ucast sz) (phdr m img i + of_nat j)"
proof -
  have "56 * Suc i \<le> 56 * unat (e_phnum m img)" using assms(2) by (intro mult_le_mono2) simp
  then have "unat (e_phoff m img) + 56 * i + j < unat sz" using image_ok_table [OF assms(1)] assms(3) by simp
  from in_image [OF this, of img] show ?thesis
    by (simp add: phdr_def PHDR_SIZE_def algebra_simps)
qed

lemma header_fields:
  assumes "image_ok m img sz" and "same_on (in_block img (ucast sz)) m m'" and "i < unat (e_phnum m img)"
  shows "p_type m' (phdr m img i) = p_type m (phdr m img i)" "p_offset m' (phdr m img i) = p_offset m (phdr m img i)"
    "p_filesz m' (phdr m img i) = p_filesz m (phdr m img i)" "p_memsz m' (phdr m img i) = p_memsz m (phdr m img i)"
    "segment_dest m' (phdr m img i) = segment_dest m (phdr m img i)"
proof -
  have byte: "m' (phdr m img i + of_nat j) = m (phdr m img i + of_nat j)" if "j < 56" for j
    using assms(2) header_in_image [OF assms(1,3) that] by (simp add: same_on_def)
  have f: "m64 m' (phdr m img i + of_nat k) = m64 m (phdr m img i + of_nat k)" if "k + 8 \<le> 56" for k
    by (rule same_on_fields [where P = "in_block img (ucast sz)"])
      (use assms(2) header_in_image [OF assms(1,3), of "k + _"] that in \<open>auto simp: same_on_def add.assoc\<close>)
  show "p_type m' (phdr m img i) = p_type m (phdr m img i)"
    using byte [of 0] byte [of 1] byte [of 2] byte [of 3]
    by (simp add: p_type_def m32_def m16_def add.assoc)
  show "p_offset m' (phdr m img i) = p_offset m (phdr m img i)"
    "p_filesz m' (phdr m img i) = p_filesz m (phdr m img i)" "p_memsz m' (phdr m img i) = p_memsz m (phdr m img i)"
    "segment_dest m' (phdr m img i) = segment_dest m (phdr m img i)"
    using f [of 8] f [of 16] f [of 24] f [of 32] f [of 40]
    by (simp_all add: p_offset_def p_filesz_def p_memsz_def p_paddr_def p_vaddr_def segment_dest_def)
qed

lemma elf_header_fields:
  assumes "image_ok m img sz" and "same_on (in_block img (ucast sz)) m m'"
  shows "e_phnum m' img = e_phnum m img" "e_entry m' img = e_entry m img"
proof -
  have "64 \<le> unat sz" using assms(1) by (simp add: image_ok_def EHDR_SIZE_def word_le_nat_alt)
  then have byte: "m' (img + of_nat j) = m (img + of_nat j)" if "j < 64" for j
    using assms(2) in_image [of j sz img] that by (simp add: same_on_def)
  show "e_phnum m' img = e_phnum m img"
    using byte [of 56] byte [of 57] by (simp add: e_phnum_def m16_def add.assoc)
  show "e_entry m' img = e_entry m img"
    using byte [of 24] byte [of 25] byte [of 26] byte [of 27] byte [of 28] byte [of 29] byte [of 30] byte [of 31]
    by (simp add: e_entry_def m64_def m32_def m16_def add.assoc)
qed

lemma place_outside:
  assumes "image_ok m img sz" and "i < unat (e_phnum m img)" and "in_block img (ucast sz) a"
  shows "place_segment m img i m' a = m' a"
  using assms by (auto simp: place_segment_def image_ok_def Let_def)

lemma load_segment_step:
  assumes ok: "image_ok m img sz" and same: "same_on (in_block img (ucast sz)) m m'"
    and i: "i < unat (e_phnum m img)" and load: "p_type m (phdr m img i) = PT_LOAD"
  shows "load_segment img (phdr m img i) m' = place_segment m img i m'"
    and "\<not> ucast sz < p_offset m (phdr m img i) + p_filesz m (phdr m img i)"
proof -
  let ?ph = "phdr m img i"
  note f = header_fields [OF ok same i]
  have b: "unat (p_offset m ?ph) + unat (p_filesz m ?ph) \<le> unat sz"
    and clear: "\<And>a. in_block img (ucast sz) a \<Longrightarrow> \<not> in_block (segment_dest m ?ph) (p_filesz m ?ph) a \<and>
      \<not> in_block (segment_dest m ?ph) (p_memsz m ?ph) a"
    using ok i load by (auto simp: image_ok_def)
  have src: "in_block img (ucast sz) (img + p_offset m ?ph + k)" if "k < p_filesz m ?ph" for k
  proof -
    have "unat (p_offset m ?ph) + unat k < unat sz" using b that by (simp add: word_less_nat_alt)
    from in_image [OF this, of img] show ?thesis by (simp add: add.assoc)
  qed
  have "load_segment img ?ph m' = placed (img + p_offset m ?ph) (segment_dest m ?ph) (p_filesz m ?ph) (p_memsz m ?ph) m'"
    using load_segment_placed [of m' ?ph img] header_in_image [OF ok i] clear src by (simp add: f)
  also have "\<dots> = place_segment m img i m'"
  proof
    fix a
    have "m' (img + p_offset m ?ph + (a - segment_dest m ?ph)) = m (img + p_offset m ?ph + (a - segment_dest m ?ph))"
      if "in_block (segment_dest m ?ph) (p_filesz m ?ph) a"
      using same src that by (simp add: same_on_def in_block_def)
    then show "placed (img + p_offset m ?ph) (segment_dest m ?ph) (p_filesz m ?ph) (p_memsz m ?ph) m' a =
        place_segment m img i m' a"
      using load by (simp add: placed_def place_segment_def Let_def)
  qed
  finally show "load_segment img ?ph m' = place_segment m img i m'" .
  have "unat (p_offset m ?ph + p_filesz m ?ph) = unat (p_offset m ?ph) + unat (p_filesz m ?ph)"
    using b unsigned_less [of sz, where 'a = nat] by (simp add: unat_plus_if_size word_size)
  then show "\<not> ucast sz < p_offset m ?ph + p_filesz m ?ph"
    using b by (simp add: word_less_nat_alt unat_sz)
qed

lemma load_from_ok:
  assumes ok: "image_ok m img sz"
  shows "same_on (in_block img (ucast sz)) m m' \<Longrightarrow> i \<le> unat (e_phnum m img) \<Longrightarrow>
    load_from img sz (phdr m img i) i m' =
      (Inr (e_entry m img), fold (place_segment m img) [i ..< unat (e_phnum m img)] m')"
proof (induction "unat (e_phnum m img) - i" arbitrary: i m')
  case 0
  then show ?case by (subst load_from.simps) (simp add: elf_header_fields [OF ok 0(2)])
next
  case (Suc d)
  have i: "i < unat (e_phnum m img)" using Suc(2) by simp
  note f = header_fields [OF ok Suc(3) i]
  have nx: "phdr m img i + PHDR_SIZE = phdr m img (Suc i)" by (simp add: phdr_def algebra_simps)
  have upt: "[i ..< unat (e_phnum m img)] = i # [Suc i ..< unat (e_phnum m img)]" using i by (rule upt_conv_Cons)
  have "same_on (in_block img (ucast sz)) m (place_segment m img i m')"
    using Suc(3) place_outside [OF ok i] by (simp add: same_on_def)
  then have step: "load_from img sz (phdr m img (Suc i)) (Suc i) (place_segment m img i m') =
      (Inr (e_entry m img), fold (place_segment m img) [Suc i ..< unat (e_phnum m img)] (place_segment m img i m'))"
    using Suc(1) [of "Suc i"] Suc(2) i by simp
  show ?case
  proof (cases "p_type m (phdr m img i) = PT_LOAD")
    case True
    note l = load_segment_step [OF ok Suc(3) i True]
    show ?thesis using step True l i
      by (subst load_from.simps) (simp add: elf_header_fields [OF ok Suc(3)] f nx upt)
  next
    case False
    then have "place_segment m img i m' = m'" by (simp add: place_segment_def)
    then show ?thesis using step False i
      by (subst load_from.simps) (simp add: elf_header_fields [OF ok Suc(3)] f nx upt)
  qed
qed

subsection \<open>Properties\<close>

text \<open>
  C16 (functional, ELF loader). For an image whose program headers and segments lie inside it and
  whose segments go to places outside it, the loader jumps to the entry point, and memory then is
  what placing the segments in order gives: the file's bytes, then zeros up to the size in memory,
  nothing else changed; whatever the order and overlap of the segments among themselves.
\<close>

theorem elf_loads_segments:
  assumes "image_ok m img sz"
  shows "elf64_load_and_run img sz m =
    (Inr (e_entry m img), fold (place_segment m img) [0 ..< unat (e_phnum m img)] m)"
proof -
  have "phdr m img 0 = img + e_phoff m img" by (simp add: phdr_def)
  then show ?thesis
    using load_from_ok [OF assms same_on_refl, of 0] assms
    by (simp add: elf64_load_and_run_def image_ok_def not_less)
qed

text \<open>
  The test of a segment against the size of the image is made with a sum
  that wraps: a segment whose file part starts before the end of the address space and ends, past
  it, at most at the size is loaded, from bytes outside the image.
\<close>

theorem elf_accepts_wrapped_segment:
  assumes "unat (e_phnum m img) = 1" and "p_type m (phdr m img 0) = PT_LOAD"
    and "2 ^ 64 \<le> unat (p_offset m (phdr m img 0)) + unat (p_filesz m (phdr m img 0))"
    and "unat (p_offset m (phdr m img 0)) + unat (p_filesz m (phdr m img 0)) \<le> 2 ^ 64 + unat sz"
  shows "load_from img sz (img + e_phoff m img) 0 m =
    load_from img sz (phdr m img 1) 1 (load_segment img (phdr m img 0) m) \<and>
    (\<exists>k < p_filesz m (phdr m img 0). \<not> in_block img (ucast sz) (img + p_offset m (phdr m img 0) + k))"
proof
  let ?off = "p_offset m (phdr m img 0)" and ?fs = "p_filesz m (phdr m img 0)"
  have ph: "img + e_phoff m img = phdr m img 0" "phdr m img 0 + PHDR_SIZE = phdr m img 1"
    by (simp_all add: phdr_def)
  have "unat (?off + ?fs) = unat ?off + unat ?fs - 2 ^ 64"
    using assms(3) by (simp add: unat_plus_if_size word_size)
  then have "\<not> ucast sz < ?off + ?fs" using assms(4) by (simp add: word_less_nat_alt unat_sz)
  then show "load_from img sz (img + e_phoff m img) 0 m =
      load_from img sz (phdr m img 1) 1 (load_segment img (phdr m img 0) m)"
    using assms(1,2) ph by (subst load_from.simps) simp
  have "unat (- 1 - ?off) = 2 ^ 64 - 1 - unat ?off"
    unfolding unat_sub [OF word_n1_ge] by (simp add: unsigned_minus_1_eq_mask mask_eq_exp_minus_1)
  then have "- 1 - ?off < ?fs"
    using assms(3) unat_less_64 [of ?off] by (simp add: word_less_nat_alt)
  moreover have "\<not> in_block img (ucast sz) (img + ?off + (- 1 - ?off))"
    by (simp add: in_block_def word_less_nat_alt unat_sz unsigned_minus_1_eq_mask mask_eq_exp_minus_1)
      (use unsigned_less [of sz, where 'a = nat] in simp)
  ultimately show "\<exists>k < ?fs. \<not> in_block img (ucast sz) (img + ?off + k)" by blast
qed

text \<open>An image of 120 bytes at 0x1000 with one segment: its first 4 bytes go to 0x200000, 8 in all.\<close>

definition demo_image :: "u64 \<Rightarrow> memory" where
  "demo_image off a =
     (if a = 0x1000 then 0x7F else if a = 0x1001 then 0x45 else if a = 0x1002 then 0x4C else if a = 0x1003 then 0x46
      else if a = 0x101A then 0x20 else if a = 0x1020 then 64 else if a = 0x1038 then 1
      else if a = 0x1040 then 1 else if 0x1048 \<le> a \<and> a < 0x1050 then ucast (drop_bit (8 * unat (a - 0x1048)) off)
      else if a = 0x105A then 0x20 else if a = 0x1060 then 4 else if a = 0x1068 then 8 else 0)"

lemmas image_fields = m64_def m32_def m16_def e_entry_def e_phoff_def e_phnum_def p_type_def p_offset_def
  p_vaddr_def p_paddr_def p_filesz_def p_memsz_def segment_dest_def phdr_def PHDR_SIZE_def PT_LOAD_def

lemma demo_image_fields:
  "e_phnum (demo_image off) 0x1000 = 1" "e_phoff (demo_image off) 0x1000 = 64" 
  "e_entry (demo_image off) 0x1000 = 0x200000"
  "p_type (demo_image off) 0x1040 = 1" "p_filesz (demo_image off) 0x1040 = 4"
  "p_memsz (demo_image off) 0x1040 = 8" "segment_dest (demo_image off) 0x1040 = 0x200000"
  by (simp_all add: image_fields demo_image_def)

lemma demo_image_offset: "p_offset (demo_image 0) 0x1040 = 0" "p_offset (demo_image (- 2)) 0x1040 = - 2"
  by (simp_all add: image_fields demo_image_def)

lemma demo_clear: "in_block 0x1000 120 a \<Longrightarrow> n \<le> 8 \<Longrightarrow> \<not> in_block 0x200000 n a"
proof -
  assume "in_block 0x1000 120 a" "n \<le> 8"
  moreover define d where "d = a - 0x1000"
  ultimately have d: "unat d < 120" "unat n \<le> 8" by (simp_all add: in_block_def word_less_nat_alt word_le_nat_alt)
  have "a - 0x200000 = d - 0x1FF000" by (simp add: d_def)
  then have "unat (a - 0x200000) = unat d + 2 ^ 64 - 0x1FF000"
    using d by (simp add: unat_sub_if_size word_size)
  then show ?thesis using d by (simp add: in_block_def word_less_nat_alt)
qed

lemma demo_phdr: "phdr (demo_image off) 0x1000 0 = 0x1040"
  by (simp add: phdr_def demo_image_fields)

lemma demo_image_ok: "image_ok (demo_image 0) 0x1000 120"
  using demo_clear [of _ 4] demo_clear [of _ 8]
  by (simp add: image_ok_def demo_image_fields demo_image_offset demo_phdr EHDR_SIZE_def)
    (simp add: demo_image_def)

theorem elf_loads_segments_witness:
  "let (r, m) = elf64_load_and_run 0x1000 120 (demo_image 0) in
   r = Inr 0x200000 \<and> m 0x200001 = 0x45 \<and> m 0x200005 = 0"
  using elf_loads_segments [OF demo_image_ok]
  by (simp add: demo_image_fields place_segment_def demo_phdr demo_image_offset PT_LOAD_def in_block_def)
    (simp add: demo_image_def)

theorem elf_accepts_wrapped_segment_witness:
  "\<exists>k < 4. \<not> in_block 0x1000 120 (0x1000 + (- 2) + k)"
  using elf_accepts_wrapped_segment [of "demo_image (- 2)" "0x1000" 120]
  by (simp add: demo_image_fields demo_phdr demo_image_offset PT_LOAD_def unsigned_minus_1_eq_mask)

end
