(* ===== verification/Fmt.thy ===== *)
theory Fmt
  imports Prelude
begin

text \<open>
  Text of the kernel: the number conversions and \<open>kprintf\<close> of \<^verbatim>\<open>core/main.c\<close>, \<open>sprintf\<close> of
  \<^verbatim>\<open>lib/stdio.c\<close>, and the scanner of the kernel command line. A C string is the list of its
  characters before the NUL; an array that is rearranged in place is a list updated by index.
  The variable arguments are a list of \<open>va\<close> values: taking one of another type than the
  conversion wants, or running past the end of the format, is undefined in C and \<open>None\<close> here.
\<close>

subsection \<open>Numbers\<close>

definition digit_char :: "u64 \<Rightarrow> char" where
  "digit_char d = (if 9 < d then char_of (unat (d - 10) + 65) else char_of (unat d + 48))"

text \<open>The loop of \<open>reverse\<close>, from both ends of the array.\<close>

fun reverse_loop :: "string \<Rightarrow> nat \<Rightarrow> nat \<Rightarrow> string" where
  "reverse_loop s i j =
     (if i < j then reverse_loop (s[i := s ! j, j := s ! i]) (Suc i) (j - 1) else s)"

declare reverse_loop.simps [simp del]

definition reverse :: "string \<Rightarrow> string" where
  "reverse s = reverse_loop s 0 (length s - 1)"

text \<open>The digits of a number from the last one on; a base below 2 never ends in C.\<close>

function rev_digits :: "u64 \<Rightarrow> u64 \<Rightarrow> string" where
  "rev_digits base n =
     (if base < 2 then []
      else digit_char (n mod base) # (if 0 < n div base then rev_digits base (n div base) else []))"
  by pat_completeness auto

termination
proof (relation "measure (\<lambda>(base, n). unat n)", goal_cases)
  case (2 base n)
  then have "1 < unat base" "0 < unat n" 
    by (auto simp: word_less_nat_alt unat_div_distrib intro!: Suc_lessI gr0I)
  then show ?case by (simp add: unat_div_distrib)
qed simp

declare rev_digits.simps [simp del]

definition utoa :: "u64 \<Rightarrow> u64 \<Rightarrow> string" where
  "utoa n base = reverse (if n = 0 then ''0'' else rev_digits base n)"

definition itoa :: "u64 \<Rightarrow> u64 \<Rightarrow> string" where
  "itoa n base =
     (let neg = (base = 10 \<and> sint n < 0);
          un = (if neg then - n else n)
      in reverse ((if un = 0 then ''0'' else rev_digits base un) @ (if neg then ''-'' else [])))"

text \<open>The conversion of \<open>sprintf\<close>; \<open>tmp\<close> is written out from its end.\<close>

definition int_to_str :: "u64 \<Rightarrow> bool \<Rightarrow> string" where
  "int_to_str num is_signed =
     (let neg = (is_signed \<and> sint num < 0);
          unum = (if neg then - num else num);
          tmp = (if unum = 0 then ''0'' else rev_digits 10 unum)
      in (if neg then ''-'' else []) @ rev tmp)"

subsection \<open>Formatted output\<close>

datatype va = Va_int u32 | Va_long u64 | Va_str string

fun va_num :: "bool \<Rightarrow> bool \<Rightarrow> va list \<Rightarrow> (u64 \<times> va list) option" where
  "va_num True is_signed (Va_long w # args) = Some (w, args)"
| "va_num False is_signed (Va_int w # args) = Some (if is_signed then scast w else ucast w, args)"
| "va_num _ _ _ = None"

fun va_str :: "va list \<Rightarrow> (string \<times> va list) option" where
  "va_str (Va_str s # args) = Some (s, args)"
| "va_str _ = None"

text \<open>One conversion of \<open>kprintf\<close>: what it prints and the arguments left.\<close>

definition kconv :: "bool \<Rightarrow> char \<Rightarrow> va list \<Rightarrow> (string \<times> va list) option" where
  "kconv is_long c args =
     (if c = CHR ''s'' then va_str args
      else if c = CHR ''d'' then map_option (apfst (\<lambda>n. itoa n 10)) (va_num is_long True args)
      else if c = CHR ''u'' then map_option (apfst (\<lambda>n. utoa n 10)) (va_num is_long False args)
      else if c = CHR ''x'' then map_option (apfst (\<lambda>n. ''0x'' @ utoa n 16)) (va_num is_long False args)
      else if c = CHR ''%'' then Some (''%'', args)
      else Some ([], args))"

text \<open>One conversion of \<open>sprintf\<close>.\<close>

definition sconv :: "bool \<Rightarrow> char \<Rightarrow> va list \<Rightarrow> (string \<times> va list) option" where
  "sconv is_long c args =
     (if c = CHR ''d'' \<or> c = CHR ''i'' then map_option (apfst (\<lambda>n. int_to_str n True)) (va_num is_long True args)
      else if c = CHR ''u'' then map_option (apfst (\<lambda>n. int_to_str n False)) (va_num is_long False args)
      else if c = CHR ''s'' then va_str args
      else if c = CHR ''%'' then Some (''%'', args)
      else Some ([CHR ''%'', c], args))"

text \<open>The scan both functions make of the format.\<close>

fun format_with :: "(bool \<Rightarrow> char \<Rightarrow> va list \<Rightarrow> (string \<times> va list) option) \<Rightarrow> string \<Rightarrow> va list \<Rightarrow>
    string option" where
  "format_with conv [] args = Some []"
| "format_with conv (c # fs) args =
     (if c \<noteq> CHR ''%'' then map_option (Cons c) (format_with conv fs args)
      else case fs of [] \<Rightarrow> None
        | d # gs \<Rightarrow>
            if d = CHR ''l''
            then (case gs of [] \<Rightarrow> None
              | e # hs \<Rightarrow> (case conv True e args of None \<Rightarrow> None
                  | Some (out, rest) \<Rightarrow> map_option ((@) out) (format_with conv hs rest)))
            else (case conv False d args of None \<Rightarrow> None
              | Some (out, rest) \<Rightarrow> map_option ((@) out) (format_with conv gs rest)))"

definition kprintf :: "string \<Rightarrow> va list \<Rightarrow> string option" where
  "kprintf format args = format_with kconv format args"

text \<open>The buffer and the number of characters written to it.\<close>

definition sprintf :: "string \<Rightarrow> va list \<Rightarrow> (string \<times> nat) option" where
  "sprintf fmt args = map_option (\<lambda>s. (s, length s)) (format_with sconv fmt args)"

subsection \<open>The command line\<close>

fun str_eq :: "string \<Rightarrow> string \<Rightarrow> bool" where
  "str_eq (a # as) (b # bs) = (if a \<noteq> b then False else str_eq as bs)"
| "str_eq as bs = (as = [] \<and> bs = [])"

text \<open>How far \<open>sub\<close> agrees with \<open>s\<close>: whether all of it does.\<close>

fun starts_with :: "string \<Rightarrow> string \<Rightarrow> bool" where
  "starts_with s [] = True"
| "starts_with (a # s) (b # sub) = (a = b \<and> starts_with s sub)"
| "starts_with [] (b # sub) = False"

fun contains_substr :: "string \<Rightarrow> string \<Rightarrow> bool" where
  "contains_substr [] sub = False"
| "contains_substr (a # s) sub = (starts_with (a # s) sub \<or> contains_substr s sub)"

text \<open>Past the first word of a line less of it is left.\<close>

lemma next_word_shorter:
  assumes "p = dropWhile (\<lambda>c. c = CHR '' '') line" and "p \<noteq> []"
  shows "length (dropWhile (\<lambda>c. c \<noteq> CHR '' '') p) < length line"
proof -
  obtain c q where p: "p = c # q" using assms(2) by (cases p) auto
  have "p \<noteq> [] \<Longrightarrow> hd p \<noteq> CHR '' ''" unfolding assms(1) by (rule hd_dropWhile)
  with p have "c \<noteq> CHR '' ''" by simp
  then have "length (dropWhile (\<lambda>c. c \<noteq> CHR '' '') p) \<le> length q"
    by (simp add: p length_dropWhile_le)
  moreover have "length p \<le> length line" using assms(1) by (simp add: length_dropWhile_le)
  ultimately show ?thesis by (simp add: p)
qed

text \<open>The value is cut to fit the buffer of \<open>buf_len\<close> characters with its NUL.\<close>

function get_cmdline_arg :: "string \<Rightarrow> string \<Rightarrow> nat \<Rightarrow> string option" where
  "get_cmdline_arg cmdline key buf_len =
     (let p = dropWhile (\<lambda>c. c = CHR '' '') cmdline
      in if p = [] then None
         else if starts_with p key \<and> length key < length p \<and> p ! length key = CHR ''=''
         then Some (take (buf_len - 1) (takeWhile (\<lambda>c. c \<noteq> CHR '' '') (drop (Suc (length key)) p)))
         else get_cmdline_arg (dropWhile (\<lambda>c. c \<noteq> CHR '' '') p) key buf_len)"
  by pat_completeness auto

termination
  by (relation "measure (\<lambda>(p, key, n). length p)") (use next_word_shorter in auto)

declare get_cmdline_arg.simps [simp del]

subsection \<open>Lemmas on numbers\<close>

lemma length_reverse_loop [simp]: "length (reverse_loop s i j) = length s"
  by (induction s i j rule: reverse_loop.induct) (subst reverse_loop.simps, auto)

lemma reverse_loop_nth:
  "j < length s \<Longrightarrow> k < length s \<Longrightarrow>
    reverse_loop s i j ! k = (if i \<le> k \<and> k \<le> j then s ! (i + j - k) else s ! k)"
proof (induction s i j arbitrary: k rule: reverse_loop.induct)
  case (1 s i j)
  show ?case
  proof (cases "i < j")
    case True
    with 1 show ?thesis
      by (subst reverse_loop.simps) (auto simp: nth_list_update)
  next
    case False
    then have "s ! k = s ! (i + j - k)" if "i \<le> k" "k \<le> j" using that by (metis add_diff_cancel_right' le_antisym le_trans linorder_not_less)
    with False show ?thesis by (subst reverse_loop.simps) auto
  qed
qed

lemma reverse_rev [simp]: "reverse s = rev s"
proof (cases "s = []")
  case False
  show ?thesis unfolding reverse_def
    by (rule nth_equalityI) (use False in \<open>auto simp: reverse_loop_nth rev_nth\<close>)
qed (simp add: reverse_def reverse_loop.simps)


text \<open>Reading a number back, most significant digit first.\<close>

definition digit_val :: "char \<Rightarrow> nat" where
  "digit_val c = (if 65 \<le> (of_char c :: nat) then of_char c - 55 else of_char c - 48)"

definition parse_num :: "nat \<Rightarrow> string \<Rightarrow> nat" where
  "parse_num base s = foldl (\<lambda>v c. v * base + digit_val c) 0 s"

definition parse_int :: "string \<Rightarrow> int" where
  "parse_int s =
     (if s \<noteq> [] \<and> hd s = CHR ''-'' then - int (parse_num 10 (tl s)) else int (parse_num 10 s))"

lemma parse_num_snoc [simp]: "parse_num base (s @ [c]) = parse_num base s * base + digit_val c"
  by (simp add: parse_num_def)

lemma digit_val_char: "unat d < 36 \<Longrightarrow> digit_val (digit_char d) = unat d"
proof -
  assume d: "unat d < 36"
  show ?thesis
  proof (cases "9 < d")
    case True
    then have "unat (d - 10) = unat d - 10" "9 < unat d"
      by (simp_all add: word_less_nat_alt unat_sub word_le_nat_alt)
    then have "of_char (char_of (unat (d - 10) + 65) :: char) = unat d + 55"
      using d by (simp add: of_char_of)
    with True d \<open>9 < unat d\<close> show ?thesis by (simp add: digit_char_def digit_val_def)
  next
    case False
    then have "unat d \<le> 9" by (simp add: word_less_nat_alt)
    with False show ?thesis by (simp add: digit_char_def digit_val_def)
  qed
qed

lemma rev_digits_unfold:
  "2 \<le> base \<Longrightarrow> rev_digits base n =
     digit_char (n mod base) # (if 0 < n div base then rev_digits base (n div base) else [])"
  by (subst rev_digits.simps) (simp add: not_less)

lemma parse_rev_digits:
  assumes "2 \<le> base" and "base \<le> 36"
  shows "parse_num (unat base) (rev (rev_digits base n)) = unat n"
  using assms
proof (induction base n rule: rev_digits.induct)
  case (1 base n)
  have "unat (n mod base) < unat base"
    using 1(2) by (simp add: unat_mod_distrib word_le_nat_alt)
  then have d: "digit_val (digit_char (n mod base)) = unat (n mod base)"
    using 1(3) by (intro digit_val_char) (simp add: word_le_nat_alt)
  show ?case
  proof (cases "0 < n div base")
    case True
    then have "parse_num (unat base) (rev (rev_digits base (n div base))) = unat (n div base)"
      using 1 by (simp add: not_less)
    with True show ?thesis unfolding rev_digits_unfold [OF 1(2), of n]
      by (simp add: d) (simp add: unat_div_distrib unat_mod_distrib)
  next
    case False
    then have "unat n div unat base = 0"
      by (metis word_gt_0 unsigned_0 unat_div_distrib)
    then have "unat (n mod base) = unat n"
      by (metis add_0 div_mult_mod_eq mult_0 unat_mod_distrib)
    with False show ?thesis using 1(2) d
      by (simp add: rev_digits_unfold parse_num_def)
  qed
qed

lemma length_rev_digits:
  assumes "2 \<le> base" and "unat n < unat base ^ Suc k"
  shows "length (rev_digits base n) \<le> Suc k"
  using assms(2)
proof (induction k arbitrary: n)
  case 0
  then have "unat (n div base) = 0" by (simp add: unat_div_distrib)
  then have "\<not> 0 < n div base" by (simp only: unat_0_iff word_gt_0)
  then show ?case using assms(1) by (simp add: rev_digits_unfold)
next
  case (Suc k)
  then have "unat (n div base) < unat base ^ Suc k"
    by (simp add: unat_div_distrib less_mult_imp_div_less mult.commute)
  from Suc.IH [OF this] show ?case using assms(1) by (simp add: rev_digits_unfold [of _ n])
qed

lemma digits_no_minus: "digit_char d \<noteq> CHR ''-''" if "unat d < 36"
proof -
  have "(of_char (digit_char d) :: nat) = unat d + 48 \<or> (of_char (digit_char d) :: nat) = unat (d - 10) + 65"
  proof (cases "9 < d")
    case True
    then have "unat (d - 10) = unat d - 10" by (simp add: word_less_nat_alt unat_sub word_le_nat_alt)
    with True that show ?thesis by (simp add: digit_char_def of_char_of)
  next
    case False
    with that show ?thesis by (simp add: digit_char_def of_char_of word_less_nat_alt)
  qed
  then show ?thesis by auto
qed

lemma digits_start:
  assumes "2 \<le> base" and "base \<le> 36"
  shows "\<exists>c cs. rev (rev_digits base n) = c # cs \<and> c \<noteq> CHR ''-''"
proof -
  have ne: "rev_digits base n \<noteq> []" using assms by (simp add: rev_digits_unfold)
  have "c \<noteq> CHR ''-''" if "c \<in> set (rev_digits base n)" for c
    using that assms
  proof (induction base n rule: rev_digits.induct)
    case (1 base n)
    have "0 < unat base" "unat base \<le> 36" using 1(3,4) by (simp_all add: word_le_nat_alt)
    then have "unat (n mod base) < 36"
      using mod_less_divisor [of "unat base" "unat n"] unfolding unat_mod_distrib by linarith
    then have "digit_char (n mod base) \<noteq> CHR ''-''" by (rule digits_no_minus)
    moreover have "c \<noteq> CHR ''-''" if "0 < n div base" "c \<in> set (rev_digits base (n div base))"
      using 1(1) [OF _ that] 1(3,4) by (simp add: not_less)
    ultimately show ?case using 1(2) unfolding rev_digits_unfold [OF 1(3), of n] by (auto split: if_splits)
  qed
  moreover have "hd (rev (rev_digits base n)) \<in> set (rev_digits base n)" using ne by (simp add: hd_rev)
  ultimately show ?thesis using ne by (metis hd_Cons_tl rev_is_Nil_conv)
qed

subsection \<open>Lemmas on the command line\<close>

text \<open>The words of a line and the value of the first one of the form \<open>key=value\<close>.\<close>

function tokens :: "string \<Rightarrow> string list" where
  "tokens line =
     (let p = dropWhile (\<lambda>c. c = CHR '' '') line
      in if p = [] then []
         else takeWhile (\<lambda>c. c \<noteq> CHR '' '') p # tokens (dropWhile (\<lambda>c. c \<noteq> CHR '' '') p))"
  by pat_completeness auto

termination
  by (relation "measure length") (use next_word_shorter in auto)

declare tokens.simps [simp del]

fun key_value :: "string \<Rightarrow> string list \<Rightarrow> string option" where
  "key_value key [] = None"
| "key_value key (w # ws) =
     (if take (Suc (length key)) w = key @ ''='' then Some (drop (Suc (length key)) w) else key_value key ws)"

lemma starts_with_take: "starts_with s sub \<longleftrightarrow> take (length sub) s = sub"
  by (induction s sub rule: starts_with.induct) auto

lemma take_takeWhile_prefix:
  "CHR '' '' \<notin> set k \<Longrightarrow> take (length k) (takeWhile (\<lambda>c. c \<noteq> CHR '' '') p) = k \<longleftrightarrow> take (length k) p = k"
proof (induction k arbitrary: p)
  case (Cons a k)
  then show ?case by (cases p) auto
qed simp

lemma drop_takeWhile_prefix:
  "CHR '' '' \<notin> set k \<Longrightarrow> take (length k) p = k \<Longrightarrow>
    drop (length k) (takeWhile (\<lambda>c. c \<noteq> CHR '' '') p) = takeWhile (\<lambda>c. c \<noteq> CHR '' '') (drop (length k) p)"
proof (induction k arbitrary: p)
  case (Cons a k)
  then show ?case by (cases p) auto
qed simp

lemma key_test:
  assumes "CHR '' '' \<notin> set key"
  shows "(starts_with p key \<and> length key < length p \<and> p ! length key = CHR ''='') \<longleftrightarrow>
      take (Suc (length key)) (takeWhile (\<lambda>c. c \<noteq> CHR '' '') p) = key @ ''=''"
    and "starts_with p key \<Longrightarrow> length key < length p \<Longrightarrow> p ! length key = CHR ''='' \<Longrightarrow>
      drop (Suc (length key)) (takeWhile (\<lambda>c. c \<noteq> CHR '' '') p) =
      takeWhile (\<lambda>c. c \<noteq> CHR '' '') (drop (Suc (length key)) p)"
proof -
  let ?k = "key @ ''=''"
  have k: "CHR '' '' \<notin> set ?k" "length ?k = Suc (length key)" using assms by simp_all
  have t: "starts_with p key \<and> length key < length p \<and> p ! length key = CHR ''='' \<longleftrightarrow> take (length ?k) p = ?k"
    unfolding starts_with_take
    by (cases "length key < length p") (auto simp: take_Suc_conv_app_nth)
  then show "(starts_with p key \<and> length key < length p \<and> p ! length key = CHR ''='') \<longleftrightarrow>
      take (Suc (length key)) (takeWhile (\<lambda>c. c \<noteq> CHR '' '') p) = key @ ''=''"
    using take_takeWhile_prefix [OF k(1), of p] k(2) by simp
  assume "starts_with p key" "length key < length p" "p ! length key = CHR ''=''"
  then show "drop (Suc (length key)) (takeWhile (\<lambda>c. c \<noteq> CHR '' '') p) =
      takeWhile (\<lambda>c. c \<noteq> CHR '' '') (drop (Suc (length key)) p)"
    using drop_takeWhile_prefix [OF k(1), of p] t k(2) by simp
qed

lemma get_cmdline_arg_words:
  assumes "CHR '' '' \<notin> set key"
  shows "get_cmdline_arg line key n = map_option (take (n - 1)) (key_value key (tokens line))"
proof (induction line rule: tokens.induct)
  case (1 line)
  define p where "p = dropWhile (\<lambda>c. c = CHR '' '') line"
  note unfolds = get_cmdline_arg.simps [of line] tokens.simps [of line] p_def [symmetric] Let_def
  show ?case
  proof (cases "p = []")
    case False
    then show ?thesis
      using 1 [OF p_def False] key_test(1) [OF assms, of p] key_test(2) [OF assms, of p]
      unfolding unfolds by auto
  qed (simp add: unfolds)
qed

lemma contains_substr_iff:
  "s \<noteq> [] \<Longrightarrow> contains_substr s sub \<longleftrightarrow> (\<exists>xs ys. s = xs @ sub @ ys)"
proof (induction s)
  case (Cons a s)
  have pre: "starts_with (a # s) sub \<longleftrightarrow> (\<exists>ys. a # s = sub @ ys)"
    unfolding starts_with_take by (metis append_eq_conv_conj append_take_drop_id)
  have "(\<exists>xs ys. a # s = xs @ sub @ ys) \<longleftrightarrow> (\<exists>ys. a # s = sub @ ys) \<or> (\<exists>xs ys. s = xs @ sub @ ys)"
    by (auto simp: Cons_eq_append_conv) 
  moreover have "contains_substr s sub \<longleftrightarrow> (\<exists>xs ys. s = xs @ sub @ ys)" if "s \<noteq> []"
    using Cons.IH that by simp
  moreover have "(\<exists>xs ys. [] = xs @ sub @ ys) \<longrightarrow> starts_with (a # s) sub" by auto
  ultimately show ?case using pre by (cases "s = []") auto
qed simp

subsection \<open>Properties\<close>

text \<open>
  The number conversions are exact: the decimal and hexadecimal digits of
  \<open>utoa\<close> read back as the number, and the signed decimal of \<open>itoa\<close> as its signed value, for
  every 64-bit number; and every result fits, with its NUL, the buffers of 32 characters that
  \<open>kprintf\<close> passes.
\<close>

theorem numbers_read_back:
  "parse_num 10 (utoa n 10) = unat n \<and> parse_num 16 (utoa n 16) = unat n \<and>
   parse_int (itoa n 10) = sint n \<and>
   length (utoa n 10) < 32 \<and> length (utoa n 16) < 32 \<and> length (itoa n 10) < 32"
proof -
  have conv: "parse_num (unat base) (utoa m base) = unat m" if "2 \<le> base" "base \<le> 36" for base m
    using parse_rev_digits [OF that, of m] by (simp add: utoa_def parse_num_def digit_val_def)
  have len: "length (rev_digits base m) \<le> 20" if "10 \<le> base" for base m
  proof -
    have b: "10 \<le> unat base" using that by (simp add: word_le_nat_alt)
    have "unat m < 10 ^ Suc 19" using unat_less_64 [of m] by simp
    also have "\<dots> \<le> unat base ^ Suc 19" using b by (rule power_mono) simp
    finally show ?thesis using length_rev_digits [of base m 19] that by (simp add: word_le_nat_alt)
  qed
  have u: "uint n = sint n mod 2 ^ 64"
    by (simp only: uint_sint take_bit_eq_mod) simp
  have "parse_int (itoa n 10) = sint n"
  proof (cases "sint n < 0")
    case True
    then have nz: "- n \<noteq> 0" by auto
    have "uint (- n) = (- uint n) mod 2 ^ 64" by (simp add: uint_word_ariths)
    also have "\<dots> = (- sint n) mod 2 ^ 64" unfolding u by (simp only: mod_minus_eq)
    also have "\<dots> = - sint n"
      using True sint_ge [of n] by (intro mod_pos_pos_trivial) auto
    finally have "int (unat (- n)) = - sint n" by simp
    then show ?thesis
      using True nz parse_rev_digits [of 10 "- n"]
      by (simp add: itoa_def parse_int_def)
  next
    case False
    then have "sint n mod 2 ^ 64 = sint n"
      using sint_lt [of n] by (intro mod_pos_pos_trivial) auto
    with u have "int (unat n) = sint n" by simp
    then show ?thesis
      using False parse_rev_digits [of 10 n] digits_start [of 10 n]
      by (auto simp: itoa_def parse_int_def parse_num_def digit_val_def)
  qed
  then show ?thesis
    using conv [of 10 n] conv [of 16 n] len [of 10 n] len [of 16 n] len [of 10 "- n"]
    by (auto simp: utoa_def itoa_def Let_def)
qed

text \<open>Formats that use only what both functions convert.\<close>

definition shared_conv :: "char \<Rightarrow> bool" where
  "shared_conv c \<longleftrightarrow> c \<in> {CHR ''d'', CHR ''u'', CHR ''s'', CHR ''%''}"

fun shared_format :: "string \<Rightarrow> bool" where
  "shared_format [] = True"
| "shared_format (c # fs) =
     (if c \<noteq> CHR ''%'' then shared_format fs
      else case fs of [] \<Rightarrow> False
        | d # gs \<Rightarrow>
            if d = CHR ''l'' then (case gs of [] \<Rightarrow> False | e # hs \<Rightarrow> shared_conv e \<and> shared_format hs)
            else shared_conv d \<and> shared_format gs)"

lemma int_to_str_eq: "int_to_str n True = itoa n 10" "int_to_str n False = utoa n 10"
  by (simp_all add: int_to_str_def itoa_def utoa_def Let_def)

lemma shared_conv_eq: "shared_conv c \<Longrightarrow> sconv is_long c args = kconv is_long c args"
  by (auto simp: shared_conv_def sconv_def kconv_def int_to_str_eq)

lemma shared_format_eq:
  "shared_format fmt \<Longrightarrow> format_with sconv fmt args = format_with kconv fmt args"
proof (induction fmt arbitrary: args rule: shared_format.induct)
  case (2 c fs)
  consider "c \<noteq> CHR ''%''" | "c = CHR ''%''" "fs = []" | d gs where "c = CHR ''%''" "fs = d # gs" "d \<noteq> CHR ''l''"
    | "c = CHR ''%''" "fs = ''l''" | e hs where "c = CHR ''%''" "fs = CHR ''l'' # e # hs"
    by (metis neq_Nil_conv)
  then show ?case
  proof cases
    case 1
    with 2 show ?thesis by simp
  next
    case (3 d gs)
    with 2 show ?thesis by (simp add: shared_conv_eq split: option.split)
  next
    case (5 e hs)
    with 2 show ?thesis by (simp add: shared_conv_eq split: option.split)
  qed (use 2 in simp_all)
qed simp

text \<open>
  \<open>sprintf\<close> writes what \<open>kprintf\<close> prints, for every format of plain
  characters and the conversions \<open>%d\<close>, \<open>%u\<close>, \<open>%ld\<close>, \<open>%lu\<close>, \<open>%s\<close> and \<open>%%\<close> and all arguments,
  faults for mismatched arguments included, and returns its length.
\<close>

theorem sprintf_agrees_kprintf:
  "shared_format fmt \<Longrightarrow> sprintf fmt args = map_option (\<lambda>s. (s, length s)) (kprintf fmt args)"
  unfolding sprintf_def kprintf_def by (simp add: shared_format_eq)

theorem sprintf_agrees_kprintf_witness:
  "sprintf ''cpu %d: %lu%%'' [Va_int (- 1), Va_long 7] = Some (''cpu -1: 7%'', 10)"
proof -
  have "kprintf ''cpu %d: %lu%%'' [Va_int (- 1), Va_long 7] = Some ''cpu -1: 7%''" by code_simp
  then show ?thesis using sprintf_agrees_kprintf [of "''cpu %d: %lu%%''" "[Va_int (- 1), Va_long 7]"]
    by (simp add: shared_conv_def)
qed

text \<open>
  \<open>get_cmdline_arg\<close> gives the value of the first word of the
  line, words being separated by any number of spaces, that has the form \<open>key=value\<close>, cut to
  the buffer; and nothing when no word has it.
\<close>

theorem cmdline_first_value:
  assumes "CHR '' '' \<notin> set key"
  shows "get_cmdline_arg line key n = map_option (take (n - 1)) (key_value key (tokens line))"
  by (rule get_cmdline_arg_words [OF assms])

theorem cmdline_first_value_witness:
  "get_cmdline_arg ''  quiet root=/dev/sda root=x'' ''root'' 64 = Some ''/dev/sda''"
proof -
  have "key_value ''root'' (tokens ''  quiet root=/dev/sda root=x'') = Some ''/dev/sda''" by code_simp
  then show ?thesis using cmdline_first_value [of "''root''" "''  quiet root=/dev/sda root=x''" 64] by simp
qed

end
