(* ===== verification/Pci.thy ===== *)
theory Pci
  imports Fmt
begin

text \<open>
  PCI: the scan of bus 0 and the device table of \<^verbatim>\<open>drivers/vray.c\<close>, the name lookup of
  \<^verbatim>\<open>drivers/pci_db.c\<close>, and the device lists built from them in \<^verbatim>\<open>fs/vnode.c\<close> and
  \<^verbatim>\<open>fs/nvnode.c\<close>. The configuration space is a function of the address that is written to the
  address port; the generated name table \<^verbatim>\<open>pci_device_db\<close> is an argument. A pointer into the
  device table is the index.
\<close>

subsection \<open>State\<close>

record vray_device =
  bus :: u8
  dev_no :: u8
  func_no :: u8
  vendor_id :: u16
  device_id :: u16
  dev_class :: u8
  dev_subclass :: u8
  prog_if :: u8
  header_type :: u8
  irq_line :: u8
  dev_name :: string

datatype device_type = DEVICE_TYPE_GENERIC | DEVICE_TYPE_PCI | DEVICE_TYPE_USB_ROOT | DEVICE_TYPE_ACPI

datatype nvdevice_type = NVDEVICE_TYPE_GENERIC | NVDEVICE_TYPE_USB

record vnode =
  vn_name :: string
  vn_type :: device_type
  vn_data :: "nat option"

record nvnode =
  nv_name :: string
  nv_type :: nvdevice_type
  nv_data :: "nat option"

record pci =
  conf_addr :: u32
  config :: "u32 \<Rightarrow> u32"
  devices :: "nat \<Rightarrow> vray_device"
  dev_count :: nat
  vnode_pool :: "nat \<Rightarrow> vnode"
  next_vnode_index :: nat
  nvnode_pool :: "nat \<Rightarrow> nvnode"
  next_nvnode_index :: nat
  usb_device_pool :: "nat \<Rightarrow> u16 \<times> u16"
  next_usb_device_index :: nat

definition MAX_PCI_DEVICES :: nat where "MAX_PCI_DEVICES = 256"
definition MAX_VNODES :: nat where "MAX_VNODES = 256"
definition MAX_NVNODES :: nat where "MAX_NVNODES = 32"
definition MAX_USB_DEVICES :: nat where "MAX_USB_DEVICES = 32"

subsection \<open>The name table\<close>

type_synonym pci_db = "(u16 \<times> u16 \<times> string) list"

function db_search :: "pci_db \<Rightarrow> u16 \<Rightarrow> u16 \<Rightarrow> int \<Rightarrow> int \<Rightarrow> string" where
  "db_search db vendor device left right =
     (if left \<le> right then
        let mid = left + (right - left) div 2; (v, d, name) = db ! nat mid
        in if v = vendor then
             (if d = device then name
              else if d < device then db_search db vendor device (mid + 1) right
              else db_search db vendor device left (mid - 1))
           else if v < vendor then db_search db vendor device (mid + 1) right
           else db_search db vendor device left (mid - 1)
      else ''Unknown Device'')"
  by pat_completeness auto

termination
  by (relation "measure (\<lambda>(db, v, d, left, right). nat (right - left + 1))") auto

declare db_search.simps [simp del]

definition get_pci_device_name :: "pci_db \<Rightarrow> u16 \<Rightarrow> u16 \<Rightarrow> string" where
  "get_pci_device_name db vendor device = db_search db vendor device 0 (int (length db) - 1)"

subsection \<open>Configuration space\<close>

definition vray_build_addr :: "u8 \<Rightarrow> u8 \<Rightarrow> u8 \<Rightarrow> u8 \<Rightarrow> u32" where
  "vray_build_addr bs dv fn offset =
     push_bit 31 1 OR push_bit 16 (ucast bs) OR push_bit 11 (ucast dv) OR push_bit 8 (ucast fn) OR
     ucast (offset AND 0xFC)"

definition vray_cfg_read :: "u8 \<Rightarrow> u8 \<Rightarrow> u8 \<Rightarrow> u8 \<Rightarrow> 'a pci_scheme \<Rightarrow> u32 \<times> 'a pci_scheme" where
  "vray_cfg_read bs dv fn offset s =
     (let s1 = s\<lparr>conf_addr := vray_build_addr bs dv fn offset\<rparr>
      in (config s1 (conf_addr s1), s1))"

definition vray_cfg_write :: "u8 \<Rightarrow> u8 \<Rightarrow> u8 \<Rightarrow> u8 \<Rightarrow> u32 \<Rightarrow> 'a pci_scheme \<Rightarrow> 'a pci_scheme" where
  "vray_cfg_write bs dv fn offset val s =
     (let s1 = s\<lparr>conf_addr := vray_build_addr bs dv fn offset\<rparr>
      in s1\<lparr>config := (config s1)(conf_addr s1 := val)\<rparr>)"

subsection \<open>The scan\<close>

text \<open>The entry for a function that is present; the reads leave the address of the last.\<close>

definition read_device :: "pci_db \<Rightarrow> u8 \<Rightarrow> u8 \<Rightarrow> u32 \<Rightarrow> 'a pci_scheme \<Rightarrow> vray_device \<times> 'a pci_scheme" where
  "read_device db dv fn v s =
     (let (cls, s1) = vray_cfg_read 0 dv fn 8 s;
          (hdr, s2) = vray_cfg_read 0 dv fn 0x0C s1;
          (irq, s3) = vray_cfg_read 0 dv fn 0x3C s2;
          vendor = ucast (v AND 0xFFFF); device = ucast (drop_bit 16 v AND 0xFFFF)
      in (\<lparr>bus = 0, dev_no = dv, func_no = fn, vendor_id = vendor, device_id = device,
           dev_class = ucast (drop_bit 24 cls AND 0xFF), dev_subclass = ucast (drop_bit 16 cls AND 0xFF),
           prog_if = ucast (drop_bit 8 cls AND 0xFF), header_type = ucast (drop_bit 16 hdr AND 0xFF),
           irq_line = ucast (irq AND 0xFF), dev_name = get_pci_device_name db vendor device\<rparr>, s3))"

definition add_device :: "vray_device \<Rightarrow> 'a pci_scheme \<Rightarrow> 'a pci_scheme" where
  "add_device e s =
     (if dev_count s < MAX_PCI_DEVICES
      then s\<lparr>devices := (devices s)(dev_count s := e), dev_count := Suc (dev_count s)\<rparr> else s)"

text \<open>The functions of a device from \<open>fn\<close> on, \<open>n\<close> of them.\<close>

fun scan_functions :: "pci_db \<Rightarrow> u8 \<Rightarrow> u8 \<Rightarrow> nat \<Rightarrow> 'a pci_scheme \<Rightarrow> 'a pci_scheme" where
  "scan_functions db dv fn 0 s = s"
| "scan_functions db dv fn (Suc n) s =
     (let (v, s1) = vray_cfg_read 0 dv fn 0 s; vendor = (ucast (v AND 0xFFFF) :: u16)
      in if vendor = 0xFFFF \<or> vendor = 0 then
           (if fn = 0 then s1 else scan_functions db dv (fn + 1) n s1)
         else
           let (e, s2) = read_device db dv fn v s1; s3 = add_device e s2
           in if fn = 0 \<and> header_type e AND 0x80 = 0 then s3
              else scan_functions db dv (fn + 1) n s3)"

fun scan_devices :: "pci_db \<Rightarrow> u8 \<Rightarrow> nat \<Rightarrow> 'a pci_scheme \<Rightarrow> 'a pci_scheme" where
  "scan_devices db dv 0 s = s"
| "scan_devices db dv (Suc n) s = scan_devices db (dv + 1) n (scan_functions db dv 0 8 s)"

definition vray_init :: "pci_db \<Rightarrow> 'a pci_scheme \<Rightarrow> 'a pci_scheme" where
  "vray_init db s = scan_devices db 0 32 (s\<lparr>dev_count := 0\<rparr>)"

text \<open>The first entry from \<open>i\<close> on that a test accepts.\<close>

fun find_dev_from :: "(vray_device \<Rightarrow> bool) \<Rightarrow> (nat \<Rightarrow> vray_device) \<Rightarrow> nat \<Rightarrow> nat \<Rightarrow> int" where
  "find_dev_from P ds i 0 = -1"
| "find_dev_from P ds i (Suc n) = (if P (ds i) then int i else find_dev_from P ds (Suc i) n)"

definition vray_find_first_by_vendor :: "u16 \<Rightarrow> u16 \<Rightarrow> 'a pci_scheme \<Rightarrow> int" where
  "vray_find_first_by_vendor vendor device s =
     find_dev_from (\<lambda>e. vendor_id e = vendor \<and> device_id e = device) (devices s) 0 (dev_count s)"

definition vray_find_first_by_class :: "u8 \<Rightarrow> u8 \<Rightarrow> 'a pci_scheme \<Rightarrow> int" where
  "vray_find_first_by_class cls sub s =
     find_dev_from (\<lambda>e. dev_class e = cls \<and> dev_subclass e = sub) (devices s) 0 (dev_count s)"

definition vray_find_first_by_class_prog_if :: "u8 \<Rightarrow> u8 \<Rightarrow> u8 \<Rightarrow> 'a pci_scheme \<Rightarrow> int" where
  "vray_find_first_by_class_prog_if cls sub pif s =
     find_dev_from (\<lambda>e. dev_class e = cls \<and> dev_subclass e = sub \<and> prog_if e = pif) (devices s) 0 (dev_count s)"

definition vray_devices :: "'a pci_scheme \<Rightarrow> nat \<Rightarrow> vray_device" where
  "vray_devices s = devices s"

definition vray_device_count :: "'a pci_scheme \<Rightarrow> nat" where
  "vray_device_count s = dev_count s"

subsection \<open>Device lists\<close>

definition vnode_init :: "'a pci_scheme \<Rightarrow> 'a pci_scheme" where
  "vnode_init s = s\<lparr>vnode_pool := (\<lambda>_. \<lparr>vn_name = [], vn_type = DEVICE_TYPE_GENERIC, vn_data = None\<rparr>),
     next_vnode_index := 0\<rparr>"

definition vnode_create :: "device_type \<Rightarrow> nat option \<Rightarrow> 'a pci_scheme \<Rightarrow> nat option \<times> 'a pci_scheme" where
  "vnode_create ty data s =
     (if MAX_VNODES \<le> next_vnode_index s then (None, s)
      else let i = next_vnode_index s
           in (Some i, s\<lparr>vnode_pool := (vnode_pool s)(i := \<lparr>vn_name = ''VNODE'', vn_type = ty, vn_data = data\<rparr>),
                next_vnode_index := Suc i\<rparr>))"

text \<open>Whether a device is an AHCI or an xHCI controller.\<close>

definition is_controller :: "vray_device \<Rightarrow> bool" where
  "is_controller e \<longleftrightarrow> (dev_class e = 0x01 \<and> dev_subclass e = 0x06) \<or>
     (dev_class e = 0x0C \<and> dev_subclass e = 0x03 \<and> prog_if e = 0x30)"

definition vnode_populate_from_pci :: "'a pci_scheme \<Rightarrow> 'a pci_scheme" where
  "vnode_populate_from_pci s =
     fold (\<lambda>i t. if is_controller (vray_devices t i) then snd (vnode_create DEVICE_TYPE_GENERIC (Some i) t) else t)
       [0 ..< vray_device_count s] s"

definition nvnode_init :: "'a pci_scheme \<Rightarrow> 'a pci_scheme" where
  "nvnode_init s = s\<lparr>nvnode_pool := (\<lambda>_. \<lparr>nv_name = [], nv_type = NVDEVICE_TYPE_GENERIC, nv_data = None\<rparr>),
     next_nvnode_index := 0, usb_device_pool := (\<lambda>_. (0, 0)), next_usb_device_index := 0\<rparr>"

definition nvnode_create :: "nvdevice_type \<Rightarrow> nat option \<Rightarrow> 'a pci_scheme \<Rightarrow> nat option \<times> 'a pci_scheme" where
  "nvnode_create ty data s =
     (if MAX_NVNODES \<le> next_nvnode_index s then (None, s)
      else let i = next_nvnode_index s
           in (Some i, s\<lparr>nvnode_pool := (nvnode_pool s)(i := \<lparr>nv_name = ''NVNODE'', nv_type = ty, nv_data = data\<rparr>),
                next_nvnode_index := Suc i\<rparr>))"

definition nvnode_add_usb_device :: "u16 \<Rightarrow> u16 \<Rightarrow> 'a pci_scheme \<Rightarrow> 'a pci_scheme" where
  "nvnode_add_usb_device vendor product_id s =
     (if MAX_USB_DEVICES \<le> next_usb_device_index s then s
      else let i = next_usb_device_index s
           in snd (nvnode_create NVDEVICE_TYPE_USB (Some i)
                (s\<lparr>usb_device_pool := (usb_device_pool s)(i := (vendor, product_id)),
                   next_usb_device_index := Suc i\<rparr>)))"

text \<open>What \<open>vnode_dump_list\<close> prints for one node.\<close>

fun type_num :: "device_type \<Rightarrow> u32" where
  "type_num DEVICE_TYPE_GENERIC = 0" | "type_num DEVICE_TYPE_PCI = 1"
| "type_num DEVICE_TYPE_USB_ROOT = 2" | "type_num DEVICE_TYPE_ACPI = 3"

definition newline :: string where "newline = [char_of (10 :: nat)]"

definition dump_vnode :: "'a pci_scheme \<Rightarrow> nat \<Rightarrow> string option" where
  "dump_vnode s i = do {
     let nd = vnode_pool s i;
     a \<leftarrow> kprintf ''  %d: %s (Type: %d)'' [Va_int (of_nat i), Va_str (vn_name nd), Va_int (type_num (vn_type nd))];
     b \<leftarrow> (case vn_data nd of
            Some k \<Rightarrow> kprintf ('' - %s'' @ newline) [Va_str (dev_name (devices s k))]
          | None \<Rightarrow> kprintf newline []);
     Some (a @ b)
   }"

fun dump_vnodes :: "'a pci_scheme \<Rightarrow> nat list \<Rightarrow> string option" where
  "dump_vnodes s [] = Some []"
| "dump_vnodes s (i # is) = do { a \<leftarrow> dump_vnode s i; b \<leftarrow> dump_vnodes s is; Some (a @ b) }"

definition vnode_dump_list :: "'a pci_scheme \<Rightarrow> string option" where
  "vnode_dump_list s = do {
     body \<leftarrow> dump_vnodes s [0 ..< next_vnode_index s];
     Some (''--- VNode Device List ---'' @ newline @ body @ ''-------------------------'' @ newline)
   }"

text \<open>And for one of the USB list; a USB node without data is a NULL dereference.\<close>

fun nvtype_num :: "nvdevice_type \<Rightarrow> u32" where
  "nvtype_num NVDEVICE_TYPE_GENERIC = 0" | "nvtype_num NVDEVICE_TYPE_USB = 1"

definition dump_nvnode :: "'a pci_scheme \<Rightarrow> nat \<Rightarrow> string option" where
  "dump_nvnode s i = do {
     let nd = nvnode_pool s i;
     a \<leftarrow> kprintf ''  %d: %s (Type: %d)'' [Va_int (of_nat i), Va_str (nv_name nd), Va_int (nvtype_num (nv_type nd))];
     b \<leftarrow> (if nv_type nd = NVDEVICE_TYPE_USB then do {
             k \<leftarrow> nv_data nd;
             kprintf ('' - USB Device: VID=%x, PID=%x'' @ newline)
               [Va_int (ucast (fst (usb_device_pool s k))), Va_int (ucast (snd (usb_device_pool s k)))]
           } else kprintf newline []);
     Some (a @ b)
   }"

fun dump_nvnodes :: "'a pci_scheme \<Rightarrow> nat list \<Rightarrow> string option" where
  "dump_nvnodes s [] = Some []"
| "dump_nvnodes s (i # is) = do { a \<leftarrow> dump_nvnode s i; b \<leftarrow> dump_nvnodes s is; Some (a @ b) }"

definition nvnode_dump_list :: "'a pci_scheme \<Rightarrow> string option" where
  "nvnode_dump_list s = do {
     body \<leftarrow> dump_nvnodes s [0 ..< next_nvnode_index s];
     Some (''--- NVNode Device List ---'' @ newline @ body @ ''-------------------------- '' @ newline)
   }"

subsection \<open>Lemmas on the name table\<close>

definition db_key :: "u16 \<times> u16 \<times> string \<Rightarrow> nat" where
  "db_key e = unat (fst e) * 65536 + unat (fst (snd e))"

definition db_sorted :: "pci_db \<Rightarrow> bool" where
  "db_sorted db \<longleftrightarrow> sorted_wrt (\<lambda>a b. db_key a < db_key b) db"

text \<open>The first entry for a device, going through the table from its start.\<close>

fun db_lookup :: "pci_db \<Rightarrow> u16 \<Rightarrow> u16 \<Rightarrow> string" where
  "db_lookup [] vendor device = ''Unknown Device''"
| "db_lookup ((v, d, name) # db) vendor device =
     (if v = vendor \<and> d = device then name else db_lookup db vendor device)"

lemma u16_less: "unat (w :: u16) < 65536"
  using unsigned_less [of w, where 'a = nat] by simp

lemma db_key_less:
  "db_key (v, d, n) < db_key (v', d', n') \<longleftrightarrow> v < v' \<or> v = v' \<and> d < d'"
proof -
  have "a * 65536 + b < a' * 65536 + b' \<longleftrightarrow> a < a' \<or> a = a' \<and> b < b'"
    if "b < 65536" "b' < 65536" for a a' b b' :: nat using that by linarith
  from this [OF u16_less u16_less] show ?thesis
    by (simp add: db_key_def word_less_nat_alt word_unat_eq_iff)
qed

lemma db_lookup_none:
  "\<forall>i < length db. fst (db ! i) \<noteq> vendor \<or> fst (snd (db ! i)) \<noteq> device \<Longrightarrow>
    db_lookup db vendor device = ''Unknown Device''"
proof (induction db)
  case (Cons e db)
  obtain v d n where e: "e = (v, d, n)" by (cases e)
  have "v \<noteq> vendor \<or> d \<noteq> device" using Cons.prems [rule_format, of 0] by (simp add: e)
  moreover have "db_lookup db vendor device = ''Unknown Device''"
    using Cons.prems by (intro Cons.IH) (metis Suc_less_eq length_Cons nth_Cons_Suc)
  ultimately show ?case by (auto simp: e)
qed simp

lemma db_lookup_found:
  "db_sorted db \<Longrightarrow> i < length db \<Longrightarrow> db ! i = (vendor, device, name) \<Longrightarrow> db_lookup db vendor device = name"
proof (induction db arbitrary: i)
  case (Cons e db)
  obtain v d n where e: "e = (v, d, n)" by (cases e)
  show ?case
  proof (cases i)
    case (Suc j)
    then have j: "j < length db" "db ! j = (vendor, device, name)" using Cons.prems by simp_all
    then have "db_key e < db_key (vendor, device, name)"
      using Cons.prems(1) by (metis db_sorted_def nth_mem sorted_wrt.simps(2))
    then have "\<not> (v = vendor \<and> d = device)" by (auto simp: e db_key_less)
    then show ?thesis using Cons.IH [OF _ j] Cons.prems(1) by (auto simp: e db_sorted_def)
  qed (use Cons.prems e in simp)
qed simp

lemma db_search_lookup:
  assumes sorted: "db_sorted db"
  shows "0 \<le> left \<Longrightarrow> right < int (length db) \<Longrightarrow>
    (\<forall>i < length db. (int i < left \<or> right < int i) \<longrightarrow> fst (db ! i) \<noteq> vendor \<or> fst (snd (db ! i)) \<noteq> device) \<Longrightarrow>
    db_search db vendor device left right = db_lookup db vendor device"
proof (induction "nat (right - left + 1)" arbitrary: left right rule: less_induct)
  case less
  show ?case
  proof (cases "left \<le> right")
    case False
    have "fst (db ! i) \<noteq> vendor \<or> fst (snd (db ! i)) \<noteq> device" if "i < length db" for i
    proof -
      have "int i < left \<or> right < int i" using False by linarith
      then show ?thesis using less.prems(3) that by blast
    qed
    then have "db_lookup db vendor device = ''Unknown Device''" by (intro db_lookup_none) blast
    then show ?thesis using False by (subst db_search.simps) simp
  next
    case True
    define mid where "mid = left + (right - left) div 2"
    obtain v d n where e: "db ! nat mid = (v, d, n)" by (metis prod_cases3)
    have m: "left \<le> mid" "mid \<le> right" "nat mid < length db" "int (nat mid) = mid"
      using True less.prems(1,2) by (auto simp: mid_def)
    have order: "db_key (db ! i) < db_key (db ! j)" if "i < j" "j < length db" for i j
      by (rule sorted_wrt_nth_less [OF sorted [unfolded db_sorted_def] that])
    have ne: "db_key (db ! i) \<noteq> db_key (vendor, device, []) \<Longrightarrow> fst (db ! i) \<noteq> vendor \<or> fst (snd (db ! i)) \<noteq> device" for i
      by (auto simp: db_key_def)
    have unfold: "db_search db vendor device left right =
        (if v = vendor then if d = device then n
           else if d < device then db_search db vendor device (mid + 1) right else db_search db vendor device left (mid - 1)
         else if v < vendor then db_search db vendor device (mid + 1) right else db_search db vendor device left (mid - 1))"
      using True e by (subst db_search.simps) (simp add: mid_def [symmetric])
    consider "v = vendor" "d = device" | "db_key (v, d, n) < db_key (vendor, device, [])"
      | "db_key (vendor, device, []) < db_key (v, d, n)" by (metis db_key_less linorder_neqE)
    then show ?thesis
    proof cases
      case 1
      then show ?thesis using unfold db_lookup_found [OF sorted m(3)] e by simp
    next
      case 2
      then have "db_search db vendor device left right = db_search db vendor device (mid + 1) right"
        unfolding unfold db_key_less by auto
      moreover have "fst (db ! i) \<noteq> vendor \<or> fst (snd (db ! i)) \<noteq> device" if "i < length db" "int i < mid + 1 \<or> right < int i" for i
      proof (cases "right < int i")
        case False
        then have "i \<le> nat mid" using that m by linarith
        then have "db_key (db ! i) \<le> db_key (db ! nat mid)" using order [OF _ m(3), of i] by (cases "i = nat mid") auto
        then show ?thesis using ne 2 e by simp
      qed (use less.prems(3) that in blast)
      ultimately show ?thesis
        using less.hyps [of right "mid + 1"] m less.prems(1,2) by simp
    next
      case 3
      then have "db_search db vendor device left right = db_search db vendor device left (mid - 1)"
        unfolding unfold db_key_less by auto
      moreover have "fst (db ! i) \<noteq> vendor \<or> fst (snd (db ! i)) \<noteq> device" if "i < length db" "int i < left \<or> mid - 1 < int i" for i
      proof (cases "int i < left")
        case False
        then have "nat mid \<le> i" using that m by linarith
        then have "db_key (db ! nat mid) \<le> db_key (db ! i)" using order [OF _ that(1), of "nat mid"] by (cases "i = nat mid") auto
        then show ?thesis using ne 3 e by simp
      qed (use less.prems(3) that in blast)
      ultimately show ?thesis
        using less.hyps [of "mid - 1" left] m less.prems(1,2) by simp
    qed
  qed
qed

lemma build_addr_fields:
  assumes "dv < 32" and "fn < 8"
  shows "ucast (drop_bit 16 (vray_build_addr bs dv fn off)) = bs"
    "take_bit 5 (drop_bit 11 (vray_build_addr bs dv fn off)) = ucast dv"
    "take_bit 3 (drop_bit 8 (vray_build_addr bs dv fn off)) = ucast fn"
    "take_bit 8 (vray_build_addr bs dv fn off) = ucast (off AND 0xFC)"
    "bit (vray_build_addr bs dv fn off) 31"
proof -
  have dv: "\<not> bit dv n" if "5 \<le> n" for n
  proof -
    have "unat dv < 2 ^ 5" using assms(1) by (simp add: word_less_nat_alt)
    also have "(2 :: nat) ^ 5 \<le> 2 ^ n" using that by (rule power_increasing) simp
    finally have "\<not> bit (unat dv) n" by (simp add: bit_iff_odd)
    then show ?thesis using that by (auto simp: bit_unsigned_iff)
  qed
  have fn: "\<not> bit fn n" if "3 \<le> n" for n
  proof -
    have "unat fn < 2 ^ 3" using assms(2) by (simp add: word_less_nat_alt)
    also have "(2 :: nat) ^ 3 \<le> 2 ^ n" using that by (rule power_increasing) simp
    finally have "\<not> bit (unat fn) n" by (simp add: bit_iff_odd)
    then show ?thesis using that by (auto simp: bit_unsigned_iff)
  qed
  note simps = vray_build_addr_def bit_simps dv fn
  have mark: "bit (32768 :: int) n \<longleftrightarrow> n = 15" for n
    using bit_exp_iff [where 'a = int, of 15 n] by simp
  show "ucast (drop_bit 16 (vray_build_addr bs dv fn off)) = bs"
    by (rule bit_word_eqI) (auto simp: simps mark)
  show "take_bit 5 (drop_bit 11 (vray_build_addr bs dv fn off)) = ucast dv"
    by (rule bit_word_eqI) (auto simp: simps)
  show "take_bit 3 (drop_bit 8 (vray_build_addr bs dv fn off)) = ucast fn"
    by (rule bit_word_eqI) (auto simp: simps)
  show "take_bit 8 (vray_build_addr bs dv fn off) = ucast (off AND 0xFC)"
    by (rule bit_word_eqI) (auto simp: simps)
  show "bit (vray_build_addr bs dv fn off) 31" by (simp add: simps)
qed

subsection \<open>What the scan finds\<close>

lemma cfg_read_simps [simp]:
  "fst (vray_cfg_read b d f r s) = config s (vray_build_addr b d f r)"
  "config (snd (vray_cfg_read b d f r s)) = config s" "devices (snd (vray_cfg_read b d f r s)) = devices s"
  "dev_count (snd (vray_cfg_read b d f r s)) = dev_count s"
  by (simp_all add: vray_cfg_read_def Let_def)

lemma read_device_simps [simp]:
  "config (snd (read_device db d f v s)) = config s" "devices (snd (read_device db d f v s)) = devices s"
  "dev_count (snd (read_device db d f v s)) = dev_count s"
  by (simp_all add: read_device_def split_beta Let_def)

text \<open>A configuration space read without a state.\<close>

definition vendor_at :: "(u32 \<Rightarrow> u32) \<Rightarrow> u8 \<Rightarrow> u8 \<Rightarrow> u16" where
  "vendor_at cf dv fn = ucast (cf (vray_build_addr 0 dv fn 0) AND 0xFFFF)"

definition present :: "(u32 \<Rightarrow> u32) \<Rightarrow> u8 \<Rightarrow> u8 \<Rightarrow> bool" where
  "present cf dv fn \<longleftrightarrow> vendor_at cf dv fn \<noteq> 0xFFFF \<and> vendor_at cf dv fn \<noteq> 0"

definition multifunction :: "(u32 \<Rightarrow> u32) \<Rightarrow> u8 \<Rightarrow> bool" where
  "multifunction cf dv \<longleftrightarrow> bit (cf (vray_build_addr 0 dv 0 0x0C)) 23"

definition entry_at :: "pci_db \<Rightarrow> (u32 \<Rightarrow> u32) \<Rightarrow> u8 \<times> u8 \<Rightarrow> vray_device" where
  "entry_at db cf = (\<lambda>(dv, fn).
     let cls = cf (vray_build_addr 0 dv fn 8); v = cf (vray_build_addr 0 dv fn 0); device = ucast (drop_bit 16 v)
     in \<lparr>bus = 0, dev_no = dv, func_no = fn, vendor_id = vendor_at cf dv fn, device_id = device,
          dev_class = ucast (drop_bit 24 cls), dev_subclass = ucast (drop_bit 16 cls), prog_if = ucast (drop_bit 8 cls),
          header_type = ucast (drop_bit 16 (cf (vray_build_addr 0 dv fn 0x0C))),
          irq_line = ucast (cf (vray_build_addr 0 dv fn 0x3C)),
          dev_name = get_pci_device_name db (vendor_at cf dv fn) device\<rparr>)"

text \<open>The functions a device shows: all of its present ones, if it says it has several.\<close>

definition functions_of :: "(u32 \<Rightarrow> u32) \<Rightarrow> u8 \<Rightarrow> u8 list" where
  "functions_of cf dv =
     (if \<not> present cf dv 0 then []
      else if multifunction cf dv then 0 # filter (present cf dv) [1, 2, 3, 4, 5, 6, 7] else [0])"

definition device_list :: "'a pci_scheme \<Rightarrow> vray_device list" where
  "device_list s = map (devices s) [0 ..< dev_count s]"

lemma ucast_masks:
  "(ucast (w AND 0xFFFF) :: u16) = ucast (w :: u32)" "(ucast (w AND 0xFF) :: u8) = ucast (w :: u32)"
proof -
  have m: "(0xFFFF :: u32) = mask 16" "(0xFF :: u32) = mask 8" by (simp_all add: mask_numeral)
  show "(ucast (w AND 0xFFFF) :: u16) = ucast w" "(ucast (w AND 0xFF) :: u8) = ucast w"
    unfolding m by (rule bit_word_eqI, auto simp: bit_simps)+
qed

lemma read_device_entry:
  "fst (read_device db dv fn (config s (vray_build_addr 0 dv fn 0)) s) = entry_at db (config s) (dv, fn)"
  by (simp add: read_device_def split_beta Let_def entry_at_def vendor_at_def ucast_masks)

lemma header_bit: "header_type (entry_at db cf (dv, 0)) AND 0x80 = 0 \<longleftrightarrow> \<not> multifunction cf dv"
  using and_exp_zero [of 7 "header_type (entry_at db cf (dv, 0))"]
  by (simp add: entry_at_def multifunction_def bit_simps Let_def)

text \<open>One device with its functions from \<open>fn\<close> on.\<close>

lemma scan_functions_list:
  "dev_count s + n \<le> MAX_PCI_DEVICES \<Longrightarrow> unat fn + n = 8 \<Longrightarrow> fn \<noteq> 0 \<Longrightarrow>
    config (scan_functions db dv fn n s) = config s \<and>
    dev_count (scan_functions db dv fn n s) \<le> dev_count s + n \<and>
    device_list (scan_functions db dv fn n s) = device_list s @
      map (entry_at db (config s)) (map (Pair dv) (filter (present (config s) dv) (map of_nat [unat fn ..< 8])))"
proof (induction n arbitrary: fn s)
  case (Suc n)
  have fn: "unat (fn + 1) = unat fn + 1" using Suc.prems(2) by (simp add: unat_plus_if_size word_size)
  then have nz: "fn + 1 \<noteq> 0" by auto
  have up: "[unat fn ..< 8] = unat fn # [Suc (unat fn) ..< 8]" using Suc.prems(2) by (simp add: upt_conv_Cons)
  let ?v = "config s (vray_build_addr 0 dv fn 0)"
  define s1 where "s1 = snd (vray_cfg_read 0 dv fn 0 s)"
  have absent: "(ucast (?v AND 0xFFFF) = (0xFFFF :: u16) \<or> ucast (?v AND 0xFFFF) = (0 :: u16)) \<longleftrightarrow> \<not> present (config s) dv fn"
    by (auto simp: present_def vendor_at_def)
  show ?case
  proof (cases "present (config s) dv fn")
    case False
    then have "scan_functions db dv fn (Suc n) s = scan_functions db dv (fn + 1) n s1"
      using absent Suc.prems(3) by (simp add: split_beta Let_def s1_def)
    with Suc.IH [of s1 "fn + 1"] Suc.prems fn nz False up show ?thesis
      by (simp add: s1_def device_list_def)
  next
    case True
    define s3 where "s3 = add_device (entry_at db (config s) (dv, fn)) (snd (read_device db dv fn ?v s1))"
    have e: "fst (read_device db dv fn ?v s1) = entry_at db (config s) (dv, fn)"
      using read_device_entry [of db dv fn s1] by (simp add: s1_def)
    have "scan_functions db dv fn (Suc n) s = scan_functions db dv (fn + 1) n s3"
      using absent True Suc.prems(3) e by (simp add: split_beta Let_def s1_def s3_def)
    moreover have "config s3 = config s" "dev_count s3 = Suc (dev_count s)"
        "device_list s3 = device_list s @ [entry_at db (config s) (dv, fn)]"
      using Suc.prems(1) by (auto simp: s3_def add_device_def device_list_def s1_def)
    ultimately show ?thesis using Suc.IH [of s3 "fn + 1"] Suc.prems fn nz True up by simp
  qed
qed simp

lemma scan_device_list:
  assumes "dev_count s + 8 \<le> MAX_PCI_DEVICES"
  shows "config (scan_functions db dv 0 8 s) = config s \<and> dev_count (scan_functions db dv 0 8 s) \<le> dev_count s + 8 \<and>
    device_list (scan_functions db dv 0 8 s) = device_list s @
      map (entry_at db (config s)) (map (Pair dv) (functions_of (config s) dv))"
proof -
  let ?v = "config s (vray_build_addr 0 dv 0 0)"
  define s1 where "s1 = snd (vray_cfg_read 0 dv 0 0 s)"
  have absent: "(ucast (?v AND 0xFFFF) = (0xFFFF :: u16) \<or> ucast (?v AND 0xFFFF) = (0 :: u16)) \<longleftrightarrow> \<not> present (config s) dv 0"
    by (auto simp: present_def vendor_at_def)
  define s3 where "s3 = add_device (entry_at db (config s) (dv, 0)) (snd (read_device db dv 0 ?v s1))"
  have e: "fst (read_device db dv 0 ?v s1) = entry_at db (config s) (dv, 0)"
    using read_device_entry [of db dv 0 s1] by (simp add: s1_def)
  have s3: "config s3 = config s" "dev_count s3 = Suc (dev_count s)"
      "device_list s3 = device_list s @ [entry_at db (config s) (dv, 0)]"
    using assms by (auto simp: s3_def add_device_def device_list_def s1_def)
  have eight: "scan_functions db dv 0 8 s = scan_functions db dv 0 (Suc 7) s" by simp
  have step: "scan_functions db dv 0 8 s = (if \<not> present (config s) dv 0 then s1
      else if \<not> multifunction (config s) dv then s3 else scan_functions db dv 1 7 s3)"
    unfolding eight scan_functions.simps using absent e header_bit [of db "config s" dv]
    by (simp add: split_beta Let_def s1_def s3_def)
  have rest: "config (scan_functions db dv 1 7 s3) = config s3 \<and> dev_count (scan_functions db dv 1 7 s3) \<le> dev_count s3 + 7 \<and>
      device_list (scan_functions db dv 1 7 s3) = device_list s3 @
        map (entry_at db (config s3)) (map (Pair dv) (filter (present (config s3) dv) (map of_nat [unat (1 :: u8) ..< 8])))"
    by (rule scan_functions_list) (use assms s3 in simp_all)
  have seven: "map of_nat [unat (1 :: u8) ..< 8] = [1, 2, 3, 4, 5, 6, 7 :: u8]" by (simp add: upt_rec)
  show ?thesis
    using step s3 rest unfolding seven
    by (auto simp: functions_of_def s1_def device_list_def)
qed

lemma scan_devices_list:
  "dev_count s + 8 * n \<le> MAX_PCI_DEVICES \<Longrightarrow> unat dv + n < 256 \<Longrightarrow>
    device_list (scan_devices db dv n s) = device_list s @
      map (entry_at db (config s)) (concat (map (\<lambda>d. map (Pair d) (functions_of (config s) d)) (map of_nat [unat dv ..< unat dv + n])))"
proof (induction n arbitrary: dv s)
  case (Suc n)
  let ?s = "scan_functions db dv 0 8 s"
  have s: "config ?s = config s \<and> dev_count ?s \<le> dev_count s + 8 \<and>
      device_list ?s = device_list s @ map (entry_at db (config s)) (map (Pair dv) (functions_of (config s) dv))"
    using Suc.prems(1) by (intro scan_device_list) simp
  have dv: "unat (dv + 1) = unat dv + 1" using Suc.prems(2) by (simp add: unat_plus_if_size word_size)
  have up: "[unat dv ..< unat dv + Suc n] = unat dv # [Suc (unat dv) ..< unat dv + Suc n]" by (rule upt_conv_Cons) simp
  show ?case using Suc.IH [of ?s "dv + 1"] s Suc.prems dv unfolding up by simp
qed simp

subsection \<open>Properties\<close>

text \<open>
  C19 (equivalence, PCI names). On a table sorted by vendor and device the binary search gives the
  name a search from the start of the table gives, for every vendor and device, in the table or
  not.
\<close>

theorem name_search_correct:
  assumes "db_sorted db"
  shows "get_pci_device_name db vendor device = db_lookup db vendor device"
  unfolding get_pci_device_name_def by (rule db_search_lookup [OF assms]) auto

theorem name_search_correct_witness:
  "get_pci_device_name [(0x0014, 0x7A00, ''bridge''), (0x8086, 0x100E, ''e1000''), (0x8086, 0x2922, ''ahci'')]
     0x8086 0x2922 = ''ahci''"
  by (subst name_search_correct) (simp_all add: db_sorted_def db_key_def)

text \<open>
  C20 (functional, PCI). The scan lists exactly the functions of bus 0 that answer, device by
  device: none of a device whose function 0 is absent, only function 0 of one that does not say
  it has several, and all the present ones otherwise; each with the identity, the class and
  the interrupt line of its own configuration space. The table always has room.
\<close>

theorem pci_scan_lists_functions:
  "device_list (vray_init db s) = map (entry_at db (config s))
     (concat (map (\<lambda>d. map (Pair d) (functions_of (config s) d)) (map of_nat [0 ..< 32])))"
  using scan_devices_list [of "s\<lparr>dev_count := 0\<rparr>" 32 0 db]
  by (simp add: vray_init_def device_list_def MAX_PCI_DEVICES_def)

end
