(* ===== verification/Ahci.thy ===== *)
theory Ahci
  imports Pci Mm
begin

text \<open>
  The SATA driver \<^verbatim>\<open>drivers/ahci.c\<close>. The registers are volatile and belong to the controller:
  read number \<open>n\<close> of the register at address \<open>a\<close> gives \<open>regs_in n a\<close>, writes are a trace. The
  command list, the command table and the frames they come from are bytes of memory. The
  transfer itself is the controller's work and not part of the model.
\<close>

subsection \<open>State\<close>

record ahci = pci +
  regs_in :: "nat \<Rightarrow> u64 \<Rightarrow> u32"
  n_regs :: nat
  reg_writes :: "(u64 \<times> u32) list"
  dma_mem :: "u64 \<Rightarrow> u8"
  frames :: mm
  g_abar :: u64
  g_ahci_initialized :: bool
  g_ahci_port :: int

definition reg_read :: "u64 \<Rightarrow> 'a ahci_scheme \<Rightarrow> u32 \<times> 'a ahci_scheme" where
  "reg_read a s = (regs_in s (n_regs s) a, s\<lparr>n_regs := Suc (n_regs s)\<rparr>)"

definition reg_write :: "u64 \<Rightarrow> u32 \<Rightarrow> 'a ahci_scheme \<Rightarrow> 'a ahci_scheme" where
  "reg_write a v s = s\<lparr>reg_writes := reg_writes s @ [(a, v)]\<rparr>"

text \<open>Offsets in \<open>ahci_hba_port_t\<close>.\<close>

definition PORT_CLB :: u64 where "PORT_CLB = 0x00"
definition PORT_CLBU :: u64 where "PORT_CLBU = 0x04"
definition PORT_FB :: u64 where "PORT_FB = 0x08"
definition PORT_FBU :: u64 where "PORT_FBU = 0x0C"
definition PORT_IS :: u64 where "PORT_IS = 0x10"
definition PORT_CMD :: u64 where "PORT_CMD = 0x18"
definition PORT_TFD :: u64 where "PORT_TFD = 0x20"
definition PORT_SIG :: u64 where "PORT_SIG = 0x24"
definition PORT_SSTS :: u64 where "PORT_SSTS = 0x28"
definition PORT_SACT :: u64 where "PORT_SACT = 0x34"
definition PORT_CI :: u64 where "PORT_CI = 0x38"

text \<open>Little-endian stores.\<close>

definition poke8 :: "u64 \<Rightarrow> u8 \<Rightarrow> 'a ahci_scheme \<Rightarrow> 'a ahci_scheme" where
  "poke8 a b s = s\<lparr>dma_mem := (dma_mem s)(a := b)\<rparr>"

definition poke16 :: "u64 \<Rightarrow> u16 \<Rightarrow> 'a ahci_scheme \<Rightarrow> 'a ahci_scheme" where
  "poke16 a w s = poke8 (a + 1) (ucast (drop_bit 8 w)) (poke8 a (ucast w) s)"

definition poke32 :: "u64 \<Rightarrow> u32 \<Rightarrow> 'a ahci_scheme \<Rightarrow> 'a ahci_scheme" where
  "poke32 a w s = poke16 (a + 2) (ucast (drop_bit 16 w)) (poke16 a (ucast w) s)"

definition peek32 :: "u64 \<Rightarrow> 'a ahci_scheme \<Rightarrow> u32" where
  "peek32 a s = ucast (dma_mem s a) OR push_bit 8 (ucast (dma_mem s (a + 1))) OR
     push_bit 16 (ucast (dma_mem s (a + 2))) OR push_bit 24 (ucast (dma_mem s (a + 3)))"

definition memset_zero :: "u64 \<Rightarrow> nat \<Rightarrow> 'a ahci_scheme \<Rightarrow> 'a ahci_scheme" where
  "memset_zero a n s = s\<lparr>dma_mem := (\<lambda>x. if unat (x - a) < n then 0 else dma_mem s x)\<rparr>"

subsection \<open>Ports\<close>

datatype ahci_dev = AHCI_DEV_NULL | AHCI_DEV_SATA | AHCI_DEV_SATAPI | AHCI_DEV_SEMB | AHCI_DEV_PM

definition check_type :: "u64 \<Rightarrow> 'a ahci_scheme \<Rightarrow> ahci_dev \<times> 'a ahci_scheme" where
  "check_type port s =
     (let (ssts, s1) = reg_read (port + PORT_SSTS) s
      in if ssts AND 0xF \<noteq> 3 \<or> drop_bit 8 ssts AND 0xF \<noteq> 1 then (AHCI_DEV_NULL, s1)
         else let (sig, s2) = reg_read (port + PORT_SIG) s1
              in (if sig = 0xEB140101 then AHCI_DEV_SATAPI
                  else if sig = 0xC33C0101 then AHCI_DEV_SEMB
                  else if sig = 0x96690101 then AHCI_DEV_PM
                  else AHCI_DEV_SATA, s2))"

text \<open>Read, change and write back the command register.\<close>

definition change_cmd :: "(u32 \<Rightarrow> u32) \<Rightarrow> u64 \<Rightarrow> 'a ahci_scheme \<Rightarrow> 'a ahci_scheme" where
  "change_cmd f port s =
     (let (v, s1) = reg_read (port + PORT_CMD) s in reg_write (port + PORT_CMD) (f v) s1)"

fun stop_wait :: "u64 \<Rightarrow> nat \<Rightarrow> 'a ahci_scheme \<Rightarrow> 'a ahci_scheme" where
  "stop_wait port n s =
     (if n = 0 then s
      else let (c1, s1) = reg_read (port + PORT_CMD) s
           in if c1 AND 0x4000 \<noteq> 0 then stop_wait port (n - 1) s1
              else let (c2, s2) = reg_read (port + PORT_CMD) s1
                   in if c2 AND 0x8000 = 0 then s2 else stop_wait port (n - 1) s2)"

declare stop_wait.simps [simp del]

definition port_stop_cmd :: "u64 \<Rightarrow> 'a ahci_scheme \<Rightarrow> 'a ahci_scheme" where
  "port_stop_cmd port s =
     stop_wait port 100000 (change_cmd (\<lambda>v. v AND NOT 0x10) port (change_cmd (\<lambda>v. v AND NOT 1) port s))"

fun start_wait :: "u64 \<Rightarrow> nat \<Rightarrow> 'a ahci_scheme \<Rightarrow> 'a ahci_scheme" where
  "start_wait port n s =
     (let (c, s1) = reg_read (port + PORT_CMD) s
      in if c AND 0x8000 \<noteq> 0 \<and> 0 < n then start_wait port (n - 1) s1 else s1)"

declare start_wait.simps [simp del]

definition port_start_cmd :: "u64 \<Rightarrow> 'a ahci_scheme \<Rightarrow> 'a ahci_scheme" where
  "port_start_cmd port s =
     change_cmd (\<lambda>v. v OR 1) port (change_cmd (\<lambda>v. v OR 0x10) port (start_wait port 100000 s))"

fun free_slot_from :: "u32 \<Rightarrow> nat \<Rightarrow> nat \<Rightarrow> int" where
  "free_slot_from slots i 0 = -1"
| "free_slot_from slots i (Suc n) =
     (if slots AND push_bit i 1 = 0 then int i else free_slot_from slots (Suc i) n)"

definition find_cmdslot :: "u64 \<Rightarrow> 'a ahci_scheme \<Rightarrow> int \<times> 'a ahci_scheme" where
  "find_cmdslot port s =
     (let (sact, s1) = reg_read (port + PORT_SACT) s; (ci, s2) = reg_read (port + PORT_CI) s1
      in (free_slot_from (sact OR ci) 0 32, s2))"

subsection \<open>Commands\<close>

definition FIS_TYPE_REG_H2D :: u8 where "FIS_TYPE_REG_H2D = 0x27"
definition ATA_CMD_READ_DMA_EX :: u8 where "ATA_CMD_READ_DMA_EX = 0x25"
definition ATA_CMD_WRITE_DMA_EX :: u8 where "ATA_CMD_WRITE_DMA_EX = 0x35"

text \<open>The header of the slot: length of the frame in words, direction, one region.\<close>

definition fill_header :: "u64 \<Rightarrow> bool \<Rightarrow> 'a ahci_scheme \<Rightarrow> 'a ahci_scheme" where
  "fill_header hdr w s =
     (let b = (dma_mem s hdr AND NOT 0x1F) OR 5;
          b1 = (b AND NOT 0x40) OR (if w then 0x40 else 0)
      in poke16 (hdr + 2) 1 (poke8 hdr b1 s))"

text \<open>The command table: one region of memory and the register frame.\<close>

definition fill_table :: "u64 \<Rightarrow> u8 \<Rightarrow> u64 \<Rightarrow> u32 \<Rightarrow> u64 \<Rightarrow> 'a ahci_scheme \<Rightarrow> 'a ahci_scheme" where
  "fill_table tbl command lba count buffer s =
     (let s1 = memset_zero tbl 144 s;
          s2 = poke32 (tbl + 132) (ucast (drop_bit 32 buffer)) (poke32 (tbl + 128) (ucast buffer) s1);
          s3 = poke32 (tbl + 140) ((count * 512 - 1) AND 0x3FFFFF) s2;
          s4 = poke8 (tbl + 2) command (poke8 (tbl + 1) 0x80 (poke8 tbl FIS_TYPE_REG_H2D s3));
          s5 = poke8 (tbl + 6) (ucast (drop_bit 16 lba)) (poke8 (tbl + 5) (ucast (drop_bit 8 lba))
                 (poke8 (tbl + 4) (ucast lba) s4));
          s6 = poke8 (tbl + 10) (ucast (drop_bit 40 lba)) (poke8 (tbl + 9) (ucast (drop_bit 32 lba))
                 (poke8 (tbl + 8) (ucast (drop_bit 24 lba)) s5))
      in poke16 (tbl + 12) (ucast count) (poke8 (tbl + 7) 0x40 s6))"

text \<open>Waiting for the port; the counter after the loop decides whether it counts as hung.\<close>

function ready_wait :: "u64 \<Rightarrow> int \<Rightarrow> 'a ahci_scheme \<Rightarrow> int \<times> 'a ahci_scheme" where
  "ready_wait port timeout s =
     (let (tfd, s1) = reg_read (port + PORT_TFD) s
      in if tfd AND 0x88 = 0 then (timeout, s1)
         else if 0 < timeout then ready_wait port (timeout - 1) s1 else (timeout - 1, s1))"
  by pat_completeness auto

termination
  by (relation "measure (\<lambda>(port, timeout, s). nat timeout)") auto

declare ready_wait.simps [simp del]

text \<open>Waiting for the command: \<open>None\<close> on an error of the device, else the counter.\<close>

function done_wait :: "u64 \<Rightarrow> nat \<Rightarrow> int \<Rightarrow> 'a ahci_scheme \<Rightarrow> int option \<times> 'a ahci_scheme" where
  "done_wait port slot timeout s =
     (if 0 < timeout then
        let (ci, s1) = reg_read (port + PORT_CI) s
        in if ci AND push_bit slot 1 = 0 then (Some (timeout - 1), s1)
           else let (is, s2) = reg_read (port + PORT_IS) s1
                in if is AND push_bit 30 1 \<noteq> 0 then (None, s2) else done_wait port slot (timeout - 1) s2
      else (Some (timeout - 1), s))"
  by pat_completeness auto

termination
  by (relation "measure (\<lambda>(port, slot, timeout, s). nat timeout)") auto

declare done_wait.simps [simp del]

text \<open>From the command issue on.\<close>

definition issue_command :: "u64 \<Rightarrow> nat \<Rightarrow> 'a ahci_scheme \<Rightarrow> int \<times> 'a ahci_scheme" where
  "issue_command port slot s =
     (case done_wait port slot 1000000 (reg_write (port + PORT_CI) (push_bit slot 1) s) of
        (None, s1) \<Rightarrow> (-1, s1)
      | (Some timeout, s1) \<Rightarrow>
          if timeout = 0 then (-1, s1)
          else let (is, s2) = reg_read (port + PORT_IS) s1
               in (if is AND push_bit 30 1 \<noteq> 0 then -1 else 0, s2))"

definition port_command :: "bool \<Rightarrow> u8 \<Rightarrow> u64 \<Rightarrow> u64 \<Rightarrow> u32 \<Rightarrow> u64 \<Rightarrow> 'a ahci_scheme \<Rightarrow> int \<times> 'a ahci_scheme" where
  "port_command w command port lba count buffer s =
     (let (slot, s1) = find_cmdslot port (reg_write (port + PORT_IS) (- 1) s)
      in if slot = -1 then (-1, s1)
         else
           let (clb, s2) = reg_read (port + PORT_CLB) s1;
               hdr = ucast clb + 32 * of_int slot;
               s3 = fill_header hdr w s2;
               s4 = fill_table (ucast (peek32 (hdr + 8) s3)) command lba count buffer s3;
               (timeout, s5) = ready_wait port 100000 s4
           in if timeout = 0 then (-1, s5) else issue_command port (nat slot) s5)"

definition port_read :: "u64 \<Rightarrow> u64 \<Rightarrow> u32 \<Rightarrow> u64 \<Rightarrow> 'a ahci_scheme \<Rightarrow> int \<times> 'a ahci_scheme" where
  "port_read port lba count buffer s = port_command False ATA_CMD_READ_DMA_EX port lba count buffer s"

definition port_write :: "u64 \<Rightarrow> u64 \<Rightarrow> u32 \<Rightarrow> u64 \<Rightarrow> 'a ahci_scheme \<Rightarrow> int \<times> 'a ahci_scheme" where
  "port_write port lba count buffer s = port_command True ATA_CMD_WRITE_DMA_EX port lba count buffer s"

subsection \<open>Initialisation\<close>

definition take_frame :: "'a ahci_scheme \<Rightarrow> u64 \<times> 'a ahci_scheme" where
  "take_frame s = (let (p, m) = pfa_alloc (frames s) in (p, s\<lparr>frames := m\<rparr>))"

text \<open>Memory for the first drive's port; false when a frame is missing.\<close>

definition setup_port :: "u64 \<Rightarrow> 'a ahci_scheme \<Rightarrow> bool \<times> 'a ahci_scheme" where
  "setup_port port s =
     (let (cmd_list, s1) = take_frame (port_stop_cmd port s)
      in if cmd_list = 0 then (False, s1)
         else let (fis, s2) = take_frame (memset_zero cmd_list 4096 s1)
              in if fis = 0 then (False, s2)
                 else let (cmd_table, s3) = take_frame (memset_zero fis 4096 s2)
                      in if cmd_table = 0 then (False, s3)
                         else
                           let s4 = memset_zero cmd_table 4096 s3;
                               s5 = reg_write (port + PORT_CLBU) (ucast (drop_bit 32 cmd_list))
                                      (reg_write (port + PORT_CLB) (ucast cmd_list) s4);
                               s6 = reg_write (port + PORT_FBU) (ucast (drop_bit 32 fis))
                                      (reg_write (port + PORT_FB) (ucast fis) s5);
                               s7 = poke32 (cmd_list + 12) (ucast (drop_bit 32 cmd_table))
                                      (poke32 (cmd_list + 8) (ucast cmd_table) s6)
                           in (True, port_start_cmd port s7))"

definition port_addr :: "u64 \<Rightarrow> int \<Rightarrow> u64" where
  "port_addr abar i = abar + 0x100 + of_int i * 0x80"

fun probe_ports :: "u32 \<Rightarrow> nat \<Rightarrow> nat \<Rightarrow> 'a ahci_scheme \<Rightarrow> bool \<times> 'a ahci_scheme" where
  "probe_ports pi i 0 s = (True, s)"
| "probe_ports pi i (Suc n) s =
     (if drop_bit i pi AND 1 = 0 then probe_ports pi (Suc i) n s
      else
        let port = port_addr (g_abar s) (int i); (dt, s1) = check_type port s
        in if dt = AHCI_DEV_SATA \<and> g_ahci_port s1 = -1 then
             (let (ok, s2) = setup_port port (s1\<lparr>g_ahci_port := int i\<rparr>)
              in if ok then probe_ports pi (Suc i) n s2 else (False, s2))
           else probe_ports pi (Suc i) n s1)"

definition ahci_init :: "'a ahci_scheme \<Rightarrow> int \<times> 'a ahci_scheme" where
  "ahci_init s =
     (let idx = vray_find_first_by_class 0x01 0x06 s
      in if idx < 0 then (-1, s)
         else
           let dev = vray_devices s (nat idx);
               (lo, s1) = vray_cfg_read (bus dev) (dev_no dev) (func_no dev) 0x24 s;
               (hi, s2) = vray_cfg_read (bus dev) (dev_no dev) (func_no dev) 0x28 s1;
               s3 = s2\<lparr>g_abar := ucast (lo AND 0xFFFFFFF0) OR push_bit 32 (ucast hi)\<rparr>;
               (_, s4) = reg_read (g_abar s3 + 0x10) s3;
               (_, s5) = reg_read (g_abar s4 + 0x0C) s4;
               (pi, s6) = reg_read (g_abar s5 + 0x0C) s5;
               (ok, s7) = probe_ports pi 0 32 s6
           in if \<not> ok \<or> g_ahci_port s7 = -1 then (-1, s7)
              else (0, s7\<lparr>g_ahci_initialized := True\<rparr>))"

definition ahci_read_sectors :: "u64 \<Rightarrow> u32 \<Rightarrow> u64 \<Rightarrow> 'a ahci_scheme \<Rightarrow> int \<times> 'a ahci_scheme" where
  "ahci_read_sectors lba count buffer s =
     (if \<not> g_ahci_initialized s \<or> g_ahci_port s = -1 then (-1, s)
      else port_read (port_addr (g_abar s) (g_ahci_port s)) lba count buffer s)"

definition ahci_write_sectors :: "u64 \<Rightarrow> u32 \<Rightarrow> u64 \<Rightarrow> 'a ahci_scheme \<Rightarrow> int \<times> 'a ahci_scheme" where
  "ahci_write_sectors lba count buffer s =
     (if \<not> g_ahci_initialized s \<or> g_ahci_port s = -1 then (-1, s)
      else port_write (port_addr (g_abar s) (g_ahci_port s)) lba count buffer s)"

definition ahci_get_port_count :: "'a ahci_scheme \<Rightarrow> int" where
  "ahci_get_port_count s =
     (if \<not> g_ahci_initialized s then 0 else if 0 \<le> g_ahci_port s then 1 else 0)"

definition ahci_is_initialized :: "'a ahci_scheme \<Rightarrow> bool" where
  "ahci_is_initialized s = g_ahci_initialized s"


subsection \<open>What the waits leave alone\<close>

lemma reg_read_simps [simp]:
  "fst (reg_read a s) = regs_in s (n_regs s) a"
  "dma_mem (snd (reg_read a s)) = dma_mem s" "regs_in (snd (reg_read a s)) = regs_in s"
  "n_regs (snd (reg_read a s)) = Suc (n_regs s)"
  by (simp_all add: reg_read_def)

lemma reg_write_simps [simp]:
  "dma_mem (reg_write a v s) = dma_mem s" "regs_in (reg_write a v s) = regs_in s"
  "n_regs (reg_write a v s) = n_regs s"
  by (simp_all add: reg_write_def)

lemma poke_regs [simp]:
  "regs_in (poke8 a b s) = regs_in s" "n_regs (poke8 a b s) = n_regs s"
  "regs_in (poke16 a c s) = regs_in s" "n_regs (poke16 a c s) = n_regs s"
  "regs_in (poke32 a d s) = regs_in s" "n_regs (poke32 a d s) = n_regs s"
  "regs_in (memset_zero a n s) = regs_in s" "n_regs (memset_zero a n s) = n_regs s"
  by (simp_all add: poke8_def poke16_def poke32_def memset_zero_def)

lemma fill_regs [simp]:
  "regs_in (fill_header hdr w s) = regs_in s" "n_regs (fill_header hdr w s) = n_regs s"
  "regs_in (fill_table tbl c lba n b s) = regs_in s" "n_regs (fill_table tbl c lba n b s) = n_regs s"
  by (simp_all add: fill_header_def fill_table_def Let_def)

lemma ready_wait_mem [frame]: "dma_mem (snd (ready_wait port t s)) = dma_mem s"
  by (induction port t s rule: ready_wait.induct)
    (subst ready_wait.simps, simp add: Let_def split_beta reg_read_def)

lemma done_wait_mem [frame]: "dma_mem (snd (done_wait port slot t s)) = dma_mem s"
  by (induction port slot t s rule: done_wait.induct)
    (subst done_wait.simps, simp add: Let_def split_beta reg_read_def)

lemma issue_command_mem [frame]: "dma_mem (snd (issue_command port slot s)) = dma_mem s"
  using done_wait_mem [of port slot 1000000 "reg_write (port + PORT_CI) (push_bit slot 1) s"]
  by (auto simp: issue_command_def Let_def split_beta split: option.splits)

lemma find_cmdslot_simps [simp]:
  "fst (find_cmdslot port s) = free_slot_from
     (regs_in s (n_regs s) (port + PORT_SACT) OR regs_in s (Suc (n_regs s)) (port + PORT_CI)) 0 32"
  "dma_mem (snd (find_cmdslot port s)) = dma_mem s" "regs_in (snd (find_cmdslot port s)) = regs_in s"
  "n_regs (snd (find_cmdslot port s)) = Suc (Suc (n_regs s))"
  by (simp_all add: find_cmdslot_def Let_def split_beta)

text \<open>The slot is the least one whose bit is clear.\<close>

lemma free_slot_from_least:
  assumes "free_slot_from slots i n = int j"
  shows "is_least (\<lambda>k. slots AND push_bit k 1 = 0) i j \<and> j < i + n"
  using assms
proof (induction slots i n rule: free_slot_from.induct)
  case (2 slots i n)
  then show ?case by (auto intro: is_least_start is_least_step split: if_splits)
qed simp

lemma free_slot_from_none: "free_slot_from slots i n = -1 \<longleftrightarrow> (\<forall>k. i \<le> k \<longrightarrow> k < i + n \<longrightarrow> slots AND push_bit k 1 \<noteq> 0)"
proof (induction slots i n rule: free_slot_from.induct)
  case (2 slots i n)
  show ?case
  proof (cases "slots AND push_bit i 1 = 0")
    case True
    then show ?thesis by (auto intro!: exI [of _ i])
  next
    case False
    have "(i \<le> k \<and> k < i + Suc n) \<longleftrightarrow> k = i \<or> (Suc i \<le> k \<and> k < Suc i + n)" for k by auto
    then show ?thesis using 2 False by (simp, metis)
  qed
qed simp

text \<open>Waiting for bits that never change ends with the counter at minus one.\<close>

lemma done_wait_stuck:
  assumes "\<And>n. n_regs s \<le> n \<Longrightarrow> regs_in s n (port + PORT_CI) AND push_bit slot 1 \<noteq> 0"
    and "\<And>n. regs_in s n (port + PORT_IS) AND push_bit 30 1 = 0"
  shows "\<exists>s'. done_wait port slot (int k) s = (Some (-1), s') \<and> regs_in s' = regs_in s"
  using assms
proof (induction k arbitrary: s)
  case 0
  then show ?case by (subst done_wait.simps) simp
next
  case (Suc k)
  let ?s = "snd (reg_read (port + PORT_IS) (snd (reg_read (port + PORT_CI) s)))"
  have "\<exists>s'. done_wait port slot (int k) ?s = (Some (-1), s') \<and> regs_in s' = regs_in ?s"
    by (rule Suc.IH) (use Suc.prems in simp_all)
  then show ?case using Suc.prems
    by (subst done_wait.simps) (simp add: Let_def split_beta)
qed

lemma ready_wait_regs [frame]: "regs_in (snd (ready_wait port t s)) = regs_in s"
  by (induction port t s rule: ready_wait.induct)
    (subst ready_wait.simps, simp add: Let_def split_beta reg_read_def)

lemma ready_wait_n_regs: "n_regs s \<le> n_regs (snd (ready_wait port t s))"
proof (induction port t s rule: ready_wait.induct)
  case (1 port t s)
  let ?s = "snd (reg_read (port + PORT_TFD) s)"
  have "regs_in s (n_regs s) (port + PORT_TFD) AND 0x88 \<noteq> 0 \<Longrightarrow> 0 < t \<Longrightarrow>
      n_regs ?s \<le> n_regs (snd (ready_wait port (t - 1) ?s))"
    using 1 by (simp add: reg_read_def)
  then show ?case by (subst ready_wait.simps) (auto simp: Let_def split_beta)
qed

lemma ready_wait_busy:
  assumes "\<And>n. regs_in s n (port + PORT_TFD) AND 0x88 \<noteq> 0"
  shows "fst (ready_wait port (int k) s) = -1"
  using assms
proof (induction k arbitrary: s)
  case 0
  then show ?case by (subst ready_wait.simps) (simp add: Let_def split_beta)
next
  case (Suc k)
  have "fst (ready_wait port (int k) (snd (reg_read (port + PORT_TFD) s))) = -1"
    by (rule Suc.IH) (use Suc.prems in simp)
  then show ?case using Suc.prems
    by (subst ready_wait.simps) (simp add: Let_def split_beta)
qed

subsection \<open>What the controller reads\<close>

text \<open>The fields of a command table, as the controller decodes them.\<close>

definition table_byte :: "(u64 \<Rightarrow> u8) \<Rightarrow> u64 \<Rightarrow> u64 \<Rightarrow> u64" where
  "table_byte m tbl i = ucast (m (tbl + i))"

definition table_lba :: "(u64 \<Rightarrow> u8) \<Rightarrow> u64 \<Rightarrow> u64" where
  "table_lba m t = table_byte m t 4 OR push_bit 8 (table_byte m t 5) OR push_bit 16 (table_byte m t 6) OR
     push_bit 24 (table_byte m t 8) OR push_bit 32 (table_byte m t 9) OR push_bit 40 (table_byte m t 10)"

definition table_count :: "(u64 \<Rightarrow> u8) \<Rightarrow> u64 \<Rightarrow> u64" where
  "table_count m t = table_byte m t 12 OR push_bit 8 (table_byte m t 13)"

definition table_word :: "(u64 \<Rightarrow> u8) \<Rightarrow> u64 \<Rightarrow> u64 \<Rightarrow> u64" where
  "table_word m t i = table_byte m t i OR push_bit 8 (table_byte m t (i + 1)) OR
     push_bit 16 (table_byte m t (i + 2)) OR push_bit 24 (table_byte m t (i + 3))"

definition table_buffer :: "(u64 \<Rightarrow> u8) \<Rightarrow> u64 \<Rightarrow> u64" where
  "table_buffer m t = table_word m t 128 OR push_bit 32 (table_word m t 132)"

definition table_bytes :: "(u64 \<Rightarrow> u8) \<Rightarrow> u64 \<Rightarrow> u64" where
  "table_bytes m t = (table_word m t 140 AND 0x3FFFFF) + 1"

lemmas table_defs = table_byte_def table_lba_def table_count_def table_word_def table_buffer_def table_bytes_def

lemma u32_bytes:
  "ucast (ucast w :: u16) = (ucast w :: u8)"
  "ucast (drop_bit 8 (ucast w :: u16)) = (ucast (drop_bit 8 w) :: u8)"
  "ucast (ucast (drop_bit 16 w) :: u16) = (ucast (drop_bit 16 w) :: u8)"
  "ucast (drop_bit 8 (ucast (drop_bit 16 w) :: u16)) = (ucast (drop_bit 24 w) :: u8)"
  for w :: u32
  by (rule bit_word_eqI, auto simp: bit_simps)+

lemma poke_mem:
  "dma_mem (poke8 a b s) = (dma_mem s)(a := b)"
  "dma_mem (poke16 a c s) = (dma_mem s)(a := ucast c, a + 1 := ucast (drop_bit 8 c))"
  "dma_mem (poke32 a w s) = (dma_mem s)(a := ucast w, a + 1 := ucast (drop_bit 8 w),
     a + 2 := ucast (drop_bit 16 w), a + 3 := ucast (drop_bit 24 w))"
  by (simp_all add: poke8_def poke16_def poke32_def u32_bytes add.assoc)

lemma bytes_join:
  "ucast (ucast w :: u8) OR push_bit 8 (ucast (ucast (drop_bit 8 w) :: u8)) OR
     push_bit 16 (ucast (ucast (drop_bit 16 w) :: u8)) OR
     push_bit 24 (ucast (ucast (drop_bit 24 w) :: u8)) = (ucast w :: u64)" (is "?l = ?r") for w :: u32
proof (rule bit_word_eqI)
  fix k assume "k < LENGTH(64)"
  have "bit w k \<Longrightarrow> k < 32" using bit_imp_le_length [of w k] by simp
  then consider "k < 8" | "8 \<le> k" "k < 16" | "16 \<le> k" "k < 24" | "24 \<le> k" "k < 32" | "32 \<le> k" "\<not> bit w k"
    by (meson not_le)
  then show "bit ?l k = bit ?r k" using \<open>k < LENGTH(64)\<close> by cases (auto simp: bit_simps)
qed

lemma table_word_poke: "table_word (dma_mem (poke32 (t + i) w s)) t i = ucast w"
  by (simp add: table_word_def table_byte_def poke_mem add.assoc bytes_join)

lemma halves_join: "ucast (ucast c :: u8) OR push_bit 8 (ucast (ucast (drop_bit 8 c) :: u8)) = (ucast c :: u64)"
  for c :: u16
  by (rule bit_word_eqI) (auto simp: bit_simps dest: bit_imp_le_length)

lemma pair_join: "ucast (ucast b :: u32) OR push_bit 32 (ucast (ucast (drop_bit 32 b) :: u32)) = b" for b :: u64
  by (rule bit_word_eqI) (auto simp: bit_simps)

lemma fill_table_decodes:
  assumes "m = dma_mem (fill_table t c lba n b s)"
  shows "table_word m t 128 = ucast (ucast b :: u32)"
    and "table_word m t 132 = ucast (ucast (drop_bit 32 b) :: u32)"
    and "table_word m t 140 = ucast ((n * 512 - 1) AND 0x3FFFFF)"
    and "table_count m t = ucast (ucast n :: u16)"
    and "m t = 0x27" and "m (t + 1) = 0x80" and "m (t + 2) = c" and "m (t + 7) = 0x40"
  unfolding assms
  by (simp_all add: fill_table_def Let_def poke_mem table_word_def table_count_def table_byte_def add.assoc
    memset_zero_def FIS_TYPE_REG_H2D_def bytes_join halves_join
    del: drop_bit_and)

lemma sectors_of_count:
  fixes n :: u32
  assumes "0 < n" and "n \<le> 8192"
  shows "ucast ((n * 512 - 1) AND 0x3FFFFF) + 1 = (512 * ucast n :: u64)"
proof -
  have n: "0 < unat n" "unat n \<le> 8192" using assms by (simp_all add: word_less_nat_alt word_le_nat_alt)
  then have m: "unat (n * 512 - 1) = unat n * 512 - 1"
    by (subst unat_minus_one) (simp_all add: unat_word_ariths word_unat_eq_iff)
  have "unat ((n * 512 - 1) AND mask 22) = unat n * 512 - 1"
    using n by (simp add: m flip: take_bit_eq_mask) (simp add: unsigned_take_bit_eq m take_bit_nat_eq_self)
  then have u: "unat ((n * 512 - 1) AND 0x3FFFFF) = unat n * 512 - 1" by (simp add: mask_eq_decr_exp)
  have "take_bit 64 (unat n) = unat n" "take_bit 64 (unat n * 512 - 1) = unat n * 512 - 1"
    using n by (simp_all add: take_bit_nat_eq_self_iff)
  then show ?thesis using n by (simp add: word_unat_eq_iff unat_word_ariths unsigned_ucast_eq u)
qed

lemma lba_join:
  fixes l :: u64
  assumes "l < 2 ^ 48"
  shows "ucast (ucast l :: u8) OR push_bit 8 (ucast (ucast (drop_bit 8 l) :: u8)) OR
     push_bit 16 (ucast (ucast (drop_bit 16 l) :: u8)) OR push_bit 24 (ucast (ucast (drop_bit 24 l) :: u8)) OR
     push_bit 32 (ucast (ucast (drop_bit 32 l) :: u8)) OR push_bit 40 (ucast (ucast (drop_bit 40 l) :: u8)) = l"
    (is "?l = l")
proof (rule bit_word_eqI)
  fix k assume k: "k < LENGTH(64)"
  have "take_bit 48 l = l"
    using assms by (simp add: word_unat_eq_iff unsigned_take_bit_eq word_less_nat_alt take_bit_nat_eq_self_iff)
  then have "\<not> bit l k" if "48 \<le> k" for k using that by (metis bit_take_bit_iff not_less)
  then consider "k < 8" | "8 \<le> k" "k < 16" | "16 \<le> k" "k < 24" | "24 \<le> k" "k < 32"
    | "32 \<le> k" "k < 40" | "40 \<le> k" "k < 48" | "48 \<le> k" "\<not> bit l k"
    by (meson not_le)
  then show "bit ?l k = bit l k" using k by cases (auto simp: bit_simps)
qed

lemma mask22_twice: "(ucast (y AND 0x3FFFFF) :: u64) AND 0x3FFFFF = ucast (y AND 0x3FFFFF)" for y :: u32
proof -
  have "(0x3FFFFF :: u32) = mask 22" and "(0x3FFFFF :: u64) = mask 22" by (simp_all add: mask_eq_decr_exp)
  then show ?thesis by (simp only:) (rule bit_word_eqI, auto simp: bit_simps)
qed

lemma fill_table_fields:
  assumes "m = dma_mem (fill_table t c lba n b s)" and "lba < 2 ^ 48" and "0 < n" and "n \<le> 8192"
  shows "table_lba m t = lba \<and> table_count m t = ucast n \<and> table_bytes m t = 512 * ucast n \<and> table_buffer m t = b"
proof (intro conjI)
  show "table_lba m t = lba" using lba_join [OF assms(2)]
    by (simp add: assms(1) fill_table_def Let_def poke_mem table_lba_def table_byte_def add.assoc)
  have "unat n < 2 ^ 16" using assms(4) by (simp add: word_le_nat_alt)
  then have "take_bit 16 n = n"
    by (simp add: word_unat_eq_iff unsigned_take_bit_eq take_bit_nat_eq_self_iff)
  moreover have "ucast (ucast n :: u16) = (ucast (take_bit 16 n) :: u64)"
    by (rule bit_word_eqI) (auto simp: bit_simps dest: bit_imp_le_length)
  ultimately show "table_count m t = ucast n"
    by (simp add: fill_table_decodes(4) [OF assms(1)])
  have "(ucast ((n * 512 - 1) AND 0x3FFFFF) :: u64) AND 0x3FFFFF = ucast ((n * 512 - 1) AND 0x3FFFFF)"
    by (rule mask22_twice)
  then show "table_bytes m t = 512 * ucast n" using sectors_of_count [OF assms(3,4)]
    by (simp only: table_bytes_def fill_table_decodes(3) [OF assms(1)])
  show "table_buffer m t = b"
    by (simp add: table_buffer_def fill_table_decodes [OF assms(1)] pair_join)
qed

text \<open>The address of the table is read after the header is written; the two do not overlap.\<close>

lemma peek_after_header [simp]: "peek32 (hdr + 8) (fill_header hdr w s) = peek32 (hdr + 8) s"
  by (simp add: peek32_def fill_header_def Let_def poke_mem add.assoc)

lemma peek_frame: "dma_mem s = dma_mem s' \<Longrightarrow> peek32 a s = peek32 a s'"
  by (simp add: peek32_def)

text \<open>The slot, the header and the table a command uses.\<close>

definition command_slot :: "u64 \<Rightarrow> 'a ahci_scheme \<Rightarrow> int" where
  "command_slot port s = free_slot_from
     (regs_in s (n_regs s) (port + PORT_SACT) OR regs_in s (n_regs s + 1) (port + PORT_CI)) 0 32"

definition command_table :: "u64 \<Rightarrow> 'a ahci_scheme \<Rightarrow> u64" where
  "command_table port s = ucast (peek32
     (ucast (regs_in s (n_regs s + 2) (port + PORT_CLB)) + 32 * of_int (command_slot port s) + 8) s)"

lemma port_command_mem:
  fixes s :: "'a ahci_scheme"
  assumes "command_slot port s \<noteq> -1"
  shows "\<exists>s'. dma_mem (snd (port_command w c port lba n b s)) = dma_mem (fill_table (command_table port s) c lba n b (s' :: 'a ahci_scheme))"
proof -
  let ?s = "snd (find_cmdslot port (reg_write (port + PORT_IS) (- 1) s))"
  let ?s2 = "snd (reg_read (port + PORT_CLB) ?s)"
  let ?h = "ucast (regs_in s (n_regs s + 2) (port + PORT_CLB)) + 32 * of_int (command_slot port s) :: u64"
  let ?s3 = "fill_header ?h w ?s2"
  have "command_table port s = ucast (peek32 (?h + 8) ?s3)"
    unfolding command_table_def peek_after_header by (intro arg_cong [where f = ucast] peek_frame) simp
  with assms have "dma_mem (snd (port_command w c port lba n b s)) =
      dma_mem (fill_table (command_table port s) c lba n b ?s3)"
    by (simp add: port_command_def Let_def split_beta command_slot_def ready_wait_mem issue_command_mem)
  then show ?thesis by blast
qed

text \<open>A command that neither ends nor fails, on a port that stays busy.\<close>

lemma issue_command_stuck:
  assumes "\<And>n. n_regs s \<le> n \<Longrightarrow> regs_in s n (port + PORT_CI) AND push_bit slot 1 \<noteq> 0"
    and "\<And>n. regs_in s n (port + PORT_IS) AND push_bit 30 1 = 0"
  shows "fst (issue_command port slot s) = 0"
proof -
  let ?s = "reg_write (port + PORT_CI) (push_bit slot 1) s"
  obtain s' where d: "done_wait port slot (int 1000000) ?s = (Some (-1), s')" and "regs_in s' = regs_in ?s"
    using done_wait_stuck [of ?s port slot 1000000] assms by auto
  moreover have "done_wait port slot 1000000 ?s = (Some (-1), s')" using d by simp
  ultimately show ?thesis using assms(2) by (simp add: issue_command_def Let_def split_beta)
qed

lemma port_command_stuck:
  assumes slot: "command_slot port s = int slot"
    and "\<And>n. n_regs s + 2 \<le> n \<Longrightarrow> regs_in s n (port + PORT_CI) AND push_bit slot 1 \<noteq> 0"
    and "\<And>n. regs_in s n (port + PORT_IS) AND push_bit 30 1 = 0"
    and busy: "\<And>n. regs_in s n (port + PORT_TFD) AND 0x88 \<noteq> 0"
  shows "fst (port_command w c port lba count b s) = 0"
proof -
  have ready: "fst (ready_wait port 100000 u) = -1" if "regs_in u = regs_in s" for u :: "'a ahci_scheme"
    using ready_wait_busy [of u port 100000] busy that by simp
  have issue: "fst (issue_command port slot (snd (ready_wait port 100000 u))) = 0"
    if "regs_in u = regs_in s" and "n_regs s + 2 \<le> n_regs u" for u :: "'a ahci_scheme"
  proof (rule issue_command_stuck)
    fix n assume "n_regs (snd (ready_wait port 100000 u)) \<le> n"
    then have "n_regs s + 2 \<le> n" using that(2) ready_wait_n_regs [of u port 100000] by linarith
    then show "regs_in (snd (ready_wait port 100000 u)) n (port + PORT_CI) AND push_bit slot 1 \<noteq> 0"
      using assms(2) that(1) by (simp add: ready_wait_regs)
  qed (use assms(3) that(1) in \<open>simp add: ready_wait_regs\<close>)
  have "fst (find_cmdslot port (reg_write (port + PORT_IS) (- 1) s)) = int slot"
    using slot by (simp add: command_slot_def)
  then show ?thesis
    by (simp add: port_command_def Let_def split_beta ready issue)
qed

subsection \<open>Properties\<close>

definition demo_ahci :: ahci where
  "demo_ahci = pci.extend
     \<lparr>conf_addr = 0, config = (\<lambda>_. 0xFFFFFFFF), devices = (\<lambda>_. vray_device.make 0 0 0 0 0 0 0 0 0 0 []), dev_count = 0,
      vnode_pool = (\<lambda>_. vnode.make [] DEVICE_TYPE_GENERIC None), next_vnode_index = 0,
      nvnode_pool = (\<lambda>_. nvnode.make [] NVDEVICE_TYPE_GENERIC None), next_nvnode_index = 0,
      usb_device_pool = (\<lambda>_. (0, 0)), next_usb_device_index = 0\<rparr>
     (ahci.fields (\<lambda>n a. if a = 0x1000 + PORT_CLB then 0x8000
                    else if a = 0x1000 + PORT_TFD then 0x80
                    else if a = 0x1000 + PORT_CI \<and> 2 \<le> n then 1 else 0) 0 []
       ((\<lambda>_. 0)(0x8009 := 0x90)) mm_boot 0 True 0)"

text \<open>
  C21 (roundtrip, AHCI). The command table that a read or write of at most 8192 sectors leaves for
  the controller decodes to the request: the command code, all 48 bits of the sector number, the
  count, a byte length of 512 per sector, and the full 64-bit address of the buffer.
\<close>

theorem command_table_decodes:
  fixes s :: "'a ahci_scheme"
  assumes "(transfer, code) \<in> {(port_read, ATA_CMD_READ_DMA_EX), (port_write, ATA_CMD_WRITE_DMA_EX)}"
    and "command_slot port s \<noteq> -1" and "lba < 2 ^ 48" and "0 < count" and "count \<le> 8192"
    and "m = dma_mem (snd (transfer port lba count buffer s))" and "tbl = command_table port s"
  shows "m tbl = FIS_TYPE_REG_H2D \<and> m (tbl + 2) = code \<and> table_lba m tbl = lba \<and> table_count m tbl = ucast count \<and>
    table_bytes m tbl = 512 * ucast count \<and> table_buffer m tbl = buffer"
proof -
  obtain w where "transfer port lba count buffer s = port_command w code port lba count buffer s"
    using assms(1) by (auto simp: port_read_def port_write_def)
  then obtain s' :: "'a ahci_scheme" where m: "m = dma_mem (fill_table tbl code lba count buffer s')"
    using port_command_mem [OF assms(2)] assms(6,7) by metis
  show ?thesis
    using fill_table_fields [OF m assms(3-5)] fill_table_decodes [OF m] by (simp add: FIS_TYPE_REG_H2D_def)
qed

theorem command_table_decodes_witness:
  "table_lba (dma_mem (snd (port_write 0x1000 0x123456789A 16 0xFFFF800000200000 demo_ahci))) 0x9000 = 0x123456789A"
proof -
  have n: "n_regs demo_ahci = 0" and r: "regs_in demo_ahci k a = (if a = 0x1000 + PORT_CLB then 0x8000
      else if a = 0x1000 + PORT_TFD then 0x80 else if a = 0x1000 + PORT_CI \<and> 2 \<le> k then 1 else 0)"
    and d: "dma_mem demo_ahci = (\<lambda>_. 0)(0x8009 := 0x90)" for k a
    by (simp_all add: demo_ahci_def pci.defs ahci.defs)
  have slot: "command_slot 0x1000 demo_ahci = 0"
    by (simp add: command_slot_def n r PORT_SACT_def PORT_CI_def PORT_CLB_def PORT_TFD_def numeral_eq_Suc)
  moreover have "command_table 0x1000 demo_ahci = 0x9000"
    by (simp add: command_table_def slot n r d PORT_CLB_def peek32_def)
  ultimately show ?thesis
    using command_table_decodes [of port_write ATA_CMD_WRITE_DMA_EX "0x1000" demo_ahci "0x123456789A" 16]
    by (simp add: ATA_CMD_READ_DMA_EX_def)
qed

text \<open>
  C22 (error, AHCI). A transfer to a port that is never ready, whose command never completes, is
  reported as done: both waits end with the counter at minus one, and the code asks for zero.
\<close>

theorem timeout_reported_as_done:
  assumes "transfer = port_read \<or> transfer = port_write" and "command_slot port s = int slot"
    and "\<And>n. n_regs s + 2 \<le> n \<Longrightarrow> regs_in s n (port + PORT_CI) AND push_bit slot 1 \<noteq> 0"
    and "\<And>n. regs_in s n (port + PORT_IS) AND push_bit 30 1 = 0"
    and "\<And>n. regs_in s n (port + PORT_TFD) AND 0x88 \<noteq> 0"
  shows "fst (transfer port lba count buffer s) = 0"
  using assms(1) port_command_stuck [OF assms(2-5)] by (auto simp: port_read_def port_write_def)

theorem timeout_reported_as_done_witness:
  "fst (port_read 0x1000 0 1 0x200000 demo_ahci) = 0"
proof (rule timeout_reported_as_done [where slot = 0])
  have n: "n_regs demo_ahci = 0" and r: "regs_in demo_ahci k a = (if a = 0x1000 + PORT_CLB then 0x8000
      else if a = 0x1000 + PORT_TFD then 0x80 else if a = 0x1000 + PORT_CI \<and> 2 \<le> k then 1 else 0)" for k a
    by (simp_all add: demo_ahci_def pci.defs ahci.defs)
  note regs = n r PORT_SACT_def PORT_CI_def PORT_CLB_def PORT_TFD_def PORT_IS_def
  show "command_slot 0x1000 demo_ahci = int 0" by (simp add: command_slot_def regs numeral_eq_Suc)
  show "regs_in demo_ahci k (0x1000 + PORT_CI) AND push_bit 0 1 \<noteq> 0" if "n_regs demo_ahci + 2 \<le> k" for k
    using that by (simp add: regs)
  show "regs_in demo_ahci k (0x1000 + PORT_IS) AND push_bit 30 1 = 0" for k by (simp add: regs)
  show "regs_in demo_ahci k (0x1000 + PORT_TFD) AND 0x88 \<noteq> 0" for k by (simp add: regs)
qed simp

end
