(* ===== verification/Shell.thy ===== *)
theory Shell
  imports Fat Fmt Ahci
begin

text \<open>
  The shell of \<^verbatim>\<open>src/init/init.c\<close>, as it is linked into the kernel, where all the functions it
  declares weak are there. Its state holds the file systems, the disk driver and what the shell
  keeps itself; what is written to the console is a string, cursor drawing is left out. The
  results of \<open>try_getchar\<close> are a list; a call of \<open>fb_backspace\<close> is the character 8 of the console. Shutdown, reboot and panic do not return: they end the
  session. A write past one of the arrays of 128 characters is \<open>None\<close>.
\<close>

subsection \<open>State\<close>

datatype shell_status = Running | Shut_down | Rebooting | Panicking string

record shell =
  fsys :: fat
  drive :: ahci
  sector_buf :: u64
  sector_in :: "nat \<Rightarrow> u8 list"
  n_sectors :: nat
  uptime_ms :: u64
  g_cwd :: string
  screen :: string
  status :: shell_status

definition out_puts :: "string \<Rightarrow> shell \<Rightarrow> shell" where
  "out_puts t s = s\<lparr>screen := screen s @ t\<rparr>"

definition out_putchar :: "char \<Rightarrow> shell \<Rightarrow> shell" where
  "out_putchar c s = s\<lparr>screen := screen s @ [c]\<rparr>"

abbreviation newline :: char where "newline \<equiv> char_of (10 :: nat)"

subsection \<open>String helpers\<close>

definition schar :: "char \<Rightarrow> int" where
  "schar c = sint (of_char c :: u8)"

fun sh_strcmp :: "string \<Rightarrow> string \<Rightarrow> int" where
  "sh_strcmp (a # s1) (b # s2) = (if a \<noteq> b then schar a - schar b else sh_strcmp s1 s2)"
| "sh_strcmp (a # s1) [] = schar a"
| "sh_strcmp [] (b # s2) = - schar b"
| "sh_strcmp [] [] = 0"

fun sh_strncmp :: "string \<Rightarrow> string \<Rightarrow> nat \<Rightarrow> int" where
  "sh_strncmp s1 s2 0 = 0"
| "sh_strncmp [] [] (Suc n) = 0"
| "sh_strncmp (a # s1) [] (Suc n) = schar a"
| "sh_strncmp [] (b # s2) (Suc n) = - schar b"
| "sh_strncmp (a # s1) (b # s2) (Suc n) = (if a \<noteq> b then schar a - schar b else sh_strncmp s1 s2 n)"

subsection \<open>Paths\<close>

text \<open>
  The array \<open>temp\<close> up to \<open>t_len\<close>; it has 128 characters, and every step ends by writing a NUL
  behind the text.
\<close>

definition add_temp :: "char \<Rightarrow> string \<Rightarrow> string option" where
  "add_temp c temp = (if length temp < 128 then Some (temp @ [c]) else None)"

definition end_temp :: "string \<Rightarrow> string option" where
  "end_temp temp = (if length temp < 128 then Some temp else None)"

fun add_all :: "string \<Rightarrow> string \<Rightarrow> string option" where
  "add_all [] temp = Some temp"
| "add_all (c # cs) temp = do { t \<leftarrow> add_temp c temp; add_all cs t }"

definition path_base :: "string \<Rightarrow> string \<Rightarrow> string option" where
  "path_base cwd input =
     (if input \<noteq> [] \<and> hd input = CHR ''/'' then Some ''/''
      else do {
        t \<leftarrow> add_all cwd [];
        t1 \<leftarrow> (if t = [] \<or> last t \<noteq> CHR ''/'' then add_temp (CHR ''/'') t else Some t);
        end_temp t1
      })"

text \<open>The loop that goes back to the last slash.\<close>

fun back_to_slash :: "string \<Rightarrow> nat \<Rightarrow> nat" where
  "back_to_slash temp 0 = 0"
| "back_to_slash temp (Suc n) = (if temp ! n \<noteq> CHR ''/'' then back_to_slash temp n else Suc n)"

definition pop_component :: "string \<Rightarrow> string" where
  "pop_component temp = (if 1 < length temp then take (back_to_slash temp (length temp - 1)) temp else temp)"

definition add_component :: "string \<Rightarrow> string \<Rightarrow> string option" where
  "add_component seg temp = do {
     t \<leftarrow> (if 1 < length temp \<and> last temp \<noteq> CHR ''/'' then add_temp (CHR ''/'') temp else Some temp);
     end_temp (t @ take (127 - length t) seg)
   }"

lemma next_segment_shorter:
  assumes "q = dropWhile (\<lambda>c. c = CHR ''/'') p" and "q \<noteq> []"
  shows "length (dropWhile (\<lambda>c. c \<noteq> CHR ''/'') q) < length p"
proof -
  obtain c r where q: "q = c # r" using assms(2) by (cases q) auto
  have "q \<noteq> [] \<Longrightarrow> hd q \<noteq> CHR ''/''" unfolding assms(1) by (rule hd_dropWhile)
  with q have "c \<noteq> CHR ''/''" by simp
  then have "length (dropWhile (\<lambda>c. c \<noteq> CHR ''/'') q) \<le> length r"
    by (simp add: q length_dropWhile_le)
  moreover have "length q \<le> length p" using assms(1) by (simp add: length_dropWhile_le)
  ultimately show ?thesis by (simp add: q)
qed

function path_segments :: "string \<Rightarrow> string \<Rightarrow> string option" where
  "path_segments p temp =
     (let q = dropWhile (\<lambda>c. c = CHR ''/'') p
      in if q = [] then Some temp
         else
           let seg = takeWhile (\<lambda>c. c \<noteq> CHR ''/'') q; rest = dropWhile (\<lambda>c. c \<noteq> CHR ''/'') q
           in if seg = ''.'' then path_segments rest temp
              else if seg = ''..'' then path_segments rest (pop_component temp)
              else (case add_component seg temp of None \<Rightarrow> None | Some t \<Rightarrow> path_segments rest t))"
  by pat_completeness auto

termination
  by (relation "measure (\<lambda>(p, temp). length p)") (use next_segment_shorter in auto)

declare path_segments.simps [simp del]

definition path_clean :: "string \<Rightarrow> string option" where
  "path_clean temp =
     (if 1 < length temp \<and> last temp = CHR ''/'' then Some (butlast temp)
      else if temp = [] then Some ''/''
      else end_temp temp)"

definition resolve_path :: "string \<Rightarrow> string \<Rightarrow> string option" where
  "resolve_path cwd input = do {
     base \<leftarrow> path_base cwd input;
     temp \<leftarrow> path_segments (if input \<noteq> [] \<and> hd input = CHR ''/'' then tl input else input) base;
     path_clean temp
   }"

subsection \<open>The line editor\<close>

definition BUF_SIZE :: nat where "BUF_SIZE = 128"

text \<open>One character: the buffer and the console afterwards.\<close>

definition edit_char :: "int \<Rightarrow> string \<times> shell \<Rightarrow> string \<times> shell" where
  "edit_char c bs =
     (let (buf, s) = bs
      in if c = 8 \<or> c = 127 then
           (if buf \<noteq> [] then (butlast buf, out_putchar (CHR 0x08) s) else (buf, s))
         else if length buf < BUF_SIZE - 1 then (buf @ [char_of c], out_putchar (char_of c) s)
         else (buf, s))"

text \<open>
  The line read from the input, if it is complete, the console and the input left.
\<close>

fun read_line :: "int list \<Rightarrow> string \<times> shell \<Rightarrow> (string \<times> int list) option \<times> shell" where
  "read_line [] bs = (None, snd bs)"
| "read_line (c # cs) bs =
     (if c \<le> 0 then read_line cs bs
      else if c = 13 \<or> c = 10 then (Some (fst bs, cs), out_putchar newline (snd bs))
      else read_line cs (edit_char c bs))"

subsection \<open>Commands\<close>

definition bytes_of :: "string \<Rightarrow> u8 list" where
  "bytes_of t = map of_char t"

definition cmd_help :: "shell \<Rightarrow> shell" where
  "cmd_help s = fold (\<lambda>t. out_puts (t @ [newline]))
     [''Available commands:'', ''  help      - show this message'', ''  echo ...  - echo text'',
      ''  cdl [path]- list directory contents'', ''  dump <f>  - display file contents'',
      ''  write <file> <text> - write text to file'', ''  mkdir <dir> - create directory'',
      ''  cd <path> - change directory'', ''  uptime    - show system uptime'',
      ''  diskread <lba> - read sector from disk'', ''  shutdown  - ACPI shutdown'',
      ''  reboot    - ACPI reboot''] s"

text \<open>The decimal digits of a number, found from the last one on and turned round.\<close>

definition decimal :: "u64 \<Rightarrow> string" where
  "decimal n = rev (if n = 0 then ''0'' else rev_digits 10 n)"

definition cmd_uptime :: "shell \<Rightarrow> shell" where
  "cmd_uptime s =
     (let seconds = uptime_ms s div 1000; minutes = seconds div 60; hours = minutes div 60
      in out_puts (''Uptime: '' @ decimal hours @ ''h '' @ decimal (minutes mod 60) @ ''m '' @
           decimal (seconds mod 60) @ ''s'' @ [newline]) s)"

definition cmd_write :: "string \<Rightarrow> shell \<Rightarrow> shell option" where
  "cmd_write p s =
     (let filename = take 127 (takeWhile (\<lambda>c. c \<noteq> CHR '' '') p);
          rest = drop (length filename) p;
          txt = (if rest \<noteq> [] \<and> hd rest = CHR '' '' then tl rest else rest)
      in do {
        abs_path \<leftarrow> resolve_path (g_cwd s) filename;
        (fd, f1) \<leftarrow> vfs_open fs_tbl abs_path 0x0101 (fsys s);
        if fd < 0
        then Some (out_puts (''Failed to open file for writing: '' @ abs_path @ [newline]) (s\<lparr>fsys := f1\<rparr>))
        else do {
          (written, f2) \<leftarrow> vfs_write fs_tbl fd (bytes_of txt) f1;
          (_, f3) \<leftarrow> vfs_write fs_tbl fd [10] f2;
          (_, f4) \<leftarrow> vfs_close fs_tbl fd f3;
          Some (out_puts (''Wrote bytes to '' @ abs_path @ [newline]) (s\<lparr>fsys := f4\<rparr>))
        }
      })"

definition cmd_mkdir :: "string \<Rightarrow> shell \<Rightarrow> shell option" where
  "cmd_mkdir p s = do {
     abs_path \<leftarrow> resolve_path (g_cwd s) p;
     (rc, f) \<leftarrow> vfs_mkdir fs_tbl abs_path (fsys s);
     Some (out_puts ((if rc = 0 then ''Directory created'' else ''Failed to create directory'') @ [newline])
             (s\<lparr>fsys := f\<rparr>))
   }"

fun parse_lba :: "string \<Rightarrow> u64 \<Rightarrow> u64" where
  "parse_lba [] lba = lba"
| "parse_lba (c # p) lba =
     (if 48 \<le> schar c \<and> schar c \<le> 57 then parse_lba p (lba * 10 + of_int (schar c - 48)) else lba)"

definition hex_byte :: "u8 \<Rightarrow> string" where
  "hex_byte b =
     (let digit = (\<lambda>n :: nat. char_of (if n < 10 then 48 + n else 65 + n - 10))
      in [digit (unat b div 16), digit (unat b mod 16)])"

definition cmd_diskread :: "string \<Rightarrow> shell \<Rightarrow> shell" where
  "cmd_diskread p s =
     (if \<not> ahci_is_initialized (drive s) then out_puts (''AHCI not initialized'' @ [newline]) s
      else
        let (result, d) = ahci_read_sectors (parse_lba p 0) 1 (sector_buf s) (drive s);
            s1 = s\<lparr>drive := d\<rparr>
        in if result = 0 then
             out_putchar newline
               (fold (\<lambda>b u. out_putchar (CHR '' '') (out_puts (hex_byte b) u)) (take 16 (sector_in s1 (n_sectors s1)))
                 (out_puts (''Read successful! First 16 bytes dump:'' @ [newline]) (s1\<lparr>n_sectors := Suc (n_sectors s1)\<rparr>)))
           else out_puts (''Read failed!'' @ [newline]) s1)"

definition cmd_echo :: "string \<Rightarrow> shell \<Rightarrow> shell" where
  "cmd_echo p s = out_putchar newline (out_puts p s)"

text \<open>The loops over a directory and over the pieces of a file.\<close>

partial_function (option) list_dir :: "int \<Rightarrow> shell \<Rightarrow> shell option" where
  "list_dir fd s =
     (case vfs_readdir fs_tbl fd (fsys s) of None \<Rightarrow> None
      | Some ((rc, entry), f) \<Rightarrow>
          if rc \<noteq> 0 then Some (s\<lparr>fsys := f\<rparr>)
          else (case entry of None \<Rightarrow> None
            | Some e \<Rightarrow> list_dir fd (out_puts
                (d_name e @ (if d_type e AND 0x02 \<noteq> 0 then ''/'' else []) @ [newline]) (s\<lparr>fsys := f\<rparr>))))"

definition cmd_cdl :: "string \<Rightarrow> shell \<Rightarrow> shell option" where
  "cmd_cdl buf s = do {
     abs_path \<leftarrow> resolve_path (g_cwd s) (if 3 < length buf \<and> buf ! 3 = CHR '' '' then drop 4 buf else []);
     (fd, f) \<leftarrow> vfs_open fs_tbl abs_path 0 (fsys s);
     if fd < 0 then Some (out_puts (''Failed to open directory ('' @ abs_path @ '')'' @ [newline]) (s\<lparr>fsys := f\<rparr>))
     else do {
       s1 \<leftarrow> list_dir fd (s\<lparr>fsys := f\<rparr>);
       (_, f1) \<leftarrow> vfs_close fs_tbl fd (fsys s1);
       Some (s1\<lparr>fsys := f1\<rparr>)
     }
   }"

partial_function (option) dump_file :: "int \<Rightarrow> shell \<Rightarrow> shell option" where
  "dump_file fd s =
     (case vfs_read fs_tbl fd 512 (fsys s) of None \<Rightarrow> None
      | Some ((n, bytes), f) \<Rightarrow>
          if n \<le> 0 then Some (s\<lparr>fsys := f\<rparr>)
          else dump_file fd (fold (\<lambda>b. out_putchar (char_of (unat b))) (take (nat n) bytes) (s\<lparr>fsys := f\<rparr>)))"

definition cmd_dump :: "string \<Rightarrow> shell \<Rightarrow> shell option" where
  "cmd_dump p s = do {
     abs_path \<leftarrow> resolve_path (g_cwd s) p;
     (fd, f) \<leftarrow> vfs_open fs_tbl abs_path 0 (fsys s);
     if fd < 0 then Some (out_puts (''Failed to open file: '' @ abs_path @ [newline]) (s\<lparr>fsys := f\<rparr>))
     else do {
       s1 \<leftarrow> dump_file fd (s\<lparr>fsys := f\<rparr>);
       (_, f1) \<leftarrow> vfs_close fs_tbl fd (fsys s1);
       Some (out_putchar newline (s1\<lparr>fsys := f1\<rparr>))
     }
   }"

definition change_dir :: "string \<Rightarrow> shell \<Rightarrow> shell option" where
  "change_dir target s = do {
     new_path \<leftarrow> resolve_path (g_cwd s) target;
     (fd, f) \<leftarrow> vfs_open fs_tbl new_path 0 (fsys s);
     if 0 \<le> fd then do {
       (_, f1) \<leftarrow> vfs_close fs_tbl fd f;
       Some (out_puts (''Changed directory to: '' @ new_path @ [newline]) (s\<lparr>fsys := f1, g_cwd := new_path\<rparr>))
     }
     else Some (out_puts (''Path not found: '' @ new_path @ [newline]) (s\<lparr>fsys := f\<rparr>))
   }"

definition cd_target :: "string \<Rightarrow> string option" where
  "cd_target buf =
     (if sh_strncmp buf ''cd '' 3 = 0 then Some (drop 3 buf)
      else if buf \<noteq> [] \<and> hd buf = CHR ''/'' then Some buf
      else if buf \<noteq> [] \<and> last buf = CHR ''/'' then Some buf
      else if sh_strcmp buf ''..'' = 0 then Some ''..''
      else None)"

definition command :: "string \<Rightarrow> shell \<Rightarrow> shell option" where
  "command buf s =
     (if sh_strcmp buf ''help'' = 0 then Some (cmd_help s)
      else if sh_strcmp buf ''uptime'' = 0 then Some (cmd_uptime s)
      else if sh_strcmp buf ''shutdown'' = 0
      then Some ((out_puts (''Initiating ACPI shutdown...'' @ [newline]) s)\<lparr>status := Shut_down\<rparr>)
      else if sh_strncmp buf ''write '' 6 = 0 then cmd_write (drop 6 buf) s
      else if sh_strncmp buf ''mkdir '' 6 = 0 then cmd_mkdir (drop 6 buf) s
      else if sh_strncmp buf ''diskread '' 9 = 0 then Some (cmd_diskread (drop 9 buf) s)
      else if sh_strcmp buf ''reboot'' = 0
      then Some ((out_puts (''Initiating ACPI reboot...'' @ [newline]) s)\<lparr>status := Rebooting\<rparr>)
      else if sh_strcmp buf ''panic'' = 0 then Some (s\<lparr>status := Panicking ''manual panic from init shell''\<rparr>)
      else if sh_strncmp buf ''panic '' 6 = 0 then Some (s\<lparr>status := Panicking (drop 6 buf)\<rparr>)
      else if sh_strncmp buf ''echo '' 5 = 0 then Some (cmd_echo (drop 5 buf) s)
      else if sh_strcmp buf ''cdl'' = 0 \<or> sh_strncmp buf ''cdl '' 4 = 0 then cmd_cdl buf s
      else if sh_strncmp buf ''dump '' 5 = 0 then cmd_dump (drop 5 buf) s
      else (case cd_target buf of
             Some target \<Rightarrow> change_dir target s
           | None \<Rightarrow> Some (out_puts (''Unknown command. Type '' @ [CHR 0x27] @ ''help'' @ [CHR 0x27] @ '' for list.'' @ [newline]) s)))"

lemma read_line_shorter: "read_line cs bs = (Some (l, rest), s) \<Longrightarrow> length rest < length cs"
  by (induction cs bs rule: read_line.induct) (auto split: if_splits)

text \<open>The session, until the input is used up or a command does not return.\<close>

function shell_loop :: "int list \<Rightarrow> shell \<Rightarrow> shell option" where
  "shell_loop cs s =
     (case read_line cs ([], out_puts ''init> '' s) of
        (None, s1) \<Rightarrow> Some s1
      | (Some (buf, rest), s1) \<Rightarrow>
          if buf = [] then shell_loop rest s1
          else (case command buf s1 of None \<Rightarrow> None
            | Some s2 \<Rightarrow> if status s2 = Running then shell_loop rest s2 else Some s2))"
  by pat_completeness auto

termination
  by (relation "measure (\<lambda>(cs, s). length cs)") (auto dest: read_line_shorter [OF sym])

declare shell_loop.simps [simp del]

definition shell_main :: "int list \<Rightarrow> shell \<Rightarrow> shell option" where
  "shell_main cs s =
     shell_loop cs (out_puts (''Rhoudveine init shell. Type '' @ [CHR 0x27] @ ''help'' @ [CHR 0x27] @
       '' for commands.'' @ [newline]) s)"

subsection \<open>Directories as lists of components\<close>

definition comp_ok :: "string \<Rightarrow> bool" where
  "comp_ok c \<longleftrightarrow> c \<noteq> [] \<and> CHR ''/'' \<notin> set c"

definition joined :: "string list \<Rightarrow> string" where
  "joined cs = concat (map (Cons (CHR ''/'')) cs)"

definition dir_path :: "string list \<Rightarrow> string" where
  "dir_path cs = (if cs = [] then ''/'' else joined cs)"

text \<open>What the segments of a path do to a directory.\<close>

fun walk_path :: "string list \<Rightarrow> string list \<Rightarrow> string list" where
  "walk_path st [] = st"
| "walk_path st (c # cs) =
     (if c = ''.'' then walk_path st cs
      else if c = ''..'' then walk_path (butlast st) cs
      else walk_path (st @ [c]) cs)"

text \<open>The array holds a directory, maybe with a slash behind it.\<close>

definition holds :: "string \<Rightarrow> string list \<Rightarrow> bool" where
  "holds t st \<longleftrightarrow> list_all comp_ok st \<and> (t = dir_path st \<or> st \<noteq> [] \<and> t = joined st @ ''/'')"

lemma joined_simps [simp]:
  "joined [] = []" "joined (st @ [c]) = joined st @ CHR ''/'' # c" "joined (c # st) = CHR ''/'' # c @ joined st"
  "joined (st @ st') = joined st @ joined st'"
  by (simp_all add: joined_def)

lemma joined_last: "list_all comp_ok st \<Longrightarrow> st \<noteq> [] \<Longrightarrow> last (joined st) \<noteq> CHR ''/'' \<and> 1 < length (joined st)"
  by (induction st rule: rev_induct) (auto simp: comp_ok_def dest: last_in_set)

lemma dir_path_snoc [simp]: "dir_path (st @ [c]) = joined st @ CHR ''/'' # c"
  by (simp add: dir_path_def)

lemma take_back_to_slash:
  "n \<le> length t \<Longrightarrow> take (back_to_slash t n) t = rev (dropWhile (\<lambda>c. c \<noteq> CHR ''/'') (rev (take n t)))"
  by (induction n) (simp_all add: take_Suc_conv_app_nth)

lemma pop_rev: "1 < length t \<Longrightarrow> pop_component t = rev (dropWhile (\<lambda>c. c \<noteq> CHR ''/'') (tl (rev t)))"
  using take_back_to_slash [of "length t - 1" t]
  by (cases t rule: rev_cases) (simp_all add: pop_component_def)

lemma drop_to_slash: "CHR ''/'' \<notin> set c \<Longrightarrow> dropWhile (\<lambda>c. c \<noteq> CHR ''/'') (rev c @ CHR ''/'' # r) = CHR ''/'' # r"
  by (induction c arbitrary: r rule: rev_induct) auto

lemma pop_holds:
  assumes "holds t st"
  shows "holds (pop_component t) (butlast st)"
proof (cases st rule: rev_cases)
  case Nil
  then show ?thesis using assms by (simp add: holds_def dir_path_def pop_component_def)
next
  case (snoc ss c)
  then have ok: "list_all comp_ok ss" "c \<noteq> []" "CHR ''/'' \<notin> set c"
    using assms by (simp_all add: holds_def comp_ok_def)
  from assms snoc have "t = joined ss @ CHR ''/'' # c \<or> t = joined ss @ CHR ''/'' # c @ ''/''"
    by (auto simp: holds_def)
  then have "pop_component t = joined ss @ ''/''"
  proof
    assume t: "t = joined ss @ CHR ''/'' # c"
    obtain d e where c: "c = d @ [e]" using ok(2) by (cases c rule: rev_cases) auto
    with ok(3) t show ?thesis using drop_to_slash [of d "rev (joined ss)"] by (simp add: pop_rev)
  next
    assume "t = joined ss @ CHR ''/'' # c @ ''/''"
    then show ?thesis using drop_to_slash [OF ok(3), of "rev (joined ss)"] by (simp add: pop_rev)
  qed
  then show ?thesis using ok(1) snoc by (cases "ss = []") (simp_all add: holds_def dir_path_def)
qed

lemma add_holds:
  assumes "holds t st" and "comp_ok c"
  shows "case add_component c t of None \<Rightarrow> True | Some t' \<Rightarrow> length t' \<le> 127 \<and> (\<exists>st'. holds t' st')"
    and "length (dir_path (st @ [c])) \<le> 127 \<Longrightarrow> length (dir_path st) \<le> 126 \<Longrightarrow>
      \<exists>t'. add_component c t = Some t' \<and> holds t' (st @ [c])"
proof -
  define u where "u = joined st @ ''/''"
  have ok: "list_all comp_ok st" using assms(1) by (simp add: holds_def)
  have len: "length (dir_path (st @ [c])) = length u + length c" by (simp add: u_def)
  have u: "(if 1 < length t \<and> last t \<noteq> CHR ''/'' then add_temp (CHR ''/'') t else Some t) =
      (if 1 < length t \<and> last t \<noteq> CHR ''/'' \<and> 128 \<le> length t then None else Some u)"
    using assms(1) joined_last [OF ok] by (cases "st = []") (auto simp: holds_def dir_path_def u_def add_temp_def)
  have cut: "holds (u @ take k c) (if take k c = [] then st else st @ [take k c])" for k
    using ok assms(2) by (auto simp: holds_def u_def comp_ok_def dir_path_def dest: in_set_takeD)
  show "case add_component c t of None \<Rightarrow> True | Some t' \<Rightarrow> length t' \<le> 127 \<and> (\<exists>st'. holds t' st')"
    using cut [of "127 - length u"] unfolding add_component_def u
    by (auto simp: end_temp_def split: option.splits if_splits)
  assume fits: "length (dir_path (st @ [c])) \<le> 127" "length (dir_path st) \<le> 126"
  have "length t \<le> 127" using fits(2) assms(1) by (auto simp: holds_def dir_path_def split: if_splits)
  moreover have "take (127 - length u) c = c" using fits(1) len by simp
  ultimately show "\<exists>t'. add_component c t = Some t' \<and> holds t' (st @ [c])"
    using cut [of "127 - length u"] fits(1) len assms(2) unfolding add_component_def u
    by (auto simp: end_temp_def comp_ok_def)
qed

text \<open>The components of a path, one segment at a time, as the loop takes them.\<close>

lemma components_slashes: "components (dropWhile (\<lambda>c. c = CHR ''/'') p) = components p"
  by (induction p) (simp_all add: components_def)

lemma dropWhile_end_slash: "dropWhile (\<lambda>c. c \<noteq> CHR ''/'') q = [] \<or> (\<exists>r. dropWhile (\<lambda>c. c \<noteq> CHR ''/'') q = CHR ''/'' # r)"
  by (rule str_cases_slash)

lemma components_segment:
  assumes "q = dropWhile (\<lambda>c. c = CHR ''/'') p" and "q \<noteq> []"
  shows "components p = takeWhile (\<lambda>c. c \<noteq> CHR ''/'') q # components (dropWhile (\<lambda>c. c \<noteq> CHR ''/'') q)"
    and "comp_ok (takeWhile (\<lambda>c. c \<noteq> CHR ''/'') q)"
proof -
  obtain c r where q: "q = c # r" using assms(2) by (cases q) auto
  have "q \<noteq> [] \<Longrightarrow> hd q \<noteq> CHR ''/''" unfolding assms(1) by (rule hd_dropWhile)
  with q have c: "c \<noteq> CHR ''/''" by simp
  have "components (CHR ''/'' # r) = components r" for r by (simp add: components_def)
  then have "components (dropWhile (\<lambda>c. c \<noteq> CHR ''/'') q) =
      (case dropWhile (\<lambda>c. c \<noteq> CHR ''/'') q of [] \<Rightarrow> [] | _ # r \<Rightarrow> components r)"
    using dropWhile_end_slash [of q] by (elim disjE exE) (simp_all only: list.case components_Nil)
  moreover have "takeWhile (\<lambda>c. c \<noteq> CHR ''/'') q \<noteq> []" using q c by simp
  moreover have "components p = components q" using components_slashes [of p] assms(1) by simp
  ultimately show "components p = takeWhile (\<lambda>c. c \<noteq> CHR ''/'') q # components (dropWhile (\<lambda>c. c \<noteq> CHR ''/'') q)"
    by (simp only: components_unfold [of q] Let_def if_False append.simps)
  show "comp_ok (takeWhile (\<lambda>c. c \<noteq> CHR ''/'') q)" using q c by (auto simp: comp_ok_def dest: set_takeWhileD)
qed

lemma path_segments_Nil: "components p = [] \<Longrightarrow> path_segments p t = Some t"
proof -
  assume "components p = []"
  then have "dropWhile (\<lambda>c. c = CHR ''/'') p = []" using components_segment(1) [OF refl, of p] by force
  then show ?thesis unfolding path_segments.simps [of p t] Let_def by (simp only: if_True refl)
qed

lemma path_segments_Cons:
  assumes "components p = c # cs"
  obtains rest where "components rest = cs" and "comp_ok c" and "\<And>t. path_segments p t =
    (if c = ''.'' then path_segments rest t
     else if c = ''..'' then path_segments rest (pop_component t)
     else (case add_component c t of None \<Rightarrow> None | Some u \<Rightarrow> path_segments rest u))"
proof -
  let ?q = "dropWhile (\<lambda>c. c = CHR ''/'') p"
  have q: "?q \<noteq> []" using assms by (metis components_slashes components_Nil list.discI)
  note seg = components_segment [OF refl q]
  have c: "takeWhile (\<lambda>c. c \<noteq> CHR ''/'') ?q = c" "components (dropWhile (\<lambda>c. c \<noteq> CHR ''/'') ?q) = cs"
    using seg(1) unfolding assms by simp_all
  show thesis
    by (rule that [OF c(2)])
      (use seg(2) in \<open>simp_all only: c path_segments.simps [of p] Let_def if_not_P [OF q]\<close>)
qed

lemma path_segments_walk:
  assumes "holds t st" and "length t \<le> 127"
    and "\<And>k. length (dir_path (walk_path st (take k (components p)))) \<le> 126"
  shows "\<exists>t'. path_segments p t = Some t' \<and> holds t' (walk_path st (components p)) \<and> length t' \<le> 127"
  using assms
proof (induction "components p" arbitrary: p t st)
  case Nil
  then show ?case using path_segments_Nil [of p] by (metis walk_path.simps(1))
next
  case (Cons c cs)
  obtain rest where rest: "components rest = cs" and ok: "comp_ok c" and seg: "\<And>t. path_segments p t =
      (if c = ''.'' then path_segments rest t
       else if c = ''..'' then path_segments rest (pop_component t)
       else (case add_component c t of None \<Rightarrow> None | Some u \<Rightarrow> path_segments rest u))"
    using path_segments_Cons [OF Cons.hyps(2) [symmetric]] by blast
  have cs: "components p = c # components rest" using Cons.hyps(2) rest by simp
  have fits: "length (dir_path (walk_path st (c # take k (components rest)))) \<le> 126" for k
    using Cons.prems(3) [of "Suc k"] cs by simp
  note IH = Cons.hyps(1) [OF rest [symmetric]]
  consider "c = ''.''" | "c = ''..''" | "c \<noteq> ''.''" "c \<noteq> ''..''" by blast
  then show ?case
  proof cases
    case 1
    then show ?thesis using IH [OF Cons.prems(1,2)] fits cs by (simp add: seg)
  next
    case 2
    have "length (pop_component t) \<le> 127" using Cons.prems(2) by (simp add: pop_component_def min.coboundedI1)
    from IH [OF pop_holds [OF Cons.prems(1)] this] 2 fits cs show ?thesis by (simp add: seg)
  next
    case 3
    have "length (dir_path st) \<le> 126" using Cons.prems(3) [of 0] by simp
    moreover have "length (dir_path (st @ [c])) \<le> 127" using fits [of 0] 3 by simp
    ultimately obtain u where u: "add_component c t = Some u" "holds u (st @ [c])"
      using add_holds(2) [OF Cons.prems(1) ok] by blast
    moreover have "length u \<le> 127" using add_holds(1) [OF Cons.prems(1) ok] u(1) by simp
    ultimately show ?thesis using IH [OF u(2)] 3 fits cs by (simp add: seg)
  qed
qed

text \<open>Without the bound on the lengths a directory still remains, if there is no fault.\<close>

lemma path_segments_holds:
  assumes "holds t st" and "length t \<le> 127" and "path_segments p t = Some t'"
  shows "length t' \<le> 127 \<and> (\<exists>st'. holds t' st')"
  using assms
proof (induction "components p" arbitrary: p t st)
  case Nil
  then show ?case using path_segments_Nil [of p t] by auto
next
  case (Cons c cs)
  obtain rest where rest: "components rest = cs" and ok: "comp_ok c" and seg: "\<And>t. path_segments p t =
      (if c = ''.'' then path_segments rest t
       else if c = ''..'' then path_segments rest (pop_component t)
       else (case add_component c t of None \<Rightarrow> None | Some u \<Rightarrow> path_segments rest u))"
    using path_segments_Cons [OF Cons.hyps(2) [symmetric]] by blast
  note IH = Cons.hyps(1) [OF rest [symmetric]]
  have "length (pop_component t) \<le> 127" using Cons.prems(2) by (simp add: pop_component_def min.coboundedI1)
  note pop = IH [OF pop_holds [OF Cons.prems(1)] this]
  show ?case
    using IH [OF Cons.prems(1,2)] pop IH add_holds(1) [OF Cons.prems(1) ok] Cons.prems(3)
    by (auto simp: seg split: if_splits option.splits)
qed

lemma path_clean_holds:
  assumes "holds t st" and "length t \<le> 127"
  shows "path_clean t = Some (dir_path st)"
proof (cases "st = []")
  case True
  then show ?thesis using assms by (simp add: holds_def path_clean_def dir_path_def end_temp_def)
next
  case False
  have ok: "list_all comp_ok st" using assms(1) by (simp add: holds_def)
  show ?thesis
    using assms False joined_last [OF ok False]
    by (auto simp: holds_def path_clean_def dir_path_def end_temp_def)
qed

lemma add_all_fits: "length temp + length cs \<le> 128 \<Longrightarrow> add_all cs temp = Some (temp @ cs)"
  by (induction cs arbitrary: temp) (simp_all add: add_temp_def)

lemma add_all_Some: "add_all cs temp = Some t \<Longrightarrow> t = temp @ cs"
  by (induction cs arbitrary: temp) (fastforce simp: add_temp_def bind_eq_Some_conv split: if_splits)+

text \<open>The start of a path: the root, or the working directory.\<close>

definition start_dir :: "string list \<Rightarrow> string \<Rightarrow> string list" where
  "start_dir st input = (if input \<noteq> [] \<and> hd input = CHR ''/'' then [] else st)"

lemma path_base_holds:
  assumes "list_all comp_ok st" and "path_base (dir_path st) input = Some t"
  shows "holds t (start_dir st input) \<and> length t \<le> 127"
proof (cases "input \<noteq> [] \<and> hd input = CHR ''/''")
  case True
  then show ?thesis using assms by (auto simp: path_base_def start_dir_def holds_def dir_path_def)
next
  case False
  then obtain u where "add_all (dir_path st) [] = Some u"
    using assms(2) by (auto simp: path_base_def bind_eq_Some_conv)
  with add_all_Some [OF this] False assms(2) joined_last [OF assms(1)] show ?thesis
    by (cases "st = []") (auto simp: path_base_def start_dir_def holds_def dir_path_def end_temp_def add_temp_def
      assms(1) split: if_splits)
qed

lemma path_base_fits:
  assumes "list_all comp_ok st" and "length (dir_path st) \<le> 126"
  shows "\<exists>t. path_base (dir_path st) input = Some t"
  using assms add_all_fits [of "[]" "dir_path st"]
  by (auto simp: path_base_def end_temp_def add_temp_def)

lemma components_tl_slash: "hd input = CHR ''/'' \<Longrightarrow> components (tl input) = components input"
  by (cases input) (simp_all add: components_def)

text \<open>A working directory: an absolute path without empty components, of at most 127 characters.\<close>

definition is_dir_path :: "string \<Rightarrow> bool" where
  "is_dir_path p \<longleftrightarrow> (\<exists>st. list_all comp_ok st \<and> p = dir_path st) \<and> length p \<le> 127"

lemma resolve_path_dir:
  assumes "is_dir_path cwd" and "resolve_path cwd input = Some p"
  shows "is_dir_path p"
proof -
  obtain st where st: "list_all comp_ok st" "cwd = dir_path st" using assms(1) by (auto simp: is_dir_path_def)
  obtain b t q where b: "path_base cwd input = Some b" and t: "path_segments q b = Some t" and p: "path_clean t = Some p"
    using assms(2) by (auto simp: resolve_path_def bind_eq_Some_conv)
  from path_segments_holds [OF _ _ t] path_base_holds [OF st(1)] b st(2)
  obtain st' where st': "holds t st'" "length t \<le> 127" by blast
  from path_clean_holds [OF this] p have "p = dir_path st'" by simp
  moreover have "length (dir_path st') \<le> length t" using st'(1) by (auto simp: holds_def dir_path_def)
  ultimately show ?thesis using st' by (auto simp: is_dir_path_def holds_def)
qed

text \<open>
  The walk with the 128 characters of the array: a component is cut so that the path has at most 127
  characters, and left out when nothing of it fits. From a directory of 127 characters the slash and
  the NUL no longer fit, and the walk has no result.
\<close>

definition cut_component :: "string list \<Rightarrow> string \<Rightarrow> string list" where
  "cut_component st c =
     (let d = take (126 - length (joined st)) c in if d = [] then st else st @ [d])"

fun cut_walk :: "string list \<Rightarrow> string list \<Rightarrow> string list option" where
  "cut_walk st [] = Some st"
| "cut_walk st (c # cs) =
     (if c = ''.'' then cut_walk st cs
      else if c = ''..'' then cut_walk (butlast st) cs
      else if length (joined st) = 127 then None
      else cut_walk (cut_component st c) cs)"

lemma holds_length: "holds t st \<Longrightarrow> length t \<le> 127 \<Longrightarrow> length (joined st) \<le> 127"
  by (cases "st = []") (auto simp: holds_def dir_path_def)

lemma add_exact:
  assumes "holds t st" and "comp_ok c" and "length t \<le> 127"
  shows "if length (joined st) = 127 then add_component c t = None
    else \<exists>t'. add_component c t = Some t' \<and> holds t' (cut_component st c) \<and> length t' \<le> 127"
proof -
  define u where "u = joined st @ ''/''"
  have ok: "list_all comp_ok st" using assms(1) by (simp add: holds_def)
  have u: "(if 1 < length t \<and> last t \<noteq> CHR ''/'' then add_temp (CHR ''/'') t else Some t) = Some u"
    using assms(1,3) joined_last [OF ok] by (cases "st = []") (auto simp: holds_def dir_path_def u_def add_temp_def)
  have cut: "holds (u @ take k c) (if take k c = [] then st else st @ [take k c])" for k
    using ok assms(2) by (auto simp: holds_def u_def comp_ok_def dir_path_def dest: in_set_takeD)
  have "length (joined st) \<le> 127" by (rule holds_length [OF assms(1,3)])
  then show ?thesis
    using cut [of "126 - length (joined st)"] unfolding add_component_def u cut_component_def Let_def
    by (simp add: end_temp_def u_def) linarith
qed

lemma path_segments_exact:
  assumes "holds t st" and "length t \<le> 127"
  shows "case cut_walk st (components p) of None \<Rightarrow> path_segments p t = None
    | Some st' \<Rightarrow> \<exists>t'. path_segments p t = Some t' \<and> holds t' st' \<and> length t' \<le> 127"
  using assms
proof (induction "components p" arbitrary: p t st)
  case Nil
  have "components p = []" using Nil.hyps by simp
  with Nil.prems show ?case by (simp add: path_segments_Nil)
next
  case (Cons c cs)
  obtain rest where rest: "components rest = cs" and ok: "comp_ok c" and seg: "\<And>t. path_segments p t =
      (if c = ''.'' then path_segments rest t
       else if c = ''..'' then path_segments rest (pop_component t)
       else (case add_component c t of None \<Rightarrow> None | Some u \<Rightarrow> path_segments rest u))"
    using path_segments_Cons [OF Cons.hyps(2) [symmetric]] by blast
  have cs: "components p = c # components rest" using Cons.hyps(2) rest by simp
  note IH = Cons.hyps(1) [OF rest [symmetric]]
  have pop: "length (pop_component t) \<le> 127" using Cons.prems(2) by (simp add: pop_component_def min.coboundedI1)
  consider "c = ''.''" | "c = ''..''" | "c \<noteq> ''.''" "c \<noteq> ''..''" by blast
  then show ?case
  proof cases
    case 1
    then show ?thesis using IH [OF Cons.prems] unfolding cs seg by simp
  next
    case 2
    then show ?thesis using IH [OF pop_holds [OF Cons.prems(1)] pop] unfolding cs seg by simp
  next
    case 3
    note add = add_exact [OF Cons.prems(1) ok Cons.prems(2)]
    show ?thesis
    proof (cases "length (joined st) = 127")
      case True
      then show ?thesis using add 3 unfolding cs seg by simp
    next
      case False
      then obtain u where u: "add_component c t = Some u" "holds u (cut_component st c)" "length u \<le> 127"
        using add by auto
      have eq: "path_segments p t = path_segments rest u" using 3 by (simp add: seg u(1))
      show ?thesis using IH [OF u(2,3)] 3 False unfolding cs eq by simp
    qed
  qed
qed

lemma path_base_exact:
  assumes "list_all comp_ok st" and "length (dir_path st) \<le> 127"
  shows "if (input = [] \<or> hd input \<noteq> CHR ''/'') \<and> length (dir_path st) = 127
    then path_base (dir_path st) input = None
    else \<exists>t. path_base (dir_path st) input = Some t \<and> holds t (start_dir st input) \<and> length t \<le> 127"
proof (cases "input = [] \<or> hd input \<noteq> CHR ''/''")
  case rel: True
  show ?thesis
  proof (cases "length (dir_path st) = 127")
    case True
    then have "st \<noteq> []" by (auto simp: dir_path_def)
    then have "path_base (dir_path st) input = None"
      using assms True rel joined_last [OF assms(1)] add_all_fits [of "[]" "dir_path st"]
      by (auto simp: path_base_def dir_path_def add_temp_def end_temp_def)
    then show ?thesis using True rel by simp
  next
    case False
    then obtain t where "path_base (dir_path st) input = Some t"
      using path_base_fits [OF assms(1), of input] assms(2) by auto
    with path_base_holds [OF assms(1) this] False show ?thesis by simp
  qed
next
  case False
  then have "path_base (dir_path st) input = Some ''/''" by (simp add: path_base_def)
  with path_base_holds [OF assms(1) this] False show ?thesis by simp
qed

subsection \<open>What the commands leave alone\<close>

lemma out_simps [simp]:
  "g_cwd (out_puts t s) = g_cwd s" "g_cwd (out_putchar c s) = g_cwd s" "screen (out_puts t s) = screen s @ t"
  "screen (out_putchar c s) = screen s @ [c]" "fsys (out_putchar c s) = fsys s" "fsys (out_puts t s) = fsys s"
  by (simp_all add: out_puts_def out_putchar_def)

lemma fold_keeps: "(\<And>x s. g_cwd (f x s) = g_cwd s) \<Longrightarrow> g_cwd (fold f xs s) = g_cwd s"
  by (induction xs arbitrary: s) simp_all

lemma list_dir_cwd:
  assumes "list_dir fd s = Some s'"
  shows "g_cwd s' = g_cwd s"
  by (rule list_dir.raw_induct [where P = "\<lambda>fd s s'. g_cwd s' = g_cwd s", OF _ assms])
    (auto split: option.splits if_splits)

lemma dump_file_cwd:
  assumes "dump_file fd s = Some s'"
  shows "g_cwd s' = g_cwd s"
  by (rule dump_file.raw_induct [where P = "\<lambda>fd s s'. g_cwd s' = g_cwd s", OF _ assms])
    (force simp: fold_keeps split: option.splits if_splits)

lemma edit_char_cwd: "g_cwd (snd (edit_char c bs)) = g_cwd (snd bs)"
  by (cases bs) (simp add: edit_char_def Let_def)

lemma read_line_cwd: "g_cwd (snd (read_line cs bs)) = g_cwd (snd bs)"
  by (induction cs bs rule: read_line.induct) (simp_all add: edit_char_cwd)

lemma change_dir_cwd:
  assumes "change_dir t s = Some s'" and "is_dir_path (g_cwd s)"
  shows "is_dir_path (g_cwd s')"
  using assms resolve_path_dir [OF assms(2)]
  by (auto simp: change_dir_def bind_eq_Some_conv split: if_splits)

lemma commands_cwd [frame]:
  "g_cwd (cmd_help s) = g_cwd s" "g_cwd (cmd_uptime s) = g_cwd s" "g_cwd (cmd_diskread p s) = g_cwd s"
  "g_cwd (cmd_echo p s) = g_cwd s"
  "cmd_write p s = Some s' \<Longrightarrow> g_cwd s' = g_cwd s" "cmd_mkdir p s = Some s' \<Longrightarrow> g_cwd s' = g_cwd s"
  "cmd_cdl p s = Some s' \<Longrightarrow> g_cwd s' = g_cwd s" "cmd_dump p s = Some s' \<Longrightarrow> g_cwd s' = g_cwd s"
proof -
  show "g_cwd (cmd_help s) = g_cwd s" unfolding cmd_help_def by (rule fold_keeps) simp
  show "g_cwd (cmd_uptime s) = g_cwd s" by (simp add: cmd_uptime_def Let_def)
  show "g_cwd (cmd_diskread p s) = g_cwd s" by (simp add: cmd_diskread_def Let_def split_beta fold_keeps)
  show "g_cwd (cmd_echo p s) = g_cwd s" by (simp add: cmd_echo_def)
  show "cmd_write p s = Some s' \<Longrightarrow> g_cwd s' = g_cwd s"
    by (auto simp: cmd_write_def Let_def bind_eq_Some_conv split: if_splits)
  show "cmd_mkdir p s = Some s' \<Longrightarrow> g_cwd s' = g_cwd s"
    by (auto simp: cmd_mkdir_def bind_eq_Some_conv)
  show "cmd_cdl p s = Some s' \<Longrightarrow> g_cwd s' = g_cwd s"
    by (auto simp: cmd_cdl_def bind_eq_Some_conv dest!: list_dir_cwd split: if_splits)
  show "cmd_dump p s = Some s' \<Longrightarrow> g_cwd s' = g_cwd s"
    by (auto simp: cmd_dump_def bind_eq_Some_conv dest!: dump_file_cwd split: if_splits)
qed

lemma command_cwd:
  assumes "command buf s = Some s'" and "is_dir_path (g_cwd s)"
  shows "is_dir_path (g_cwd s')"
proof -
  have "g_cwd s' = g_cwd s \<or> (\<exists>t. change_dir t s = Some s')"
    using assms(1) commands_cwd
    by (auto simp: command_def split: if_splits option.splits)
  then show ?thesis using assms(2) change_dir_cwd by auto
qed

subsection \<open>What the editor shows\<close>

text \<open>The text on the line, when the character 8 takes back the one before it.\<close>

fun shown :: "string \<Rightarrow> string \<Rightarrow> string" where
  "shown acc [] = acc"
| "shown acc (c # t) = (if c = CHR 0x08 then shown (butlast acc) t else shown (acc @ [c]) t)"

lemma shown_append: "shown acc (t @ u) = shown (shown acc t) u"
  by (induction acc t rule: shown.induct) simp_all

lemma char_of_int_eq: "0 \<le> c \<Longrightarrow> c < 256 \<Longrightarrow> char_of c = CHR 0x08 \<Longrightarrow> c = 8"
  for c :: int
proof -
  assume c: "0 \<le> c" "c < 256" "char_of c = CHR 0x08"
  have "of_char (char_of c :: char) = c" using c(1,2) by simp
  moreover have "of_char (char_of c :: char) = (8 :: int)" unfolding c(3) by simp
  ultimately show "c = 8" by simp
qed

lemma edit_char_shown:
  assumes "shown [] t = buf" and "length buf \<le> 127" and "screen s = u @ t" and "0 < c" "c < 256"
    and "edit_char c (buf, s) = (buf', s')"
  shows "\<exists>t'. shown [] t' = buf' \<and> length buf' \<le> 127 \<and> screen s' = u @ t'"
proof -
  consider "c = 8 \<or> c = 127" "buf \<noteq> []" | "c \<noteq> 8" "c \<noteq> 127" "length buf < 127" | "buf' = buf" "s' = s"
    using assms(6) by (auto simp: edit_char_def BUF_SIZE_def split: if_splits)
  then show ?thesis
  proof cases
    case 1
    then show ?thesis using assms
      by (intro exI [of _ "t @ [CHR 0x08]"]) (auto simp: edit_char_def shown_append)
  next
    case 2
    have "char_of c \<noteq> CHR 0x08" using char_of_int_eq [of c] assms(4,5) 2(1) by auto
    with 2 assms show ?thesis
      by (intro exI [of _ "t @ [char_of c]"]) (auto simp: edit_char_def shown_append BUF_SIZE_def)
  next
    case 3
    then show ?thesis using assms by auto
  qed
qed

lemma read_line_shown:
  assumes "read_line cs (buf, s) = (Some (l, rest), s')" and "\<forall>c \<in> set cs. c < 256"
    and "shown [] t = buf" and "length buf \<le> 127" and "screen s = u @ t"
  shows "\<exists>t. screen s' = u @ t @ [newline] \<and> shown [] t = l \<and> length l \<le> 127"
  using assms
proof (induction cs "(buf, s)" arbitrary: buf s t rule: read_line.induct)
  case (2 c cs buf s)
  obtain buf' s1 where e: "edit_char c (buf, s) = (buf', s1)" by (cases "edit_char c (buf, s)")
  consider "c \<le> 0" | "0 < c" "c = 13 \<or> c = 10" | "0 < c" "c \<noteq> 13" "c \<noteq> 10" by linarith
  then show ?case
  proof cases
    case 1
    then show ?thesis using 2 by auto
  next
    case c: 2
    then show ?thesis using "2.prems" by auto
  next
    case c: 3
    then obtain t' where "shown [] t' = buf'" "length buf' \<le> 127" "screen s1 = u @ t'"
      using edit_char_shown [OF "2.prems"(3,4,5) _ _ e] "2.prems"(2) by auto
    then show ?thesis using "2.hyps"(2) c "2.prems"(1,2) e by auto
  qed
qed simp

subsection \<open>What dump prints\<close>

lemma put_bytes: "fold (\<lambda>b. out_putchar (char_of (unat b))) bs s = s\<lparr>screen := screen s @ of_bytes bs\<rparr>"
  by (induction bs arbitrary: s) (simp_all add: of_bytes_def out_putchar_def)

lemma dump_stream:
  assumes st: "byte_stream (vfs_read fs_tbl fd) rest limit" and "rest f xs" and lim: "0 < limit 512"
  shows "\<exists>f'. rest f' [] \<and> dump_file fd (s\<lparr>fsys := f\<rparr>) = Some (s\<lparr>fsys := f', screen := screen s @ of_bytes xs\<rparr>)"
  using assms(2)
proof (induction "length xs" arbitrary: xs f s rule: less_induct)
  case less
  define b where "b = take (limit 512) xs"
  obtain f1 where rd: "vfs_read fs_tbl fd 512 f = Some ((int (length b), b), f1)" and r: "rest f1 (drop (limit 512) xs)"
    using byte_stream.read_prefix [OF st less.prems] unfolding b_def by blast
  show ?case
  proof (cases "xs = []")
    case True
    then show ?thesis using rd r b_def by (subst dump_file.simps) (auto simp: of_bytes_def intro!: exI [of _ f1])
  next
    case False
    then have "length (drop (limit 512) xs) < length xs" and b: "b \<noteq> []" using lim by (cases xs; simp add: b_def)+
    have xs: "of_bytes b @ of_bytes (drop (limit 512) xs) = of_bytes xs"
      by (simp add: b_def of_bytes_def flip: map_append)
    from less.hyps [OF \<open>length (drop (limit 512) xs) < length xs\<close> r, of "s\<lparr>screen := screen s @ of_bytes b\<rparr>"]
    obtain f2 where f2: "rest f2 []" "dump_file fd (s\<lparr>screen := screen s @ of_bytes b, fsys := f1\<rparr>) =
        Some (s\<lparr>fsys := f2, screen := screen s @ of_bytes xs\<rparr>)" using xs by auto
    have comm: "s\<lparr>screen := screen s @ of_bytes b, fsys := f1\<rparr> = s\<lparr>fsys := f1, screen := screen s @ of_bytes b\<rparr>"
      by simp
    from f2(1) f2(2) [unfolded comm] rd b show ?thesis
      by (subst dump_file.simps) (auto simp: put_bytes)
  qed
qed

subsection \<open>Properties\<close>

definition demo_shell :: shell where
  "demo_shell = shell.make demo_fat_open demo_ahci 0x200000 (\<lambda>_. replicate 512 0) 0 3661000 ''/usr/lib'' [] Running"


text \<open>
  C23 (equivalence, shell). \<open>resolve_path\<close> computes what walking the segments of the path computes: the
  root or the working directory to start from, a dot stays, two dots go up (and stay at the
  root), any other segment goes down; as long as no directory on the way is named by more than
  126 characters.
\<close>

theorem resolve_path_walks:
  assumes "list_all comp_ok st" and "length (dir_path st) \<le> 126"
    and "\<And>k. length (dir_path (walk_path (start_dir st input) (take k (components input)))) \<le> 126"
  shows "resolve_path (dir_path st) input = Some (dir_path (walk_path (start_dir st input) (components input)))"
proof -
  obtain b where b: "path_base (dir_path st) input = Some b" using path_base_fits [OF assms(1,2)] by blast
  let ?q = "if input \<noteq> [] \<and> hd input = CHR ''/'' then tl input else input"
  have q: "components ?q = components input" by (simp add: components_tl_slash)
  have "holds b (start_dir st input)" "length b \<le> 127" using path_base_holds [OF assms(1) b] by simp_all
  from path_segments_walk [OF this, of ?q, unfolded q, OF assms(3)] obtain t where
    t: "path_segments ?q b = Some t" "holds t (walk_path (start_dir st input) (components input))" "length t \<le> 127"
    by blast
  from path_clean_holds [OF t(2,3)] show ?thesis unfolding resolve_path_def b t(1) Option.bind.simps .
qed

lemma ascii_int:
  "char_of (101 :: int) = CHR ''e''" "char_of (99 :: int) = CHR ''c''" "char_of (104 :: int) = CHR ''h''"
  "char_of (111 :: int) = CHR ''o''" "char_of (32 :: int) = CHR '' ''" "char_of (105 :: int) = CHR ''i''"
  "char_of (97 :: int) = CHR ''a''" "char_of (98 :: int) = CHR ''b''" "char_of (0 :: nat) = CHR 0x00"
  by code_simp+

theorem resolve_path_walks_witness:
  "resolve_path ''/usr/lib'' ''../bin/./x'' = Some ''/usr/bin/x''"
proof -
  have cs: "components ''../bin/./x'' = [''..'', ''bin'', ''.'', ''x'']" by code_simp
  have "length (dir_path (walk_path (start_dir [''usr'', ''lib''] ''../bin/./x'') (take k (components ''../bin/./x'')))) \<le> 126" for k
    unfolding cs by (simp add: start_dir_def take_Cons' dir_path_def)
  from resolve_path_walks [OF _ _ this] show ?thesis
    by (simp add: cs comp_ok_def dir_path_def start_dir_def)
qed

text \<open>Every session that starts in a proper directory and goes on is in one.\<close>

lemma shell_keeps_directory:
  assumes "is_dir_path (g_cwd s)" and "shell_main cs s = Some s'"
  shows "is_dir_path (g_cwd s')"
proof -
  have "shell_loop cs s = Some s' \<Longrightarrow> is_dir_path (g_cwd s) \<Longrightarrow> is_dir_path (g_cwd s')" for s
  proof (induction cs s rule: shell_loop.induct)
    case (1 cs s)
    obtain r s1 where rl: "read_line cs ([], out_puts ''init> '' s) = (r, s1)"
      by (cases "read_line cs ([], out_puts ''init> '' s)")
    have cwd: "g_cwd s1 = g_cwd s" using read_line_cwd [of cs "([], out_puts ''init> '' s)"] rl by simp
    show ?case
    proof (cases r)
      case None
      then show ?thesis using 1(3,4) cwd unfolding shell_loop.simps [of cs s] rl by simp
    next
      case (Some br)
      then obtain buf rest where r: "r = Some (buf, rest)" by (cases br) simp
      note step = 1(3) [unfolded shell_loop.simps [of cs s] rl r, simplified]
      show ?thesis
      proof (cases "buf = []")
        case True
        then show ?thesis using 1(1) [OF rl [symmetric] r refl True] 1(4) cwd step by simp
      next
        case False
        then obtain s2 where s2: "command buf s1 = Some s2" using step by (auto split: option.splits)
        with command_cwd [OF s2] cwd 1(4) have "is_dir_path (g_cwd s2)" by simp
        then show ?thesis using 1(2) [OF rl [symmetric] r refl False s2] step False s2
          by (simp split: if_splits)
      qed
    qed
  qed
  with assms show ?thesis by (simp add: shell_main_def)
qed

text \<open>
  C24 (bounds, shell). What \<open>resolve_path\<close> does at the limits of its array of 128 characters, from every proper
  working directory (absolute, without empty components, at most 127 characters): components are
  cut so that the result is again a proper directory of at most 127 characters. It writes behind the array
  exactly when a slash has to be put behind a path of 127 characters, at the start of a relative path or
  before a component. The working directory of the session is therefore proper as long as it lasts.
\<close>

theorem shell_paths_bounded:
  assumes "list_all comp_ok st" and "length (dir_path st) \<le> 127"
  shows "resolve_path (dir_path st) input =
      (if (input = [] \<or> hd input \<noteq> CHR ''/'') \<and> length (dir_path st) = 127 then None
       else map_option dir_path (cut_walk (start_dir st input) (components input)))
    \<and> (\<forall>p. resolve_path (dir_path st) input = Some p \<longrightarrow> is_dir_path p)
    \<and> (\<forall>cs s s'. g_cwd s = dir_path st \<longrightarrow> shell_main cs s = Some s' \<longrightarrow> is_dir_path (g_cwd s'))"
proof -
  have proper: "is_dir_path (dir_path st)" using assms by (auto simp: is_dir_path_def)
  let ?q = "if input \<noteq> [] \<and> hd input = CHR ''/'' then tl input else input"
  have q: "components ?q = components input" by (simp add: components_tl_slash)
  have "resolve_path (dir_path st) input = map_option dir_path (cut_walk (start_dir st input) (components input))"
    if no: "\<not> ((input = [] \<or> hd input \<noteq> CHR ''/'') \<and> length (dir_path st) = 127)"
  proof -
    obtain b where b: "path_base (dir_path st) input = Some b" "holds b (start_dir st input)" "length b \<le> 127"
      using path_base_exact [OF assms, of input] no by auto
    note segs = path_segments_exact [OF b(2,3), of ?q, unfolded q]
    show ?thesis
    proof (cases "cut_walk (start_dir st input) (components input)")
      case None
      then show ?thesis using segs b(1) by (simp add: resolve_path_def)
    next
      case (Some st')
      then obtain t where "path_segments ?q b = Some t" "holds t st'" "length t \<le> 127" using segs by auto
      with b(1) Some path_clean_holds [of t st'] show ?thesis by (simp add: resolve_path_def)
    qed
  qed
  moreover have "resolve_path (dir_path st) input = None"
    if "(input = [] \<or> hd input \<noteq> CHR ''/'') \<and> length (dir_path st) = 127"
    using path_base_exact [OF assms, of input] that by (simp add: resolve_path_def)
  moreover have "\<forall>cs s s'. g_cwd s = dir_path st \<longrightarrow> shell_main cs s = Some s' \<longrightarrow> is_dir_path (g_cwd s')"
    using shell_keeps_directory proper by metis
  moreover have "\<forall>p. resolve_path (dir_path st) input = Some p \<longrightarrow> is_dir_path p"
    using resolve_path_dir [OF proper] by blast
  ultimately show ?thesis by simp
qed

theorem shell_paths_bounded_witness:
  "resolve_path ''/usr/lib'' ''/bin/./ls'' = Some ''/bin/ls''
   \<and> resolve_path (CHR ''/'' # replicate 126 CHR ''a'') ''b'' = None"
proof
  have cs: "components ''/bin/./ls'' = [''bin'', ''.'', ''ls'']" by code_simp
  show "resolve_path ''/usr/lib'' ''/bin/./ls'' = Some ''/bin/ls''"
    using shell_paths_bounded [of "[''usr'', ''lib'']" "''/bin/./ls''"]
    by (simp add: cs comp_ok_def dir_path_def start_dir_def cut_component_def)
  show "resolve_path (CHR ''/'' # replicate 126 CHR ''a'') ''b'' = None"
    using shell_paths_bounded [of "[replicate 126 CHR ''a'']" "''b''"]
    by (simp add: comp_ok_def dir_path_def)
qed

text \<open>
  C25 (liveness, shell and file systems). \<open>dump\<close> of an open file returns, and has then printed exactly
  the bytes that were left to read: those of a FAT32 file on a working disk, or of a procfs file.
\<close>

theorem dump_prints_file:
  assumes "fat_rest fd node fs cs f xs \<or> proc_rest fd f = Some xs"
  shows "\<exists>f'. dump_file fd (s\<lparr>fsys := f\<rparr>) = Some (s\<lparr>fsys := f', screen := screen s @ of_bytes xs\<rparr>)"
  using assms
proof
  assume "fat_rest fd node fs cs f xs"
  from dump_stream [OF fat.byte_stream_axioms this] show ?thesis by fastforce
next
  assume "proc_rest fd f = Some xs"
  from dump_stream [OF proc.byte_stream_axioms [where fat = fat_ops, folded fs_tbl_def] this] show ?thesis by fastforce
qed

theorem dump_prints_file_witness:
  "\<exists>f'. dump_file 3 demo_shell = Some (demo_shell\<lparr>fsys := f', screen := replicate 5 (CHR 0x00)\<rparr>)"
proof -
  have "demo_shell\<lparr>fsys := demo_fat_open\<rparr> = demo_shell" by (simp add: demo_shell_def shell.defs)
  moreover have "screen demo_shell @ of_bytes (replicate 5 0) = replicate 5 (CHR 0x00)"
    by (simp add: demo_shell_def shell.defs of_bytes_def numeral_eq_Suc ascii_int)
  ultimately show ?thesis
    using dump_prints_file [of 3 "Heap 0" 0 "[2]" demo_fat_open "replicate 5 0" demo_shell] demo_fat_rest(1) by simp
qed

text \<open>
  The line the editor returns is the text it shows: what was echoed after
  the prompt, with the characters taken back that were erased. It has at most 127 characters.
\<close>

theorem line_is_shown:
  assumes "read_line cs ([], s) = (Some (l, rest), s')" and "\<forall>c \<in> set cs. c < 256"
  shows "\<exists>t. screen s' = screen s @ t @ [newline] \<and> shown [] t = l \<and> length l \<le> 127"
  using read_line_shown [OF assms, of "[]" "screen s"] by simp

theorem line_is_shown_witness:
  "\<exists>s' t. read_line [97, 98, 8, 99, 10] ([], demo_shell) = (Some (''ac'', []), s') \<and>
     screen s' = t @ [newline] \<and> shown [] t = ''ac''"
proof -
  obtain s' where r: "read_line [97, 98, 8, 99, 10] ([], demo_shell) = (Some (''ac'', []), s')"
    by (simp add: edit_char_def BUF_SIZE_def ascii_int)
  moreover have "screen demo_shell = []" by (simp add: demo_shell_def shell.defs)
  ultimately show ?thesis using line_is_shown [OF r] by simp
qed

end
