(* ===== verification/Console.thy ===== *)
theory Console
  imports Prelude
begin

text \<open>
  The consoles: text on the framebuffer (\<^verbatim>\<open>core/main.c\<close>) mirrored to the serial port
  (\<^verbatim>\<open>drivers/serial.c\<close>), and the text mode of \<^verbatim>\<open>x86_64/print.c\<close>. A frame buffer is a memory of
  bytes from its own start on, without an end, so that writes past \<open>fb_size\<close> can be seen. The
  font is an argument. The port takes every character; waiting for it is left out.
\<close>

subsection \<open>State\<close>

type_synonym bytes = "nat \<Rightarrow> u8"

record console =
  fb_mem :: bytes
  fb_present :: bool
  fb_backbuffer :: "bytes option"
  fb_pitch :: u32
  fb_width :: u32
  fb_height :: u32
  fb_bpp :: u8
  fb_size :: u32
  cursor_x :: u32
  cursor_y :: u32
  suppress_fb :: bool
  fb_dirty :: bool
  cursor_saved :: "nat \<Rightarrow> u32"
  cursor_saved_valid :: bool
  cursor_visible :: bool
  serial_out :: string

definition FONT_WIDTH :: u32 where "FONT_WIDTH = 12"
definition FONT_HEIGHT :: u32 where "FONT_HEIGHT = 22"
definition FB_BG_COLOR :: u32 where "FB_BG_COLOR = 0xFF000000"

definition store32 :: "nat \<Rightarrow> u32 \<Rightarrow> bytes \<Rightarrow> bytes" where
  "store32 a w m = m(a := ucast w, a + 1 := ucast (drop_bit 8 w), a + 2 := ucast (drop_bit 16 w),
     a + 3 := ucast (drop_bit 24 w))"

definition load32 :: "bytes \<Rightarrow> nat \<Rightarrow> u32" where
  "load32 m a = ucast (m a) OR push_bit 8 (ucast (m (a + 1))) OR push_bit 16 (ucast (m (a + 2))) OR
     push_bit 24 (ucast (m (a + 3)))"

text \<open>The buffer that is drawn to: the back buffer, if there is one.\<close>

definition drawn :: "console \<Rightarrow> bytes" where
  "drawn s = (case fb_backbuffer s of Some b \<Rightarrow> b | None \<Rightarrow> fb_mem s)"

definition upd_drawn :: "(bytes \<Rightarrow> bytes) \<Rightarrow> console \<Rightarrow> console" where
  "upd_drawn f s =
     (case fb_backbuffer s of Some b \<Rightarrow> s\<lparr>fb_backbuffer := Some (f b)\<rparr> | None \<Rightarrow> s\<lparr>fb_mem := f (fb_mem s)\<rparr>)"

subsection \<open>Drawing\<close>

definition put_pixel :: "u32 \<Rightarrow> u32 \<Rightarrow> u32 \<Rightarrow> console \<Rightarrow> console" where
  "put_pixel x y color s =
     (if fb_width s \<le> x \<or> fb_height s \<le> y then s
      else
        let offset = y * fb_pitch s + x * (ucast (fb_bpp s) div 8)
        in (upd_drawn (store32 (unat offset) color) s)\<lparr>fb_dirty := True\<rparr>)"

text \<open>The copy to the screen, in words of 64 bits.\<close>

definition fb_flush :: "console \<Rightarrow> console" where
  "fb_flush s =
     (case fb_backbuffer s of None \<Rightarrow> s
      | Some b \<Rightarrow>
          if \<not> fb_present s \<or> \<not> fb_dirty s then s
          else s\<lparr>fb_mem := (\<lambda>i. if i < 8 * (unat (fb_size s) div 8) then b i else fb_mem s i), fb_dirty := False\<rparr>)"

definition draw_char :: "(nat \<Rightarrow> u8) \<Rightarrow> char \<Rightarrow> u32 \<Rightarrow> u32 \<Rightarrow> u32 \<Rightarrow> console \<Rightarrow> console" where
  "draw_char font c x y color s =
     (if (of_char c :: nat) < 32 then s
      else
        let offset = (of_char c - 32) * 22 * 2
        in fold (\<lambda>row.
             let byte1 = font (offset + row * 2); byte2 = font (offset + row * 2 + 1);
                 line = push_bit 8 (ucast byte1) OR ucast byte2 :: u16
             in fold (\<lambda>col s.
                  if drop_bit (15 - col) line AND 1 \<noteq> 0
                  then put_pixel (x + of_nat col) (y + of_nat row) color s else s) [0 ..< 12])
           [0 ..< 22] s)"

text \<open>
  Scrolling by one line of text: the upper part is moved as a whole, which the forward copy does
  because source and destination are at least a word apart; then the last line is cleared.
\<close>

definition move_up :: "console \<Rightarrow> bytes \<Rightarrow> bytes" where
  "move_up s m =
     (let row_bytes = fb_pitch s; rows_to_move = fb_height s - FONT_HEIGHT;
          n = unat rows_to_move * unat row_bytes
      in (\<lambda>i. if i < n then m (i + unat (FONT_HEIGHT * row_bytes)) else m i))"

definition clear_words :: "console \<Rightarrow> bytes \<Rightarrow> bytes" where
  "clear_words s m =
     (let base = unat ((fb_height s - FONT_HEIGHT) * fb_pitch s); words_per_line = unat (fb_pitch s) div 4
      in fold (\<lambda>y. fold (\<lambda>x. store32 (base + 4 * (y * words_per_line + x)) FB_BG_COLOR) [0 ..< words_per_line])
           [0 ..< 22] m)"

definition clear_pixels :: "console \<Rightarrow> console" where
  "clear_pixels s = fold (\<lambda>y. fold (\<lambda>x. put_pixel (of_nat x) (of_nat y) FB_BG_COLOR) [0 ..< unat (fb_width s)])
     [unat (fb_height s - FONT_HEIGHT) ..< unat (fb_height s)] s"

definition scroll :: "console \<Rightarrow> console" where
  "scroll s =
     (let s1 = upd_drawn (move_up s) s;
          s2 = (if fb_bpp s1 = 32 \<and> fb_pitch s1 mod 4 = 0 then upd_drawn (clear_words s1) s1 else clear_pixels s1)
      in s2\<lparr>cursor_y := fb_height s2 - FONT_HEIGHT, fb_dirty := True\<rparr>)"

definition new_line :: "console \<Rightarrow> console" where
  "new_line s =
     (if suppress_fb s then s
      else
        let s1 = s\<lparr>cursor_x := 0, cursor_y := cursor_y s + FONT_HEIGHT\<rparr>
        in if fb_height s1 \<le> cursor_y s1 then scroll s1 else s1)"

definition next_cell :: "console \<Rightarrow> console" where
  "next_cell s =
     (let s1 = s\<lparr>cursor_x := cursor_x s + FONT_WIDTH\<rparr>
      in if fb_width s1 - FONT_WIDTH \<le> cursor_x s1
         then s1\<lparr>cursor_x := 0, cursor_y := cursor_y s1 + FONT_HEIGHT\<rparr> else s1)"

definition print_cell :: "(nat \<Rightarrow> u8) \<Rightarrow> u32 \<Rightarrow> char \<Rightarrow> console \<Rightarrow> console" where
  "print_cell font color c s =
     (if c = char_of (10 :: nat) then new_line s
      else if suppress_fb s then s
      else next_cell (draw_char font c (cursor_x s) (cursor_y s) color s))"

definition serial_putc :: "char \<Rightarrow> console \<Rightarrow> console" where
  "serial_putc c s = s\<lparr>serial_out := serial_out s @ [c]\<rparr>"

definition serial_write :: "string \<Rightarrow> console \<Rightarrow> console" where
  "serial_write str = fold (\<lambda>c s.
     if c = char_of (10 :: nat) then serial_putc (char_of (10 :: nat)) (serial_putc (char_of (13 :: nat)) s)
     else serial_putc c s) str"

definition kprint :: "(nat \<Rightarrow> u8) \<Rightarrow> string \<Rightarrow> u32 \<Rightarrow> console \<Rightarrow> console" where
  "kprint font str color s = serial_write str (fold (print_cell font color) str s)"

definition fb_puts :: "(nat \<Rightarrow> u8) \<Rightarrow> string \<Rightarrow> console \<Rightarrow> console" where
  "fb_puts font str s =
     fb_flush ((kprint font str 0xFFFFFFFF (s\<lparr>suppress_fb := False\<rparr>))\<lparr>suppress_fb := suppress_fb s\<rparr>)"

definition fb_putc :: "(nat \<Rightarrow> u8) \<Rightarrow> char \<Rightarrow> console \<Rightarrow> console" where
  "fb_putc font c s =
     fb_flush ((kprint font (if c = CHR 0x00 then [] else [c]) 0xFFFFFFFF (s\<lparr>suppress_fb := False\<rparr>))\<lparr>suppress_fb := suppress_fb s\<rparr>)"

definition clear_cell :: "console \<Rightarrow> console" where
  "clear_cell s = fold (\<lambda>y. fold (\<lambda>x. put_pixel (cursor_x s + of_nat x) (cursor_y s + of_nat y) FB_BG_COLOR) [0 ..< 12])
     [0 ..< 22] s"

definition fb_backspace :: "console \<Rightarrow> console" where
  "fb_backspace s =
     (let erase = (\<lambda>s. fold serial_putc [char_of (8 :: nat), CHR '' '', char_of (8 :: nat)] (fb_flush (clear_cell s)))
      in if FONT_WIDTH \<le> cursor_x s then erase (s\<lparr>cursor_x := cursor_x s - FONT_WIDTH\<rparr>)
         else if FONT_HEIGHT \<le> cursor_y s
         then erase (s\<lparr>cursor_y := cursor_y s - FONT_HEIGHT, cursor_x := fb_width s - FONT_WIDTH\<rparr>)
         else s\<lparr>cursor_x := 0\<rparr>)"

subsection \<open>The cursor\<close>

text \<open>The address of a pixel of the cursor's cell; the row is multiplied in 64 bits.\<close>

definition cell_offset :: "console \<Rightarrow> nat \<Rightarrow> nat \<Rightarrow> nat" where
  "cell_offset s x y =
     unat (ucast (cursor_y s + of_nat y) * ucast (fb_pitch s) +
       ucast ((cursor_x s + of_nat x) * (ucast (fb_bpp s) div 8)) :: u64)"

definition show_pixel :: "console \<Rightarrow> nat \<Rightarrow> nat \<Rightarrow> bytes \<times> (nat \<Rightarrow> u32) \<Rightarrow> bytes \<times> (nat \<Rightarrow> u32)" where
  "show_pixel s y x mv =
     (let (m, saved) = mv; a = cell_offset s x y; val = load32 m a
      in (store32 a ((NOT val AND 0x00FFFFFF) OR (val AND 0xFF000000)) m, saved(y * 12 + x := val)))"

definition fb_cursor_show :: "console \<Rightarrow> console" where
  "fb_cursor_show s =
     (if suppress_fb s \<or> cursor_visible s \<or> \<not> fb_present s then s
      else
        let (m, saved) = fold (\<lambda>y. fold (show_pixel s y) [0 ..< 12]) [0 ..< 22] (drawn s, cursor_saved s)
        in fb_flush ((upd_drawn (\<lambda>_. m) s)\<lparr>cursor_saved := saved, cursor_saved_valid := True, cursor_visible := True\<rparr>))"

definition hide_pixel :: "console \<Rightarrow> nat \<Rightarrow> nat \<Rightarrow> bytes \<Rightarrow> bytes" where
  "hide_pixel s y x m = store32 (cell_offset s x y) (cursor_saved s (y * 12 + x)) m"

definition fb_cursor_hide :: "console \<Rightarrow> console" where
  "fb_cursor_hide s =
     (if suppress_fb s \<or> \<not> cursor_visible s \<or> \<not> fb_present s \<or> \<not> cursor_saved_valid s then s
      else fb_flush ((upd_drawn (fold (\<lambda>y. fold (hide_pixel s y) [0 ..< 12]) [0 ..< 22]) s)\<lparr>cursor_visible := False\<rparr>))"

subsection \<open>Text mode\<close>

record vga =
  vga_buffer :: "nat \<Rightarrow> u8 \<times> u8"
  vga_col :: nat
  vga_row :: nat
  vga_color :: u8

definition NUM_COLS :: nat where "NUM_COLS = 80"
definition NUM_ROWS :: nat where "NUM_ROWS = 25"

definition clear_row :: "nat \<Rightarrow> vga \<Rightarrow> vga" where
  "clear_row r s = s\<lparr>vga_buffer := fold (\<lambda>c b. b(c + NUM_COLS * r := (0x20, vga_color s))) [0 ..< NUM_COLS] (vga_buffer s)\<rparr>"

definition print_clear :: "vga \<Rightarrow> vga" where
  "print_clear s = fold clear_row [0 ..< NUM_ROWS] s"

definition print_newline :: "vga \<Rightarrow> vga" where
  "print_newline s =
     (let s1 = s\<lparr>vga_col := 0\<rparr>
      in if vga_row s1 < NUM_ROWS - 1 then s1\<lparr>vga_row := Suc (vga_row s1)\<rparr>
         else clear_row (NUM_COLS - 1)
           (s1\<lparr>vga_buffer := fold (\<lambda>r. fold (\<lambda>c b. b(c + NUM_COLS * (r - 1) := b (c + NUM_COLS * r))) [0 ..< NUM_COLS])
              [1 ..< NUM_ROWS] (vga_buffer s1)\<rparr>))"

definition print_char :: "u8 \<Rightarrow> vga \<Rightarrow> vga" where
  "print_char c s =
     (if c = 10 then print_newline s
      else
        let s1 = (if NUM_COLS < vga_col s then print_newline s else s)
        in s1\<lparr>vga_buffer := (vga_buffer s1)(vga_col s1 + NUM_COLS * vga_row s1 := (c, vga_color s1)),
              vga_col := Suc (vga_col s1)\<rparr>)"

definition print_str :: "u8 list \<Rightarrow> vga \<Rightarrow> vga" where
  "print_str str s = fold print_char (takeWhile (\<lambda>c. c \<noteq> 0) str) s"

definition print_set_color :: "u8 \<Rightarrow> u8 \<Rightarrow> vga \<Rightarrow> vga" where
  "print_set_color foreground background s = s\<lparr>vga_color := foreground + push_bit 4 background\<rparr>"

subsection \<open>Words in memory\<close>

lemma bytes_of_load:
  "ucast (load32 m a) = m a" "ucast (drop_bit 8 (load32 m a)) = m (a + 1)"
  "ucast (drop_bit 16 (load32 m a)) = m (a + 2)" "ucast (drop_bit 24 (load32 m a)) = m (a + 3)"
proof -
  have no: "\<not> bit b k" if "8 \<le> k" for b :: u8 and k using that bit_imp_le_length [of b k] by auto
  show "ucast (load32 m a) = m a" "ucast (drop_bit 8 (load32 m a)) = m (a + 1)"
    by (rule bit_word_eqI, simp add: load32_def bit_simps no)+
  show "ucast (drop_bit 16 (load32 m a)) = m (a + 2)" "ucast (drop_bit 24 (load32 m a)) = m (a + 3)"
    by (rule bit_word_eqI, simp add: load32_def bit_simps no)+
qed

lemma load_store: "load32 (store32 a w m) a = w"
proof (rule bit_word_eqI)
  fix k assume k: "k < LENGTH(32)"
  then consider "k < 8" | "8 \<le> k" "k < 16" | "16 \<le> k" "k < 24" | "24 \<le> k" "k < 32" by fastforce
  then show "bit (load32 (store32 a w m) a) k = bit w k"
    using k by cases (auto simp: load32_def store32_def bit_simps)
qed

lemma store32_other: "i < a \<or> a + 4 \<le> i \<Longrightarrow> store32 a w m i = m i"
  by (auto simp: store32_def)

lemma store32_at: "a \<le> i \<Longrightarrow> i < a + 4 \<Longrightarrow> store32 a w m i = store32 a w m' i"
proof -
  assume "a \<le> i" "i < a + 4"
  then consider "i = a" | "i = a + 1" | "i = a + 2" | "i = a + 3" by linarith
  then show ?thesis by cases (simp_all add: store32_def)
qed

lemma store_loaded: "store32 a (load32 m a) m = m"
  by (rule ext) (simp add: store32_def bytes_of_load)

lemma load32_cong:
  assumes "\<And>i. i < 4 \<Longrightarrow> m (a + i) = m' (b + i)"
  shows "load32 m a = load32 m' b"
  using assms [of 0] assms [of 1] assms [of 2] assms [of 3] by (simp add: load32_def)

text \<open>Two loops, one inside the other, as one over pairs.\<close>

lemma fold_fold: "fold (\<lambda>y. fold (f y) xs) ys = fold (\<lambda>(y, x). f y x) (List.product ys xs)"
proof (induction ys)
  case (Cons y ys)
  have "fold (f y) xs = fold (\<lambda>(y, x). f y x) (map (Pair y) xs)" by (simp add: fold_map comp_def)
  with Cons show ?case by (simp add: fun_eq_iff)
qed simp

subsection \<open>Showing and hiding the cursor\<close>

text \<open>Words at least four bytes apart that are saved and changed, and then put back.\<close>

definition apart :: "('p \<Rightarrow> nat) \<Rightarrow> 'p set \<Rightarrow> bool" where
  "apart addr S \<longleftrightarrow> (\<forall>p \<in> S. \<forall>q \<in> S. p \<noteq> q \<longrightarrow> addr p + 4 \<le> addr q \<or> addr q + 4 \<le> addr p)"

lemma fold_save:
  assumes "apart addr S" and "inj_on idx S" and "set ps \<subseteq> S" and "distinct ps"
    and "fold (\<lambda>p (m, saved). (store32 (addr p) (f (load32 m (addr p))) m, saved(idx p := load32 m (addr p))))
      ps (m, saved) = (m', saved')"
  shows "(\<forall>p \<in> set ps. saved' (idx p) = load32 m (addr p)) \<and>
    (\<forall>i. (\<forall>p \<in> set ps. i < addr p \<or> addr p + 4 \<le> i) \<longrightarrow> m' i = m i) \<and>
    (\<forall>k. k \<notin> idx ` set ps \<longrightarrow> saved' k = saved k) \<and>
    (\<forall>p \<in> set ps. load32 m' (addr p) = f (load32 m (addr p)))"
  using assms(3-)
proof (induction ps arbitrary: m saved)
  case (Cons p ps)
  let ?m = "store32 (addr p) (f (load32 m (addr p))) m"
  have keep: "load32 ?m (addr q) = load32 m (addr q)" if "q \<in> set ps" for q
  proof (rule load32_cong)
    fix i :: nat assume "i < 4"
    have "p \<noteq> q" "p \<in> S" "q \<in> S" using that Cons.prems(1,2) by auto
    with assms(1) have "addr p + 4 \<le> addr q \<or> addr q + 4 \<le> addr p" unfolding apart_def by blast
    with \<open>i < 4\<close> show "?m (addr q + i) = m (addr q + i)" by (intro store32_other) linarith
  qed
  have idx: "idx p \<notin> idx ` set ps"
    using assms(2) Cons.prems(1,2) by (auto simp: inj_on_def)
  have "set ps \<subseteq> S" "distinct ps" using Cons.prems by simp_all
  note IH = Cons.IH [OF this, of ?m "saved(idx p := load32 m (addr p))"]
  have step: "fold (\<lambda>p (m, saved). (store32 (addr p) (f (load32 m (addr p))) m, saved(idx p := load32 m (addr p))))
      ps (?m, saved(idx p := load32 m (addr p))) = (m', saved')" using Cons.prems(3) by (simp only: fold_simps prod.case)
  have "saved' (idx q) = load32 m (addr q)" if "q \<in> set (p # ps)" for q
    using that IH [OF step] keep idx by (cases "q \<in> set ps") auto
  moreover have "m' i = m i" if "\<forall>q \<in> set (p # ps). i < addr q \<or> addr q + 4 \<le> i" for i
    using that IH [OF step] store32_other [of i "addr p"] by simp
  moreover have "saved' k = saved k" if "k \<notin> idx ` set (p # ps)" for k
    using that IH [OF step] by simp
  moreover have "load32 m' (addr q) = f (load32 m (addr q))" if "q \<in> set (p # ps)" for q
  proof (cases "q = p")
    case True
    have "load32 m' (addr p) = load32 ?m (addr p)"
    proof (rule load32_cong)
      fix i :: nat assume i: "i < 4"
      have "addr p + i < addr r \<or> addr r + 4 \<le> addr p + i" if "r \<in> set ps" for r
      proof -
        have "p \<noteq> r" "p \<in> S" "r \<in> S" using that Cons.prems(1,2) by auto
        with assms(1) have "addr p + 4 \<le> addr r \<or> addr r + 4 \<le> addr p" unfolding apart_def by blast
        with i show ?thesis by linarith
      qed
      then show "m' (addr p + i) = ?m (addr p + i)" using IH [OF step] by blast
    qed
    then show ?thesis using True by (simp add: load_store)
  next
    case False
    then show ?thesis using that IH [OF step] keep by simp
  qed
  ultimately show ?case by blast
qed simp

lemma fold_restore:
  assumes "apart addr S" and "set ps \<subseteq> S" and "distinct ps"
    and "\<forall>p \<in> set ps. val p = load32 m (addr p)"
    and "\<forall>i. (\<forall>p \<in> set ps. i < addr p \<or> addr p + 4 \<le> i) \<longrightarrow> m' i = m i"
  shows "fold (\<lambda>p. store32 (addr p) (val p)) ps m' = m"
  using assms(2-)
proof (induction ps arbitrary: m')
  case Nil
  then show ?case by auto
next
  case (Cons p ps)
  let ?m = "store32 (addr p) (val p) m'"
  have "?m i = m i" if "\<forall>q \<in> set ps. i < addr q \<or> addr q + 4 \<le> i" for i
  proof (cases "i < addr p \<or> addr p + 4 \<le> i")
    case True
    then show ?thesis using that Cons.prems(4) by (simp add: store32_other)
  next
    case False
    then have "?m i = store32 (addr p) (val p) m i" by (intro store32_at) simp_all
    also have "store32 (addr p) (val p) m = m" using Cons.prems(3) by (simp add: store_loaded)
    finally show ?thesis .
  qed
  with Cons show ?case by simp
qed

text \<open>The screen the console has: 32 bits per pixel, a whole number of pixels in a line.\<close>

definition screen_ok :: "console \<Rightarrow> bool" where
  "screen_ok s \<longleftrightarrow> fb_bpp s = 32 \<and> unat (fb_pitch s) mod 4 = 0 \<and> 4 * unat (fb_width s) \<le> unat (fb_pitch s) \<and>
     24 < unat (fb_width s) \<and> 22 \<le> unat (fb_height s) \<and> unat (fb_height s) * unat (fb_pitch s) < 2 ^ 32"

definition cursor_cells :: "(nat \<times> nat) list" where
  "cursor_cells = List.product [0 ..< 22] [0 ..< 12]"

lemma cursor_cells: "set cursor_cells = {0 ..< 22} \<times> {0 ..< 12}" "distinct cursor_cells"
  by (simp_all add: cursor_cells_def distinct_product)

lemma unat_ucast_64: "unat (ucast w :: u64) = unat w" for w :: u32
  using unsigned_less [of w, where 'a = nat] by (simp add: unsigned_ucast_eq take_bit_nat_eq_self_iff)

lemma unat_mult_add: "unat a * unat b + unat c < 2 ^ 64 \<Longrightarrow> unat (a * b + c) = unat a * unat b + unat c"
  for a b c :: u64
  by (simp add: unat_word_ariths)

lemma cell_offset_eq:
  assumes "fb_bpp s = 32" and "unat (cursor_y s) + 22 < 2 ^ 32" and "4 * (unat (cursor_x s) + 12) < 2 ^ 32"
    and "y < 22" and "x < 12"
  shows "cell_offset s x y = (unat (cursor_y s) + y) * unat (fb_pitch s) + 4 * (unat (cursor_x s) + x)"
proof -
  have y: "unat (cursor_y s + of_nat y) = unat (cursor_y s) + y"
    using assms(2,4) by (simp add: unat_plus_if_size word_size unat_of_nat)
  have "(ucast (fb_bpp s) div 8 :: u32) = 4" using assms(1) by simp
  moreover have "unat ((cursor_x s + of_nat x) * 4) = 4 * (unat (cursor_x s) + x)"
    using assms(3,5) by (simp add: unat_word_ariths unat_of_nat)
  ultimately have x: "unat ((cursor_x s + of_nat x) * (ucast (fb_bpp s) div 8)) = 4 * (unat (cursor_x s) + x)" by simp
  have p: "unat (fb_pitch s) < 2 ^ 32" using unsigned_less [of "fb_pitch s", where 'a = nat] by simp
  have "(unat (cursor_y s) + y) * unat (fb_pitch s) \<le> (2 ^ 32 - 1) * (2 ^ 32 - 1)"
    using assms(2,4) p by (intro mult_le_mono) simp_all
  then have "(unat (cursor_y s) + y) * unat (fb_pitch s) + 4 * (unat (cursor_x s) + x) < 2 ^ 64"
    using assms(3,5) by simp
  then show ?thesis
    unfolding cell_offset_def by (subst unat_mult_add) (simp_all only: unat_ucast_64 x y)
qed

lemma cells_apart:
  assumes "fb_bpp s = 32" and "unat (cursor_y s) + 22 < 2 ^ 32" and "4 * (unat (cursor_x s) + 12) < 2 ^ 32"
    and "48 \<le> unat (fb_pitch s)"
  shows "apart (\<lambda>(y, x). cell_offset s x y) (set cursor_cells)"
  unfolding apart_def
proof (clarsimp simp: cursor_cells)
  fix y x y' x' :: nat
  assume b: "y < 22" "x < 12" "y' < 22" "x' < 12" and ne: "y = y' \<longrightarrow> x \<noteq> x'"
    and far: "\<not> cell_offset s x' y' + 4 \<le> cell_offset s x y"
  let ?p = "unat (fb_pitch s)" and ?a = "unat (cursor_y s)" and ?c = "unat (cursor_x s)"
  note off = cell_offset_eq [OF assms(1-3)]
  consider "y = y'" | "y + 1 \<le> y'" | "y' + 1 \<le> y" by linarith
  then show "cell_offset s x y + 4 \<le> cell_offset s x' y'"
  proof cases
    case 1
    then show ?thesis using ne far b by (simp add: off)
  next
    case 2
    then have "(?a + y + 1) * ?p \<le> (?a + y') * ?p" by (intro mult_le_mono1) simp
    then show ?thesis using b assms(4) by (simp add: off algebra_simps)
  next
    case 3
    then have "(?a + y' + 1) * ?p \<le> (?a + y) * ?p" by (intro mult_le_mono1) simp
    then show ?thesis using b assms(4) far by (simp add: off algebra_simps)
  qed
qed

lemma drawn_upd [simp]: "drawn (upd_drawn f s) = f (drawn s)"
  by (simp add: drawn_def upd_drawn_def split: option.splits)

lemma upd_drawn_simps [simp]:
  "fb_present (upd_drawn f s) = fb_present s" "fb_pitch (upd_drawn f s) = fb_pitch s"
  "fb_width (upd_drawn f s) = fb_width s" "fb_height (upd_drawn f s) = fb_height s" "fb_bpp (upd_drawn f s) = fb_bpp s"
  "fb_size (upd_drawn f s) = fb_size s" "cursor_x (upd_drawn f s) = cursor_x s" "cursor_y (upd_drawn f s) = cursor_y s"
  "suppress_fb (upd_drawn f s) = suppress_fb s" "cursor_saved (upd_drawn f s) = cursor_saved s"
  "cursor_saved_valid (upd_drawn f s) = cursor_saved_valid s" "cursor_visible (upd_drawn f s) = cursor_visible s"
  by (simp_all add: upd_drawn_def split: option.splits)

lemma flush_simps [simp]:
  "drawn (fb_flush s) = drawn s"
  "fb_present (fb_flush s) = fb_present s" "fb_pitch (fb_flush s) = fb_pitch s"
  "fb_width (fb_flush s) = fb_width s" "fb_height (fb_flush s) = fb_height s" "fb_bpp (fb_flush s) = fb_bpp s"
  "fb_size (fb_flush s) = fb_size s" "cursor_x (fb_flush s) = cursor_x s" "cursor_y (fb_flush s) = cursor_y s"
  "suppress_fb (fb_flush s) = suppress_fb s" "cursor_saved (fb_flush s) = cursor_saved s"
  "cursor_saved_valid (fb_flush s) = cursor_saved_valid s" "cursor_visible (fb_flush s) = cursor_visible s"
  by (simp_all add: fb_flush_def drawn_def split: option.splits)

lemma drawn_upds [simp]:
  "drawn (s\<lparr>cursor_saved := a\<rparr>) = drawn s" "drawn (s\<lparr>cursor_saved_valid := b\<rparr>) = drawn s"
  "drawn (s\<lparr>cursor_visible := b\<rparr>) = drawn s" "drawn (s\<lparr>fb_dirty := b\<rparr>) = drawn s"
  "drawn (s\<lparr>cursor_x := c\<rparr>) = drawn s" "drawn (s\<lparr>cursor_y := c\<rparr>) = drawn s"
  "drawn (s\<lparr>suppress_fb := b\<rparr>) = drawn s" "drawn (s\<lparr>serial_out := t\<rparr>) = drawn s"
  by (cases "fb_backbuffer s"; simp add: drawn_def)+

definition invert :: "u32 \<Rightarrow> u32" where
  "invert v = (NOT v AND 0x00FFFFFF) OR (v AND 0xFF000000)"

lemma show_fold:
  "fold (\<lambda>y. fold (show_pixel s y) [0 ..< 12]) [0 ..< 22] = fold (\<lambda>p (m, saved).
     (store32 ((\<lambda>(y, x). cell_offset s x y) p) (invert (load32 m ((\<lambda>(y, x). cell_offset s x y) p))) m,
      saved((\<lambda>(y, x). y * 12 + x) p := load32 m ((\<lambda>(y, x). cell_offset s x y) p)))) cursor_cells"
  unfolding fold_fold cursor_cells_def [symmetric]
  by (intro arg_cong [where f = "\<lambda>f. fold f cursor_cells"] ext)
    (simp add: show_pixel_def invert_def Let_def split_beta)

lemma hide_fold:
  "fold (\<lambda>y. fold (hide_pixel s y) [0 ..< 12]) [0 ..< 22] = fold (\<lambda>p.
     store32 ((\<lambda>(y, x). cell_offset s x y) p) (cursor_saved s ((\<lambda>(y, x). y * 12 + x) p))) cursor_cells"
  unfolding fold_fold cursor_cells_def [symmetric]
  by (intro arg_cong [where f = "\<lambda>f. fold f cursor_cells"] ext) (simp add: hide_pixel_def split_beta)

lemma cell_index_inj: "inj_on (\<lambda>(y, x). y * 12 + x) (set cursor_cells)"
  by (rule inj_on_inverseI [where g = "\<lambda>k. (k div 12, k mod 12)"]) (auto simp: cursor_cells)

text \<open>A cursor that is shown below the screen changes memory behind it.\<close>

lemma invert_changes: "invert v \<noteq> v"
proof
  assume "invert v = v"
  then have "bit (invert v) 0 = bit v 0" by simp
  then show False by (simp add: invert_def bit_simps)
qed

lemma cursor_shown_outside:
  assumes "fb_bpp s = 32" and "unat (cursor_y s) + 22 < 2 ^ 32" and "4 * (unat (cursor_x s) + 12) < 2 ^ 32"
    and "48 \<le> unat (fb_pitch s)" and "\<not> cursor_visible s" "\<not> suppress_fb s" "fb_present s"
    and "unat (fb_height s) \<le> unat (cursor_y s)"
  shows "\<exists>i \<ge> unat (fb_height s) * unat (fb_pitch s). drawn (fb_cursor_show s) i \<noteq> drawn s i"
proof -
  obtain m saved where f: "fold (\<lambda>y. fold (show_pixel s y) [0 ..< 12]) [0 ..< 22] (drawn s, cursor_saved s) = (m, saved)"
    by fastforce
  note sv = fold_save [OF cells_apart [OF assms(1-4)] cell_index_inj subset_refl cursor_cells(2) f [unfolded show_fold]]
  let ?a = "cell_offset s 0 0"
  have "(0, 0) \<in> set cursor_cells" by (simp add: cursor_cells)
  with sv have "load32 m ?a = invert (load32 (drawn s) ?a)" by fastforce
  then have "load32 m ?a \<noteq> load32 (drawn s) ?a" by (simp add: invert_changes)
  then obtain i where "m (?a + i) \<noteq> drawn s (?a + i)" using load32_cong by blast
  moreover have "unat (fb_height s) * unat (fb_pitch s) \<le> ?a"
    using assms(8) by (simp add: cell_offset_eq [OF assms(1-3)] trans_le_add1)
  moreover have "drawn (fb_cursor_show s) = m" using assms(5-7) by (simp add: fb_cursor_show_def f)
  ultimately show ?thesis by (intro exI [of _ "?a + i"]) simp
qed

subsection \<open>Pixels\<close>

definition pixel :: "console \<Rightarrow> nat \<Rightarrow> nat \<Rightarrow> u32" where
  "pixel s x y = load32 (drawn s) (y * unat (fb_pitch s) + 4 * x)"

lemma screen_okD:
  assumes "screen_ok s"
  shows "fb_bpp s = 32" "unat (fb_pitch s) mod 4 = 0" "4 * unat (fb_width s) \<le> unat (fb_pitch s)"
    "24 < unat (fb_width s)" "22 \<le> unat (fb_height s)" "unat (fb_height s) * unat (fb_pitch s) < 2 ^ 32"
  using assms by (simp_all add: screen_ok_def)

text \<open>The bytes of a pixel on the screen.\<close>

lemma pixel_inside:
  assumes "screen_ok s" and "x < unat (fb_width s)" and "y < h" and "h \<le> unat (fb_height s)"
  shows "y * unat (fb_pitch s) + 4 * x + 4 \<le> h * unat (fb_pitch s)"
proof -
  have "(y + 1) * unat (fb_pitch s) \<le> h * unat (fb_pitch s)" using assms(3) by (intro mult_le_mono1) simp
  moreover have "4 * x + 4 \<le> unat (fb_pitch s)" using assms(2) screen_okD(3) [OF assms(1)] by simp
  ultimately show ?thesis by simp
qed

lemma put_pixel_eq:
  assumes "screen_ok s" and "x < fb_width s" and "y < fb_height s"
  shows "put_pixel x y c s =
    (upd_drawn (store32 (unat y * unat (fb_pitch s) + 4 * unat x) c) s)\<lparr>fb_dirty := True\<rparr>"
proof -
  note ok = screen_okD [OF assms(1)]
  have "unat y * unat (fb_pitch s) + 4 * unat x + 4 \<le> unat (fb_height s) * unat (fb_pitch s)"
    using pixel_inside [OF assms(1), of "unat x" "unat y"] assms(2,3) by (simp add: word_less_nat_alt)
  with ok(6) have "unat (y * fb_pitch s + x * 4) = unat y * unat (fb_pitch s) + 4 * unat x"
    by (simp add: unat_word_ariths)
  moreover have "(ucast (fb_bpp s) div 8 :: u32) = 4" using ok(1) by simp
  ultimately show ?thesis using assms(2,3) by (simp add: put_pixel_def Let_def not_le)
qed

text \<open>
  What text output may change: nothing of the geometry, no byte behind the screen, neither in the buffer
  that is drawn to nor in the memory of the screen. A buffer that is not marked dirty has been copied.
\<close>

definition synced :: "console \<Rightarrow> bool" where
  "synced s \<longleftrightarrow> fb_dirty s \<or> (\<forall>i < 8 * (unat (fb_size s) div 8). fb_mem s i = drawn s i)"

lemma synced_upds [simp]:
  "synced (s\<lparr>cursor_x := c\<rparr>) = synced s" "synced (s\<lparr>cursor_y := c\<rparr>) = synced s"
  "synced (s\<lparr>suppress_fb := b\<rparr>) = synced s" "synced (s\<lparr>serial_out := t\<rparr>) = synced s"
  by (simp_all add: synced_def)

lemma synced_dirty [simp]: "fb_dirty s \<Longrightarrow> synced s"
  by (simp add: synced_def)

lemma mem_upd_drawn: "fb_mem (upd_drawn f s) = (if fb_backbuffer s = None then f (fb_mem s) else fb_mem s)"
  by (simp add: upd_drawn_def split: option.split)

definition within :: "console \<Rightarrow> console \<Rightarrow> bool" where
  "within s s' \<longleftrightarrow> fb_bpp s' = fb_bpp s \<and> fb_pitch s' = fb_pitch s \<and> fb_width s' = fb_width s \<and>
     fb_height s' = fb_height s \<and> fb_size s' = fb_size s \<and> fb_present s' = fb_present s \<and>
     (\<forall>i \<ge> unat (fb_height s) * unat (fb_pitch s). drawn s' i = drawn s i) \<and>
     (\<forall>i \<ge> unat (fb_height s) * unat (fb_pitch s). unat (fb_size s) \<le> i \<longrightarrow> fb_mem s' i = fb_mem s i) \<and>
     (synced s \<longrightarrow> synced s')"

lemma within_refl [simp]: "within s s"
  by (simp add: within_def)

lemma within_trans [trans]: "within s t \<Longrightarrow> within t u \<Longrightarrow> within s u"
  by (simp add: within_def)

lemma within_ok: "within s t \<Longrightarrow> screen_ok s \<Longrightarrow> screen_ok t"
  by (simp add: within_def screen_ok_def)

lemma within_fold:
  assumes "\<And>x s. x \<in> set xs \<Longrightarrow> screen_ok s \<Longrightarrow> within s (f x s)" and "screen_ok s"
  shows "within s (fold f xs s)"
  using assms
proof (induction xs arbitrary: s)
  case (Cons x xs)
  have "within s (f x s)" using Cons.prems by simp
  moreover have "within (f x s) (fold f xs (f x s))"
    using Cons.IH [of "f x s"] Cons.prems within_ok [OF \<open>within s (f x s)\<close>] by simp
  ultimately show ?case using within_trans by simp
qed simp

lemma within_put_pixel: "screen_ok s \<Longrightarrow> within s (put_pixel x y c s)"
proof (cases "x < fb_width s \<and> y < fb_height s")
  case True
  assume ok: "screen_ok s"
  have "unat y * unat (fb_pitch s) + 4 * unat x + 4 \<le> unat (fb_height s) * unat (fb_pitch s)"
    using pixel_inside [OF ok, of "unat x" "unat y"] True by (simp add: word_less_nat_alt)
  then show ?thesis using True by (auto simp: put_pixel_eq [OF ok] within_def store32_other mem_upd_drawn)
qed (auto simp: put_pixel_def)

lemma within_draw_char: "screen_ok s \<Longrightarrow> within s (draw_char font c x y color s)"
  unfolding draw_char_def Let_def
  by (auto intro!: within_fold simp: within_put_pixel)

lemma within_clear_cell: "screen_ok s \<Longrightarrow> within s (clear_cell s)"
  unfolding clear_cell_def by (auto intro!: within_fold simp: within_put_pixel)

subsection \<open>Scrolling\<close>

text \<open>Words at least four bytes apart that get one value.\<close>

lemma fold_store:
  assumes "apart addr S" and "set ps \<subseteq> S"
  shows "(\<forall>p \<in> set ps. load32 (fold (\<lambda>p. store32 (addr p) c) ps m) (addr p) = c) \<and>
    (\<forall>i. (\<forall>p \<in> set ps. i < addr p \<or> addr p + 4 \<le> i) \<longrightarrow> fold (\<lambda>p. store32 (addr p) c) ps m i = m i)"
  using assms(2)
proof (induction ps rule: rev_induct)
  case (snoc p ps)
  let ?m = "fold (\<lambda>p. store32 (addr p) c) ps m"
  have "load32 (store32 (addr p) c ?m) (addr q) = c" if "q \<in> set ps" for q
  proof (cases "q = p")
    case False
    then have "addr p + 4 \<le> addr q \<or> addr q + 4 \<le> addr p"
      using assms(1) snoc.prems that unfolding apart_def by auto
    then have "load32 (store32 (addr p) c ?m) (addr q) = load32 ?m (addr q)"
      by (intro load32_cong store32_other) linarith
    then show ?thesis using snoc that by simp
  qed (simp add: load_store)
  with snoc show ?case by (auto simp: load_store store32_other)
qed simp

lemma scroll_numbers:
  assumes "screen_ok s"
  shows "unat (fb_height s - FONT_HEIGHT) = unat (fb_height s) - 22"
    and "unat ((fb_height s - FONT_HEIGHT) * fb_pitch s) = (unat (fb_height s) - 22) * unat (fb_pitch s)"
    and "unat (FONT_HEIGHT * fb_pitch s) = 22 * unat (fb_pitch s)"
    and "fb_pitch s mod 4 = 0"
proof -
  note ok = screen_okD [OF assms]
  show h: "unat (fb_height s - FONT_HEIGHT) = unat (fb_height s) - 22"
    using ok(5) by (simp add: FONT_HEIGHT_def unat_sub word_le_nat_alt)
  have "(unat (fb_height s) - 22) * unat (fb_pitch s) \<le> unat (fb_height s) * unat (fb_pitch s)"
    "22 * unat (fb_pitch s) \<le> unat (fb_height s) * unat (fb_pitch s)"
    using ok(5) by (intro mult_le_mono1; simp)+
  note small = this [THEN le_less_trans, OF ok(6)]
  show "unat ((fb_height s - FONT_HEIGHT) * fb_pitch s) = (unat (fb_height s) - 22) * unat (fb_pitch s)"
    using small(1) by (simp add: unat_word_ariths h)
  show "unat (FONT_HEIGHT * fb_pitch s) = 22 * unat (fb_pitch s)"
    using small(2) by (simp add: unat_word_ariths FONT_HEIGHT_def)
  show "fb_pitch s mod 4 = 0" using ok(2) by (simp add: word_unat_eq_iff unat_mod_distrib)
qed

text \<open>The words of the last line of text, as the loop writes them.\<close>

definition last_line :: "console \<Rightarrow> (nat \<times> nat) list" where
  "last_line s = List.product [0 ..< 22] [0 ..< unat (fb_pitch s) div 4]"

definition last_addr :: "console \<Rightarrow> nat \<times> nat \<Rightarrow> nat" where
  "last_addr s = (\<lambda>(y, x). (unat (fb_height s) - 22) * unat (fb_pitch s) + 4 * (y * (unat (fb_pitch s) div 4) + x))"

lemma last_line_apart: "apart (last_addr s) (set (last_line s))"
  unfolding apart_def
proof (intro ballI impI)
  fix p q assume m: "p \<in> set (last_line s)" "q \<in> set (last_line s)" and ne: "p \<noteq> q"
  let ?w = "unat (fb_pitch s) div 4"
  obtain y x where p: "p = (y, x)" by fastforce
  obtain y' x' where q: "q = (y', x')" by fastforce
  have b: "x < ?w" "x' < ?w" using m by (auto simp: p q last_line_def)
  consider "y = y'" | "y + 1 \<le> y'" | "y' + 1 \<le> y" by linarith
  then show "last_addr s p + 4 \<le> last_addr s q \<or> last_addr s q + 4 \<le> last_addr s p"
  proof cases
    case 2
    then have "(y + 1) * ?w \<le> y' * ?w" by (rule mult_le_mono1)
    then show ?thesis using b by (simp add: p q last_addr_def)
  next
    case 3
    then have "(y' + 1) * ?w \<le> y * ?w" by (rule mult_le_mono1)
    then show ?thesis using b by (simp add: p q last_addr_def)
  qed (use ne in \<open>auto simp: p q last_addr_def\<close>)
qed

lemma clear_words_eq:
  assumes "screen_ok s"
  shows "clear_words s = fold (\<lambda>p. store32 (last_addr s p) FB_BG_COLOR) (last_line s)"
  unfolding clear_words_def Let_def fold_fold last_line_def scroll_numbers(2) [OF assms]
  by (intro ext arg_cong2 [where f = "\<lambda>f m. fold f _ m"] refl) (simp_all add: last_addr_def split_beta)

lemma scroll_eq:
  assumes "screen_ok s"
  shows "drawn (scroll s) = clear_words s (move_up s (drawn s))" "cursor_y (scroll s) = fb_height s - FONT_HEIGHT"
    "cursor_x (scroll s) = cursor_x s" "fb_pitch (scroll s) = fb_pitch s" "fb_width (scroll s) = fb_width s"
    "fb_height (scroll s) = fb_height s" "fb_bpp (scroll s) = fb_bpp s" "suppress_fb (scroll s) = suppress_fb s"
  using screen_okD(1) [OF assms] scroll_numbers(4) [OF assms]
  by (simp_all add: scroll_def Let_def clear_words_def)

lemma scroll_bytes:
  assumes "screen_ok s"
  shows "i < (unat (fb_height s) - 22) * unat (fb_pitch s) \<Longrightarrow> drawn (scroll s) i = drawn s (i + 22 * unat (fb_pitch s))"
    and "unat (fb_height s) * unat (fb_pitch s) \<le> i \<Longrightarrow> drawn (scroll s) i = drawn s i"
    and "p \<in> set (last_line s) \<Longrightarrow> load32 (drawn (scroll s)) (last_addr s p) = FB_BG_COLOR"
proof -
  note st = fold_store [OF last_line_apart subset_refl, of s FB_BG_COLOR]
  note ok = screen_okD [OF assms]
  have w: "4 * (unat (fb_pitch s) div 4) = unat (fb_pitch s)" using ok(2) by (simp add: mult_div_mod_eq [of 4, symmetric] algebra_simps minus_mod_eq_mult_div [symmetric])
  have n: "(unat (fb_height s) - 22) * unat (fb_pitch s) + 22 * unat (fb_pitch s) = unat (fb_height s) * unat (fb_pitch s)"
    using ok(5) by (simp flip: add_mult_distrib)
  have low: "(unat (fb_height s) - 22) * unat (fb_pitch s) \<le> last_addr s p" for p by (simp add: last_addr_def split_beta)
  have high: "last_addr s p + 4 \<le> unat (fb_height s) * unat (fb_pitch s)" if "p \<in> set (last_line s)" for p
  proof -
    obtain y x where p: "p = (y, x)" by fastforce
    then have yx: "y < 22" "x < unat (fb_pitch s) div 4" using that by (auto simp: last_line_def)
    have "4 * (y * k + x) + 4 \<le> 22 * (4 * k)" if "(y + 1) * k \<le> 22 * k" "x < k" for k
    proof -
      have "4 * (y * k + x) + 4 \<le> 4 * ((y + 1) * k)" using that(2) by (simp add: add_mult_distrib)
      also have "\<dots> \<le> 4 * (22 * k)" by (intro mult_le_mono2 that(1))
      finally show ?thesis by simp
    qed
    from this [OF mult_le_mono1 yx(2)] yx(1) w have "4 * (y * (unat (fb_pitch s) div 4) + x) + 4 \<le> 22 * unat (fb_pitch s)"
      by simp
    then show ?thesis using n by (simp add: p last_addr_def)
  qed
  show "drawn (scroll s) i = drawn s (i + 22 * unat (fb_pitch s))" if "i < (unat (fb_height s) - 22) * unat (fb_pitch s)"
  proof -
    have "\<forall>p \<in> set (last_line s). i < last_addr s p \<or> last_addr s p + 4 \<le> i" using that low by (meson less_le_trans)
    with st show ?thesis using that
      by (simp add: scroll_eq [OF assms] clear_words_eq [OF assms] move_up_def Let_def scroll_numbers [OF assms])
  qed
  show "drawn (scroll s) i = drawn s i" if "unat (fb_height s) * unat (fb_pitch s) \<le> i"
  proof -
    have "\<forall>p \<in> set (last_line s). i < last_addr s p \<or> last_addr s p + 4 \<le> i" using that high by (meson le_trans)
    moreover have "\<not> i < (unat (fb_height s) - 22) * unat (fb_pitch s)" using that n by linarith
    ultimately show ?thesis using st
      by (simp add: scroll_eq [OF assms] clear_words_eq [OF assms] move_up_def Let_def scroll_numbers [OF assms])
  qed
  show "load32 (drawn (scroll s)) (last_addr s p) = FB_BG_COLOR" if "p \<in> set (last_line s)"
    using st that by (simp add: scroll_eq [OF assms] clear_words_eq [OF assms])
qed

lemma scroll_pixels:
  assumes "screen_ok s" and "x < unat (fb_width s)" and "y < unat (fb_height s)"
  shows "pixel (scroll s) x y = (if y + 22 < unat (fb_height s) then pixel s x (y + 22) else FB_BG_COLOR)"
proof (cases "y + 22 < unat (fb_height s)")
  case True
  have "y * unat (fb_pitch s) + 4 * x + 4 \<le> (unat (fb_height s) - 22) * unat (fb_pitch s)"
    using True by (intro pixel_inside [OF assms(1,2)]) simp_all
  then have "load32 (drawn (scroll s)) (y * unat (fb_pitch s) + 4 * x) = load32 (drawn s) ((y + 22) * unat (fb_pitch s) + 4 * x)"
  proof (intro load32_cong)
    fix i :: nat assume "i < 4"
    then have "drawn (scroll s) (y * unat (fb_pitch s) + 4 * x + i) = drawn s (y * unat (fb_pitch s) + 4 * x + i + 22 * unat (fb_pitch s))"
      using \<open>_ \<le> (unat (fb_height s) - 22) * unat (fb_pitch s)\<close> by (intro scroll_bytes(1) [OF assms(1)]) linarith
    also have "y * unat (fb_pitch s) + 4 * x + i + 22 * unat (fb_pitch s) = (y + 22) * unat (fb_pitch s) + 4 * x + i"
      unfolding add_mult_distrib by linarith
    finally show "drawn (scroll s) (y * unat (fb_pitch s) + 4 * x + i) = drawn s ((y + 22) * unat (fb_pitch s) + 4 * x + i)" .
  qed
  then show ?thesis using True by (simp add: pixel_def scroll_eq [OF assms(1)])
next
  case False
  note ok = screen_okD [OF assms(1)]
  define d where "d = y - (unat (fb_height s) - 22)"
  have d: "d < 22" "y = unat (fb_height s) - 22 + d" using False assms(3) ok(5) by (simp_all add: d_def)
  have w: "4 * (unat (fb_pitch s) div 4) = unat (fb_pitch s)"
    using ok(2) by (simp add: minus_mod_eq_mult_div [symmetric])
  have "(d, x) \<in> set (last_line s)" using d(1) assms(2) ok(3) by (simp add: last_line_def)
  moreover have "last_addr s (d, x) = y * unat (fb_pitch s) + 4 * x"
  proof -
    have "4 * (d * (unat (fb_pitch s) div 4)) = d * unat (fb_pitch s)"
      by (subst (2) w [symmetric]) simp
    then show ?thesis unfolding d(2) last_addr_def by (simp add: add_mult_distrib)
  qed
  ultimately show ?thesis
    using scroll_bytes(3) [OF assms(1), of "(d, x)"] False by (simp add: pixel_def scroll_eq [OF assms(1)])
qed

lemma scroll_screen:
  assumes "screen_ok s"
  shows "fb_size (scroll s) = fb_size s" "fb_present (scroll s) = fb_present s" "fb_dirty (scroll s)"
    "fb_mem (scroll s) = (if fb_backbuffer s = None then drawn (scroll s) else fb_mem s)"
  using screen_okD(1) [OF assms] scroll_numbers(4) [OF assms]
  by (auto simp: scroll_def Let_def upd_drawn_def drawn_def split: option.split)

lemma within_scroll: "screen_ok s \<Longrightarrow> within s (scroll s)"
  using scroll_bytes(2) by (auto simp: within_def scroll_eq scroll_screen drawn_def)

text \<open>The copy stays within the size of the screen.\<close>

lemma within_flush: "within s (fb_flush s)"
proof -
  have "drawn (fb_flush s) = drawn s" by simp
  moreover have "fb_mem (fb_flush s) i = fb_mem s i" if "unat (fb_size s) \<le> i" for i
    using that by (auto simp: fb_flush_def split: option.split)
  moreover have "synced s \<longrightarrow> synced (fb_flush s)"
    by (auto simp: fb_flush_def synced_def drawn_def split: option.split)
  ultimately show ?thesis by (simp add: within_def)
qed

subsection \<open>Text output\<close>

text \<open>The cursor's cell lies between the sides of the screen.\<close>

definition column_ok :: "console \<Rightarrow> bool" where
  "column_ok s \<longleftrightarrow> unat (cursor_x s) + 12 \<le> unat (fb_width s)"

definition text_step :: "(console \<Rightarrow> console) \<Rightarrow> bool" where
  "text_step f \<longleftrightarrow> (\<forall>s. screen_ok s \<longrightarrow> column_ok s \<longrightarrow> within s (f s) \<and> column_ok (f s))"

lemma text_step_fold: "(\<And>x. text_step (f x)) \<Longrightarrow> text_step (fold f xs)"
  unfolding text_step_def
proof (induction xs)
  case (Cons x xs)
  then show ?case using within_trans within_ok by (metis comp_apply fold.simps(2))
qed simp

lemma text_step_comp: "text_step f \<Longrightarrow> text_step g \<Longrightarrow> text_step (\<lambda>s. g (f s))"
  unfolding text_step_def using within_trans within_ok by metis

lemma cursor_keeps [simp]:
  "cursor_x (put_pixel x y c s) = cursor_x s" "cursor_y (put_pixel x y c s) = cursor_y s"
  "suppress_fb (put_pixel x y c s) = suppress_fb s"
  by (simp_all add: put_pixel_def Let_def)

lemma fold_keeps_field: "(\<And>x s. x \<in> set xs \<Longrightarrow> g (f x s) = g s) \<Longrightarrow> g (fold f xs s) = g s"
  by (induction xs arbitrary: s) simp_all

lemma draw_char_cursor [simp]:
  "cursor_x (draw_char font c x y color s) = cursor_x s" "cursor_y (draw_char font c x y color s) = cursor_y s"
  by (auto simp: draw_char_def Let_def intro!: fold_keeps_field)

lemma clear_cell_cursor [simp]: "cursor_x (clear_cell s) = cursor_x s"
  by (auto simp: clear_cell_def intro!: fold_keeps_field)

lemma step_new_line: "text_step new_line"
  unfolding text_step_def
proof (intro allI impI)
  fix s assume ok: "screen_ok s" "column_ok s"
  let ?s = "s\<lparr>cursor_x := 0, cursor_y := cursor_y s + FONT_HEIGHT\<rparr>"
  have "within s ?s" by (simp add: within_def)
  moreover from within_ok [OF this ok(1)] have "within ?s (scroll ?s)" "cursor_x (scroll ?s) = 0" "fb_width (scroll ?s) = fb_width s"
    using within_scroll scroll_eq by simp_all
  ultimately show "within s (new_line s) \<and> column_ok (new_line s)"
    using ok screen_okD(4) [OF ok(1)] within_trans [of s ?s "scroll ?s"]
    by (simp add: new_line_def Let_def column_ok_def)
qed

lemma step_print_cell: "text_step (print_cell font color c)"
  unfolding text_step_def
proof (intro allI impI)
  fix s assume ok: "screen_ok s" "column_ok s"
  let ?d = "draw_char font c (cursor_x s) (cursor_y s) color s"
  have w: "within s ?d" by (rule within_draw_char [OF ok(1)])
  then have width: "fb_width ?d = fb_width s" by (simp add: within_def)
  have lt: "unat (cursor_x s) + 12 < 2 ^ 32"
    using ok(2) unsigned_less [of "fb_width s", where 'a = nat] screen_okD [OF ok(1)]
    by (auto simp: column_ok_def screen_ok_def intro: le_less_trans)
  have sub: "unat (fb_width s - 12) = unat (fb_width s) - 12" and add: "unat (cursor_x s + 12) = unat (cursor_x s) + 12"
    using screen_okD(4) [OF ok(1)] lt by (simp_all add: unat_sub word_le_nat_alt unat_word_ariths)
  have "within ?d (next_cell ?d)" by (simp add: next_cell_def within_def Let_def)
  moreover have "column_ok (next_cell ?d)"
    using screen_okD(4) [OF ok(1)] sub add
    by (simp add: next_cell_def Let_def column_ok_def width FONT_WIDTH_def word_le_nat_alt not_le less_diff_conv)
  ultimately show "within s (print_cell font color c s) \<and> column_ok (print_cell font color c s)"
    using ok step_new_line w within_trans by (auto simp: print_cell_def text_step_def)
qed

lemma serial_write_fields [simp]:
  "drawn (serial_write str s) = drawn s" "cursor_x (serial_write str s) = cursor_x s" "fb_bpp (serial_write str s) = fb_bpp s"
  "fb_pitch (serial_write str s) = fb_pitch s" "fb_width (serial_write str s) = fb_width s"
  "fb_height (serial_write str s) = fb_height s" "fb_size (serial_write str s) = fb_size s"
  "fb_present (serial_write str s) = fb_present s" "fb_mem (serial_write str s) = fb_mem s"
  "fb_dirty (serial_write str s) = fb_dirty s"
  unfolding serial_write_def by (intro fold_keeps_field, simp add: serial_putc_def)+

lemma serial_write_synced [simp]: "synced (serial_write str s) = synced s"
  by (simp add: synced_def)

lemma step_kprint: "text_step (kprint font str color)"
  unfolding text_step_def
proof (intro allI impI)
  fix s assume "screen_ok s" "column_ok s"
  with text_step_fold [where f = "print_cell font color" and xs = str, OF step_print_cell]
  have "within s (fold (print_cell font color) str s) \<and> column_ok (fold (print_cell font color) str s)"
    by (simp add: text_step_def)
  then show "within s (kprint font str color s) \<and> column_ok (kprint font str color s)"
    by (auto simp: kprint_def within_def column_ok_def)
qed

lemma step_puts: "text_step (fb_puts font str)" "text_step (fb_putc font c)"
proof -
  have *: "text_step (\<lambda>s. fb_flush ((kprint font t col (s\<lparr>suppress_fb := False\<rparr>))\<lparr>suppress_fb := suppress_fb s\<rparr>))" for t col
    unfolding text_step_def
  proof (intro allI impI)
    fix s assume "screen_ok s" "column_ok s"
    then have "screen_ok (s\<lparr>suppress_fb := False\<rparr>)" "column_ok (s\<lparr>suppress_fb := False\<rparr>)"
      by (simp_all add: screen_ok_def column_ok_def)
    with step_kprint [of font t col] have "within (s\<lparr>suppress_fb := False\<rparr>) (kprint font t col (s\<lparr>suppress_fb := False\<rparr>)) \<and>
        column_ok (kprint font t col (s\<lparr>suppress_fb := False\<rparr>))" unfolding text_step_def by blast
    then show "within s (fb_flush ((kprint font t col (s\<lparr>suppress_fb := False\<rparr>))\<lparr>suppress_fb := suppress_fb s\<rparr>)) \<and>
        column_ok (fb_flush ((kprint font t col (s\<lparr>suppress_fb := False\<rparr>))\<lparr>suppress_fb := suppress_fb s\<rparr>))"
      by (intro conjI within_trans [OF _ within_flush]) (auto simp: within_def column_ok_def)
  qed
  show "text_step (fb_puts font str)" "text_step (fb_putc font c)"
    using * [of str "0xFFFFFFFF"] * [of "if c = CHR 0x00 then [] else [c]" "0xFFFFFFFF"]
    by (simp_all add: fb_puts_def [abs_def] fb_putc_def [abs_def])
qed

lemma step_backspace: "text_step fb_backspace"
  unfolding text_step_def
proof (intro allI impI)
  fix s assume ok: "screen_ok s" "column_ok s"
  define E where "E = (\<lambda>t. fold serial_putc [char_of (8 :: nat), CHR '' '', char_of (8 :: nat)] (fb_flush (clear_cell t)))"
  have erase: "within t (E t) \<and> cursor_x (E t) = cursor_x t" if "screen_ok t" for t
  proof -
    have "within t (fb_flush (clear_cell t))" by (rule within_trans [OF within_clear_cell [OF that] within_flush])
    then show ?thesis by (simp add: E_def within_def serial_putc_def)
  qed
  let ?left = "s\<lparr>cursor_x := cursor_x s - FONT_WIDTH\<rparr>"
  let ?up = "s\<lparr>cursor_y := cursor_y s - FONT_HEIGHT, cursor_x := fb_width s - FONT_WIDTH\<rparr>"
  have w: "screen_ok ?left" "screen_ok ?up" "within s ?left" "within s ?up"
    using ok(1) by (simp_all add: screen_ok_def within_def)
  have "column_ok ?left" if "FONT_WIDTH \<le> cursor_x s"
    using ok(2) that by (simp add: column_ok_def FONT_WIDTH_def unat_sub word_le_nat_alt)
  moreover have "column_ok ?up"
    using screen_okD(4) [OF ok(1)] by (simp add: column_ok_def FONT_WIDTH_def unat_sub word_le_nat_alt)
  moreover have "within s (s\<lparr>cursor_x := 0\<rparr>)" "column_ok (s\<lparr>cursor_x := 0\<rparr>)"
    using screen_okD(4) [OF ok(1)] by (simp_all add: within_def column_ok_def)
  moreover have "fb_backspace s = (if FONT_WIDTH \<le> cursor_x s then E ?left
      else if FONT_HEIGHT \<le> cursor_y s then E ?up else s\<lparr>cursor_x := 0\<rparr>)"
    by (simp add: fb_backspace_def Let_def E_def)
  moreover have "column_ok (E t)" if "column_ok t" "screen_ok t" for t
    using erase [OF that(2)] that(1) by (simp add: column_ok_def within_def)
  ultimately show "within s (fb_backspace s) \<and> column_ok (fb_backspace s)"
    using w erase [OF w(1)] erase [OF w(2)] within_trans by (auto split: if_splits)
qed

subsection \<open>Text mode\<close>

text \<open>
  Scrolling in text mode blanks row 79, far behind the 25 rows, and leaves the last row as it was.
\<close>

lemma row_written: "fold (\<lambda>c b. b(c + k := v)) [0 ..< n] b i = (if k \<le> i \<and> i < k + n then v else b i)"
  by (induction n arbitrary: i) auto

lemma row_copied:
  "fold (\<lambda>c b. b(c + 80 * (r - 1) := b (c + 80 * r))) [0 ..< n] b i =
     (if 80 * (r - 1) \<le> i \<and> i < 80 * (r - 1) + n then b (i + 80) else b i)"
  if "1 \<le> r" and "n \<le> 80"
  using that
proof (induction n arbitrary: i)
  case (Suc n)
  have "80 * r = 80 * (r - 1) + 80" using Suc.prems(1) by (simp add: diff_mult_distrib2)
  with Suc show ?case by (auto simp: add.commute add.left_commute)
qed auto

lemma rows_copied:
  fixes b :: "nat \<Rightarrow> 'b"
  assumes "\<And>r b i. 1 \<le> r \<Longrightarrow> F r b i = (if 80 * (r - 1) \<le> i \<and> i < 80 * (r - 1) + 80 then b (i + 80) else b i)"
  shows "fold F [1 ..< Suc n] b i = (if i < 80 * n then b (i + 80) else b i)"
proof (induction n arbitrary: i)
  case (Suc n)
  have "fold F [1 ..< Suc (Suc n)] b = F (Suc n) (fold F [1 ..< Suc n] b)"
    by (subst upt_Suc_append) simp_all
  then show ?case using assms [of "Suc n" "fold F [1 ..< Suc n] b" i] Suc
    by (auto simp del: upt_Suc)
qed simp

lemma text_mode_scroll:
  assumes "vga_row s = 24"
  shows "i < 1920 \<Longrightarrow> vga_buffer (print_newline s) i = vga_buffer s (i + 80)"
    and "1920 \<le> i \<Longrightarrow> i < 2000 \<Longrightarrow> vga_buffer (print_newline s) i = vga_buffer s i"
    and "6320 \<le> i \<Longrightarrow> i < 6400 \<Longrightarrow> vga_buffer (print_newline s) i = (0x20, vga_color s)"
  using rows_copied [OF row_copied [of _ 80], of 24 "vga_buffer s" i] assms
  by (simp_all add: print_newline_def clear_row_def NUM_COLS_def NUM_ROWS_def row_written)

subsection \<open>Properties\<close>

datatype console_op = Print string u32 | Puts string | Putc char | Backspace

fun text_op :: "(nat \<Rightarrow> u8) \<Rightarrow> console_op \<Rightarrow> console \<Rightarrow> console" where
  "text_op font (Print t color) = kprint font t color"
| "text_op font (Puts t) = fb_puts font t"
| "text_op font (Putc c) = fb_putc font c"
| "text_op font Backspace = fb_backspace"

definition demo_console :: console where
  "demo_console = console.make (\<lambda>_. 0) True None 256 64 44 32 11264 12 22 False False (\<lambda>_. 0) False False []"

lemma demo_screen: "screen_ok demo_console" "column_ok demo_console" "drawn demo_console = (\<lambda>_. 0)"
  "fb_height demo_console = 44" "fb_pitch demo_console = 256"
  by (simp_all add: screen_ok_def column_ok_def drawn_def demo_console_def console.defs)

text \<open>
  A newline on the last line of text moves every pixel up by one line of
  text, paints the last line in the background colour, and puts the cursor at its start.
\<close>

theorem newline_scrolls:
  assumes "screen_ok s" and "\<not> suppress_fb s" and "unat (fb_height s) \<le> unat (cursor_y s) + 22"
    and "unat (cursor_y s) + 22 < 2 ^ 32" and "x < unat (fb_width s)" and "y < unat (fb_height s)"
  shows "pixel (new_line s) x y = (if y + 22 < unat (fb_height s) then pixel s x (y + 22) else FB_BG_COLOR) \<and>
    cursor_x (new_line s) = 0 \<and> unat (cursor_y (new_line s)) = unat (fb_height s) - 22"
proof -
  let ?s = "s\<lparr>cursor_x := 0, cursor_y := cursor_y s + FONT_HEIGHT\<rparr>"
  have ok: "screen_ok ?s" using assms(1) by (simp add: screen_ok_def)
  have "fb_height s \<le> cursor_y s + FONT_HEIGHT"
    using assms(3,4) by (simp add: word_le_nat_alt unat_word_ariths FONT_HEIGHT_def)
  then have "new_line s = scroll ?s" using assms(2) by (simp add: new_line_def Let_def)
  with scroll_pixels [OF ok, of x y] scroll_eq [OF ok] scroll_numbers(1) [OF assms(1)] assms(5,6) show ?thesis
    by (simp add: pixel_def)
qed

theorem newline_scrolls_witness:
  "pixel (new_line demo_console) 63 40 = FB_BG_COLOR \<and> cursor_y (new_line demo_console) = 22"
  using newline_scrolls [of demo_console 63 40] demo_screen(1)
  by (simp add: demo_console_def console.defs word_unat_eq_iff)

text \<open>
  C26 (bounds, console). No sequence of text output and erasing writes behind the screen, neither in the
  buffer that is drawn to nor, in the copy that \<open>fb_flush\<close> makes, in the memory of the screen; and the cell of
  the cursor stays between its sides. Once the buffer and the screen agree, they do so again
  after every output that ends with a flush: what was drawn is what is seen, up to the last whole
  word of 64 bits.
\<close>

theorem text_output_within:
  assumes "screen_ok s" and "column_ok s" and "unat (fb_size s) = unat (fb_height s) * unat (fb_pitch s)"
  shows "(\<forall>i \<ge> unat (fb_height s) * unat (fb_pitch s). drawn (fold (text_op font) ops s) i = drawn s i)
    \<and> (\<forall>i \<ge> unat (fb_height s) * unat (fb_pitch s). fb_mem (fold (text_op font) ops s) i = fb_mem s i)
    \<and> column_ok (fold (text_op font) ops s)
    \<and> (synced s \<and> fb_present s \<longrightarrow> (\<forall>t. \<forall>i < 8 * (unat (fb_size s) div 8).
        fb_mem (fb_puts font t (fold (text_op font) ops s)) i = drawn (fb_puts font t (fold (text_op font) ops s)) i))"
proof -
  have "text_step (text_op font op)" for op
    by (cases op) (simp_all add: step_kprint step_puts step_backspace)
  from text_step_fold [of "text_op font", OF this] assms
  have w: "within s (fold (text_op font) ops s)" "column_ok (fold (text_op font) ops s)"
    by (simp_all add: text_step_def)
  have "fb_mem (fb_puts font t u) i = drawn (fb_puts font t u) i"
    if "synced s" "fb_present s" "i < 8 * (unat (fb_size s) div 8)" "u = fold (text_op font) ops s" for t u i
  proof -
    have "within s (fb_puts font t u)"
      using w step_puts(1) [of font t] within_ok [OF w(1) assms(1)] within_trans [OF w(1)]
      unfolding that(4) text_step_def by blast
    then have "synced (fb_puts font t u)" "fb_present (fb_puts font t u)" "fb_size (fb_puts font t u) = fb_size s"
      using that by (simp_all add: within_def)
    moreover have "\<not> fb_dirty (fb_puts font t u) \<or> fb_backbuffer (fb_puts font t u) = None"
      using \<open>fb_present (fb_puts font t u)\<close> by (auto simp: fb_puts_def fb_flush_def split: option.split)
    ultimately show ?thesis using that(3) by (auto simp: synced_def drawn_def)
  qed
  with w assms(3) show ?thesis by (simp add: within_def)
qed

theorem text_output_within_witness:
  "let s = demo_console\<lparr>fb_backbuffer := Some (\<lambda>_. 0)\<rparr>;
       s' = fold (text_op (\<lambda>_. 0xFF)) [Putc (CHR ''a''), Backspace, Backspace, Puts ''text''] s
   in drawn s' 11264 = 0 \<and> fb_mem s' 11264 = 0"
proof -
  let ?s = "demo_console\<lparr>fb_backbuffer := Some (\<lambda>_. 0)\<rparr>"
  have s: "screen_ok ?s" "column_ok ?s" "drawn ?s = (\<lambda>_. 0)" "fb_mem ?s = (\<lambda>_. 0)"
      "unat (fb_size ?s) = 11264" "unat (fb_height ?s) * unat (fb_pitch ?s) = 11264"
    by (simp_all add: screen_ok_def column_ok_def drawn_def demo_console_def console.defs)
  show ?thesis
    unfolding Let_def
    using text_output_within [OF s(1,2), of "\<lambda>_. 0xFF" "[Putc (CHR ''a''), Backspace, Backspace, Puts ''text'']"]
    unfolding s by (simp only: refl le_refl simp_thms)
qed

text \<open>
  C27 (roundtrip, console). Hiding the cursor after showing it restores every byte of the buffer,
  wherever the cursor is, and in particular below the screen, where showing it changes foreign
  memory.
\<close>

theorem cursor_blink_restores:
  assumes "fb_bpp s = 32" and "unat (cursor_y s) + 22 < 2 ^ 32" and "4 * (unat (cursor_x s) + 12) < 2 ^ 32"
    and "48 \<le> unat (fb_pitch s)" and "\<not> cursor_visible s"
  shows "drawn (fb_cursor_hide (fb_cursor_show s)) = drawn s"
proof (cases "suppress_fb s \<or> \<not> fb_present s")
  case True
  then show ?thesis using assms(5) by (auto simp: fb_cursor_hide_def fb_cursor_show_def)
next
  case False
  let ?addr = "\<lambda>(y, x). cell_offset s x y" and ?idx = "\<lambda>(y, x). y * 12 + x :: nat"
  obtain m saved where f: "fold (\<lambda>y. fold (show_pixel s y) [0 ..< 12]) [0 ..< 22] (drawn s, cursor_saved s) = (m, saved)"
    by fastforce
  define t where "t = fb_cursor_show s"
  have t: "t = fb_flush ((upd_drawn (\<lambda>_. m) s)\<lparr>cursor_saved := saved, cursor_saved_valid := True, cursor_visible := True\<rparr>)"
    using False assms(5) by (simp add: t_def fb_cursor_show_def f)
  note ap = cells_apart [OF assms(1-4)]
  note sv = fold_save [OF ap cell_index_inj subset_refl cursor_cells(2) f [unfolded show_fold]]
  have "drawn (fb_cursor_hide t) = fold (\<lambda>p. store32 (?addr p) (saved (?idx p))) cursor_cells m"
    using False by (simp add: fb_cursor_hide_def t hide_fold cell_offset_def)
  also have "\<dots> = drawn s"
    using sv by (intro fold_restore [OF ap subset_refl cursor_cells(2)]) auto
  finally show ?thesis by (simp add: t_def)
qed

theorem cursor_blink_restores_witness:
  "drawn (fb_cursor_hide (fb_cursor_show demo_console)) = (\<lambda>_. 0)"
  using cursor_blink_restores [of demo_console]
  by (simp add: demo_console_def console.defs drawn_def)

end
