(* ===== verification/Acpi.thy ===== *)
theory Acpi
  imports Elf
begin

text \<open>
  ACPI tables and power: \<^verbatim>\<open>drivers/acpi.c\<close>. The tables are bytes of memory, read where they lie; a
  pointer is an address, NULL is 0. Port input is a function of the number of the read, output a
  trace that also has the stores to reset registers. Shutdown and reboot end in a halt: their
  result is the state of the machine then. Messages and delays are left out, and so are the
  attempts past the ports, a BIOS call and a triple fault.
\<close>

subsection \<open>State\<close>

datatype io_event = Out8 u16 u8 | Out16 u16 u16 | Out32 u16 u32 | Store nat u64 u64

record acpi =
  amem :: memory
  hhdm_offset :: u64
  g_rsdp :: u64
  g_rsdt :: u64
  g_xsdt :: u64
  g_fadt :: u64
  g_madt :: u64
  g_acpi_enabled :: bool
  g_local_apic_addr :: u32
  g_cpu_count :: int
  acpi_cpu_count :: int
  acpi_cpu_apic_ids :: "nat \<Rightarrow> u32"
  in8 :: "nat \<Rightarrow> u16 \<Rightarrow> u8"
  in16 :: "nat \<Rightarrow> u16 \<Rightarrow> u16"
  n_in :: nat
  io_trace :: "io_event list"

definition emit :: "io_event \<Rightarrow> acpi \<Rightarrow> acpi" where
  "emit e s = s\<lparr>io_trace := io_trace s @ [e]\<rparr>"

definition inw :: "u16 \<Rightarrow> acpi \<Rightarrow> u16 \<times> acpi" where
  "inw p s = (in16 s (n_in s) p, s\<lparr>n_in := Suc (n_in s)\<rparr>)"

text \<open>Fields of \<open>struct fadt\<close>.\<close>

definition fadt_dsdt :: "memory \<Rightarrow> u64 \<Rightarrow> u32" where "fadt_dsdt m f = m32 m (f + 40)"
definition fadt_smi_command_port :: "memory \<Rightarrow> u64 \<Rightarrow> u32" where "fadt_smi_command_port m f = m32 m (f + 48)"
definition fadt_acpi_enable :: "memory \<Rightarrow> u64 \<Rightarrow> u8" where "fadt_acpi_enable m f = m (f + 52)"
definition fadt_pm1a_control_block :: "memory \<Rightarrow> u64 \<Rightarrow> u32" where "fadt_pm1a_control_block m f = m32 m (f + 64)"
definition fadt_pm1b_control_block :: "memory \<Rightarrow> u64 \<Rightarrow> u32" where "fadt_pm1b_control_block m f = m32 m (f + 68)"
definition fadt_boot_arch_flags :: "memory \<Rightarrow> u64 \<Rightarrow> u16" where "fadt_boot_arch_flags m f = m16 m (f + 109)"
definition fadt_flags :: "memory \<Rightarrow> u64 \<Rightarrow> u32" where "fadt_flags m f = m32 m (f + 112)"

definition header_length :: "memory \<Rightarrow> u64 \<Rightarrow> u32" where "header_length m h = m32 m (h + 4)"

definition HEADER_SIZE :: u32 where "HEADER_SIZE = 36"

subsection \<open>Bytes\<close>

fun custom_memcmp :: "memory \<Rightarrow> u64 \<Rightarrow> u8 list \<Rightarrow> int" where
  "custom_memcmp m p [] = 0"
| "custom_memcmp m p (b # bs) = (if m p \<noteq> b then uint (m p) - uint b else custom_memcmp m (p + 1) bs)"

definition sum_bytes :: "memory \<Rightarrow> u64 \<Rightarrow> nat \<Rightarrow> u8" where
  "sum_bytes m p n = fold (\<lambda>i sum. sum + m (p + of_nat i)) [0 ..< n] 0"

text \<open>The signatures, as bytes.\<close>

definition sig :: "string \<Rightarrow> u8 list" where
  "sig t = map of_char t"

definition acpi_check_rsdp :: "memory \<Rightarrow> u64 \<Rightarrow> bool" where
  "acpi_check_rsdp m p = (custom_memcmp m p (sig ''RSD PTR '') = 0 \<and> sum_bytes m p 20 = 0)"

definition acpi_checksum :: "memory \<Rightarrow> u64 \<Rightarrow> bool" where
  "acpi_checksum m h = (sum_bytes m h (unat (header_length m h)) = 0)"

subsection \<open>Finding the tables\<close>

fun scan_rsdp :: "memory \<Rightarrow> u64 \<Rightarrow> nat \<Rightarrow> u64" where
  "scan_rsdp m addr 0 = 0"
| "scan_rsdp m addr (Suc n) = (if acpi_check_rsdp m addr then addr else scan_rsdp m (addr + 16) n)"

text \<open>The two areas have 8192 and 64 paragraphs.\<close>

definition find_rsdp :: "memory \<Rightarrow> u64" where
  "find_rsdp m =
     (let a = scan_rsdp m 0xE0000 8192
      in if a \<noteq> 0 then a
         else
           let ebda_segment = m16 m 0x40E
           in if ebda_segment \<noteq> 0 then scan_rsdp m (push_bit 4 (ucast ebda_segment)) 64 else 0)"

text \<open>The entries of a table of pointers of \<open>w\<close> bytes, from entry \<open>i\<close> on.\<close>

definition table_entries :: "memory \<Rightarrow> u64 \<Rightarrow> nat \<Rightarrow> nat" where
  "table_entries m t w = unat (header_length m t - HEADER_SIZE) div w"

fun search_table :: "memory \<Rightarrow> (u64 \<Rightarrow> u64) \<Rightarrow> u64 \<Rightarrow> u8 list \<Rightarrow> nat \<Rightarrow> nat \<Rightarrow> u64 \<Rightarrow> u64 option" where
  "search_table m rd t signature i 0 w = None"
| "search_table m rd t signature i (Suc n) w =
     (let header = rd (t + 36 + of_nat i * w)
      in if custom_memcmp m header signature = 0 then Some header
         else search_table m rd t signature (Suc i) n w)"

text \<open>A wrong checksum is only reported.\<close>

definition acpi_find_table :: "u8 list \<Rightarrow> acpi \<Rightarrow> u64" where
  "acpi_find_table signature s =
     (let m = amem s; x = g_xsdt s; r = g_rsdt s;
          in_rsdt = (if r = 0 \<or> header_length m r < HEADER_SIZE then 0
            else case search_table m (\<lambda>a. ucast (m32 m a) + hhdm_offset s) r signature 0 (table_entries m r 4) 4 of
                   Some h \<Rightarrow> h | None \<Rightarrow> 0)
      in if x = 0 then in_rsdt
         else if header_length m x < HEADER_SIZE then 0
         else (case search_table m (\<lambda>a. m64 m a + hhdm_offset s) x signature 0 (table_entries m x 8) 8 of
                 Some h \<Rightarrow> h | None \<Rightarrow> in_rsdt))"

definition acpi_get_fadt :: "acpi \<Rightarrow> u64 \<times> acpi" where
  "acpi_get_fadt s =
     (if g_fadt s \<noteq> 0 then (g_fadt s, s)
      else let f = acpi_find_table (sig ''FACP'') s in (f, s\<lparr>g_fadt := f\<rparr>))"

definition acpi_get_madt :: "acpi \<Rightarrow> u64 \<times> acpi" where
  "acpi_get_madt s =
     (if g_madt s \<noteq> 0 then (g_madt s, s)
      else let f = acpi_find_table (sig ''APIC'') s in (f, s\<lparr>g_madt := f\<rparr>))"

subsection \<open>Processors\<close>

text \<open>
  The loop over the entries of the table, with the number of processors found; an entry of length
  0 is read for ever.
\<close>

partial_function (option) madt_entries :: "u64 \<Rightarrow> u64 \<Rightarrow> nat \<Rightarrow> acpi \<Rightarrow> (nat \<times> acpi) option" where
  "madt_entries ptr stop cpus s =
     (if \<not> ptr < stop then Some (cpus, s)
      else
        let m = amem s; len = ucast (m (ptr + 1))
        in if m ptr = 0 \<and> m32 m (ptr + 4) AND 1 \<noteq> 0
           then madt_entries (ptr + len) stop (Suc cpus)
                  (if cpus < 64 then s\<lparr>acpi_cpu_apic_ids := (acpi_cpu_apic_ids s)(cpus := ucast (m (ptr + 3)))\<rparr> else s)
           else madt_entries (ptr + len) stop cpus s)"

definition acpi_parse_madt :: "acpi \<Rightarrow> acpi option" where
  "acpi_parse_madt s =
     (let (madt, s1) = acpi_get_madt s
      in if madt = 0 then Some s1
         else
           let s2 = s1\<lparr>g_local_apic_addr := m32 (amem s1) (madt + 36)\<rparr>
           in (case madt_entries (madt + 44) (madt + ucast (header_length (amem s2) madt)) 0 s2 of
                 None \<Rightarrow> None
               | Some (n, s3) \<Rightarrow> Some (s3\<lparr>g_cpu_count := int n, acpi_cpu_count := int n\<rparr>)))"

definition acpi_get_local_apic_address :: "acpi \<Rightarrow> u32" where
  "acpi_get_local_apic_address s = g_local_apic_addr s"

definition acpi_get_cpu_count :: "acpi \<Rightarrow> int" where
  "acpi_get_cpu_count s = g_cpu_count s"

definition acpi_init :: "u64 \<Rightarrow> acpi \<Rightarrow> acpi option" where
  "acpi_init rsdp_address s =
     (let m = amem s; rsdp = (if rsdp_address \<noteq> 0 then rsdp_address else find_rsdp m); s1 = s\<lparr>g_rsdp := rsdp\<rparr>
      in if rsdp = 0 then Some s1
         else
           let s2 = (if 2 \<le> m (rsdp + 15) \<and> m64 m (rsdp + 24) \<noteq> 0
                     then s1\<lparr>g_xsdt := m64 m (rsdp + 24) + hhdm_offset s1\<rparr> else s1);
               s3 = (if g_xsdt s2 = 0 \<and> m32 m (rsdp + 16) \<noteq> 0
                     then s2\<lparr>g_rsdt := ucast (m32 m (rsdp + 16)) + hhdm_offset s2\<rparr> else s2)
           in if g_rsdt s3 = 0 \<and> g_xsdt s3 = 0 then Some s3
              else acpi_parse_madt (snd (acpi_get_fadt s3)))"

subsection \<open>Power\<close>

fun enable_wait :: "u16 \<Rightarrow> nat \<Rightarrow> acpi \<Rightarrow> acpi" where
  "enable_wait port 0 s = s"
| "enable_wait port (Suc n) s =
     (let (pm1_ctl, s1) = inw port s
      in if pm1_ctl AND 1 \<noteq> 0 then s1\<lparr>g_acpi_enabled := True\<rparr> else enable_wait port n s1)"

definition acpi_enable :: "acpi \<Rightarrow> acpi" where
  "acpi_enable s =
     (let (fadt, s1) = acpi_get_fadt s; m = amem s1
      in if fadt = 0 then s1
         else if fadt_smi_command_port m fadt = 0 then s1\<lparr>g_acpi_enabled := True\<rparr>
         else enable_wait (ucast (fadt_pm1a_control_block m fadt)) 1000
                (emit (Out8 (ucast (fadt_smi_command_port m fadt)) (fadt_acpi_enable m fadt)) s1))"

text \<open>An element of the package: its value, if it is one of the expected forms, and what follows.\<close>

definition s5_element :: "memory \<Rightarrow> u64 \<Rightarrow> u16 option \<times> u64" where
  "s5_element m data =
     (if m data = 0x0A then (Some (ucast (m (data + 1))), data + 2)
      else if m data = 0x00 then (Some 0, data + 1)
      else if m data = 0x01 then (Some 1, data + 1)
      else (None, data))"

definition s5_package :: "memory \<Rightarrow> u64 \<Rightarrow> (u16 \<times> u16) option" where
  "s5_package m pkg =
     (if m pkg \<noteq> 0x12 then None
      else
        let pkg_len_bytes = drop_bit 6 (m (pkg + 1)); data = pkg + 2 + ucast pkg_len_bytes + 1;
            (a, data1) = s5_element m data; (b, data2) = s5_element m data1
        in case (a, b) of (Some slp_typa, Some slp_typb) \<Rightarrow> Some (slp_typa, slp_typb) | _ \<Rightarrow> None)"

function s5_scan :: "memory \<Rightarrow> u64 \<Rightarrow> u64 \<Rightarrow> (u16 \<times> u16) option" where
  "s5_scan m p stop =
     (if \<not> p < stop then None
      else if custom_memcmp m p (sig ''_S5_'') = 0 \<and> s5_package m (p + 4) \<noteq> None then s5_package m (p + 4)
      else s5_scan m (p + 1) stop)"
  by pat_completeness auto

termination
  by (relation "measure (\<lambda>(m, p, stop). 2 ^ 64 - unat p)") (simp_all add: count_up del: power_numeral)

declare s5_scan.simps [simp del]

definition s5_types :: "memory \<Rightarrow> u64 \<Rightarrow> (u16 \<times> u16) option" where
  "s5_types m fadt =
     (let dsdt = ucast (fadt_dsdt m fadt)
      in if dsdt = 0 \<or> custom_memcmp m dsdt (sig ''DSDT'') \<noteq> 0 then None
         else s5_scan m (dsdt + 36) (dsdt + ucast (header_length m dsdt)))"

definition try_slp :: "u32 \<Rightarrow> u16 \<Rightarrow> acpi \<Rightarrow> acpi" where
  "try_slp block slp_typ s =
     (let (ctl, s1) = inw (ucast block) s
      in emit (Out16 (ucast block) ((ctl AND 0xE3FF) OR push_bit 10 slp_typ OR push_bit 13 1)) s1)"

text \<open>The sleep types of the package, and the guesses for one control block.\<close>

definition s5_write :: "u64 \<Rightarrow> u16 \<times> u16 \<Rightarrow> acpi \<Rightarrow> acpi" where
  "s5_write fadt types s =
     (let (slp_typa, slp_typb) = types; m = amem s;
          a = fadt_pm1a_control_block m fadt; b = fadt_pm1b_control_block m fadt;
          s1 = (if a \<noteq> 0 then emit (Out16 (ucast a) (push_bit 10 slp_typa OR push_bit 13 1)) s else s)
      in if b \<noteq> 0 then emit (Out16 (ucast b) (push_bit 10 slp_typb OR push_bit 13 1)) s1 else s1)"

definition slp_guesses :: "u32 \<Rightarrow> acpi \<Rightarrow> acpi" where
  "slp_guesses block s = (if block \<noteq> 0 then fold (try_slp block) [0, 5, 7, 13] s else s)"

definition acpi_shutdown :: "acpi \<Rightarrow> acpi" where
  "acpi_shutdown s =
     (let (fadt, s1) = acpi_get_fadt s
      in if fadt = 0 then s1
         else
           let s2 = (if \<not> g_acpi_enabled s1 then acpi_enable s1 else s1);
               s3 = emit (Out16 0xB004 0x2000) (emit (Out16 0x604 0x2000) s2); m = amem s3
           in (case s5_types m fadt of
                 Some types \<Rightarrow> s5_write fadt types s3
               | None \<Rightarrow> slp_guesses (fadt_pm1b_control_block m fadt) (slp_guesses (fadt_pm1a_control_block m fadt) s3)))"

definition acpi_write_gas :: "u8 \<Rightarrow> u8 \<Rightarrow> u64 \<Rightarrow> u64 \<Rightarrow> acpi \<Rightarrow> acpi" where
  "acpi_write_gas address_space_id register_bit_width address value s =
     (if address_space_id = 0 then
        (if register_bit_width = 8 then emit (Store 8 address (ucast (ucast value :: u8))) s
         else if register_bit_width = 16 then emit (Store 16 address (ucast (ucast value :: u16))) s
         else if register_bit_width = 32 then emit (Store 32 address (ucast (ucast value :: u32))) s
         else emit (Store 64 address value) s)
      else if address_space_id = 1 then
        (if register_bit_width = 8 then emit (Out8 (ucast address) (ucast value)) s
         else if register_bit_width = 16 then emit (Out16 (ucast address) (ucast value)) s
         else if register_bit_width = 32 then emit (Out32 (ucast address) (ucast value)) s
         else s)
      else s)"

fun keyboard_wait :: "nat \<Rightarrow> acpi \<Rightarrow> acpi" where
  "keyboard_wait 0 s = s"
| "keyboard_wait (Suc n) s =
     (let b = in8 s (n_in s) 0x64; s1 = s\<lparr>n_in := Suc (n_in s)\<rparr>
      in if b AND 0x02 = 0 then s1 else keyboard_wait n s1)"

definition acpi_reboot :: "acpi \<Rightarrow> acpi" where
  "acpi_reboot s =
     (let (fadt, s1) = acpi_get_fadt s; m = amem s1;
          s2 = (if fadt \<noteq> 0 \<and> fadt_flags m fadt AND push_bit 10 1 \<noteq> 0
                then acpi_write_gas (m (fadt + 116)) (m (fadt + 117)) (m64 m (fadt + 120)) (ucast (m (fadt + 128))) s1
                else s1);
          has_ps2 = (if fadt \<noteq> 0 \<and> 2 \<le> m (fadt + 8) then fadt_boot_arch_flags m fadt AND 2 \<noteq> 0 else True);
          s3 = (if has_ps2 then emit (Out8 0x64 0xFE) (keyboard_wait 100000 s2) else s2)
      in fold emit [Out8 0xCF9 0x02, Out8 0xCF9 0x06, Out8 0xCF9 0x0E] s3)"

subsection \<open>The entries of the processor table\<close>

text \<open>
  Entries of the given lengths from one address to another, their starts, and the identifiers of
  the enabled processors among them.
\<close>

fun madt_layout :: "memory \<Rightarrow> u64 \<Rightarrow> u64 \<Rightarrow> u8 list \<Rightarrow> bool" where
  "madt_layout m p stop [] = (\<not> p < stop)"
| "madt_layout m p stop (l # ls) = (p < stop \<and> m (p + 1) = l \<and> madt_layout m (p + ucast l) stop ls)"

fun madt_starts :: "u64 \<Rightarrow> u8 list \<Rightarrow> u64 list" where
  "madt_starts p [] = []"
| "madt_starts p (l # ls) = p # madt_starts (p + ucast l) ls"

definition processor_ids :: "memory \<Rightarrow> u64 list \<Rightarrow> u32 list" where
  "processor_ids m ps = map (\<lambda>p. ucast (m (p + 3))) (filter (\<lambda>p. m p = 0 \<and> m32 m (p + 4) AND 1 \<noteq> 0) ps)"

text \<open>The array of 64 identifiers after more were found, from index \<open>n\<close> on.\<close>

definition put_ids :: "nat \<Rightarrow> u32 list \<Rightarrow> (nat \<Rightarrow> u32) \<Rightarrow> nat \<Rightarrow> u32" where
  "put_ids n ids f i = (if n \<le> i \<and> i < n + length ids \<and> i < 64 then ids ! (i - n) else f i)"

lemma put_ids_simps [simp]:
  "put_ids n [] f = f"
  "put_ids n (x # ids) f = put_ids (Suc n) ids (if n < 64 then f(n := x) else f)"
  by (auto simp: put_ids_def fun_eq_iff nth_Cons' Suc_diff_le split: if_splits)

lemma madt_entries_layout:
  assumes "madt_layout (amem s) p stop ls"
  shows "madt_entries p stop n s = Some (n + length (processor_ids (amem s) (madt_starts p ls)),
    s\<lparr>acpi_cpu_apic_ids := put_ids n (processor_ids (amem s) (madt_starts p ls)) (acpi_cpu_apic_ids s)\<rparr>)"
  using assms
proof (induction ls arbitrary: p n s)
  case Nil
  then show ?case by (subst madt_entries.simps) (simp add: processor_ids_def)
next
  case (Cons l ls)
  define u where "u = (if n < 64 then s\<lparr>acpi_cpu_apic_ids := (acpi_cpu_apic_ids s)(n := ucast (amem s (p + 3)))\<rparr> else s)"
  have u: "amem u = amem s" by (simp add: u_def)
  have rest: "madt_layout (amem s) (p + ucast l) stop ls" "p < stop" "amem s (p + 1) = l" using Cons.prems by simp_all
  show ?case
  proof (cases "amem s p = 0 \<and> m32 (amem s) (p + 4) AND 1 \<noteq> 0")
    case True
    then have "madt_entries p stop n s = madt_entries (p + ucast l) stop (Suc n) u"
      using rest by (subst madt_entries.simps) (simp add: u_def Let_def)
    also have "\<dots> = Some (Suc n + length (processor_ids (amem s) (madt_starts (p + ucast l) ls)),
        u\<lparr>acpi_cpu_apic_ids := put_ids (Suc n) (processor_ids (amem s) (madt_starts (p + ucast l) ls)) (acpi_cpu_apic_ids u)\<rparr>)"
      using Cons.IH [of u "p + ucast l" "Suc n"] rest(1) u by simp
    finally show ?thesis using True by (simp add: processor_ids_def u_def)
  next
    case False
    then have "madt_entries p stop n s = madt_entries (p + ucast l) stop n s"
      using rest by (subst madt_entries.simps) (auto simp: Let_def)
    with Cons.IH [OF rest(1)] False show ?thesis by (auto simp: processor_ids_def)
  qed
qed

text \<open>An entry of length 0 stops the kernel.\<close>

lemma madt_zero_length:
  assumes "p < stop" and "amem s (p + 1) = 0"
  shows "madt_entries p stop n s = None"
proof -
  have "madt_entries p stop n s = Some r \<Longrightarrow> False" for r
  proof -
    assume "madt_entries p stop n s = Some r"
    then have "p < stop \<and> amem s (p + 1) = 0 \<longrightarrow> False"
    proof (rule madt_entries.raw_induct [where P = "\<lambda>p stop n s r. p < stop \<and> amem s (p + 1) = 0 \<longrightarrow> False", rotated])
      fix f p stop n s r
      assume IH: "\<And>p stop n s r. f p stop n s = Some r \<Longrightarrow> p < stop \<and> amem s (p + 1) = 0 \<longrightarrow> False"
        and eq: "(if \<not> p < stop then Some (n, s) else let m = amem s; len = ucast (m (p + 1))
          in if m p = 0 \<and> m32 m (p + 4) AND 1 \<noteq> 0 then f (p + len) stop (Suc n)
               (if n < 64 then s\<lparr>acpi_cpu_apic_ids := (acpi_cpu_apic_ids s)(n := ucast (m (p + 3)))\<rparr> else s)
             else f (p + len) stop n s) = Some (r :: nat \<times> acpi)"
      show "p < stop \<and> amem s (p + 1) = 0 \<longrightarrow> False"
      proof
        assume z: "p < stop \<and> amem s (p + 1) = 0"
        then obtain n' s' where f: "f p stop n' s' = Some r" "amem s' = amem s"
          using eq by (auto simp: Let_def split: if_splits)
        from IH [OF f(1)] f(2) z show False by simp
      qed
    qed
    with assms show False by blast
  qed
  then show ?thesis by (cases "madt_entries p stop n s") auto
qed

subsection \<open>The tables\<close>

lemma memcmp_eq: "custom_memcmp m p bs = 0 \<longleftrightarrow> (\<forall>i < length bs. m (p + of_nat i) = bs ! i)"
proof (induction bs arbitrary: p)
  case (Cons b bs)
  have "uint (m p) - uint b = 0 \<longleftrightarrow> m p = b" by (simp add: word_uint_eq_iff)
  then show ?case using Cons [of "p + 1"] by (auto simp: less_Suc_eq_0_disj ac_simps)
qed simp

text \<open>The first entry with the signature, in the order of the table.\<close>

lemma search_table_first:
  "search_table m rd t signature i n w = map_option (\<lambda>k. rd (t + 36 + of_nat k * w))
     (find (\<lambda>k. custom_memcmp m (rd (t + 36 + of_nat k * w)) signature = 0) [i ..< i + n])"
proof (induction n arbitrary: i)
  case (Suc n)
  have "[i ..< i + Suc n] = i # [Suc i ..< Suc i + n]" by (simp add: upt_conv_Cons)
  with Suc show ?case by (simp add: Let_def)
qed simp

subsection \<open>Properties\<close>

text \<open>
  C28 (functional, ACPI). When the entries of the processor table fill it up to its length,
  \<open>acpi_parse_madt\<close> returns, counts the enabled processors, stores the identifiers of the first 64 in
  the order of the table, and leaves the memory as it is.
\<close>

theorem madt_lists_processors:
  assumes "g_madt s = madt" and "madt \<noteq> 0"
    and "madt_layout (amem s) (madt + 44) (madt + ucast (header_length (amem s) madt)) ls"
    and "ids = processor_ids (amem s) (madt_starts (madt + 44) ls)"
  shows "\<exists>s'. acpi_parse_madt s = Some s' \<and> acpi_get_cpu_count s' = int (length ids) \<and>
    (\<forall>i < min 64 (length ids). acpi_cpu_apic_ids s' i = ids ! i) \<and>
    acpi_get_local_apic_address s' = m32 (amem s) (madt + 36) \<and> amem s' = amem s"
proof -
  let ?s = "s\<lparr>g_local_apic_addr := m32 (amem s) (madt + 36)\<rparr>"
  have "madt_layout (amem ?s) (madt + 44) (madt + ucast (header_length (amem s) madt)) ls" using assms(3) by simp
  from madt_entries_layout [OF this, of 0] assms(1,2,4) show ?thesis
    by (simp add: acpi_parse_madt_def acpi_get_madt_def acpi_get_cpu_count_def acpi_get_local_apic_address_def put_ids_def)
qed

text \<open>A table at 0x1000 with two processors, the second one disabled.\<close>

definition demo_acpi :: acpi where
  "demo_acpi = acpi.make ((\<lambda>_. 0)(0x1004 := 60, 0x1024 := 0xE0, 0x102D := 8, 0x102F := 5, 0x1030 := 1, 0x1035 := 8,
     0x1037 := 6)) 0 0 0 0 0 0x1000 False 0 0 0 (\<lambda>_. 0) (\<lambda>_ _. 0) (\<lambda>_ _. 0) 0 []"

theorem madt_lists_processors_witness:
  "\<exists>s'. acpi_parse_madt demo_acpi = Some s' \<and> acpi_get_cpu_count s' = 1 \<and> acpi_cpu_apic_ids s' 0 = 5"
proof -
  have "madt_layout (amem demo_acpi) (0x1000 + 44) (0x1000 + ucast (header_length (amem demo_acpi) 0x1000)) [8, 8]"
    by (simp add: demo_acpi_def acpi.defs header_length_def m32_def m16_def)
  moreover have "processor_ids (amem demo_acpi) (madt_starts (0x1000 + 44) [8, 8]) = [5]"
    by (simp add: demo_acpi_def acpi.defs processor_ids_def m32_def m16_def)
  moreover have "g_madt demo_acpi = 0x1000" by (simp add: demo_acpi_def acpi.defs)
  ultimately show ?thesis using madt_lists_processors [of demo_acpi "0x1000" "[8, 8]" "[5]"] by auto
qed

end
