(* ===== verification/Cpufreq.thy ===== *)
theory Cpufreq
  imports Prelude
begin

text \<open>
  CPU frequency scaling: \<^verbatim>\<open>drivers/cpufreq.c\<close> with both options of \<^verbatim>\<open>include/autoconf.h\<close> set. The model
  specific registers are a map; messages are left out. The numbers of type \<open>int\<close> stay far below
  its bounds, except for the argument of \<open>cpufreq_set_freq\<close>, which is any value of the type.
\<close>

subsection \<open>State and operations\<close>

record cpufreq =
  msr :: "u32 \<Rightarrow> u64"
  current_governor :: int
  min_freq_mhz :: int
  max_freq_mhz :: int

definition MSR_IA32_PERF_STATUS :: u32 where "MSR_IA32_PERF_STATUS = 0x198"
definition MSR_IA32_PERF_CTL :: u32 where "MSR_IA32_PERF_CTL = 0x199"
definition CPUFREQ_GOV_PERFORMANCE :: int where "CPUFREQ_GOV_PERFORMANCE = 0"
definition CPUFREQ_GOV_POWERSAVE :: int where "CPUFREQ_GOV_POWERSAVE = 1"

definition current_ratio :: "cpufreq \<Rightarrow> int" where
  "current_ratio s = uint (drop_bit 8 (msr s MSR_IA32_PERF_STATUS) AND 0xFF)"

definition cpufreq_init :: "cpufreq \<Rightarrow> cpufreq" where
  "cpufreq_init s = s\<lparr>max_freq_mhz := current_ratio s * 100\<rparr>"

definition cpufreq_get_cur_freq :: "cpufreq \<Rightarrow> int" where
  "cpufreq_get_cur_freq s = current_ratio s * 100 * 1000"

definition cpufreq_get_min_freq :: "cpufreq \<Rightarrow> int" where
  "cpufreq_get_min_freq s = min_freq_mhz s * 1000"

definition cpufreq_get_max_freq :: "cpufreq \<Rightarrow> int" where
  "cpufreq_get_max_freq s = max_freq_mhz s * 1000"

text \<open>A frequency below 800 MHz, and a negative one, asks for the ratio 8.\<close>

definition wanted_ratio :: "int \<Rightarrow> int" where
  "wanted_ratio freq_khz = (let ratio = (if freq_khz < 0 then - (- freq_khz div 100000) else freq_khz div 100000)
     in if ratio < 8 then 8 else ratio)"

definition cpufreq_set_freq :: "int \<Rightarrow> cpufreq \<Rightarrow> int \<times> cpufreq" where
  "cpufreq_set_freq freq_khz s =
     (let perf_ctl = (msr s MSR_IA32_PERF_CTL AND NOT 0xFF00) OR push_bit 8 (word_of_int (wanted_ratio freq_khz))
      in (0, s\<lparr>msr := (msr s)(MSR_IA32_PERF_CTL := perf_ctl)\<rparr>))"

definition cpufreq_set_governor :: "int \<Rightarrow> cpufreq \<Rightarrow> int \<times> cpufreq" where
  "cpufreq_set_governor governor s =
     (let s1 = s\<lparr>current_governor := governor\<rparr>
      in (0, if governor = CPUFREQ_GOV_PERFORMANCE then snd (cpufreq_set_freq (max_freq_mhz s1 * 1000) s1)
             else if governor = CPUFREQ_GOV_POWERSAVE then snd (cpufreq_set_freq (min_freq_mhz s1 * 1000) s1)
             else s1))"

subsection \<open>What is set\<close>

text \<open>The ratio in the control register.\<close>

definition set_ratio :: "cpufreq \<Rightarrow> int" where
  "set_ratio s = uint (drop_bit 8 (msr s MSR_IA32_PERF_CTL) AND 0xFF)"

lemma ratio_field: "(drop_bit 8 ((w AND NOT 0xFF00) OR push_bit 8 r) AND 0xFF :: u64) = take_bit 8 r"
proof -
  have m: "0xFF = (mask 8 :: u64)" "0xFF00 = (push_bit 8 (mask 8) :: u64)" by (simp_all add: mask_eq_decr_exp)
  show ?thesis unfolding m by (rule bit_word_eqI) (auto simp: bit_simps)
qed

lemma set_freq_ratio:
  assumes "wanted_ratio f < 256"
  shows "set_ratio (snd (cpufreq_set_freq f s)) = wanted_ratio f"
proof -
  have "0 \<le> wanted_ratio f" by (simp add: wanted_ratio_def Let_def)
  then have "take_bit 8 (wanted_ratio f) = wanted_ratio f" using assms by (simp add: take_bit_int_eq_self)
  then have "uint (take_bit 8 (word_of_int (wanted_ratio f) :: u64)) = wanted_ratio f"
    by (simp add: unsigned_take_bit_eq unsigned_of_int take_bit_take_bit)
  then show ?thesis
    by (simp add: set_ratio_def cpufreq_set_freq_def Let_def flip: ratio_field [of "msr s MSR_IA32_PERF_CTL"])
qed

text \<open>The performance governor asks for the ratio the processor had when it was initialised.\<close>

lemma performance_ratio:
  assumes "8 \<le> current_ratio s"
  shows "set_ratio (snd (cpufreq_set_governor CPUFREQ_GOV_PERFORMANCE (cpufreq_init s))) = current_ratio s"
proof -
  have "uint (drop_bit 8 (msr s MSR_IA32_PERF_STATUS) AND mask 8) < 2 ^ 8"
    unfolding take_bit_eq_mask [symmetric] unsigned_take_bit_eq by (rule take_bit_int_less_exp)
  then have "current_ratio s < 256" by (simp add: current_ratio_def mask_eq_decr_exp)
  moreover have "wanted_ratio (current_ratio s * 100 * 1000) = current_ratio s"
    using assms by (simp add: wanted_ratio_def Let_def)
  ultimately show ?thesis
    using set_freq_ratio [of "current_ratio s * 100 * 1000"]
    by (simp add: cpufreq_set_governor_def cpufreq_init_def Let_def)
qed

end
