(* ===== verification/Cycle_Rings.thy ===== *)
theory Cycle_Rings
  imports Prelude
begin

text \<open>
  Rings with cycle bits: a producer fills \<open>n\<close> slots over and over and marks its entries with a bit
  that it flips after every round; a consumer that flips its own bit in the same way sees from the
  entry at its position whether it is new. The locale is the contract of the two; entry number \<open>j\<close>
  counts from the start of the ring's life.
\<close>

text \<open>Slot \<open>i\<close> after \<open>k\<close> entries: the last entry that was put there, or what was there before.\<close>

definition slot_content :: "nat \<Rightarrow> (nat \<Rightarrow> 'a) \<Rightarrow> 'a \<Rightarrow> nat \<Rightarrow> nat \<Rightarrow> 'a" where
  "slot_content n entry blank k i = (if i < k then entry (i + n * ((k - 1 - i) div n)) else blank)"

lemma slot_start [simp]: "slot_content n entry blank 0 i = blank"
  by (simp add: slot_content_def)

lemma div_between: "n * q \<le> (x :: nat) \<Longrightarrow> x < n * q + n \<Longrightarrow> x div n = q"
  by (simp add: div_nat_eqI add.commute)

lemma slot_pending:
  assumes "0 < n" and "c < k" and "k \<le> c + n"
  shows "slot_content n entry blank k (c mod n) = entry c"
proof -
  have c: "c = n * (c div n) + c mod n" by simp
  have "(k - 1 - c mod n) div n = c div n" by (rule div_between) (use assms c in linarith)+
  moreover have "c mod n < k" using assms(2) mod_less_eq_dividend [of c n] by linarith
  ultimately show ?thesis by (simp add: slot_content_def)
qed

lemma slot_old:
  assumes "0 < n"
  shows "slot_content n entry blank c (c mod n) = (if c < n then blank else entry (c - n))"
proof (cases "c < n")
  case False
  then have "(c - n) mod n = c mod n" by (simp add: le_mod_geq)
  with slot_pending [OF assms, of "c - n" c entry blank] False assms show ?thesis by simp
qed (simp add: slot_content_def)

lemma slot_Suc:
  assumes "0 < n" and "i < n"
  shows "slot_content n entry blank (Suc k) i = (if i = k mod n then entry k else slot_content n entry blank k i)"
proof (cases "i = k mod n")
  case True
  with slot_pending [OF assms(1), of k "Suc k" entry blank] assms(1) show ?thesis by simp
next
  case ne: False
  show ?thesis
  proof (cases "i < k")
    case True
    define x where "x = k - 1 - i"
    have k: "k = i + Suc x" using True by (simp add: x_def)
    have "Suc x mod n \<noteq> 0"
    proof
      assume "Suc x mod n = 0"
      then have "n dvd Suc x" by (simp only: mod_0_imp_dvd)
      then have "(i + Suc x) mod n = i mod n" by (metis dvd_def mod_mult_self2)
      with ne assms(2) k show False by simp
    qed
    then have "Suc x div n = x div n" by (metis div_Suc)
    then show ?thesis using ne True by (simp add: slot_content_def k)
  next
    case False
    then have "k \<le> i" by simp
    moreover have "k \<noteq> i" using ne assms(2) by auto
    ultimately show ?thesis using ne by (simp add: slot_content_def)
  qed
qed

text \<open>The bit of round number \<open>c div n\<close>, and how position and bit advance.\<close>

definition round_bit :: "nat \<Rightarrow> nat \<Rightarrow> bool" where
  "round_bit n c \<longleftrightarrow> even (c div n)"

lemma round_bit_Suc:
  assumes "0 < n"
  shows "Suc c mod n = Suc (c mod n) mod n"
    and "round_bit n (Suc c) = (if Suc c mod n = 0 then \<not> round_bit n c else round_bit n c)"
  by (simp_all add: round_bit_def div_Suc mod_Suc_eq)

locale cycle_ring =
  fixes n :: nat and entry :: "nat \<Rightarrow> 'a" and blank :: 'a and marked :: "'a \<Rightarrow> bool"
  assumes slots: "0 < n"
    and marked_entry: "marked (entry j) = round_bit n j"
    and blank_unmarked: "\<not> marked blank"
begin

abbreviation slot :: "nat \<Rightarrow> nat \<Rightarrow> 'a" where
  "slot \<equiv> slot_content n entry blank"

text \<open>The entry at the consumer's position is new exactly if one is pending, and is the next one.\<close>

lemma new_iff:
  assumes "c \<le> k" and "k \<le> c + n"
  shows "marked (slot k (c mod n)) = round_bit n c \<longleftrightarrow> c < k"
proof (cases "c < k")
  case True
  then show ?thesis using slot_pending [OF slots True assms(2), of entry blank] marked_entry by simp
next
  case False
  then have k: "k = c" using assms(1) by simp
  have flip: "round_bit n (c - n) = (\<not> round_bit n c)" if "n \<le> c"
    using that slots by (simp add: round_bit_def le_div_geq)
  show ?thesis
  proof (cases "c < n")
    case True
    then show ?thesis using slot_old [OF slots, of entry blank c] blank_unmarked
      by (simp add: k round_bit_def)
  next
    case False
    then show ?thesis using slot_old [OF slots, of entry blank c] marked_entry flip by (simp add: k)
  qed
qed

lemma next_entry: "c < k \<Longrightarrow> k \<le> c + n \<Longrightarrow> slot k (c mod n) = entry c"
  by (rule slot_pending [OF slots])

end

end
