(* ===== verification/Xhci.thy ===== *)
theory Xhci
  imports Input Pci Paging Cycle_Rings
begin

text \<open>
  The USB host controller \<^verbatim>\<open>drivers/xhci.c\<close>: its three kinds of rings, the bring-up of the controller,
  the enumeration of devices and the keyboard's reports. Registers are volatile: read number \<open>n\<close> of
  the address \<open>a\<close> gives \<open>mmio_in n a\<close>, whose low byte is the byte at \<open>a\<close>; writes are a trace. The
  memory the controller writes (event ring, device contexts, report buffer) is read in the same
  way, an entry of the event ring as a whole; that the driver clears it first is left out. A
  static object of the driver has an unknown address. Flags that only hold 0 and 1 are Booleans,
  ring indices, which stay below 32, natural numbers. Messages are left out, the register reads
  in them are not.
\<close>

subsection \<open>Data structures\<close>

record xhci_trb =
  parameter :: u64
  status :: u32
  control :: u32

record xhci_erst_entry =
  ring_segment_base_addr :: u64
  ring_segment_size :: u32
  rsvd :: u32

text \<open>The words of the slot context, and of the endpoint contexts by number.\<close>

record xhci_input_context =
  drop_flags :: u32
  add_flags :: u32
  slot_dwords :: "nat \<Rightarrow> u32"
  ep_dwords :: "nat \<Rightarrow> nat \<Rightarrow> u32"

datatype xhci_object = Cmd_Ring | Event_Ring | Event_Ring_Seg_Table | Dcbaap_Array | Device_Context nat
  | Input_Context nat | Ep_Transfer_Ring nat | Kbd_Ep1_Ring | Kbd_Report_Data

datatype mmio_write = W32 u64 u32 | W64 u64 u64

record xhci = input +
  pci_bus :: pci
  frames :: mm
  tables :: page_tables
  cr3 :: u64
  hhdm :: u64
  addr_of :: "xhci_object \<Rightarrow> u64"
  mmio_in :: "nat \<Rightarrow> u64 \<Rightarrow> u32"
  n_mmio :: nat
  mmio_out :: "mmio_write list"
  event_in :: "nat \<Rightarrow> nat \<Rightarrow> xhci_trb"
  dev_ctx_in :: "nat \<Rightarrow> nat \<Rightarrow> nat \<Rightarrow> u32"
  report_in :: "nat \<Rightarrow> nat \<Rightarrow> u8"
  n_dma :: nat
  xhci_cap_regs :: u64
  xhci_op_regs :: u64
  xhci_doorbell_regs :: u64
  xhci_runtime_regs :: u64
  xhci_cmd_ring :: "nat \<Rightarrow> xhci_trb"
  xhci_event_ring_seg_table :: xhci_erst_entry
  xhci_dcbaap_array :: "nat \<Rightarrow> u64"
  xhci_input_context_pool :: "nat \<Rightarrow> xhci_input_context"
  xhci_ep_transfer_rings :: "nat \<Rightarrow> nat \<Rightarrow> xhci_trb"
  scratchpad_array :: "nat \<Rightarrow> u64"
  cmd_ring_enqueue_ptr :: nat
  cmd_ring_cycle_state :: bool
  event_ring_dequeue_ptr :: nat
  event_ring_cycle_state :: bool
  usb_kbd_slot :: u32
  usb_kbd_max_packet :: u16
  usb_kbd_port_speed :: u32
  usb_kbd_port_id :: u32
  usb_kbd_ep1_configured :: bool
  usb_kbd_ep1_ring :: "nat \<Rightarrow> xhci_trb"
  usb_kbd_ep1_enqueue :: nat
  usb_kbd_ep1_cycle :: bool

definition TRB_TYPE_NORMAL :: u32 where "TRB_TYPE_NORMAL = 1"
definition TRB_TYPE_SETUP_STAGE :: u32 where "TRB_TYPE_SETUP_STAGE = 2"
definition TRB_TYPE_STATUS_STAGE :: u32 where "TRB_TYPE_STATUS_STAGE = 4"
definition TRB_TYPE_LINK :: u32 where "TRB_TYPE_LINK = 6"
definition TRB_TYPE_ENABLE_SLOT :: u32 where "TRB_TYPE_ENABLE_SLOT = 9"
definition TRB_TYPE_ADDRESS_DEVICE :: u32 where "TRB_TYPE_ADDRESS_DEVICE = 11"
definition TRB_TYPE_CONFIGURE_ENDPOINT :: u32 where "TRB_TYPE_CONFIGURE_ENDPOINT = 12"
definition TRB_TYPE_TRANSFER_EVENT :: u32 where "TRB_TYPE_TRANSFER_EVENT = 32"
definition TRB_TYPE_COMMAND_COMPLETION_EVENT :: u32 where "TRB_TYPE_COMMAND_COMPLETION_EVENT = 33"

definition XHCI_CMD_RING_SIZE :: nat where "XHCI_CMD_RING_SIZE = 32"
definition XHCI_EVENT_RING_SIZE :: nat where "XHCI_EVENT_RING_SIZE = 32"
definition XHCI_EP_RING_SIZE :: nat where "XHCI_EP_RING_SIZE = 32"

definition zero_trb :: xhci_trb where
  "zero_trb = \<lparr>parameter = 0, status = 0, control = 0\<rparr>"

definition zero_context :: xhci_input_context where
  "zero_context = \<lparr>drop_flags = 0, add_flags = 0, slot_dwords = (\<lambda>_. 0), ep_dwords = (\<lambda>_ _. 0)\<rparr>"

text \<open>The bus address of byte \<open>k\<close> of an object.\<close>

definition bus_addr :: "'a xhci_scheme \<Rightarrow> xhci_object \<Rightarrow> u64 \<Rightarrow> u64" where
  "bus_addr s ob k = virt_to_phys (hhdm s) (addr_of s ob + k)"

subsection \<open>Registers\<close>

definition mread :: "u64 \<Rightarrow> 'a xhci_scheme \<Rightarrow> u32 \<times> 'a xhci_scheme" where
  "mread a s = (mmio_in s (n_mmio s) a, s\<lparr>n_mmio := Suc (n_mmio s)\<rparr>)"

definition mwrite32 :: "u64 \<Rightarrow> u32 \<Rightarrow> 'a xhci_scheme \<Rightarrow> 'a xhci_scheme" where
  "mwrite32 a v s = s\<lparr>mmio_out := mmio_out s @ [W32 a v]\<rparr>"

definition mwrite64 :: "u64 \<Rightarrow> u64 \<Rightarrow> 'a xhci_scheme \<Rightarrow> 'a xhci_scheme" where
  "mwrite64 a v s = s\<lparr>mmio_out := mmio_out s @ [W64 a v]\<rparr>"

text \<open>Read, change and write back; reads whose value is only printed.\<close>

definition mchange :: "(u32 \<Rightarrow> u32) \<Rightarrow> u64 \<Rightarrow> 'a xhci_scheme \<Rightarrow> 'a xhci_scheme" where
  "mchange f a s = (let (v, s1) = mread a s in mwrite32 a (f v) s1)"

definition mskip :: "nat \<Rightarrow> 'a xhci_scheme \<Rightarrow> 'a xhci_scheme" where
  "mskip k s = s\<lparr>n_mmio := n_mmio s + k\<rparr>"

definition ring_doorbell :: "nat \<Rightarrow> u32 \<Rightarrow> 'a xhci_scheme \<Rightarrow> 'a xhci_scheme" where
  "ring_doorbell i v s = mwrite32 (xhci_doorbell_regs s + 4 * of_nat i) v s"

definition usbcmd :: "'a xhci_scheme \<Rightarrow> u64" where "usbcmd s = xhci_op_regs s"
definition usbsts :: "'a xhci_scheme \<Rightarrow> u64" where "usbsts s = xhci_op_regs s + 4"

subsection \<open>The event ring\<close>

definition trb_type :: "xhci_trb \<Rightarrow> u32" where
  "trb_type e = drop_bit 10 (control e) AND 0x3F"

definition completion_code :: "xhci_trb \<Rightarrow> u32" where
  "completion_code e = drop_bit 24 (status e) AND 0xFF"

definition trb_slot :: "xhci_trb \<Rightarrow> u32" where
  "trb_slot e = drop_bit 24 (control e) AND 0xFF"

definition read_event :: "'a xhci_scheme \<Rightarrow> xhci_trb \<times> 'a xhci_scheme" where
  "read_event s = (event_in s (n_dma s) (event_ring_dequeue_ptr s), s\<lparr>n_dma := Suc (n_dma s)\<rparr>)"

definition fresh_event :: "xhci_trb \<Rightarrow> 'a xhci_scheme \<Rightarrow> bool" where
  "fresh_event e s \<longleftrightarrow> (control e AND 1 \<noteq> 0) = event_ring_cycle_state s"

definition advance_event :: "'a xhci_scheme \<Rightarrow> 'a xhci_scheme" where
  "advance_event s =
     (let i = (event_ring_dequeue_ptr s + 1) mod XHCI_EVENT_RING_SIZE
      in s\<lparr>event_ring_dequeue_ptr := i,
           event_ring_cycle_state := (if i = 0 then \<not> event_ring_cycle_state s else event_ring_cycle_state s)\<rparr>)"

definition update_erdp :: "'a xhci_scheme \<Rightarrow> 'a xhci_scheme" where
  "update_erdp s =
     mwrite64 (xhci_runtime_regs s + 0x38)
       (bus_addr s Event_Ring (16 * of_nat (event_ring_dequeue_ptr s)) OR push_bit 3 1) s"

subsection \<open>Commands\<close>

definition with_cycle :: "bool \<Rightarrow> u32 \<Rightarrow> u32" where
  "with_cycle c w = (if c then w OR 1 else w AND NOT 1)"

definition put_command :: "xhci_trb \<Rightarrow> 'a xhci_scheme \<Rightarrow> 'a xhci_scheme" where
  "put_command trb s =
     (let i = cmd_ring_enqueue_ptr s; j = (i + 1) mod XHCI_CMD_RING_SIZE
      in s\<lparr>xhci_cmd_ring := (xhci_cmd_ring s)(i := trb\<lparr>control := with_cycle (cmd_ring_cycle_state s) (control trb)\<rparr>),
           cmd_ring_enqueue_ptr := j,
           cmd_ring_cycle_state := (if j = 0 then \<not> cmd_ring_cycle_state s else cmd_ring_cycle_state s)\<rparr>)"

text \<open>
  The wait for the completion: the result, and the code and the slot of the event. Every turn
  counts, also one that takes another event.
\<close>

fun command_wait :: "nat \<Rightarrow> 'a xhci_scheme \<Rightarrow> (int \<times> (u32 \<times> u32) option) \<times> 'a xhci_scheme" where
  "command_wait timeout s =
     (if timeout = 0 then ((-1, None), s)
      else
        let (e, s1) = read_event s
        in if fresh_event e s1 then
             let s2 = update_erdp (advance_event s1)
             in if trb_type e = TRB_TYPE_COMMAND_COMPLETION_EVENT
                then ((if completion_code e = 1 then 0 else -2, Some (completion_code e, trb_slot e)), s2)
                else command_wait (timeout - 1) s2
           else command_wait (timeout - 1) s1)"

declare command_wait.simps [simp del]

definition xhci_send_command :: "xhci_trb \<Rightarrow> 'a xhci_scheme \<Rightarrow> (int \<times> (u32 \<times> u32) option) \<times> 'a xhci_scheme" where
  "xhci_send_command command_trb s =
     (if (cmd_ring_enqueue_ptr s + 1) mod XHCI_CMD_RING_SIZE = 0 then ((-1, None), s)
      else command_wait 1000000 (ring_doorbell 0 0 (put_command command_trb s)))"

subsection \<open>Taking the controller over from the firmware\<close>

fun bios_wait :: "u64 \<Rightarrow> nat \<Rightarrow> 'a xhci_scheme \<Rightarrow> nat \<times> 'a xhci_scheme" where
  "bios_wait a timeout s =
     (let (v, s1) = mread a s
      in if v AND push_bit 16 1 \<noteq> 0 \<and> 0 < timeout then bios_wait a (timeout - 1) s1 else (timeout, s1))"

declare bios_wait.simps [simp del]

text \<open>At the capability for legacy support.\<close>

definition take_ownership :: "u64 \<Rightarrow> 'a xhci_scheme \<Rightarrow> 'a xhci_scheme" where
  "take_ownership a s =
     (let (v, s1) = mread a s;
          s2 = (if v AND push_bit 16 1 \<noteq> 0 then
                  (let (timeout, s3) = bios_wait a 100000 (mchange (\<lambda>w. w OR push_bit 24 1) a s1)
                   in if 0 < timeout then s3 else mchange (\<lambda>w. w AND NOT (push_bit 16 1)) a s3)
                else mchange (\<lambda>w. w OR push_bit 24 1) a s1)
      in mchange (\<lambda>w. w AND 0) (a + 4) s2)"

text \<open>The list of capabilities ends only if the controller says so.\<close>

partial_function (option) find_legacy :: "u64 \<Rightarrow> 'a xhci_scheme \<Rightarrow> 'a xhci_scheme option" where
  "find_legacy current_cap_addr s =
     (let (val, s1) = mread current_cap_addr s; next_offset = drop_bit 8 val AND 0xFF
      in if val AND 0xFF = 1 then Some (take_ownership current_cap_addr s1)
         else if next_offset = 0 then Some s1
         else find_legacy (current_cap_addr + ucast (next_offset * 4)) s1)"

definition xhci_perform_bios_handoff :: "u64 \<Rightarrow> 'a xhci_scheme \<Rightarrow> 'a xhci_scheme option" where
  "xhci_perform_bios_handoff mmio_base s =
     (let (hccparams1, s1) = mread (xhci_cap_regs s + 0x10) s; xecp = drop_bit 16 hccparams1 AND 0xFFFF
      in if xecp = 0 then Some s1 else find_legacy (mmio_base + ucast (xecp * 4)) s1)"

subsection \<open>The keyboard's transfers\<close>

definition kbd_cycle :: "'a xhci_scheme \<Rightarrow> u32 \<Rightarrow> u32" where
  "kbd_cycle s w = (if usb_kbd_ep1_cycle s then w OR 1 else w)"

text \<open>A transfer for one report; the last entry of the ring links back to the first.\<close>

definition put_transfer :: "'a xhci_scheme \<Rightarrow> 'a xhci_scheme" where
  "put_transfer s =
     (let i = usb_kbd_ep1_enqueue s;
          trb = \<lparr>parameter = bus_addr s Kbd_Report_Data 0, status = 8,
            control = kbd_cycle s (push_bit 10 TRB_TYPE_NORMAL OR push_bit 5 1)\<rparr>
      in s\<lparr>usb_kbd_ep1_ring := (usb_kbd_ep1_ring s)(i := trb), usb_kbd_ep1_enqueue := i + 1\<rparr>)"

definition wrap_ring :: "'a xhci_scheme \<Rightarrow> 'a xhci_scheme" where
  "wrap_ring s =
     (let usable_slots = XHCI_EP_RING_SIZE - 1;
          lnk = \<lparr>parameter = bus_addr s Kbd_Ep1_Ring 0, status = 0,
            control = kbd_cycle s (push_bit 10 TRB_TYPE_LINK OR push_bit 1 1)\<rparr>
      in if usable_slots \<le> usb_kbd_ep1_enqueue s
         then s\<lparr>usb_kbd_ep1_ring := (usb_kbd_ep1_ring s)(usable_slots := lnk),
                usb_kbd_ep1_enqueue := 0, usb_kbd_ep1_cycle := \<not> usb_kbd_ep1_cycle s\<rparr>
         else s)"

definition xhci_queue_kbd_transfer :: "'a xhci_scheme \<Rightarrow> 'a xhci_scheme" where
  "xhci_queue_kbd_transfer s =
     (if \<not> usb_kbd_ep1_configured s \<or> usb_kbd_slot s = 0 then s
      else let s1 = wrap_ring (put_transfer s) in ring_doorbell (unat (usb_kbd_slot s1)) 3 s1)"

definition xhci_set_boot_protocol :: "u32 \<Rightarrow> 'a xhci_scheme \<Rightarrow> 'a xhci_scheme" where
  "xhci_set_boot_protocol slot_id s =
     (let k = unat slot_id;
          setup = \<lparr>parameter = 0x21 OR push_bit 8 0x0B, status = 8,
            control = push_bit 10 TRB_TYPE_SETUP_STAGE OR push_bit 6 1 OR 1\<rparr>;
          stat = \<lparr>parameter = 0, status = 0,
            control = push_bit 10 TRB_TYPE_STATUS_STAGE OR push_bit 5 1 OR push_bit 16 1 OR 1\<rparr>;
          ring = (xhci_ep_transfer_rings s k)(0 := setup, 1 := stat, 2 := zero_trb)
      in ring_doorbell k 1 (s\<lparr>xhci_ep_transfer_rings := (xhci_ep_transfer_rings s)(k := ring)\<rparr>))"

subsection \<open>Addressing and configuring a device\<close>

text \<open>The words of an endpoint context; the transfer ring's address starts with cycle state 1.\<close>

definition ep_context :: "u32 \<Rightarrow> u32 \<Rightarrow> u64 \<Rightarrow> nat \<Rightarrow> u32" where
  "ep_context d0 d1 ring = (let a = ring OR 1 in
     (\<lambda>_. 0)(0 := d0, 1 := d1, 2 := ucast a, 3 := ucast (drop_bit 32 a), 4 := 8))"

definition put_input_context :: "u32 \<Rightarrow> xhci_input_context \<Rightarrow> 'a xhci_scheme \<Rightarrow> 'a xhci_scheme" where
  "put_input_context slot_id c s =
     s\<lparr>xhci_input_context_pool := (xhci_input_context_pool s)(unat slot_id := c)\<rparr>"

text \<open>The command that hands the input context of a slot to the controller.\<close>

definition context_command :: "u32 \<Rightarrow> u32 \<Rightarrow> 'a xhci_scheme \<Rightarrow> xhci_trb" where
  "context_command ty slot_id s =
     \<lparr>parameter = bus_addr s (Input_Context (unat slot_id)) 0, status = 0,
      control = push_bit 24 slot_id OR push_bit 10 ty\<rparr>"

text \<open>The context of the keyboard's endpoint, with the slot's words as the controller has them.\<close>

definition kbd_context :: "u32 \<Rightarrow> u32 \<Rightarrow> 'a xhci_scheme \<Rightarrow> xhci_input_context" where
  "kbd_context slot_id port_speed s =
     (let d0 = dev_ctx_in s (n_dma s) (unat slot_id) 0; d1 = dev_ctx_in s (Suc (n_dma s)) (unat slot_id) 1;
          interval = (if 3 \<le> port_speed then 4 else 10)
      in zero_context\<lparr>add_flags := push_bit 0 1 OR push_bit 3 1,
           slot_dwords := (\<lambda>_. 0)(0 := (d0 AND NOT (push_bit 27 0x1F)) OR push_bit 27 3, 1 := d1),
           ep_dwords := (\<lambda>_ _. 0)(2 := ep_context (push_bit 16 interval)
             (push_bit 3 7 OR push_bit 16 8 OR push_bit 1 3) (bus_addr s Kbd_Ep1_Ring 0))\<rparr>)"

text \<open>The ring is emptied; two words of the device context have been read.\<close>

definition reset_kbd_ring :: "'a xhci_scheme \<Rightarrow> 'a xhci_scheme" where
  "reset_kbd_ring s = s\<lparr>n_dma := n_dma s + 2, usb_kbd_ep1_ring := (\<lambda>_. zero_trb),
     usb_kbd_ep1_enqueue := 0, usb_kbd_ep1_cycle := True\<rparr>"

definition xhci_configure_kbd_endpoint :: "u32 \<Rightarrow> u32 \<Rightarrow> 'a xhci_scheme \<Rightarrow> 'a xhci_scheme" where
  "xhci_configure_kbd_endpoint slot_id port_speed s =
     (let s1 = put_input_context slot_id (kbd_context slot_id port_speed s) (reset_kbd_ring s);
          ((r, _), s2) = xhci_send_command (context_command TRB_TYPE_CONFIGURE_ENDPOINT slot_id s1) s1
      in if r = 0
         then xhci_queue_kbd_transfer (xhci_set_boot_protocol slot_id (s2\<lparr>usb_kbd_ep1_configured := True\<rparr>))
         else s2)"

definition max_packet_of_speed :: "u32 \<Rightarrow> u16" where
  "max_packet_of_speed port_speed =
     (if port_speed = 1 then 64 else if port_speed = 2 then 8 else if port_speed = 3 then 64
      else if port_speed = 4 then 512 else if port_speed = 5 then 1024 else 64)"

definition device_context :: "u32 \<Rightarrow> u32 \<Rightarrow> u32 \<Rightarrow> 'a xhci_scheme \<Rightarrow> xhci_input_context" where
  "device_context slot_id port_id port_speed s =
     zero_context\<lparr>add_flags := push_bit 1 1 OR push_bit 0 1,
       slot_dwords := (\<lambda>_. 0)(0 := push_bit 20 port_speed OR push_bit 27 1, 1 := push_bit 16 port_id),
       ep_dwords := (\<lambda>_ _. 0)(0 := ep_context 0 (push_bit 3 4 OR push_bit 16 (ucast (max_packet_of_speed port_speed)))
         (bus_addr s (Ep_Transfer_Ring (unat slot_id)) 0))\<rparr>"

definition xhci_address_device :: "u32 \<Rightarrow> u32 \<Rightarrow> u32 \<Rightarrow> 'a xhci_scheme \<Rightarrow> 'a xhci_scheme" where
  "xhci_address_device slot_id port_id port_speed s =
     (let s1 = put_input_context slot_id (device_context slot_id port_id port_speed s)
            (s\<lparr>xhci_dcbaap_array := (xhci_dcbaap_array s)(unat slot_id := bus_addr s (Device_Context (unat slot_id)) 0)\<rparr>);
          ((r, _), s2) = xhci_send_command (context_command TRB_TYPE_ADDRESS_DEVICE slot_id s1) s1
      in if r = 0
         then xhci_configure_kbd_endpoint slot_id port_speed
                (s2\<lparr>usb_kbd_slot := slot_id, usb_kbd_max_packet := max_packet_of_speed port_speed,
                   usb_kbd_port_speed := port_speed, usb_kbd_port_id := port_id,
                   pci_bus := nvnode_add_usb_device 0 0 (pci_bus s2)\<rparr>)
         else s2)"

subsection \<open>Polling the keyboard\<close>

text \<open>The report in the buffer: eight bytes, the second of them reserved.\<close>

definition read_report :: "'a xhci_scheme \<Rightarrow> hid_kbd_report \<times> 'a xhci_scheme" where
  "read_report s =
     (let b = report_in s (n_dma s)
      in (\<lparr>modifiers = b 0, keycodes = map b [2 ..< 8]\<rparr>, s\<lparr>n_dma := Suc (n_dma s)\<rparr>))"

definition transfer_done :: "xhci_trb \<Rightarrow> 'a xhci_scheme \<Rightarrow> 'a xhci_scheme" where
  "transfer_done e s =
     (if trb_type e \<noteq> TRB_TYPE_TRANSFER_EVENT then s
      else if trb_slot e = usb_kbd_slot s \<and> completion_code e = 1
      then (let (r, s1) = read_report s in xhci_queue_kbd_transfer (usb_kbd_process_report r s1))
      else if completion_code e \<noteq> 1 then xhci_queue_kbd_transfer s
      else s)"

fun poll_events :: "nat \<Rightarrow> 'a xhci_scheme \<Rightarrow> 'a xhci_scheme" where
  "poll_events 0 s = s"
| "poll_events (Suc n) s =
     (let (e, s1) = read_event s
      in if \<not> fresh_event e s1 then s1
         else poll_events n (transfer_done e (update_erdp (advance_event s1))))"

definition usb_kbd_poll :: "'a xhci_scheme \<Rightarrow> 'a xhci_scheme" where
  "usb_kbd_poll s = (if \<not> usb_kbd_ep1_configured s \<or> xhci_op_regs s = 0 then s else poll_events 4 s)"

subsection \<open>Bring-up of the controller\<close>

text \<open>The controller on the PCI bus: bus mastering on, and the base address if it is a memory one.\<close>

definition bar_address :: "vray_device \<Rightarrow> pci \<Rightarrow> u64 option \<times> pci" where
  "bar_address d p =
     (let (pci_command_reg, p1) = vray_cfg_read (bus d) (dev_no d) (func_no d) 0x04 p;
          p2 = vray_cfg_write (bus d) (dev_no d) (func_no d) 0x04 (pci_command_reg OR (push_bit 2 1 OR push_bit 1 1)) p1;
          (bar0, p3) = vray_cfg_read (bus d) (dev_no d) (func_no d) 0x10 p2
      in if bar0 AND 0x7 = 0x4 then
           (let (bar1, p4) = vray_cfg_read (bus d) (dev_no d) (func_no d) 0x14 p3
            in (Some (push_bit 32 (ucast bar1) OR ucast (bar0 AND 0xFFFFFFF0)), p4))
         else if bar0 AND 0x01 = 0 then (Some (ucast (bar0 AND 0xFFFFFFF0)), p3)
         else (None, p3))"

text \<open>The registers' places in the mapped region.\<close>

definition find_registers :: "u64 \<Rightarrow> 'a xhci_scheme \<Rightarrow> 'a xhci_scheme" where
  "find_registers virt_base s =
     (let s1 = mskip 2 (s\<lparr>xhci_cap_regs := virt_base\<rparr>);
          (caplength, s2) = mread virt_base s1; (dboff, s3) = mread (virt_base + 0x14) s2;
          (rtsoff, s4) = mread (virt_base + 0x18) s3
      in s4\<lparr>xhci_op_regs := virt_base + ucast (ucast caplength :: u8), xhci_doorbell_regs := virt_base + ucast dboff,
            xhci_runtime_regs := virt_base + ucast rtsoff\<rparr>)"

fun reset_wait :: "nat \<Rightarrow> 'a xhci_scheme \<Rightarrow> bool \<times> 'a xhci_scheme" where
  "reset_wait timeout s =
     (let (c, s1) = mread (usbcmd s) s;
          (busy, s2) = (if c AND push_bit 1 1 \<noteq> 0 then (True, s1)
            else let (st, s3) = mread (usbsts s1) s1 in (st AND push_bit 11 1 \<noteq> 0, s3))
      in if \<not> busy then (True, s2)
         else if timeout \<le> 1 then (False, mskip 2 s2)
         else reset_wait (timeout - 1) s2)"

declare reset_wait.simps [simp del]

definition reset_controller :: "'a xhci_scheme \<Rightarrow> bool \<times> 'a xhci_scheme" where
  "reset_controller s = reset_wait 1000000 (mchange (\<lambda>w. w OR push_bit 1 1) (usbcmd s) s)"

text \<open>Pages for the controller's own use, as many as there are frames for.\<close>

fun scratch_pages :: "nat \<Rightarrow> nat \<Rightarrow> 'a xhci_scheme \<Rightarrow> 'a xhci_scheme" where
  "scratch_pages i 0 s = s"
| "scratch_pages i (Suc n) s =
     (let (scratchpad_page_phys, m) = pfa_alloc (frames s); s1 = s\<lparr>frames := m\<rparr>
      in if scratchpad_page_phys = 0 then s1
         else scratch_pages (Suc i) n
                (s1\<lparr>scratchpad_array := (scratchpad_array s1)(i := scratchpad_page_phys)\<rparr>))"

definition scratchpad_count :: "u32 \<Rightarrow> nat" where
  "scratchpad_count hcsparams2 =
     (let lo = drop_bit 21 hcsparams2 AND 0x1F; hi = drop_bit 27 hcsparams2 AND 0x1F
      in unat (push_bit 5 hi OR lo))"

definition setup_scratchpad :: "nat \<Rightarrow> 'a xhci_scheme \<Rightarrow> 'a xhci_scheme" where
  "setup_scratchpad max_scratchpad_bufs s =
     (if max_scratchpad_bufs = 0 then s\<lparr>xhci_dcbaap_array := (xhci_dcbaap_array s)(0 := 0)\<rparr>
      else
        let (array_phys, m) = pfa_alloc_low (frames s); s1 = s\<lparr>frames := m\<rparr>
        in if array_phys = 0 then s1\<lparr>xhci_dcbaap_array := (xhci_dcbaap_array s1)(0 := 0)\<rparr>
           else
             let s2 = scratch_pages 0 (min 256 max_scratchpad_bufs) (s1\<lparr>scratchpad_array := (\<lambda>_. 0)\<rparr>)
             in s2\<lparr>xhci_dcbaap_array := (xhci_dcbaap_array s2)(0 := array_phys)\<rparr>)"

text \<open>The number of slots, the device contexts and the rings.\<close>

definition setup_slots :: "'a xhci_scheme \<Rightarrow> 'a xhci_scheme" where
  "setup_slots s =
     (let s1 = s\<lparr>xhci_dcbaap_array := (\<lambda>_. 0), xhci_input_context_pool := (\<lambda>_. zero_context),
                xhci_ep_transfer_rings := (\<lambda>_ _. zero_trb)\<rparr>;
          (hcsparams1, s2) = mread (xhci_cap_regs s1 + 0x04) s1;
          s3 = mwrite32 (xhci_op_regs s2 + 0x38) (hcsparams1 AND 0xFF) s2;
          (hcsparams2, s4) = mread (xhci_cap_regs s3 + 0x08) s3;
          s5 = setup_scratchpad (scratchpad_count hcsparams2) s4
      in mskip 1 (mwrite64 (xhci_op_regs s5 + 0x30) (bus_addr s5 Dcbaap_Array 0) s5))"

definition setup_rings :: "'a xhci_scheme \<Rightarrow> 'a xhci_scheme" where
  "setup_rings s =
     (let s1 = s\<lparr>cmd_ring_enqueue_ptr := 0, cmd_ring_cycle_state := True, event_ring_dequeue_ptr := 0,
                event_ring_cycle_state := True, xhci_cmd_ring := (\<lambda>_. zero_trb)\<rparr>;
          s2 = mwrite64 (xhci_op_regs s1 + 0x18) (bus_addr s1 Cmd_Ring 0 OR push_bit 1 1) s1;
          s3 = s2\<lparr>xhci_event_ring_seg_table := \<lparr>ring_segment_base_addr = bus_addr s2 Event_Ring 0,
                 ring_segment_size = of_nat XHCI_EVENT_RING_SIZE, rsvd = 0\<rparr>\<rparr>;
          rt = xhci_runtime_regs s3;
          s4 = mwrite64 (rt + 0x38) (bus_addr s3 Event_Ring 0) (mwrite32 (rt + 0x28) 1 s3)
      in mskip 3 (mwrite64 (rt + 0x30) (bus_addr s4 Event_Ring_Seg_Table 0) s4))"

fun run_wait :: "nat \<Rightarrow> 'a xhci_scheme \<Rightarrow> bool \<times> 'a xhci_scheme" where
  "run_wait timeout s =
     (let (st, s1) = mread (usbsts s) s
      in if st AND push_bit 0 1 = 0 then (True, s1)
         else if timeout \<le> 1 then (False, mskip 1 s1)
         else run_wait (timeout - 1) s1)"

declare run_wait.simps [simp del]

definition start_controller :: "'a xhci_scheme \<Rightarrow> bool \<times> 'a xhci_scheme" where
  "start_controller s =
     run_wait 1000000 (mchange (\<lambda>w. w OR push_bit 0 1) (usbcmd s) (mchange (\<lambda>w. w OR push_bit 2 1) (usbcmd s) s))"

subsection \<open>Ports\<close>

definition portsc :: "nat \<Rightarrow> 'a xhci_scheme \<Rightarrow> u64" where
  "portsc i s = xhci_op_regs s + 0x400 + of_nat i * 0x10"

definition power_port :: "nat \<Rightarrow> 'a xhci_scheme \<Rightarrow> 'a xhci_scheme" where
  "power_port i s =
     (let (portsc_val, s1) = mread (portsc i s) s
      in if portsc_val AND push_bit 9 1 = 0 then mwrite32 (portsc i s1) (portsc_val OR push_bit 9 1) s1 else s1)"

fun port_reset_wait :: "nat \<Rightarrow> nat \<Rightarrow> 'a xhci_scheme \<Rightarrow> bool \<times> 'a xhci_scheme" where
  "port_reset_wait i timeout s =
     (let (v, s1) = mread (portsc i s) s
      in if v AND push_bit 21 1 \<noteq> 0 then (True, s1)
         else if timeout \<le> 1 then (False, s1)
         else port_reset_wait i (timeout - 1) s1)"

declare port_reset_wait.simps [simp del]

text \<open>The events that are pending are dropped, at most 16.\<close>

fun flush_events :: "nat \<Rightarrow> 'a xhci_scheme \<Rightarrow> 'a xhci_scheme" where
  "flush_events 0 s = s"
| "flush_events (Suc n) s =
     (let (e, s1) = read_event s
      in if \<not> fresh_event e s1 then s1 else flush_events n (advance_event s1))"

text \<open>A slot for the device of a port that has been reset; false if the controller is halted.\<close>

definition clear_status :: "u32 \<Rightarrow> 'a xhci_scheme \<Rightarrow> 'a xhci_scheme" where
  "clear_status usbsts_before s =
     (if usbsts_before AND (push_bit 3 1 OR push_bit 4 1) \<noteq> 0
      then mwrite32 (usbsts s) (push_bit 3 1 OR push_bit 4 1) s else s)"

definition enable_slot :: "nat \<Rightarrow> 'a xhci_scheme \<Rightarrow> bool \<times> 'a xhci_scheme" where
  "enable_slot i s =
     (let (v, s1) = mread (portsc i s) s; port_speed = drop_bit 10 v AND 0xF;
          (usbsts_before, s2) = mread (usbsts s1) s1;
          s3 = update_erdp (flush_events 16 (clear_status usbsts_before (mskip 1 s2)))
      in if usbsts_before AND push_bit 0 1 \<noteq> 0 then (False, s3)
         else
           let ((r, ev), s4) = xhci_send_command \<lparr>parameter = 0, status = 0, control = push_bit 10 TRB_TYPE_ENABLE_SLOT\<rparr> s3;
               slot_id = (case ev of Some (_, sl) \<Rightarrow> sl | None \<Rightarrow> 0)
           in (True, if r = 0 then xhci_address_device slot_id (of_nat (i + 1)) port_speed s4 else s4))"

definition clear_changes :: "nat \<Rightarrow> 'a xhci_scheme \<Rightarrow> 'a xhci_scheme" where
  "clear_changes i s =
     (let clear_mask = push_bit 17 1 OR push_bit 18 1 OR push_bit 19 1 OR push_bit 20 1 OR push_bit 21 1 OR
            push_bit 22 1 OR push_bit 23 1
      in mchange (\<lambda>w. w OR clear_mask) (portsc i s) s)"

text \<open>Power, if the port has none, and the reset of the port.\<close>

definition reset_port :: "u32 \<Rightarrow> nat \<Rightarrow> 'a xhci_scheme \<Rightarrow> bool \<times> 'a xhci_scheme" where
  "reset_port portsc_val i s =
     (let s1 = (if portsc_val AND push_bit 9 1 = 0
            then mskip 1 (mwrite32 (portsc i s) (portsc_val OR push_bit 9 1) s) else s)
      in port_reset_wait i 1000000 (mchange (\<lambda>w. w OR push_bit 4 1) (portsc i s1) s1))"

definition scan_port :: "nat \<Rightarrow> 'a xhci_scheme \<Rightarrow> 'a xhci_scheme" where
  "scan_port i s =
     (let (portsc_val, s1) = mread (portsc i s) s
      in if portsc_val AND push_bit 0 1 = 0 then clear_changes i s1
         else
           let (ok, s2) = reset_port portsc_val i s1
           in if \<not> ok then s2
              else
                let s3 = mskip 1 s2;
                    (running, s4) = enable_slot i (mchange (\<lambda>w. w OR push_bit 21 1) (portsc i s3) s3)
                in if running then clear_changes i s4 else s4)"

definition scan_ports :: "'a xhci_scheme \<Rightarrow> 'a xhci_scheme" where
  "scan_ports s =
     (let (hcsparams1, s1) = mread (xhci_cap_regs s + 0x04) s; max_ports = unat (drop_bit 24 hcsparams1 AND 0xFF)
      in fold scan_port [0 ..< max_ports] (fold power_port [0 ..< max_ports] s1))"

text \<open>All of it; \<open>None\<close> if the list of capabilities has no end.\<close>

definition bring_up :: "u64 \<Rightarrow> 'a xhci_scheme \<Rightarrow> 'a xhci_scheme option" where
  "bring_up virt_base s =
     (case xhci_perform_bios_handoff virt_base (find_registers virt_base s) of None \<Rightarrow> None
      | Some s1 \<Rightarrow>
          let (ready, s2) = reset_controller s1
          in if \<not> ready then Some s2
             else let (running, s3) = start_controller (setup_rings (setup_slots s2))
                  in Some (if running then scan_ports s3 else s3))"

definition xhci_init :: "'a xhci_scheme \<Rightarrow> 'a xhci_scheme option" where
  "xhci_init s =
     (let device_index = vray_find_first_by_class_prog_if 0x0C 0x03 0x30 (pci_bus s)
      in if device_index = -1 then Some s
         else
           let (base_addr, p) = bar_address (vray_devices (pci_bus s) (nat device_index)) (pci_bus s); s1 = s\<lparr>pci_bus := p\<rparr>
           in (case base_addr of None \<Rightarrow> Some s1
               | Some base \<Rightarrow>
                   let (virt_base, m, pt) = mmio_remap (cr3 s1) base (64 * 1024) (frames s1, tables s1);
                       s2 = s1\<lparr>frames := m, tables := pt\<rparr>
                   in if virt_base = 0 then Some s2 else bring_up virt_base s2))"

definition usb_init :: "'a xhci_scheme \<Rightarrow> 'a xhci_scheme option" where
  "usb_init s = xhci_init s"

end
