(* ===== verification/Xhci_Rings.thy ===== *)
theory Xhci_Rings
  imports Xhci
begin

text \<open>
  The three rings of the USB driver: commands are written in order until the ring is taken for full,
  events are consumed in the order in which the controller produces them, and the controller
  finds in the keyboard's ring exactly the transfers that were queued.
\<close>

lemmas event_defs = read_event_def advance_event_def update_erdp_def mwrite64_def Let_def

subsection \<open>Cycle bits\<close>

definition marked :: "xhci_trb \<Rightarrow> bool" where
  "marked e \<longleftrightarrow> control e AND 1 \<noteq> 0"

lemma with_cycle_bit: "bit (with_cycle c w) k = (if k = 0 then c else bit w k)"
  using bit_imp_le_length [of w k] by (auto simp: with_cycle_def bit_simps bit_1_iff)

lemma with_cycle_marked [simp]: "with_cycle c w AND 1 \<noteq> 0 \<longleftrightarrow> c"
proof -
  have "with_cycle c w AND 1 = (if c then 1 else 0)"
    by (rule bit_word_eqI) (auto simp: bit_simps bit_1_iff with_cycle_bit)
  then show ?thesis by simp
qed

lemma with_cycle_fields [simp]:
  "trb_type (e\<lparr>control := with_cycle c (control e)\<rparr>) = trb_type e"
  "trb_slot (e\<lparr>control := with_cycle c (control e)\<rparr>) = trb_slot e"
  "completion_code (e\<lparr>control := w\<rparr>) = completion_code e"
proof -
  have "drop_bit 10 (with_cycle c (control e)) = drop_bit 10 (control e)"
    "drop_bit 24 (with_cycle c (control e)) = drop_bit 24 (control e)"
    by (rule bit_word_eqI, simp add: bit_simps with_cycle_bit)+
  then show "trb_type (e\<lparr>control := with_cycle c (control e)\<rparr>) = trb_type e"
    "trb_slot (e\<lparr>control := with_cycle c (control e)\<rparr>) = trb_slot e"
    by (simp_all add: trb_type_def trb_slot_def)
qed (simp add: completion_code_def)

subsection \<open>The event ring\<close>

text \<open>What the controller writes for event \<open>j\<close>, and the driver's position after \<open>c\<close> events.\<close>

definition event_entry :: "(nat \<Rightarrow> xhci_trb) \<Rightarrow> nat \<Rightarrow> xhci_trb" where
  "event_entry ev j = (ev j)\<lparr>control := with_cycle (round_bit XHCI_EVENT_RING_SIZE j) (control (ev j))\<rparr>"

definition consumed :: "nat \<Rightarrow> 'a xhci_scheme \<Rightarrow> bool" where
  "consumed c s \<longleftrightarrow> event_ring_dequeue_ptr s = c mod XHCI_EVENT_RING_SIZE \<and>
     event_ring_cycle_state s = round_bit XHCI_EVENT_RING_SIZE c"

interpretation event_ring: cycle_ring XHCI_EVENT_RING_SIZE "event_entry ev" zero_trb marked for ev
  by unfold_locales (simp_all add: XHCI_EVENT_RING_SIZE_def event_entry_def marked_def zero_trb_def)

text \<open>The controller has produced \<open>k n\<close> events when the driver makes read number \<open>n\<close> of memory.\<close>

definition event_producer :: "(nat \<Rightarrow> xhci_trb) \<Rightarrow> (nat \<Rightarrow> nat) \<Rightarrow> 'a xhci_scheme \<Rightarrow> bool" where
  "event_producer ev k s \<longleftrightarrow> mono k \<and>
     (\<forall>n i. event_in s n i = slot_content XHCI_EVENT_RING_SIZE (event_entry ev) zero_trb (k n) i)"

lemma consumed_advance: "consumed c s \<Longrightarrow> consumed (Suc c) (advance_event s)"
  using round_bit_Suc [of XHCI_EVENT_RING_SIZE c]
  by (auto simp: consumed_def advance_event_def Let_def XHCI_EVENT_RING_SIZE_def)

lemma consumed_frame [simp]:
  "consumed c (update_erdp s) = consumed c s" "consumed c (snd (read_event s)) = consumed c s"
  by (simp_all add: consumed_def event_defs)

lemma producer_frame [simp]:
  "event_producer ev k (update_erdp s) = event_producer ev k s"
  "event_producer ev k (snd (read_event s)) = event_producer ev k s"
  "event_producer ev k (advance_event s) = event_producer ev k s"
  by (simp_all add: event_producer_def event_defs)

lemma n_dma_frame [simp]:
  "n_dma (update_erdp s) = n_dma s" "n_dma (snd (read_event s)) = Suc (n_dma s)"
  "n_dma (advance_event s) = n_dma s"
  by (simp_all add: event_defs)

lemma read_event_pending:
  assumes "event_producer ev k s" and "consumed c s" and "c \<le> k (n_dma s)" and "k (n_dma s) \<le> c + XHCI_EVENT_RING_SIZE"
  shows "fresh_event (fst (read_event s)) (snd (read_event s)) \<longleftrightarrow> c < k (n_dma s)"
    and "c < k (n_dma s) \<Longrightarrow> fst (read_event s) = event_entry ev c"
proof -
  have e: "fst (read_event s) = slot_content XHCI_EVENT_RING_SIZE (event_entry ev) zero_trb (k (n_dma s)) (c mod XHCI_EVENT_RING_SIZE)"
    using assms(1,2) by (simp add: event_producer_def consumed_def read_event_def)
  show "fresh_event (fst (read_event s)) (snd (read_event s)) \<longleftrightarrow> c < k (n_dma s)"
    using event_ring.new_iff [of c "k (n_dma s)" ev] assms(2-4) unfolding e
    by (simp add: fresh_event_def marked_def consumed_def read_event_def)
  show "fst (read_event s) = event_entry ev c" if "c < k (n_dma s)"
    using event_ring.next_entry [OF that assms(4)] by (simp add: e)
qed

lemma command_wait_Suc:
  "command_wait (Suc t) s =
     (if \<not> fresh_event (fst (read_event s)) (snd (read_event s)) then command_wait t (snd (read_event s))
      else if trb_type (fst (read_event s)) = TRB_TYPE_COMMAND_COMPLETION_EVENT
      then ((if completion_code (fst (read_event s)) = 1 then 0 else -2,
             Some (completion_code (fst (read_event s)), trb_slot (fst (read_event s)))),
            update_erdp (advance_event (snd (read_event s))))
      else command_wait t (update_erdp (advance_event (snd (read_event s)))))"
  by (subst command_wait.simps) (simp add: Let_def split_def)

text \<open>The wait takes events until it finds the completion, here event \<open>j\<close>.\<close>

lemma command_wait_finds:
  assumes "event_producer ev k s" and "consumed c s" and "\<And>n. k n \<le> c + XHCI_EVENT_RING_SIZE"
    and "c \<le> k (n_dma s)" and "c \<le> j" and "j < k (n_dma s + t)" and "t + (j - c) < timeout"
    and "trb_type (ev j) = TRB_TYPE_COMMAND_COMPLETION_EVENT"
    and "\<And>i. c \<le> i \<Longrightarrow> i < j \<Longrightarrow> trb_type (ev i) \<noteq> TRB_TYPE_COMMAND_COMPLETION_EVENT"
  shows "\<exists>s'. command_wait timeout s =
      ((if completion_code (ev j) = 1 then 0 else -2, Some (completion_code (ev j), trb_slot (ev j))), s') \<and>
    consumed (Suc j) s'"
  using assms
proof (induction timeout arbitrary: c t s)
  case (Suc timeout)
  let ?e = "fst (read_event s)"
  note fresh = read_event_pending [OF Suc.prems(1,2,4,3)]
  have mono: "k (n_dma s) \<le> k (Suc (n_dma s))" using Suc.prems(1) by (simp add: event_producer_def mono_def)
  let ?s = "update_erdp (advance_event (snd (read_event s)))"
  have next_c: "event_producer ev k ?s" "consumed (Suc c) ?s" "n_dma ?s = Suc (n_dma s)"
    using Suc.prems(1,2) by (simp_all add: consumed_advance)
  show ?case
  proof (cases "c < k (n_dma s)")
    case True
    then have fields: "trb_type ?e = trb_type (ev c)" "trb_slot ?e = trb_slot (ev c)"
        "completion_code ?e = completion_code (ev c)"
      using fresh(2) by (simp_all add: event_entry_def)
    show ?thesis
    proof (cases "c = j")
      case True
      then show ?thesis using fresh(1) \<open>c < k (n_dma s)\<close> fields next_c(2) Suc.prems(8) by (simp add: command_wait_Suc)
    next
      case False
      then have "c < j" using Suc.prems(5) by simp
      moreover have "k n \<le> Suc c + XHCI_EVENT_RING_SIZE" for n using Suc.prems(3) [of n] by simp
      moreover have "Suc c \<le> k (n_dma ?s)" using True mono next_c(3) by simp
      moreover have "j < k (n_dma ?s + (t - 1))"
        using Suc.prems(1,6) next_c(3) by (cases t) (auto simp: event_producer_def mono_def intro: less_le_trans)
      moreover have "t - 1 + (j - Suc c) < timeout" using Suc.prems(7) \<open>c < j\<close> by (cases t) auto
      ultimately have "\<exists>s'. command_wait timeout ?s =
          ((if completion_code (ev j) = 1 then 0 else -2, Some (completion_code (ev j), trb_slot (ev j))), s') \<and>
        consumed (Suc j) s'"
        using Suc.prems(8,9) by (intro Suc.IH [OF next_c(1,2), of "t - 1"]) auto
      moreover have "trb_type (ev c) \<noteq> TRB_TYPE_COMMAND_COMPLETION_EVENT" using Suc.prems(9) [of c] \<open>c < j\<close> by simp
      then have "command_wait (Suc timeout) s = command_wait timeout ?s"
        using fresh(1) True fields by (simp add: command_wait_Suc)
      ultimately show ?thesis by simp
    qed
  next
    case False
    then obtain t' where t: "t = Suc t'" using Suc.prems(4-6) by (cases t) auto
    have "command_wait (Suc timeout) s = command_wait timeout (snd (read_event s))"
      using fresh(1) False by (simp add: command_wait_Suc)
    moreover have "\<exists>s'. command_wait timeout (snd (read_event s)) =
          ((if completion_code (ev j) = 1 then 0 else -2, Some (completion_code (ev j), trb_slot (ev j))), s') \<and>
        consumed (Suc j) s'"
      using Suc.prems mono False t by (intro Suc.IH [of _ c t']) auto
    ultimately show ?thesis by simp
  qed
qed simp

subsection \<open>The command ring\<close>

lemma command_wait_frame [frame]:
  "xhci_cmd_ring (snd (command_wait t s)) = xhci_cmd_ring s"
  "cmd_ring_enqueue_ptr (snd (command_wait t s)) = cmd_ring_enqueue_ptr s"
  "cmd_ring_cycle_state (snd (command_wait t s)) = cmd_ring_cycle_state s"
  by (induction t arbitrary: s) (simp_all add: command_wait.simps [of 0] command_wait_Suc event_defs)

definition commands_sent :: "xhci_trb list \<Rightarrow> 'a xhci_scheme \<Rightarrow> 'a xhci_scheme" where
  "commands_sent cs s = fold (\<lambda>c t. snd (xhci_send_command c t)) cs s"

text \<open>After \<open>n\<close> commands the driver stands at entry \<open>n\<close>, in the first round, up to the last entry.\<close>

lemma send_command_ring:
  assumes "cmd_ring_enqueue_ptr s < 31" and "cmd_ring_cycle_state s"
  shows "xhci_cmd_ring (snd (xhci_send_command c s)) =
      (xhci_cmd_ring s)(cmd_ring_enqueue_ptr s := c\<lparr>control := control c OR 1\<rparr>)"
    and "cmd_ring_enqueue_ptr (snd (xhci_send_command c s)) = Suc (cmd_ring_enqueue_ptr s)"
    and "cmd_ring_cycle_state (snd (xhci_send_command c s))"
  using assms
  by (simp_all add: xhci_send_command_def frame put_command_def ring_doorbell_def mwrite32_def Let_def
      XHCI_CMD_RING_SIZE_def with_cycle_def)

lemma send_command_full:
  "cmd_ring_enqueue_ptr s = 31 \<Longrightarrow> xhci_send_command c s = ((-1, None), s)"
  by (simp add: xhci_send_command_def XHCI_CMD_RING_SIZE_def)

lemma commands_sent_ring:
  assumes "cmd_ring_enqueue_ptr s = 0" and "cmd_ring_cycle_state s"
  shows "cmd_ring_enqueue_ptr (commands_sent cs s) = min 31 (length cs)"
    and "cmd_ring_cycle_state (commands_sent cs s)"
    and "i < min 31 (length cs) \<Longrightarrow> xhci_cmd_ring (commands_sent cs s) i = (cs ! i)\<lparr>control := control (cs ! i) OR 1\<rparr>"
proof (induction cs arbitrary: i rule: rev_induct)
  case Nil
  { case 1 then show ?case using assms by (simp add: commands_sent_def) }
  { case 2 then show ?case using assms by (simp add: commands_sent_def) }
  { case 3 then show ?case by simp }
next
  case (snoc c cs)
  let ?t = "commands_sent cs s"
  have step: "commands_sent (cs @ [c]) s = snd (xhci_send_command c ?t)" by (simp add: commands_sent_def)
  note t = snoc.IH(1,2)
  show "cmd_ring_enqueue_ptr (commands_sent (cs @ [c]) s) = min 31 (length (cs @ [c]))"
    "cmd_ring_cycle_state (commands_sent (cs @ [c]) s)"
    using send_command_ring [of ?t c] send_command_full [of ?t c] t
    by (cases "length cs < 31"; simp add: step)+
  fix i assume i: "i < min 31 (length (cs @ [c]))"
  show "xhci_cmd_ring (commands_sent (cs @ [c]) s) i = ((cs @ [c]) ! i)\<lparr>control := control ((cs @ [c]) ! i) OR 1\<rparr>"
    using send_command_ring(1) [of ?t c] send_command_full [of ?t c] t i snoc.IH(3) [of i]
    by (cases "length cs < 31") (auto simp: step nth_append)
qed

subsection \<open>The keyboard's ring\<close>

text \<open>Transfer number \<open>j\<close> since the ring was set up, with buffer \<open>p\<close>, and the controller's part.\<close>

definition kbd_entry :: "u64 \<Rightarrow> nat \<Rightarrow> xhci_trb" where
  "kbd_entry p j = \<lparr>parameter = p, status = 8,
     control = (push_bit 10 TRB_TYPE_NORMAL OR push_bit 5 1) OR (if round_bit 31 j then 1 else 0)\<rparr>"

text \<open>
  The controller takes transfers from position \<open>i\<close> with its bit \<open>b\<close>: it stops at an entry with the
  other bit, and a link leads it back to the start with the bit flipped. The result is what it
  takes; \<open>n\<close> bounds the entries it looks at.
\<close>

fun transfers_taken :: "nat \<Rightarrow> (nat \<Rightarrow> xhci_trb) \<Rightarrow> nat \<Rightarrow> bool \<Rightarrow> xhci_trb list" where
  "transfers_taken 0 ring i b = []"
| "transfers_taken (Suc n) ring i b =
     (if marked (ring i) \<noteq> b then []
      else if trb_type (ring i) = TRB_TYPE_LINK then transfers_taken n ring 0 (\<not> b)
      else ring i # transfers_taken n ring (Suc i) b)"

interpretation kbd_ring: cycle_ring 31 "kbd_entry p" zero_trb marked for p
proof
  show "marked (kbd_entry p j) = round_bit 31 j" for j
    by (simp add: marked_def kbd_entry_def TRB_TYPE_NORMAL_def)
qed (simp_all add: marked_def zero_trb_def)

text \<open>After \<open>n\<close> transfers: the slots, the link, and where the driver stands.\<close>

definition kbd_ring_at :: "u64 \<Rightarrow> nat \<Rightarrow> 'a xhci_scheme \<Rightarrow> bool" where
  "kbd_ring_at p n s \<longleftrightarrow>
     usb_kbd_ep1_enqueue s = n mod 31 \<and> usb_kbd_ep1_cycle s = round_bit 31 n \<and>
     (\<forall>i < 31. usb_kbd_ep1_ring s i = slot_content 31 (kbd_entry p) zero_trb n i) \<and>
     (31 \<le> n \<longrightarrow> trb_type (usb_kbd_ep1_ring s 31) = TRB_TYPE_LINK \<and>
        marked (usb_kbd_ep1_ring s 31) = (\<not> round_bit 31 n)) \<and>
     (n < 31 \<longrightarrow> usb_kbd_ep1_ring s 31 = zero_trb)"

lemma kbd_link:
  "trb_type \<lparr>parameter = q, status = w, control = kbd_cycle s (push_bit 10 TRB_TYPE_LINK OR push_bit 1 1)\<rparr> = TRB_TYPE_LINK"
  "marked \<lparr>parameter = q, status = w, control = kbd_cycle s (push_bit 10 TRB_TYPE_LINK OR push_bit 1 1)\<rparr> = usb_kbd_ep1_cycle s"
  by (simp_all add: kbd_cycle_def trb_type_def marked_def TRB_TYPE_LINK_def)

lemma kbd_normal: "trb_type (kbd_entry p j) \<noteq> TRB_TYPE_LINK"
  by (simp add: kbd_entry_def trb_type_def TRB_TYPE_NORMAL_def TRB_TYPE_LINK_def)

lemma wrap_ring_full:
  assumes "usb_kbd_ep1_enqueue t = 31"
  shows "usb_kbd_ep1_enqueue (wrap_ring t) = 0" "usb_kbd_ep1_cycle (wrap_ring t) = (\<not> usb_kbd_ep1_cycle t)"
    "i < 31 \<Longrightarrow> usb_kbd_ep1_ring (wrap_ring t) i = usb_kbd_ep1_ring t i"
    "trb_type (usb_kbd_ep1_ring (wrap_ring t) 31) = TRB_TYPE_LINK"
    "marked (usb_kbd_ep1_ring (wrap_ring t) 31) = usb_kbd_ep1_cycle t"
  using assms kbd_link [of _ _ t] by (simp_all add: wrap_ring_def XHCI_EP_RING_SIZE_def Let_def)

lemma wrap_ring_more: "usb_kbd_ep1_enqueue t < 31 \<Longrightarrow> wrap_ring t = t"
  by (simp add: wrap_ring_def XHCI_EP_RING_SIZE_def Let_def)

lemma kbd_ring_doorbell [simp]: "kbd_ring_at p k (ring_doorbell i v u) = kbd_ring_at p k u"
  by (simp add: kbd_ring_at_def ring_doorbell_def mwrite32_def)

lemma queue_transfer_at:
  assumes at: "kbd_ring_at (bus_addr s Kbd_Report_Data 0) n s" and on: "usb_kbd_ep1_configured s" "usb_kbd_slot s \<noteq> 0"
  shows "kbd_ring_at (bus_addr s Kbd_Report_Data 0) (Suc n) (xhci_queue_kbd_transfer s)"
proof -
  let ?p = "bus_addr s Kbd_Report_Data 0" and ?t = "put_transfer s"
  have entry: "\<lparr>parameter = ?p, status = 8, control = kbd_cycle s (push_bit 10 TRB_TYPE_NORMAL OR push_bit 5 1)\<rparr> = kbd_entry ?p n"
    using at by (simp add: kbd_ring_at_def kbd_cycle_def kbd_entry_def)
  have t: "usb_kbd_ep1_ring ?t = (usb_kbd_ep1_ring s)(n mod 31 := kbd_entry ?p n)"
    "usb_kbd_ep1_enqueue ?t = Suc (n mod 31)" "usb_kbd_ep1_cycle ?t = round_bit 31 n"
    using at unfolding put_transfer_def Let_def entry by (simp_all add: kbd_ring_at_def)
  have slots: "usb_kbd_ep1_ring ?t i = slot_content 31 (kbd_entry ?p) zero_trb (Suc n) i" if "i < 31" for i
    using at that slot_Suc [of 31 i "kbd_entry ?p" zero_trb n] by (simp add: t(1) kbd_ring_at_def)
  have q: "kbd_ring_at ?p k (xhci_queue_kbd_transfer s) = kbd_ring_at ?p k (wrap_ring ?t)" for k
    using on by (simp add: xhci_queue_kbd_transfer_def Let_def)
  show ?thesis
  proof (cases "Suc n mod 31 = 0")
    case True
    then have m: "Suc (n mod 31) = 31" by (simp add: mod_Suc split: if_splits)
    then have "31 \<le> Suc n" using mod_less_eq_dividend [of n 31] by linarith
    with m wrap_ring_full [of ?t] t True slots round_bit_Suc(2) [of 31 n] show ?thesis
      unfolding q unfolding kbd_ring_at_def by simp
  next
    case False
    then have m: "Suc (n mod 31) = Suc n mod 31" "Suc (n mod 31) < 31"
      using mod_less_divisor [of 31 n] by (auto simp: mod_Suc split: if_splits)
    have "n \<noteq> 30" using False by auto
    then have le: "31 \<le> Suc n \<longleftrightarrow> 31 \<le> n" "Suc n < 31 \<longleftrightarrow> n < 31" by auto
    have "usb_kbd_ep1_ring ?t 31 = usb_kbd_ep1_ring s 31" by (simp add: t(1))
    with wrap_ring_more [of ?t] m le False t(2,3) slots round_bit_Suc(2) [of 31 n] at show ?thesis
      unfolding q unfolding kbd_ring_at_def by simp
  qed
qed

text \<open>
  From the place of transfer \<open>m\<close> the controller takes all the transfers that are queued and no other;
  \<open>n - m\<close> of them can be queued at once, up to the size of the ring.
\<close>

lemma taken_from:
  assumes "kbd_ring_at p n s" and "m \<le> n" "n \<le> m + 31" "2 * (n - m) < fuel"
  shows "transfers_taken fuel (usb_kbd_ep1_ring s) (m mod 31) (round_bit 31 m) = map (kbd_entry p) [m ..< n]"
  using assms
proof (induction fuel arbitrary: m rule: less_induct)
  case (less fuel)
  let ?r = "usb_kbd_ep1_ring s"
  have slot: "?r (m mod 31) = slot_content 31 (kbd_entry p) zero_trb n (m mod 31)"
    using less.prems(1) by (simp add: kbd_ring_at_def)
  have new: "marked (?r (m mod 31)) = round_bit 31 m \<longleftrightarrow> m < n"
    using kbd_ring.new_iff [OF less.prems(2,3)] slot by simp
  obtain f where f: "fuel = Suc f" using less.prems(4) by (cases fuel) auto
  show ?case
  proof (cases "m < n")
    case False
    then show ?thesis using new by (auto simp: f)
  next
    case True
    then have e: "?r (m mod 31) = kbd_entry p m" using kbd_ring.next_entry [OF True less.prems(3)] slot by simp
    have step: "transfers_taken fuel ?r (m mod 31) (round_bit 31 m) =
        kbd_entry p m # transfers_taken f ?r (Suc (m mod 31)) (round_bit 31 m)"
      using new True e kbd_normal by (simp add: f)
    obtain g where g: "f = Suc g" using less.prems(4) True by (cases f) (auto simp: f)
    have rest: "transfers_taken h ?r (Suc m mod 31) (round_bit 31 (Suc m)) = map (kbd_entry p) [Suc m ..< n]"
      if "h < fuel" "2 * (n - Suc m) < h" for h
      using that less.prems True by (intro less.IH) auto
    have "transfers_taken f ?r (Suc (m mod 31)) (round_bit 31 m) = map (kbd_entry p) [Suc m ..< n]"
    proof (cases "Suc m mod 31 = 0")
      case wrap: True
      then have i: "Suc (m mod 31) = 31" by (simp add: mod_Suc split: if_splits)
      then have "31 \<le> n" using True mod_less_eq_dividend [of m 31] by linarith
      obtain q where q: "q = m div 31" "m = 31 * q + 30" using i mult_div_mod_eq [of 31 m] by fastforce
      have d: "n div 31 = m div 31 + 1"
        unfolding q(1) [symmetric] using q(2) True less.prems(3) by (intro div_between) auto
      with \<open>31 \<le> n\<close> have "marked (?r 31) = round_bit 31 m" "trb_type (?r 31) = TRB_TYPE_LINK"
        using less.prems(1) by (simp_all add: kbd_ring_at_def round_bit_def)
      then have "transfers_taken f ?r 31 (round_bit 31 m) = transfers_taken g ?r 0 (\<not> round_bit 31 m)" by (simp add: g)
      then show ?thesis using rest [of g] wrap i round_bit_Suc(2) [of 31 m] less.prems(4) True by (simp add: f g)
    next
      case False
      then have "Suc (m mod 31) = Suc m mod 31" by (simp add: mod_Suc split: if_splits)
      then show ?thesis using rest [of f] False round_bit_Suc(2) [of 31 m] less.prems(4) True by (simp add: f)
    qed
    then show ?thesis using step True by (simp add: upt_conv_Cons)
  qed
qed

subsection \<open>What the keyboard's ring depends on\<close>

definition kbd_part :: "'a xhci_scheme \<Rightarrow> u64 \<times> (nat \<Rightarrow> xhci_trb) \<times> nat \<times> bool \<times> bool \<times> u32" where
  "kbd_part s = (bus_addr s Kbd_Report_Data 0, usb_kbd_ep1_ring s, usb_kbd_ep1_enqueue s, usb_kbd_ep1_cycle s,
     usb_kbd_ep1_configured s, usb_kbd_slot s)"

definition kbd_ready :: "nat \<Rightarrow> 'a xhci_scheme \<Rightarrow> bool" where
  "kbd_ready n s \<longleftrightarrow> kbd_ring_at (bus_addr s Kbd_Report_Data 0) n s \<and> usb_kbd_ep1_configured s \<and> usb_kbd_slot s \<noteq> 0"

lemma kbd_ready_cong: "kbd_part s = kbd_part t \<Longrightarrow> kbd_ready n s = kbd_ready n t"
  by (simp add: kbd_part_def kbd_ready_def kbd_ring_at_def)

lemma hid_fold_kbd [simp]: "kbd_part (fold (hid_key b) ks s) = kbd_part s"
proof (induction ks arbitrary: s)
  case (Cons k ks)
  have "kbd_part (hid_key b k s) = kbd_part s"
    by (simp add: hid_key_def input_add_char_def kbd_part_def bus_addr_def Let_def)
  then show ?case using Cons by simp
qed simp

lemma kbd_part_frame [simp]:
  "kbd_part (snd (read_event s)) = kbd_part s" "kbd_part (update_erdp s) = kbd_part s"
  "kbd_part (advance_event s) = kbd_part s" "kbd_part (snd (read_report s)) = kbd_part s"
  by (simp_all add: event_defs read_report_def kbd_part_def bus_addr_def)

lemma report_kbd [simp]: "kbd_part (usb_kbd_process_report r s) = kbd_part s"
proof -
  have "kbd_part (t\<lparr>prev_keycodes := k\<rparr>) = kbd_part t" "kbd_part (t\<lparr>kbd_modifiers := w\<rparr>) = kbd_part t"
    for t :: "'a xhci_scheme" and k w by (simp_all add: kbd_part_def bus_addr_def)
  then show ?thesis by (simp add: usb_kbd_process_report_def Let_def)
qed

lemma queue_transfer_ready:
  assumes "kbd_ready n s"
  shows "kbd_ready (Suc n) (xhci_queue_kbd_transfer s)"
proof -
  have q: "bus_addr (xhci_queue_kbd_transfer s) = bus_addr s"
    "usb_kbd_ep1_configured (xhci_queue_kbd_transfer s) = usb_kbd_ep1_configured s"
    "usb_kbd_slot (xhci_queue_kbd_transfer s) = usb_kbd_slot s"
    by (auto simp: fun_eq_iff xhci_queue_kbd_transfer_def put_transfer_def wrap_ring_def ring_doorbell_def
        mwrite32_def bus_addr_def Let_def)
  then show ?thesis using assms queue_transfer_at [of s n] by (simp add: kbd_ready_def)
qed

text \<open>One event queues at most one transfer; a poll, at most four.\<close>

lemma transfer_done_ready:
  assumes "kbd_ready n s"
  shows "kbd_ready n (transfer_done e s) \<or> kbd_ready (Suc n) (transfer_done e s)"
proof -
  have "kbd_ready (Suc n) (xhci_queue_kbd_transfer (usb_kbd_process_report r (snd (read_report s))))" for r
    using assms kbd_ready_cong [of "usb_kbd_process_report r (snd (read_report s))" s] by (intro queue_transfer_ready) simp
  then show ?thesis using assms queue_transfer_ready [OF assms] by (auto simp: transfer_done_def Let_def split_def)
qed

lemma poll_events_ready:
  assumes "kbd_ready n s"
  shows "\<exists>n'. n \<le> n' \<and> n' \<le> n + f \<and> kbd_ready n' (poll_events f s)"
  using assms
proof (induction f arbitrary: n s)
  case (Suc f)
  obtain e t where r: "read_event s = (e, t)" by fastforce
  have t: "kbd_ready n t" using Suc.prems kbd_ready_cong [of t s] kbd_part_frame(1) [of s] by (simp add: r)
  show ?case
  proof (cases "fresh_event e t")
    case False
    then show ?thesis using t by (auto simp: r)
  next
    case True
    let ?u = "update_erdp (advance_event t)"
    have "kbd_ready n ?u" using t kbd_ready_cong [of ?u t] by simp
    then obtain n1 where n1: "n \<le> n1" "n1 \<le> Suc n" "kbd_ready n1 (transfer_done e ?u)"
      using transfer_done_ready [of n ?u e] by (metis le_SucI order_refl)
    then obtain n2 where "n1 \<le> n2" "n2 \<le> n1 + f" "kbd_ready n2 (poll_events f (transfer_done e ?u))"
      using Suc.IH by blast
    then show ?thesis using n1 True by (auto simp: r intro!: exI [of _ n2])
  qed
qed auto

lemma usb_kbd_poll_ready:
  "kbd_ready n s \<Longrightarrow> \<exists>n'. n \<le> n' \<and> n' \<le> n + 4 \<and> kbd_ready n' (usb_kbd_poll s)"
  using poll_events_ready [of n s 4] by (auto simp: usb_kbd_poll_def)

text \<open>Setting the endpoint up leaves an empty ring, and a first transfer if it worked.\<close>

lemma empty_ring:
  assumes "usb_kbd_ep1_ring s = (\<lambda>_. zero_trb)" and "usb_kbd_ep1_enqueue s = 0" and "usb_kbd_ep1_cycle s"
  shows "kbd_ring_at p 0 s"
  using assms by (simp add: kbd_ring_at_def round_bit_def)

lemma command_wait_kbd [frame]: "kbd_part (snd (command_wait t s)) = kbd_part s"
  by (induction t arbitrary: s) (simp_all add: command_wait.simps [of 0] command_wait_Suc)

lemma send_command_kbd [frame]: "kbd_part (snd (xhci_send_command c s)) = kbd_part s"
  by (simp add: xhci_send_command_def frame)
     (simp add: kbd_part_def put_command_def ring_doorbell_def mwrite32_def bus_addr_def Let_def)

lemma configure_ready:
  assumes "usb_kbd_slot s \<noteq> 0" and "\<not> usb_kbd_ep1_configured s"
    and "usb_kbd_ep1_configured (xhci_configure_kbd_endpoint slot_id port_speed s)"
  shows "kbd_ready 1 (xhci_configure_kbd_endpoint slot_id port_speed s)"
proof -
  define t where "t = put_input_context slot_id (kbd_context slot_id port_speed s) (reset_kbd_ring s)"
  define u where "u = xhci_send_command (context_command TRB_TYPE_CONFIGURE_ENDPOINT slot_id t) t"
  let ?v = "xhci_set_boot_protocol slot_id ((snd u)\<lparr>usb_kbd_ep1_configured := True\<rparr>)"
  have c: "xhci_configure_kbd_endpoint slot_id port_speed s =
      (if fst (fst u) = 0 then xhci_queue_kbd_transfer ?v else snd u)"
    by (simp add: xhci_configure_kbd_endpoint_def Let_def split_def flip: t_def u_def)
  have "kbd_part t = (bus_addr s Kbd_Report_Data 0, \<lambda>_. zero_trb, 0, True, False, usb_kbd_slot s)"
    using assms(2) by (simp add: t_def put_input_context_def reset_kbd_ring_def kbd_part_def bus_addr_def)
  then have part: "kbd_part (snd u) = (bus_addr s Kbd_Report_Data 0, \<lambda>_. zero_trb, 0, True, False, usb_kbd_slot s)"
    by (simp add: u_def frame)
  then have "fst (fst u) = 0" using assms(3) by (simp add: c kbd_part_def split: if_splits)
  moreover have "kbd_part ?v = (bus_addr s Kbd_Report_Data 0, \<lambda>_. zero_trb, 0, True, True, usb_kbd_slot s)"
    using part by (simp add: kbd_part_def xhci_set_boot_protocol_def ring_doorbell_def mwrite32_def bus_addr_def Let_def)
  then have "kbd_ready 0 ?v" using assms(1) empty_ring [of ?v] by (simp add: kbd_part_def kbd_ready_def)
  ultimately show ?thesis using queue_transfer_ready [of 0 ?v] by (simp add: c)
qed

subsection \<open>Indices stay in their rings\<close>

definition indices :: "'a xhci_scheme \<Rightarrow> nat \<times> nat \<times> nat" where
  "indices s = (cmd_ring_enqueue_ptr s, event_ring_dequeue_ptr s, usb_kbd_ep1_enqueue s)"

definition indices_ok :: "'a xhci_scheme \<Rightarrow> bool" where
  "indices_ok s \<longleftrightarrow> cmd_ring_enqueue_ptr s < XHCI_CMD_RING_SIZE \<and> event_ring_dequeue_ptr s < XHCI_EVENT_RING_SIZE \<and>
     usb_kbd_ep1_enqueue s < XHCI_EP_RING_SIZE - 1"

lemma indices_cong: "indices s = indices t \<Longrightarrow> indices_ok s \<Longrightarrow> indices_ok t"
  by (simp add: indices_def indices_ok_def)

lemma indices_same [simp]:
  "indices (snd (mread a s)) = indices s" "indices (mwrite32 a v s) = indices s" "indices (mwrite64 a w s) = indices s"
  "indices (mchange f a s) = indices s" "indices (mskip k s) = indices s" "indices (ring_doorbell i v s) = indices s"
  "indices (snd (read_event s)) = indices s" "indices (update_erdp s) = indices s" "indices (snd (read_report s)) = indices s"
  "indices (put_input_context sl c s) = indices s" "indices (xhci_set_boot_protocol sl s) = indices s"
  by (simp_all add: indices_def mread_def mwrite32_def mwrite64_def mchange_def mskip_def ring_doorbell_def read_event_def
      update_erdp_def read_report_def put_input_context_def xhci_set_boot_protocol_def Let_def)

lemma indices_advance: "indices_ok s \<Longrightarrow> indices_ok (advance_event s)"
  by (simp add: indices_ok_def advance_event_def Let_def XHCI_EVENT_RING_SIZE_def)

lemma indices_command_wait: "indices_ok s \<Longrightarrow> indices_ok (snd (command_wait t s))"
proof (induction t arbitrary: s)
  case (Suc t)
  have r: "indices_ok (snd (read_event s))" by (rule indices_cong [OF _ Suc.prems]) simp
  have "indices_ok (update_erdp (advance_event (snd (read_event s))))"
    by (rule indices_cong [OF _ indices_advance [OF r]]) simp
  with r Suc.IH show ?case by (simp add: command_wait_Suc)
qed (simp add: command_wait.simps [of 0])

lemma indices_send: "indices_ok s \<Longrightarrow> indices_ok (snd (xhci_send_command c s))"
proof -
  assume "indices_ok s"
  then have "indices_ok (put_command c s)" by (simp add: indices_ok_def put_command_def Let_def XHCI_CMD_RING_SIZE_def)
  then have "indices_ok (ring_doorbell 0 0 (put_command c s))" by (rule indices_cong [rotated]) simp
  with \<open>indices_ok s\<close> show ?thesis by (simp add: xhci_send_command_def indices_command_wait)
qed

lemma indices_queue:
  assumes "indices_ok s"
  shows "indices_ok (xhci_queue_kbd_transfer s)"
proof -
  have "indices_ok (wrap_ring (put_transfer s))"
    using assms by (auto simp: indices_ok_def wrap_ring_def put_transfer_def Let_def XHCI_EP_RING_SIZE_def)
  then have "indices_ok (ring_doorbell i v (wrap_ring (put_transfer s)))" for i v
    by (rule indices_cong [rotated]) simp
  with assms show ?thesis by (simp add: xhci_queue_kbd_transfer_def Let_def)
qed

lemma indices_report [simp]: "indices (usb_kbd_process_report r s) = indices s"
proof -
  have "indices (hid_key b k t) = indices t" for b k and t :: "'a xhci_scheme"
    by (simp add: hid_key_def input_add_char_def indices_def Let_def)
  then have "indices (fold (hid_key b) ks t) = indices t" for b ks and t :: "'a xhci_scheme"
    by (induction ks arbitrary: t) simp_all
  moreover have "indices (t\<lparr>prev_keycodes := k\<rparr>) = indices t" "indices (t\<lparr>kbd_modifiers := w\<rparr>) = indices t"
    for t :: "'a xhci_scheme" and k w by (simp_all add: indices_def)
  ultimately show ?thesis by (simp add: usb_kbd_process_report_def Let_def)
qed

lemma indices_transfer_done:
  assumes "indices_ok s"
  shows "indices_ok (transfer_done e s)"
proof -
  have "indices_ok (usb_kbd_process_report r (snd (read_report s)))" for r
    by (rule indices_cong [OF _ assms]) simp
  with assms show ?thesis by (simp add: transfer_done_def Let_def split_def indices_queue)
qed

lemma indices_poll: "indices_ok s \<Longrightarrow> indices_ok (poll_events n s)"
proof (induction n arbitrary: s)
  case (Suc n)
  have r: "indices_ok (snd (read_event s))" by (rule indices_cong [OF _ Suc.prems]) simp
  have "indices_ok (update_erdp (advance_event (snd (read_event s))))"
    by (rule indices_cong [OF _ indices_advance [OF r]]) simp
  with r Suc.IH show ?case by (simp add: Let_def split_def indices_transfer_done)
qed simp

lemma indices_flush: "indices_ok s \<Longrightarrow> indices_ok (flush_events n s)"
proof (induction n arbitrary: s)
  case (Suc n)
  have r: "indices_ok (snd (read_event s))" by (rule indices_cong [OF _ Suc.prems]) simp
  with Suc.IH show ?case by (simp add: Let_def split_def indices_advance)
qed simp

lemma indices_update [simp]:
  "indices (s\<lparr>usb_kbd_ep1_configured := b\<rparr>) = indices s"
  "indices (s\<lparr>usb_kbd_slot := a, usb_kbd_max_packet := mp, usb_kbd_port_speed := sp, usb_kbd_port_id := p, pci_bus := pb\<rparr>) = indices s"
  "indices (s\<lparr>xhci_dcbaap_array := d\<rparr>) = indices s"
  by (simp_all add: indices_def)

lemma indices_configure:
  assumes "indices_ok s"
  shows "indices_ok (xhci_configure_kbd_endpoint slot_id port_speed s)"
proof -
  have "indices_ok (reset_kbd_ring s)" using assms by (simp add: indices_ok_def reset_kbd_ring_def XHCI_EP_RING_SIZE_def)
  then have put: "indices_ok (put_input_context slot_id c (reset_kbd_ring s))" for c by (rule indices_cong [rotated]) simp
  have boot: "indices_ok (xhci_queue_kbd_transfer (xhci_set_boot_protocol slot_id (t\<lparr>usb_kbd_ep1_configured := True\<rparr>)))"
    if "indices_ok t" for t :: "'a xhci_scheme"
    by (rule indices_queue, rule indices_cong [OF _ that]) simp
  show ?thesis
    using boot [OF indices_send [OF put]] indices_send [OF put]
    by (simp add: xhci_configure_kbd_endpoint_def Let_def split_def)
qed

lemma indices_address:
  assumes "indices_ok s"
  shows "indices_ok (xhci_address_device slot_id port_id port_speed s)"
proof -
  have put: "indices_ok (put_input_context slot_id c (s\<lparr>xhci_dcbaap_array := d\<rparr>))" for c d
    by (rule indices_cong [OF _ assms]) simp
  have upd: "indices_ok (t\<lparr>usb_kbd_slot := a, usb_kbd_max_packet := mp, usb_kbd_port_speed := sp, usb_kbd_port_id := p, pci_bus := pb\<rparr>)"
    if "indices_ok t" for t :: "'a xhci_scheme" and a mp sp p pb
    by (rule indices_cong [OF _ that]) simp
  show ?thesis
    using indices_configure [OF upd [OF indices_send [OF put]]] indices_send [OF put]
    by (simp add: xhci_address_device_def Let_def split_def)
qed

text \<open>Bringing the controller up.\<close>

lemma indices_bios_wait [simp]: "indices (snd (bios_wait a t s)) = indices s"
proof (induction t arbitrary: s)
  case 0
  then show ?case by (subst bios_wait.simps) (simp add: Let_def split_def)
next
  case (Suc t)
  then show ?case by (subst bios_wait.simps) (simp add: Let_def split_def)
qed

lemma indices_take_ownership [simp]: "indices (take_ownership a s) = indices s"
  by (simp add: take_ownership_def Let_def split_def)

lemma indices_find_legacy: "find_legacy a s = Some t \<Longrightarrow> indices t = indices s"
  by (erule find_legacy.raw_induct [of "\<lambda>a s t. indices t = indices s", rotated])
     (auto simp: Let_def split_def split: if_splits)

lemma indices_handoff: "xhci_perform_bios_handoff a s = Some t \<Longrightarrow> indices t = indices s"
  by (auto simp: xhci_perform_bios_handoff_def Let_def split_def split: if_splits dest: indices_find_legacy)

lemma indices_find_registers [simp]: "indices (find_registers v s) = indices s"
proof -
  have "indices (t\<lparr>xhci_op_regs := a, xhci_doorbell_regs := b, xhci_runtime_regs := c\<rparr>) = indices t"
    "indices (t\<lparr>xhci_cap_regs := a\<rparr>) = indices t" for t :: "'a xhci_scheme" and a b c
    by (simp_all add: indices_def)
  then show ?thesis by (simp add: find_registers_def Let_def split_def)
qed

lemma indices_waits [simp]:
  "indices (snd (reset_wait t s)) = indices s" "indices (snd (run_wait t s)) = indices s"
  "indices (snd (port_reset_wait i t s)) = indices s"
proof -
  show "indices (snd (reset_wait t s)) = indices s"
    by (induction t arbitrary: s) (subst reset_wait.simps, simp add: Let_def split_def)+
  show "indices (snd (run_wait t s)) = indices s"
    by (induction t arbitrary: s) (subst run_wait.simps, simp add: Let_def split_def)+
  show "indices (snd (port_reset_wait i t s)) = indices s"
    by (induction t arbitrary: s) (subst port_reset_wait.simps, simp add: Let_def split_def)+
qed

lemma indices_scratch [simp]: "indices (scratch_pages i n s) = indices s"
proof (induction n arbitrary: i s)
  case (Suc n)
  have "indices (t\<lparr>frames := m\<rparr>) = indices t" "indices (t\<lparr>frames := m, scratchpad_array := a\<rparr>) = indices t"
    for t :: "'a xhci_scheme" and m a by (simp_all add: indices_def)
  with Suc show ?case by (simp add: Let_def split_def)
qed simp

lemma indices_slots [simp]: "indices (setup_slots s) = indices s"
proof -
  have u: "indices (t\<lparr>xhci_dcbaap_array := d\<rparr>) = indices t" "indices (t\<lparr>frames := m\<rparr>) = indices t"
    "indices (t\<lparr>frames := m, scratchpad_array := a\<rparr>) = indices t"
    "indices (t\<lparr>frames := m, xhci_dcbaap_array := d\<rparr>) = indices t"
    "indices (t\<lparr>xhci_dcbaap_array := d, xhci_input_context_pool := c, xhci_ep_transfer_rings := r\<rparr>) = indices t"
    for t :: "'a xhci_scheme" and d m a c r by (simp_all add: indices_def)
  have "indices (setup_scratchpad k t) = indices t" for k and t :: "'a xhci_scheme"
    by (simp add: setup_scratchpad_def Let_def split_def u)
  then show ?thesis by (simp add: setup_slots_def Let_def split_def u)
qed

lemma indices_setup_rings: "indices_ok s \<Longrightarrow> indices_ok (setup_rings s)"
  by (simp add: indices_ok_def setup_rings_def Let_def mskip_def mwrite32_def mwrite64_def
      XHCI_CMD_RING_SIZE_def XHCI_EVENT_RING_SIZE_def)

lemma indices_start [simp]:
  "indices (snd (start_controller s)) = indices s" "indices (snd (reset_controller s)) = indices s"
  "indices (power_port i s) = indices s"
  by (simp_all add: start_controller_def reset_controller_def power_port_def Let_def split_def)

lemma indices_enable_slot:
  assumes "indices_ok s"
  shows "indices_ok (snd (enable_slot i s))"
proof -
  have flush: "indices_ok (update_erdp (flush_events 16 t))" if "indices t = indices s" for t :: "'a xhci_scheme"
    by (rule indices_cong [OF _ indices_flush [OF indices_cong [OF that [symmetric] assms]]]) simp
  have clear: "indices (clear_status w t) = indices t" for w and t :: "'a xhci_scheme" by (simp add: clear_status_def)
  show ?thesis
    by (simp add: enable_slot_def Let_def split_def flush clear indices_send indices_address)
qed

lemma indices_port [simp]:
  "indices (clear_changes i s) = indices s" "indices (snd (reset_port v i s)) = indices s"
  by (simp_all add: clear_changes_def reset_port_def Let_def)

lemma indices_scan_port:
  assumes "indices_ok s"
  shows "indices_ok (scan_port i s)"
proof -
  have same: "indices_ok t" if "indices t = indices s" for t :: "'a xhci_scheme"
    using indices_cong [OF that [symmetric] assms] .
  have "indices_ok (snd (enable_slot i t))" if "indices t = indices s" for t :: "'a xhci_scheme"
    by (rule indices_enable_slot [OF same [OF that]])
  moreover have "indices_ok (clear_changes i t)" if "indices_ok t" for t :: "'a xhci_scheme"
    by (rule indices_cong [OF _ that]) simp
  ultimately show ?thesis using same
    by (simp add: scan_port_def Let_def split_def)
qed

lemma indices_scan_ports:
  assumes "indices_ok s"
  shows "indices_ok (scan_ports s)"
proof -
  have scan: "indices_ok (fold scan_port is t)" if "indices_ok t" for "is" and t :: "'a xhci_scheme"
    using that by (induction "is" arbitrary: t) (simp_all add: indices_scan_port)
  have "indices (fold power_port is t) = indices t" for "is" and t :: "'a xhci_scheme"
    by (induction "is" arbitrary: t) simp_all
  then have "indices_ok (fold power_port is (snd (mread a s)))" for "is" a
    by (intro indices_cong [OF _ assms]) simp
  then show ?thesis by (simp add: scan_ports_def Let_def split_def scan)
qed

lemma indices_bring_up:
  assumes "indices_ok s" and "bring_up v s = Some t"
  shows "indices_ok t"
proof -
  obtain s1 where s1: "xhci_perform_bios_handoff v (find_registers v s) = Some s1"
    and t: "t = (if fst (reset_controller s1) then
        (if fst (start_controller (setup_rings (setup_slots (snd (reset_controller s1)))))
         then scan_ports (snd (start_controller (setup_rings (setup_slots (snd (reset_controller s1))))))
         else snd (start_controller (setup_rings (setup_slots (snd (reset_controller s1))))))
      else snd (reset_controller s1))"
    using assms(2) by (auto simp: bring_up_def Let_def split_def split: option.splits if_splits)
  have ok: "indices_ok (snd (reset_controller s1))"
    using indices_handoff [OF s1] by (intro indices_cong [OF _ assms(1)]) simp
  then have "indices_ok (setup_slots (snd (reset_controller s1)))" by (intro indices_cong [OF _ ok]) simp
  then have "indices_ok (setup_rings (setup_slots (snd (reset_controller s1))))" by (rule indices_setup_rings)
  then have run: "indices_ok (snd (start_controller (setup_rings (setup_slots (snd (reset_controller s1))))))"
    by (rule indices_cong [rotated]) simp
  show ?thesis
    unfolding t using ok run indices_scan_ports [OF run] by (simp only: split: if_split) simp
qed

lemma indices_init:
  assumes "indices_ok s" and "xhci_init s = Some t"
  shows "indices_ok t"
proof -
  have "indices (s\<lparr>pci_bus := p\<rparr>) = indices s" "indices (s\<lparr>pci_bus := p, frames := m, tables := pt\<rparr>) = indices s" for p m pt
    by (simp_all add: indices_def)
  then have "indices_ok (s\<lparr>pci_bus := p\<rparr>)" "indices_ok (s\<lparr>pci_bus := p, frames := m, tables := pt\<rparr>)" for p m pt
    using assms(1) by (auto intro: indices_cong [OF _ assms(1)])
  then show ?thesis using assms
    by (auto simp: xhci_init_def Let_def split_def split: option.splits if_splits dest: indices_bring_up [rotated])
qed

subsection \<open>Properties\<close>

text \<open>A controller with one event pending, the successful completion of a command for slot 1.\<close>

definition demo_answer :: xhci_trb where
  "demo_answer = \<lparr>parameter = 0, status = push_bit 24 1,
     control = push_bit 24 1 OR push_bit 10 TRB_TYPE_COMMAND_COMPLETION_EVENT\<rparr>"

definition demo_pci :: pci where
  "demo_pci = pci.make 0 (\<lambda>_. 0xFFFFFFFF) (\<lambda>_. vray_device.make 0 0 0 0 0 0 0 0 0 0 []) 0
     (\<lambda>_. vnode.make [] DEVICE_TYPE_GENERIC None) 0 (\<lambda>_. nvnode.make [] NVDEVICE_TYPE_GENERIC None) 0 (\<lambda>_. (0, 0)) 0"

definition demo_xhci :: xhci where
  "demo_xhci = input.extend idle_keyboard
     (xhci.fields demo_pci mm_boot (\<lambda>_ _. 0) 0 0 (\<lambda>_. 0x1000) (\<lambda>_ _. 0) 0 []
        (\<lambda>_. slot_content XHCI_EVENT_RING_SIZE (event_entry (\<lambda>_. demo_answer)) zero_trb 1) (\<lambda>_ _ _. 0) (\<lambda>_ _. 0) 0
        0x2000 0x2020 0x3000 0x4000
        (\<lambda>_. zero_trb) (xhci_erst_entry.make 0 0 0) (\<lambda>_. 0) (\<lambda>_. zero_context) (\<lambda>_ _. zero_trb) (\<lambda>_. 0)
        0 True 0 True 1 8 1 1 False (\<lambda>_. zero_trb) 0 True)"

lemma demo_xhci_sel [simp]:
  "n_dma demo_xhci = 0" "cmd_ring_enqueue_ptr demo_xhci = 0" "cmd_ring_cycle_state demo_xhci"
  "event_ring_dequeue_ptr demo_xhci = 0" "event_ring_cycle_state demo_xhci" "usb_kbd_ep1_enqueue demo_xhci = 0"
  "usb_kbd_slot demo_xhci = 1" "\<not> usb_kbd_ep1_configured demo_xhci" "xhci_op_regs demo_xhci = 0x2020"
  "event_in demo_xhci n = slot_content XHCI_EVENT_RING_SIZE (event_entry (\<lambda>_. demo_answer)) zero_trb 1"
  by (simp_all add: demo_xhci_def xhci.defs input.defs)

lemma demo_events:
  "event_producer (\<lambda>_. demo_answer) (\<lambda>_. 1) demo_xhci" "consumed 0 demo_xhci"
  "trb_type demo_answer = TRB_TYPE_COMMAND_COMPLETION_EVENT" "completion_code demo_answer = 1" "trb_slot demo_answer = 1"
  by (simp_all add: event_producer_def consumed_def round_bit_def mono_def demo_answer_def trb_type_def
      completion_code_def trb_slot_def TRB_TYPE_COMMAND_COMPLETION_EVENT_def)

text \<open>
  C29 (bounds, USB). The command ring is used once. Whatever the controller answers, the first 31
  commands after the set-up stand in it in order, each marked as new; every later command is
  refused, without a change, for the test for a full ring compares with 0 and not with the
  controller's position.
\<close>

theorem command_ring_used_once:
  "cmd_ring_enqueue_ptr (commands_sent cs (setup_rings s)) = min 31 (length cs) \<and>
   (i < min 31 (length cs) \<longrightarrow> xhci_cmd_ring (commands_sent cs (setup_rings s)) i = (cs ! i)\<lparr>control := control (cs ! i) OR 1\<rparr>) \<and>
   (31 \<le> length cs \<longrightarrow> xhci_send_command c (commands_sent cs (setup_rings s)) = ((-1, None), commands_sent cs (setup_rings s)))"
proof -
  have "cmd_ring_enqueue_ptr (setup_rings s) = 0" "cmd_ring_cycle_state (setup_rings s)"
    by (simp_all add: setup_rings_def Let_def mskip_def mwrite32_def mwrite64_def)
  note sent = commands_sent_ring [OF this]
  show ?thesis using sent(1) [of cs] sent(3) [of i cs] send_command_full [of "commands_sent cs (setup_rings s)" c] by simp
qed

theorem command_ring_used_once_witness:
  "fst (xhci_send_command zero_trb (commands_sent (replicate 40 zero_trb) (setup_rings demo_xhci))) = (-1, None)"
  using command_ring_used_once [of "replicate 40 zero_trb" demo_xhci 0 zero_trb] by simp

text \<open>
  C30 (functional, USB). A command returns the result of its completion. If the controller
  produces no more events than its ring holds, and among those that wait and those that come
  within the driver's patience there is a completion, the driver skips the events before the first
  one, returns its code and slot, and stands behind it; the command has been put into the ring.
\<close>

theorem command_answered:
  assumes "event_producer ev k s" and "consumed c s" and "\<forall>n. k n \<le> c + XHCI_EVENT_RING_SIZE" and "c \<le> k (n_dma s)"
    and "c \<le> j" and "j < k (n_dma s + t)" and "t + (j - c) < 1000000"
    and "trb_type (ev j) = TRB_TYPE_COMMAND_COMPLETION_EVENT"
    and "\<forall>i. c \<le> i \<longrightarrow> i < j \<longrightarrow> trb_type (ev i) \<noteq> TRB_TYPE_COMMAND_COMPLETION_EVENT"
    and "cmd_ring_enqueue_ptr s < 31" and "cmd_ring_cycle_state s"
  shows "\<exists>s'. xhci_send_command cmd s =
      ((if completion_code (ev j) = 1 then 0 else -2, Some (completion_code (ev j), trb_slot (ev j))), s') \<and>
    consumed (Suc j) s' \<and> xhci_cmd_ring s' (cmd_ring_enqueue_ptr s) = cmd\<lparr>control := control cmd OR 1\<rparr>"
proof -
  let ?t = "ring_doorbell 0 0 (put_command cmd s)"
  have fr: "event_producer ev k ?t" "consumed c ?t" "n_dma ?t = n_dma s"
    using assms(1,2) by (simp_all add: event_producer_def consumed_def ring_doorbell_def mwrite32_def put_command_def Let_def)
  have "xhci_send_command cmd s = command_wait 1000000 ?t"
    using assms(10) by (simp add: xhci_send_command_def XHCI_CMD_RING_SIZE_def)
  then show ?thesis
    using command_wait_finds [OF fr(1,2), of j t 1000000] send_command_ring(1) [OF assms(10,11), of cmd] fr(3) assms(3-9)
    by auto
qed

theorem command_answered_witness:
  "\<exists>s'. xhci_send_command zero_trb demo_xhci = ((0, Some (1, 1)), s')"
  using command_answered [OF demo_events(1,2), of 0 0 zero_trb] demo_events(3-5)
  by (auto simp: XHCI_EVENT_RING_SIZE_def)

text \<open>
  The keyboard's ring is the queue of its transfers: after the endpoint has
  been configured and however often it has been polled, a controller that has done \<open>m\<close> of the
  \<open>n\<close> queued transfers finds in the ring exactly the other ones, also over the link at its end.
  Every poll queues at most four.
\<close>

theorem kbd_ring_is_queue:
  assumes "usb_kbd_slot s \<noteq> 0" and "\<not> usb_kbd_ep1_configured s"
    and "usb_kbd_ep1_configured (xhci_configure_kbd_endpoint slot_id port_speed s)"
    and "t = (usb_kbd_poll ^^ polls) (xhci_configure_kbd_endpoint slot_id port_speed s)"
  shows "\<exists>n. 1 \<le> n \<and> n \<le> 1 + 4 * polls \<and> usb_kbd_ep1_enqueue t = n mod 31 \<and>
    (\<forall>m. m \<le> n \<and> n \<le> m + 31 \<longrightarrow>
      transfers_taken (2 * (n - m) + 1) (usb_kbd_ep1_ring t) (m mod 31) (round_bit 31 m) =
        map (kbd_entry (bus_addr t Kbd_Report_Data 0)) [m ..< n])"
proof -
  have "\<exists>n. 1 \<le> n \<and> n \<le> 1 + 4 * k \<and> kbd_ready n ((usb_kbd_poll ^^ k) (xhci_configure_kbd_endpoint slot_id port_speed s))" for k
  proof (induction k)
    case (Suc k)
    then obtain n where n: "1 \<le> n" "n \<le> 1 + 4 * k"
        "kbd_ready n ((usb_kbd_poll ^^ k) (xhci_configure_kbd_endpoint slot_id port_speed s))" by blast
    from usb_kbd_poll_ready [OF n(3)] obtain n' where "n \<le> n'" "n' \<le> n + 4"
      "kbd_ready n' (usb_kbd_poll ((usb_kbd_poll ^^ k) (xhci_configure_kbd_endpoint slot_id port_speed s)))" by blast
    then show ?case using n(1,2) by (intro exI [of _ n']) simp
  qed (use configure_ready [OF assms(1-3)] in auto)
  then obtain n where "1 \<le> n" "n \<le> 1 + 4 * polls" "kbd_ready n t" using assms(4) by blast
  moreover from \<open>kbd_ready n t\<close> have at: "kbd_ring_at (bus_addr t Kbd_Report_Data 0) n t" by (simp add: kbd_ready_def)
  moreover from at have "usb_kbd_ep1_enqueue t = n mod 31" by (simp add: kbd_ring_at_def)
  ultimately show ?thesis
    by (intro exI [of _ n] conjI allI impI taken_from [OF at]) simp_all
qed

lemma demo_configured: "usb_kbd_ep1_configured (xhci_configure_kbd_endpoint 1 1 demo_xhci)"
proof -
  let ?t = "put_input_context 1 (kbd_context 1 1 demo_xhci) (reset_kbd_ring demo_xhci)"
  let ?u = "ring_doorbell 0 0 (put_command (context_command TRB_TYPE_CONFIGURE_ENDPOINT 1 ?t) ?t)"
  have fr: "event_producer (\<lambda>_. demo_answer) (\<lambda>_. 1) ?u" "consumed 0 ?u" "cmd_ring_enqueue_ptr ?t = 0"
    using demo_events(1,2)
    by (simp_all add: event_producer_def consumed_def ring_doorbell_def mwrite32_def put_command_def Let_def
        put_input_context_def reset_kbd_ring_def)
  obtain v where "command_wait 1000000 ?u = ((0, Some (1, 1)), v)"
    using command_wait_finds [OF fr(1,2), of 0 0 1000000] demo_events(3-5) by (auto simp: XHCI_EVENT_RING_SIZE_def)
  then have "xhci_send_command (context_command TRB_TYPE_CONFIGURE_ENDPOINT 1 ?t) ?t = ((0, Some (1, 1)), v)"
    using fr(3) by (simp add: xhci_send_command_def XHCI_CMD_RING_SIZE_def)
  then show ?thesis
    by (simp add: xhci_configure_kbd_endpoint_def xhci_queue_kbd_transfer_def xhci_set_boot_protocol_def put_transfer_def
        wrap_ring_def ring_doorbell_def mwrite32_def Let_def)
qed

theorem kbd_ring_is_queue_witness:
  "\<exists>n. usb_kbd_ep1_enqueue ((usb_kbd_poll ^^ 2) (xhci_configure_kbd_endpoint 1 1 demo_xhci)) = n mod 31 \<and> 1 \<le> n \<and> n \<le> 9"
  using kbd_ring_is_queue [of demo_xhci 1 1 _ 2, OF _ _ demo_configured refl] by auto

text \<open>
  C31 (type, USB). The positions in the three rings stay inside them: bringing up the controller,
  with all the devices it enumerates, sending a command and polling keep them there.
\<close>

theorem ring_positions_typed:
  assumes "indices_ok s"
  shows "(\<forall>t. xhci_init s = Some t \<longrightarrow> indices_ok t) \<and> indices_ok (snd (xhci_send_command c s)) \<and> indices_ok (usb_kbd_poll s)"
  using assms indices_init indices_send indices_poll by (auto simp: usb_kbd_poll_def)

theorem ring_positions_typed_witness: "indices_ok (usb_kbd_poll demo_xhci)"
  by (rule ring_positions_typed [THEN conjunct2, THEN conjunct2])
     (simp add: indices_ok_def XHCI_CMD_RING_SIZE_def XHCI_EVENT_RING_SIZE_def XHCI_EP_RING_SIZE_def)

end
