(* ===== verification/Boot.thy ===== *)
theory Boot
  imports Fat Fmt Console
begin

text \<open>
  The parts of \<open>kernel_main\<close> (\<^verbatim>\<open>core/main.c\<close>) that are more than a sequence of calls: the look
  at the boot modules, the set-up of the screen, and the bring-up of the file systems, which builds
  the runtime directories in ramfs, mounts DeviceFS and ProcessFS there and fills them. The name of
  a root device is empty in the code, so that ramfs is always the root. Messages of the last part
  are left out. The file systems are those of the whole kernel, whose table is \<open>fs_tbl\<close>.
\<close>

subsection \<open>Boot modules and the screen\<close>

definition init_path :: string where "init_path = ''/System/Rhoudveine/Booter/init''"

text \<open>One module, with its command line or NULL; the state is \<open>found_init\<close> and the console.\<close>

definition scan_module :: "(nat \<Rightarrow> u8) \<Rightarrow> string option \<Rightarrow> bool \<times> console \<Rightarrow> bool \<times> console" where
  "scan_module font cmd st =
     (let (found_init, s) = st;
          s1 = kprint font ''Found module: '' 0x00FF0000 s
      in case cmd of
           None \<Rightarrow> (found_init, kprint font [CHR 0x0A] 0xFFFFFFFF s1)
         | Some c \<Rightarrow>
             let s2 = kprint font c 0xFFFFFFFF s1;
                 found_init = (if take 1 c = ''/'' \<and> str_eq c init_path then True else found_init);
                 s3 = (if contains_substr c ''quiet'' then s2\<lparr>suppress_fb := True\<rparr> else s2)
             in (found_init, kprint font [CHR 0x0A] 0xFFFFFFFF s3))"

definition scan_modules :: "(nat \<Rightarrow> u8) \<Rightarrow> string option list \<Rightarrow> console \<Rightarrow> bool \<times> console" where
  "scan_modules font cmds s = fold (scan_module font) cmds (False, s)"

text \<open>The framebuffer as the boot loader describes it.\<close>

record framebuffer =
  f_memory :: bytes
  f_width :: u64
  f_height :: u64
  f_pitch :: u64
  f_bits :: u16

definition clear_screen :: "console \<Rightarrow> console" where
  "clear_screen s =
     fold (\<lambda>y. fold (\<lambda>x. put_pixel (of_nat x) (of_nat y) FB_BG_COLOR) [0 ..< unat (fb_width s)])
       [0 ..< unat (fb_height s)] s"

definition setup_screen :: "framebuffer \<Rightarrow> console \<Rightarrow> console" where
  "setup_screen f s =
     (clear_screen (s\<lparr>fb_mem := f_memory f, fb_present := True, fb_width := ucast (f_width f),
        fb_height := ucast (f_height f), fb_pitch := ucast (f_pitch f), fb_bpp := ucast (f_bits f)\<rparr>))
     \<lparr>cursor_x := 0, cursor_y := 0\<rparr>"

definition FB_BACKBUFFER_MAX_SIZE :: u32 where "FB_BACKBUFFER_MAX_SIZE = 1920 * 1200 * 4"

text \<open>The second buffer is a static array, all zero before.\<close>

definition setup_backbuffer :: "console \<Rightarrow> console" where
  "setup_backbuffer s =
     (let s1 = s\<lparr>fb_size := fb_pitch s * fb_height s\<rparr>
      in s1\<lparr>fb_backbuffer := (if fb_size s1 \<le> FB_BACKBUFFER_MAX_SIZE then Some (\<lambda>_. 0) else None)\<rparr>)"

subsection \<open>File systems\<close>

definition register_all :: "'a fat_scheme \<Rightarrow> 'a fat_scheme" where
  "register_all s = ramfs_register (procfs_register (devfs_register (fat32_register (vfs_init s))))"

text \<open>A call whose result is not looked at.\<close>

definition make_dir :: "string \<Rightarrow> 'a fat_scheme \<Rightarrow> 'a fat_scheme option" where
  "make_dir path s = map_option snd (vfs_mkdir fs_tbl path s)"

abbreviation runtime_dir :: string where
  "runtime_dir \<equiv> ''/System/Rhoudveine/Runtime''"

definition make_dirs :: "'a fat_scheme \<Rightarrow> 'a fat_scheme option" where
  "make_dirs s = do {
     s \<leftarrow> make_dir ''/System'' s;
     s \<leftarrow> make_dir ''/System/Rhoudveine'' s;
     s \<leftarrow> make_dir runtime_dir s;
     s \<leftarrow> make_dir (runtime_dir @ ''/Device'') s;
     make_dir (runtime_dir @ ''/Process'') s }"

definition mount_devices :: "'a fat_scheme \<Rightarrow> 'a fat_scheme option" where
  "mount_devices s = do {
     (rc, s) \<leftarrow> vfs_mount fs_tbl (runtime_dir @ ''/Device'') ''DeviceFS'' ''none'' s;
     Some (if rc = 0 then devfs_add_device ''cpu0'' 0 (devfs_add_device ''eth0'' 0
             (devfs_add_device ''vga0'' 0 (devfs_add_device ''ahci0'' 0 s)))
           else s) }"

text \<open>\<open>sprintf\<close> into an array of \<open>n\<close> characters.\<close>

definition sprintf_array :: "nat \<Rightarrow> string \<Rightarrow> va list \<Rightarrow> string option" where
  "sprintf_array n fmt args = do {
     (t, len) \<leftarrow> sprintf fmt args;
     if len < n then Some t else None }"

definition mem_info :: "mm \<Rightarrow> string option" where
  "mem_info m = sprintf_array 128 (''MemTotal: %lu MB'' @ [CHR 0x0A] @ ''MemFree: %lu MB'' @ [CHR 0x0A])
     [Va_long (mm_get_total_memory m div (1024 * 1024)), Va_long (mm_get_free_memory m div (1024 * 1024))]"

definition cpu_info_text :: "u32 \<Rightarrow> string option" where
  "cpu_info_text cpus = sprintf_array 128 (''CPU: x86_64'' @ [CHR 0x0A] @ ''Cores: %d'' @ [CHR 0x0A])
     [Va_int (if 0 < sint cpus then cpus else 1)]"

definition mount_processes :: "u32 \<Rightarrow> 'a fat_scheme \<Rightarrow> 'a fat_scheme option" where
  "mount_processes cpus s = do {
     (rc, s) \<leftarrow> vfs_mount fs_tbl (runtime_dir @ ''/Process'') ''ProcessFS'' ''none'' s;
     if rc \<noteq> 0 then Some s
     else do {
       let s = procfs_add_entry ''init''
         (''PID: 1'' @ [CHR 0x0A] @ ''Name: init'' @ [CHR 0x0A] @ ''State: Running'' @ [CHR 0x0A]) s;
       t \<leftarrow> mem_info (mem s);
       let s = procfs_add_entry ''meminfo'' t s;
       t \<leftarrow> cpu_info_text cpus;
       Some (procfs_add_entry ''cpuinfo'' t s) } }"

definition mount_root :: "string \<Rightarrow> 'a fat_scheme \<Rightarrow> (int \<times> 'a fat_scheme) option" where
  "mount_root root_dev s =
     (if root_dev \<noteq> [] then vfs_mount fs_tbl ''/'' ''fat32'' root_dev s
      else vfs_mount fs_tbl ''/'' ''ramfs'' ''none'' s)"

definition boot_filesystems :: "u32 \<Rightarrow> 'a fat_scheme \<Rightarrow> 'a fat_scheme option" where
  "boot_filesystems cpus s = do {
     (rc, s) \<leftarrow> mount_root [] (register_all s);
     s \<leftarrow> make_dirs s;
     s \<leftarrow> mount_devices s;
     mount_processes cpus s }"

subsection \<open>Each step as an update of the state\<close>

text \<open>A directory of the memory file system, and a new one in slot \<open>k\<close> of directory \<open>d\<close>.\<close>

definition ram_node :: "string \<Rightarrow> nat \<Rightarrow> vfs_node" where
  "ram_node nm i = zero_node\<lparr>node_name := take 255 nm, node_flags := VFS_DIRECTORY,
     fs_data := Ram_dir i, n_finddir := Some Ramfs, n_readdir := Some Ramfs,
     n_create := Some Ramfs, n_mkdir := Some Ramfs\<rparr>"

definition add_dir :: "nat \<Rightarrow> nat \<Rightarrow> string \<Rightarrow> 'a ramfs_scheme \<Rightarrow> 'a ramfs_scheme" where
  "add_dir d k nm s =
     (let n = ramfs_node_count s in s\<lparr>
        nodes := (nodes s)(Ram n := ram_node nm n),
        ramfs_node_count := Suc n,
        children := (children s)(n := \<lambda>_. None, d := (children s d)(k := Some (Ram n))),
        child_names := (child_names s)(n := \<lambda>_. [], d := (child_names s d)(k := take 31 nm))\<rparr>)"

definition ram_dir :: "nat \<Rightarrow> 'a ramfs_scheme \<Rightarrow> bool" where
  "ram_dir d s \<longleftrightarrow> node_flags (nodes s (Ram d)) AND VFS_DIRECTORY \<noteq> 0 \<and>
     fs_data (nodes s (Ram d)) = Ram_dir d \<and> n_finddir (nodes s (Ram d)) = Some Ramfs \<and>
     n_mkdir (nodes s (Ram d)) = Some Ramfs"

lemma fs_tbl_simps:
  "fs_tbl Ramfs = ramfs_ops" "fs_tbl Devfs = devfs_ops" "fs_tbl Procfs = procfs_ops"
  by (simp_all add: fs_tbl_def mem_tbl_def)

lemma mkdir_adds:
  assumes res: "vfs_resolve_path fs_tbl (vfs_dirname p 256) s = Some (Some (Ram d), s)"
    and d: "ram_dir d s" and slot: "free_slot (children s d) 0 RAMFS_MAX_CHILDREN = Some k"
    and room: "ramfs_node_count s < MAX_RAMFS_NODES" and old: "d < ramfs_node_count s"
  shows "vfs_mkdir fs_tbl p s = Some (0, add_dir d k (vfs_basename p) s)"
  using assms
  by (simp add: vfs_mkdir_def ram_dir_def fs_tbl_simps ramfs_ops_def ramfs_mkdir_op_def ramfs_create_def
    ramfs_alloc_node_def Let_def add_dir_def ram_node_def upd_node_def VFS_DIRECTORY_def zero_node_def)

lemma resolve_ram:
  assumes d: "ram_dir d s" and c: "next_component p = (c, r)" "c \<noteq> []" "p \<noteq> []"
    and x: "find_child (children s d) (child_names s d) c 0 RAMFS_MAX_CHILDREN = Some x"
  shows "resolve_from fs_tbl p (Some (Ram d)) s = resolve_from fs_tbl r (cross_mount s x) s"
  using assms
  by (subst resolve_from.simps) (simp add: ram_dir_def fs_tbl_simps ramfs_ops_def ramfs_finddir_def)

text \<open>The state with ramfs at the root.\<close>

definition rooted :: "'a fat_scheme \<Rightarrow> 'a fat_scheme" where
  "rooted s = (register_all s)\<lparr>
     nodes := (\<lambda>_. zero_node)(Ram 0 := (ram_node ''/'' 0)\<lparr>node_flags := 0x42, node_mount := Some 0\<rparr>),
     ramfs_node_count := 1, children := (\<lambda>_ _. None), child_names := (child_names s)(0 := \<lambda>_. []),
     g_mounts := (\<lambda>_. zero_mount)(0 := \<lparr>mp_path = ''/'', mp_root = Some (Ram 0), fs_private = 0, mp_refcount = 0\<rparr>),
     g_mount_count := 1, g_vfs_root := Some (Ram 0)\<rparr>"

lemmas register_defs = register_all_def ramfs_register_def devfs_register_def procfs_register_def
  fat32_register_def vfs_init_def vfs_register_filesystem_def MAX_FS_TYPES_def

definition fs_type :: "string \<Rightarrow> fs_kind \<Rightarrow> filesystem_type" where
  "fs_type nm k = \<lparr>fs_name = nm, fs_mount = Some k, fs_unmount = Some k\<rparr>"

lemma registered:
  "g_fs_type_count (register_all s) = 4" "g_mount_count (register_all s) = 0"
  "g_fs_types (register_all s) = (\<lambda>_. zero_fs_type)(0 := fs_type ''fat32'' Fat32,
     1 := fs_type ''DeviceFS'' Devfs, 2 := fs_type ''ProcessFS'' Procfs, 3 := fs_type ''ramfs'' Ramfs)"
  "nodes (register_all s) = nodes s" "children (register_all s) = children s"
  "child_names (register_all s) = child_names s" "ramfs_node_count (register_all s) = ramfs_node_count s"
  "g_mounts (register_all s) = (\<lambda>_. zero_mount)" "g_vfs_root (register_all s) = None"
  "g_fds (register_all s) = (\<lambda>_. zero_fd)"
  "devfs_node_count (register_all s) = devfs_node_count s" "devfs_children (register_all s) = devfs_children s"
  "procfs_node_count (register_all s) = procfs_node_count s" "procfs_children (register_all s) = procfs_children s"
  "procfs_content (register_all s) = procfs_content s" "mem (register_all s) = mem s"
  by (simp_all add: register_defs my_strncpy_def fs_type_def numeral_eq_Suc)

lemma fs_types_found:
  assumes "g_fs_type_count s = 4" and "g_fs_types s = g_fs_types (register_all s0)"
  shows "find_fs_type ''DeviceFS'' s = Some (fs_type ''DeviceFS'' Devfs)"
    and "find_fs_type ''ProcessFS'' s = Some (fs_type ''ProcessFS'' Procfs)"
    and "find_fs_type ''ramfs'' s = Some (fs_type ''ramfs'' Ramfs)"
  using assms by (simp_all add: find_fs_type_def registered fs_type_def numeral_eq_Suc)

lemma ramfs_nodes_add:
  fixes s :: "'a ramfs_scheme"
  shows "ramfs_node_count (add_dir d k nm s) = Suc (ramfs_node_count s)"
    "nodes (add_dir d k nm s) = (nodes s)(Ram (ramfs_node_count s) := ram_node nm (ramfs_node_count s))"
    "children (add_dir d k nm s) = (children s)(ramfs_node_count s := \<lambda>_. None, d := (children s d)(k := Some (Ram (ramfs_node_count s))))"
    "child_names (add_dir d k nm s) = (child_names s)(ramfs_node_count s := \<lambda>_. [], d := (child_names s d)(k := take 31 nm))"
    "g_vfs_root (add_dir d k nm s) = g_vfs_root s" "g_mounts (add_dir d k nm s) = g_mounts s"
    "g_mount_count (add_dir d k nm s) = g_mount_count s" "g_fs_types (add_dir d k nm s) = g_fs_types s"
    "g_fs_type_count (add_dir d k nm s) = g_fs_type_count s" "g_fds (add_dir d k nm s) = g_fds s"
  by (simp_all add: add_dir_def Let_def)

lemma ramfs_mounts:
  "ramfs_node_count s = n \<Longrightarrow> n < MAX_RAMFS_NODES \<Longrightarrow> ramfs_mount_op dev mp s = Some (0, s\<lparr>
     nodes := (nodes s)(Ram n := ram_node ''/'' n), ramfs_node_count := Suc n,
     children := (children s)(n := \<lambda>_. None), child_names := (child_names s)(n := \<lambda>_. []),
     g_mounts := (g_mounts s)(mp := (g_mounts s mp)\<lparr>mp_root := Some (Ram n), fs_private := 0\<rparr>)\<rparr>)"
  by (simp add: ramfs_mount_op_def ramfs_alloc_node_def Let_def upd_node_def upd_mount_def ram_node_def
      VFS_DIRECTORY_def zero_node_def)

lemma root_mounts:
  assumes "cold s"
  shows "vfs_mount fs_tbl ''/'' ''ramfs'' ''none'' (register_all s) = Some (0, rooted s)"
proof -
  define s0 where "s0 = register_all s"
  have s0: "nodes s0 = (\<lambda>_. zero_node)" "children s0 = (\<lambda>_ _. None)" "ramfs_node_count s0 = 0"
    "g_mount_count s0 = 0" "g_mounts s0 = (\<lambda>_. zero_mount)" "child_names s0 = child_names s"
    "find_fs_type ''ramfs'' s0 = Some (fs_type ''ramfs'' Ramfs)"
    using assms by (simp_all add: s0_def registered cold_def fs_types_found)
  define s1 where "s1 = upd_mount 0 (\<lambda>_. \<lparr>mp_path = ''/'', mp_root = None, fs_private = 0, mp_refcount = 0\<rparr>) s0"
  have s1: "ramfs_node_count s1 = 0" "g_mounts s1 0 = \<lparr>mp_path = ''/'', mp_root = None, fs_private = 0, mp_refcount = 0\<rparr>"
    by (simp_all add: s1_def upd_mount_def s0)
  have "vfs_mount fs_tbl ''/'' ''ramfs'' ''none'' s0 = Some (0, rooted s)"
    using ramfs_mounts [OF s1(1)] s1
    by (simp add: vfs_mount_def MAX_MOUNTS_def s0 my_strncpy_def s1_def [symmetric] fs_type_def fs_tbl_simps
        ramfs_ops_def MAX_RAMFS_NODES_def)
      (rule fat.equality; simp add: rooted_def s0_def [symmetric] s1_def upd_node_def upd_mount_def s0
        ram_node_def VFS_DIRECTORY_def VFS_MOUNTPOINT_def fun_upd_idem)
  then show ?thesis by (simp add: s0_def)
qed

text \<open>The states after each of the five directories.\<close>

definition tree1 :: "'a fat_scheme \<Rightarrow> 'a fat_scheme" where
  "tree1 s = add_dir 0 0 ''System'' (rooted s)"

definition tree2 :: "'a fat_scheme \<Rightarrow> 'a fat_scheme" where
  "tree2 s = add_dir 1 0 ''Rhoudveine'' (tree1 s)"

definition tree3 :: "'a fat_scheme \<Rightarrow> 'a fat_scheme" where
  "tree3 s = add_dir 2 0 ''Runtime'' (tree2 s)"

definition tree4 :: "'a fat_scheme \<Rightarrow> 'a fat_scheme" where
  "tree4 s = add_dir 3 0 ''Device'' (tree3 s)"

definition tree5 :: "'a fat_scheme \<Rightarrow> 'a fat_scheme" where
  "tree5 s = add_dir 3 1 ''Process'' (tree4 s)"

lemma rooted_fields:
  "nodes (rooted s) = (\<lambda>_. zero_node)(Ram 0 := (ram_node ''/'' 0)\<lparr>node_flags := 0x42, node_mount := Some 0\<rparr>)"
  "ramfs_node_count (rooted s) = 1" "children (rooted s) = (\<lambda>_ _. None)"
  "child_names (rooted s) = (child_names s)(0 := \<lambda>_. [])" "g_vfs_root (rooted s) = Some (Ram 0)"
  by (simp_all add: rooted_def)

lemmas tree_fields = tree1_def tree2_def tree3_def tree4_def tree5_def ramfs_nodes_add rooted_fields

lemmas tree_eval = ram_dir_def tree_fields ram_node_def VFS_DIRECTORY_def VFS_MOUNTPOINT_def
  RAMFS_MAX_CHILDREN_def MAX_RAMFS_NODES_def numeral_eq_Suc next_component_def str_match_eq
  cross_mount_def zero_node_def

lemma dirname_consts:
  "vfs_dirname ''/System'' 256 = ''/''" "vfs_basename ''/System'' = ''System''"
  "vfs_dirname ''/System/Rhoudveine'' 256 = ''/System''" "vfs_basename ''/System/Rhoudveine'' = ''Rhoudveine''"
  "vfs_dirname runtime_dir 256 = ''/System/Rhoudveine''" "vfs_basename runtime_dir = ''Runtime''"
  "vfs_dirname (runtime_dir @ ''/Device'') 256 = runtime_dir" "vfs_basename (runtime_dir @ ''/Device'') = ''Device''"
  "vfs_dirname (runtime_dir @ ''/Process'') 256 = runtime_dir" "vfs_basename (runtime_dir @ ''/Process'') = ''Process''"
  by (simp_all add: vfs_dirname_def vfs_basename_def my_strncpy_def)

lemma resolve_abs:
  assumes "g_vfs_root s = Some r" and "p \<noteq> []"
  shows "vfs_resolve_path tbl (CHR ''/'' # p) s = resolve_from tbl p (Some r) s"
  using assms by (simp add: vfs_resolve_path_def)

lemma resolve_end: "resolve_from tbl [] c s = Some (c, s)"
  by (subst resolve_from.simps) simp

text \<open>The part of the tree that is there from the third \<open>vfs_mkdir\<close> on.\<close>

definition runtime_tree :: "nat \<Rightarrow> 'a ramfs_scheme \<Rightarrow> bool" where
  "runtime_tree n s \<longleftrightarrow> g_vfs_root s = Some (Ram 0) \<and> (\<forall>d \<le> n. ram_dir d s) \<and>
     (\<forall>d < n. node_flags (nodes s (Ram (Suc d))) = VFS_DIRECTORY \<and>
        children s d 0 = Some (Ram (Suc d)) \<and>
        child_names s d 0 = [''System'', ''Rhoudveine'', ''Runtime''] ! d)"

lemma first_child:
  "kids 0 = Some x \<Longrightarrow> names 0 = nm \<Longrightarrow> find_child kids names nm 0 RAMFS_MAX_CHILDREN = Some x"
  by (simp add: RAMFS_MAX_CHILDREN_def numeral_eq_Suc str_match_eq)

lemma resolve_tree:
  assumes "runtime_tree n s" and "d < n" and "next_component p = ([''System'', ''Rhoudveine'', ''Runtime''] ! d, r)"
    and "[''System'', ''Rhoudveine'', ''Runtime''] ! d \<noteq> []" and "p \<noteq> []"
  shows "resolve_from fs_tbl p (Some (Ram d)) s = resolve_from fs_tbl r (Some (Ram (Suc d))) s"
  using assms
  by (subst resolve_ram [where c = "[''System'', ''Rhoudveine'', ''Runtime''] ! d" and r = r and x = "Ram (Suc d)"])
    (auto simp: runtime_tree_def cross_mount_def VFS_DIRECTORY_def VFS_MOUNTPOINT_def intro!: first_child)

lemma resolve_in_tree:
  assumes "runtime_tree n s"
  shows "0 < n \<Longrightarrow> vfs_resolve_path fs_tbl ''/System'' s = Some (Some (Ram 1), s)"
    and "1 < n \<Longrightarrow> vfs_resolve_path fs_tbl ''/System/Rhoudveine'' s = Some (Some (Ram 2), s)"
    and "2 < n \<Longrightarrow> vfs_resolve_path fs_tbl runtime_dir s = Some (Some (Ram 3), s)"
    and "2 < n \<Longrightarrow> vfs_resolve_path fs_tbl (runtime_dir @ CHR ''/'' # q) s = resolve_from fs_tbl q (Some (Ram 3)) s"
proof -
  have root: "g_vfs_root s = Some (Ram 0)" using assms by (simp add: runtime_tree_def)
  note step = resolve_tree [OF assms]
  show "0 < n \<Longrightarrow> vfs_resolve_path fs_tbl ''/System'' s = Some (Some (Ram 1), s)"
    using step [of 0 "''System''"] by (simp add: resolve_abs [OF root] next_component_def resolve_end)
  show "1 < n \<Longrightarrow> vfs_resolve_path fs_tbl ''/System/Rhoudveine'' s = Some (Some (Ram 2), s)"
    using step [of 0 "''System/Rhoudveine''"] step [of 1 "''Rhoudveine''"]
    by (simp add: resolve_abs [OF root] next_component_def resolve_end)
  show "2 < n \<Longrightarrow> vfs_resolve_path fs_tbl runtime_dir s = Some (Some (Ram 3), s)"
    using step [of 0 "''System/Rhoudveine/Runtime''"] step [of 1 "''Rhoudveine/Runtime''"] step [of 2 "''Runtime''"]
    by (simp add: resolve_abs [OF root] next_component_def resolve_end numeral_eq_Suc)
  show "2 < n \<Longrightarrow> vfs_resolve_path fs_tbl (runtime_dir @ CHR ''/'' # q) s = resolve_from fs_tbl q (Some (Ram 3)) s"
    using step [of 0 "''System/Rhoudveine/Runtime/'' @ q"] step [of 1 "''Rhoudveine/Runtime/'' @ q"] step [of 2 "''Runtime/'' @ q"]
    by (simp add: resolve_abs [OF root] next_component_def resolve_end numeral_eq_Suc)
qed

lemma runtime_trees:
  "runtime_tree 0 (rooted s)" "runtime_tree 1 (tree1 s)" "runtime_tree 2 (tree2 s)" "runtime_tree 3 (tree3 s)"
  "runtime_tree 3 (tree4 s)" "runtime_tree 3 (tree5 s)"
  by (auto simp: runtime_tree_def tree_eval le_Suc_eq less_Suc_eq)

lemma make_dirs_tree: "make_dirs (rooted s) = Some (tree5 s)"
proof -
  have "vfs_mkdir fs_tbl ''/System'' (rooted s) = Some (0, tree1 s)"
    by (subst mkdir_adds [where d = 0 and k = 0])
      (simp_all only: dirname_consts, simp_all add: vfs_resolve_path_def rooted_fields, simp_all add: tree_eval)
  moreover have "vfs_mkdir fs_tbl ''/System/Rhoudveine'' (tree1 s) = Some (0, tree2 s)"
    by (subst mkdir_adds [where d = 1 and k = 0])
      (simp_all only: dirname_consts, simp_all add: resolve_in_tree [OF runtime_trees(2)], simp_all add: tree_eval)
  moreover have "vfs_mkdir fs_tbl runtime_dir (tree2 s) = Some (0, tree3 s)"
    by (subst mkdir_adds [where d = 2 and k = 0])
      (simp_all only: dirname_consts, simp_all add: resolve_in_tree [OF runtime_trees(3)], simp_all add: tree_eval)
  moreover have "vfs_mkdir fs_tbl (runtime_dir @ ''/Device'') (tree3 s) = Some (0, tree4 s)"
    by (subst mkdir_adds [where d = 3 and k = 0])
      (simp_all only: dirname_consts, simp_all add: resolve_in_tree [OF runtime_trees(4)], simp_all add: tree_eval)
  moreover have "vfs_mkdir fs_tbl (runtime_dir @ ''/Process'') (tree4 s) = Some (0, tree5 s)"
    by (subst mkdir_adds [where d = 3 and k = 1])
      (simp_all only: dirname_consts, simp_all add: resolve_in_tree [OF runtime_trees(5)], simp_all add: tree_eval)
  ultimately show ?thesis by (simp add: make_dirs_def make_dir_def)
qed


text \<open>A mount of DeviceFS or ProcessFS on the ramfs directory \<open>d\<close>.\<close>

definition mount_at :: "string \<Rightarrow> nat \<Rightarrow> node_ref \<Rightarrow> fs_kind \<Rightarrow> 'a vfs_scheme \<Rightarrow> 'a vfs_scheme" where
  "mount_at path d root k s =
     (let n = g_mount_count s in s\<lparr>
        nodes := (nodes s)(
          root := (nodes s root)\<lparr>node_flags := VFS_DIRECTORY, fs_data := No_data,
            n_readdir := Some k, n_finddir := Some k\<rparr>,
          Ram d := (nodes s (Ram d))\<lparr>node_flags := node_flags (nodes s (Ram d)) OR VFS_MOUNTPOINT,
            node_mount := Some n\<rparr>),
        g_mounts := (g_mounts s)(n := \<lparr>mp_path = path, mp_root = Some root, fs_private = 0, mp_refcount = 0\<rparr>),
        g_mount_count := Suc n\<rparr>)"

text \<open>What the name of an entry of the runtime directory leads to.\<close>

lemma resolve_entry:
  assumes "runtime_tree 3 s" and "next_component q = (nm, r)" "nm \<noteq> []" "q \<noteq> []"
    and "find_child (children s 3) (child_names s 3) nm 0 RAMFS_MAX_CHILDREN = Some x"
  shows "vfs_resolve_path fs_tbl (runtime_dir @ CHR ''/'' # q) s = resolve_from fs_tbl r (cross_mount s x) s"
  using resolve_in_tree(4) [OF assms(1), of q] resolve_ram [OF _ assms(2,3,4,5)] assms(1)
  by (simp add: runtime_tree_def)

lemma runtime_tree_cong:
  assumes "runtime_tree 3 s" and "g_vfs_root s' = g_vfs_root s" "children s' = children s" "child_names s' = child_names s"
    and "\<And>d. d \<le> 3 \<Longrightarrow> nodes s' (Ram d) = nodes s (Ram d)"
  shows "runtime_tree 3 s'"
  using assms by (auto simp: runtime_tree_def ram_dir_def)

lemma mounts_at:
  fixes s :: "'a fat_scheme"
  assumes ty: "find_fs_type ty s = Some (fs_type ty k)" and k: "(k, root) \<in> {(Devfs, Dev_root), (Procfs, Proc_root)}"
    and room: "g_mount_count s < MAX_MOUNTS" and tree: "runtime_tree 3 s"
    and nm: "next_component nm = (nm, [])" "nm \<noteq> []" "length nm < 200"
    and entry: "find_child (children s 3) (child_names s 3) nm 0 RAMFS_MAX_CHILDREN = Some (Ram d)"
    and dir: "node_flags (nodes s (Ram d)) = VFS_DIRECTORY"
  shows "vfs_mount fs_tbl (runtime_dir @ CHR ''/'' # nm) ty ''none'' s =
    Some (0, mount_at (runtime_dir @ CHR ''/'' # nm) d root k s)"
proof -
  define p where "p = runtime_dir @ CHR ''/'' # nm"
  let ?n = "g_mount_count s"
  define s1 where "s1 = upd_mount ?n (\<lambda>_. \<lparr>mp_path = p, mp_root = None, fs_private = 0, mp_refcount = 0\<rparr>) s"
  define s2 where "s2 = upd_mount ?n (\<lambda>m. m\<lparr>mp_root := Some root\<rparr>) (upd_node root (\<lambda>x. x\<lparr>node_flags := VFS_DIRECTORY,
      fs_data := No_data, n_finddir := Some k, n_readdir := Some k\<rparr>) s1)"
  have mnt: "f_mount (fs_tbl k) ''none'' ?n s1 = Some (0, s2)"
    using k by (auto simp: fs_tbl_simps devfs_ops_def devfs_mount_op_def procfs_ops_def procfs_mount_op_def s2_def Let_def)
  have same: "nodes s2 (Ram j) = nodes s (Ram j)" for j
    using k by (auto simp: s2_def s1_def)
  have fs: "children s2 = children s" "child_names s2 = child_names s" "g_vfs_root s2 = g_vfs_root s"
    by (simp_all add: s2_def s1_def upd_mount_def)
  have "runtime_tree 3 s2" by (rule runtime_tree_cong [OF tree]) (simp_all add: fs same)
  from resolve_entry [OF this nm(1,2,2)] entry
  have res: "vfs_resolve_path fs_tbl p s2 = Some (Some (Ram d), s2)"
    by (simp only: fs p_def) (simp add: resolve_end cross_mount_def same dir VFS_DIRECTORY_def VFS_MOUNTPOINT_def)
  have path: "my_strncpy p 255 = p" "my_strcmp p ''/'' \<noteq> 0" using nm(3) by (simp_all add: my_strncpy_def p_def)
  have fin: "(upd_node (Ram d) (\<lambda>x. x\<lparr>node_flags := node_flags x OR VFS_MOUNTPOINT, node_mount := Some ?n\<rparr>) s2)
      \<lparr>g_mount_count := Suc ?n\<rparr> = mount_at p d root k s"
    using k by (auto simp: mount_at_def s2_def s1_def upd_node_def upd_mount_def Let_def fun_eq_iff intro!: fat.equality)
  have "vfs_mount fs_tbl p ty ''none'' s = Some (0, mount_at p d root k s)"
    using room path dir same [of d] ty
    by (simp add: vfs_mount_def Let_def fs_type_def s1_def [symmetric] mnt res fin VFS_DIRECTORY_def)
  then show ?thesis by (simp only: p_def)
qed


abbreviation device_dir :: string where "device_dir \<equiv> runtime_dir @ CHR ''/'' # ''Device''"
abbreviation process_dir :: string where "process_dir \<equiv> runtime_dir @ CHR ''/'' # ''Process''"

definition devices :: "'a fat_scheme \<Rightarrow> 'a fat_scheme" where
  "devices s = devfs_add_device ''cpu0'' 0 (devfs_add_device ''eth0'' 0
     (devfs_add_device ''vga0'' 0 (devfs_add_device ''ahci0'' 0
       (mount_at device_dir 4 Dev_root Devfs (tree5 s)))))"

lemma rooted_rest:
  "g_fs_types (rooted s) = g_fs_types (register_all s)" "g_fs_type_count (rooted s) = 4"
  "g_mount_count (rooted s) = 1" "g_fds (rooted s) = (\<lambda>_. zero_fd)"
  "g_mounts (rooted s) = (\<lambda>_. zero_mount)(0 := \<lparr>mp_path = ''/'', mp_root = Some (Ram 0), fs_private = 0, mp_refcount = 0\<rparr>)"
  "devfs_node_count (rooted s) = devfs_node_count s" "procfs_node_count (rooted s) = procfs_node_count s"
  "mem (rooted s) = mem s"
  by (simp_all add: rooted_def registered)

lemma add_dir_rest:
  "devfs_node_count (add_dir d k nm (s :: 'a fat_scheme)) = devfs_node_count s"
  "procfs_node_count (add_dir d k nm s) = procfs_node_count s" "mem (add_dir d k nm s) = mem s"
  by (simp_all add: add_dir_def Let_def)

lemma tree_rest:
  "g_fs_types (tree5 s) = g_fs_types (register_all s)" "g_fs_type_count (tree5 s) = 4"
  "g_mount_count (tree5 s) = 1" "g_fds (tree5 s) = (\<lambda>_. zero_fd)"
  "g_mounts (tree5 s) = (\<lambda>_. zero_mount)(0 := \<lparr>mp_path = ''/'', mp_root = Some (Ram 0), fs_private = 0, mp_refcount = 0\<rparr>)"
  "devfs_node_count (tree5 s) = devfs_node_count s" "procfs_node_count (tree5 s) = procfs_node_count s"
  "mem (tree5 s) = mem s"
  by (simp_all add: tree1_def tree2_def tree3_def tree4_def tree5_def rooted_rest add_dir_rest ramfs_nodes_add(5-))

lemma tree5_facts:
  "find_child (children (tree5 s) 3) (child_names (tree5 s) 3) ''Device'' 0 RAMFS_MAX_CHILDREN = Some (Ram 4)"
  "find_child (children (tree5 s) 3) (child_names (tree5 s) 3) ''Process'' 0 RAMFS_MAX_CHILDREN = Some (Ram 5)"
  "node_flags (nodes (tree5 s) (Ram 4)) = VFS_DIRECTORY" "node_flags (nodes (tree5 s) (Ram 5)) = VFS_DIRECTORY"
  by (simp_all add: tree_eval)

lemma mount_at_fields:
  fixes s :: "'a fat_scheme"
  shows "children (mount_at p d r k s) = children s" "child_names (mount_at p d r k s) = child_names s"
    "g_vfs_root (mount_at p d r k s) = g_vfs_root s" "g_fs_types (mount_at p d r k s) = g_fs_types s"
    "g_fs_type_count (mount_at p d r k s) = g_fs_type_count s" "g_fds (mount_at p d r k s) = g_fds s"
    "g_mount_count (mount_at p d r k s) = Suc (g_mount_count s)"
    "devfs_node_count (mount_at p d r k s) = devfs_node_count s" "devfs_children (mount_at p d r k s) = devfs_children s"
    "procfs_node_count (mount_at p d r k s) = procfs_node_count s" "procfs_children (mount_at p d r k s) = procfs_children s"
    "procfs_content (mount_at p d r k s) = procfs_content s" "mem (mount_at p d r k s) = mem s"
    "g_mounts (mount_at p d r k s) = (g_mounts s)(g_mount_count s :=
       \<lparr>mp_path = p, mp_root = Some r, fs_private = 0, mp_refcount = 0\<rparr>)"
  by (simp_all add: mount_at_def Let_def)

lemma add_device_fields:
  fixes s :: "'a fat_scheme"
  shows "children (devfs_add_device nm x s) = children s" "child_names (devfs_add_device nm x s) = child_names s"
    "g_vfs_root (devfs_add_device nm x s) = g_vfs_root s" "g_fs_types (devfs_add_device nm x s) = g_fs_types s"
    "g_fs_type_count (devfs_add_device nm x s) = g_fs_type_count s" "g_fds (devfs_add_device nm x s) = g_fds s"
    "g_mount_count (devfs_add_device nm x s) = g_mount_count s" "g_mounts (devfs_add_device nm x s) = g_mounts s"
    "procfs_node_count (devfs_add_device nm x s) = procfs_node_count s"
    "procfs_children (devfs_add_device nm x s) = procfs_children s"
    "procfs_content (devfs_add_device nm x s) = procfs_content s" "mem (devfs_add_device nm x s) = mem s"
    "nodes (devfs_add_device nm x s) (Ram i) = nodes s (Ram i)"
  by (simp_all add: devfs_add_device_def Let_def upd_node_def)

lemma mount_devices_tree:
  assumes "cold s"
  shows "mount_devices (tree5 s) = Some (devices s)"
proof -
  have "vfs_mount fs_tbl device_dir ''DeviceFS'' ''none'' (tree5 s) =
      Some (0, mount_at device_dir 4 Dev_root Devfs (tree5 s))"
    by (rule mounts_at) (use runtime_trees(6) in \<open>simp_all add: tree_rest tree5_facts fs_types_found MAX_MOUNTS_def next_component_def\<close>)
  then show ?thesis by (simp add: mount_devices_def devices_def)
qed

lemma devices_tree: "runtime_tree 3 (devices s)"
  by (rule runtime_tree_cong [OF runtime_trees(6)])
    (auto simp: devices_def add_device_fields mount_at_fields mount_at_def Let_def)

lemma mount_process_tree:
  "vfs_mount fs_tbl process_dir ''ProcessFS'' ''none'' (devices s) =
      Some (0, mount_at process_dir 5 Proc_root Procfs (devices s))"
  by (rule mounts_at) (use devices_tree tree5_facts in \<open>simp_all add: devices_def add_device_fields mount_at_fields 
    tree_rest fs_types_found MAX_MOUNTS_def next_component_def mount_at_def Let_def\<close>)


subsection \<open>The state after it is one the kernel reaches\<close>

lemma make_dir_reach: "mem_reach fat_ops s \<Longrightarrow> make_dir path s = Some s' \<Longrightarrow> mem_reach fat_ops s'"
  by (auto simp: make_dir_def fs_tbl_def intro: mem_mkdir)

lemma make_dirs_reach:
  assumes "mem_reach fat_ops s" and "make_dirs s = Some s'"
  shows "mem_reach fat_ops s'"
proof -
  obtain a b c d where m: "make_dir ''/System'' s = Some a" "make_dir ''/System/Rhoudveine'' a = Some b"
      "make_dir runtime_dir b = Some c" "make_dir (runtime_dir @ ''/Device'') c = Some d"
      "make_dir (runtime_dir @ ''/Process'') d = Some s'"
    using assms(2) unfolding make_dirs_def bind_eq_Some_conv by blast
  show ?thesis
    by (rule make_dir_reach [OF make_dir_reach [OF make_dir_reach [OF make_dir_reach [OF make_dir_reach
      [OF assms(1) m(1)] m(2)] m(3)] m(4)] m(5)])
qed

lemma mount_reach:
  "mem_reach fat_ops s \<Longrightarrow> my_strcmp ''fat32'' ty \<noteq> 0 \<Longrightarrow> vfs_mount fs_tbl path ty dev s = Some (rc, s') \<Longrightarrow>
    mem_reach fat_ops s'"
  unfolding fs_tbl_def by (rule mem_mount)

lemma register_reach: "cold s \<Longrightarrow> mem_reach fat_ops (register_all s)"
  unfolding register_all_def fat32_register_def by (intro mem_reach.intros)

lemma boot_reach:
  assumes "cold s" and "boot_filesystems cpus s = Some s'"
  shows "mem_reach fat_ops s'"
proof -
  obtain rc s1 s2 s3 where b: "mount_root [] (register_all s) = Some (rc, s1)" "make_dirs s1 = Some s2"
      "mount_devices s2 = Some s3" "mount_processes cpus s3 = Some s'"
    using assms(2) by (auto simp: boot_filesystems_def bind_eq_Some_conv)
  have "mem_reach fat_ops s1"
    using b(1) mount_reach [OF register_reach [OF assms(1)], of "''ramfs''" "''/''" "''none''" rc s1]
    by (simp add: mount_root_def)
  then have s2: "mem_reach fat_ops s2"
    using b(2) by (rule make_dirs_reach)
  obtain rc3 t where m: "vfs_mount fs_tbl (runtime_dir @ ''/Device'') ''DeviceFS'' ''none'' s2 = Some (rc3, t)"
      "s3 = (if rc3 = 0 then devfs_add_device ''cpu0'' 0 (devfs_add_device ''eth0'' 0
        (devfs_add_device ''vga0'' 0 (devfs_add_device ''ahci0'' 0 t))) else t)"
    using b(3) by (auto simp: mount_devices_def bind_eq_Some_conv)
  have "mem_reach fat_ops t"
    using mount_reach [OF s2 _ m(1)] by simp
  then have s3: "mem_reach fat_ops s3"
    unfolding m(2) by (simp add: mem_device)
  obtain rc4 u where p: "vfs_mount fs_tbl (runtime_dir @ ''/Process'') ''ProcessFS'' ''none'' s3 = Some (rc4, u)"
    using b(4) by (auto simp: mount_processes_def bind_eq_Some_conv)
  have "mem_reach fat_ops u"
    using mount_reach [OF s3 _ p] by simp
  then show ?thesis
    using b(4) p by (auto simp: mount_processes_def bind_eq_Some_conv Let_def intro!: mem_entry split: if_splits)
qed

subsection \<open>The texts of ProcessFS\<close>

lemma length_utoa: "length (utoa n 10) \<le> 20"
proof -
  have "unat n < 10 ^ Suc 19" using unat_less_64 [of n] by simp
  then have "length (rev_digits 10 n) \<le> 20" using length_rev_digits [of 10 n 19] by simp
  then show ?thesis by (simp add: utoa_def)
qed

lemma length_int_to_str: "length (int_to_str n b) \<le> 21"
proof -
  have "length (rev_digits 10 m) \<le> 20" for m
    using unat_less_64 [of m] length_rev_digits [of 10 m 19] by simp
  from this [of n] this [of "- n"] show ?thesis by (simp add: int_to_str_def Let_def)
qed

definition mem_text :: "mm \<Rightarrow> string" where
  "mem_text m = ''MemTotal: '' @ utoa (mm_get_total_memory m div (1024 * 1024)) 10 @ '' MB'' @ [CHR 0x0A] @
     ''MemFree: '' @ utoa (mm_get_free_memory m div (1024 * 1024)) 10 @ '' MB'' @ [CHR 0x0A]"

definition cpu_text :: "u32 \<Rightarrow> string" where
  "cpu_text cpus = ''CPU: x86_64'' @ [CHR 0x0A] @ ''Cores: '' @
     itoa (scast (if 0 < sint cpus then cpus else 1)) 10 @ [CHR 0x0A]"

lemma texts:
  "mem_info m = Some (mem_text m)" "cpu_info_text cpus = Some (cpu_text cpus)"
  "length (mem_text m) < 128" "length (cpu_text cpus) < 128"
proof -
  show "length (mem_text m) < 128"
    using length_utoa [of "mm_get_total_memory m div (1024 * 1024)"] length_utoa [of "mm_get_free_memory m div (1024 * 1024)"]
    by (simp add: mem_text_def)
  then show "mem_info m = Some (mem_text m)"
    by (simp add: mem_info_def sprintf_array_def sprintf_def sconv_def int_to_str_eq mem_text_def)
  show "length (cpu_text cpus) < 128"
    using length_int_to_str [of "scast (if 0 < sint cpus then cpus else 1)" True]
    by (simp add: cpu_text_def int_to_str_eq)
  then show "cpu_info_text cpus = Some (cpu_text cpus)"
    by (simp add: cpu_info_text_def sprintf_array_def sprintf_def sconv_def int_to_str_eq cpu_text_def)
qed

definition init_text :: string where
  "init_text = ''PID: 1'' @ [CHR 0x0A] @ ''Name: init'' @ [CHR 0x0A] @ ''State: Running'' @ [CHR 0x0A]"

text \<open>The state at the end.\<close>

definition booted :: "u32 \<Rightarrow> 'a fat_scheme \<Rightarrow> 'a fat_scheme" where
  "booted cpus s = procfs_add_entry ''cpuinfo'' (cpu_text cpus) (procfs_add_entry ''meminfo'' (mem_text (mem s))
     (procfs_add_entry ''init'' init_text (mount_at process_dir 5 Proc_root Procfs (devices s))))"

lemma procfs_entry_mem: "mem (procfs_add_entry nm t (s :: 'a fat_scheme)) = mem s"
  by (simp add: procfs_add_entry_def Let_def upd_node_def)

lemma boot_runs:
  assumes "cold s"
  shows "boot_filesystems cpus s = Some (booted cpus s)"
  using assms mount_process_tree [of s]
  by (simp add: boot_filesystems_def mount_root_def root_mounts make_dirs_tree mount_devices_tree mount_processes_def texts
      booted_def init_text_def procfs_entry_mem mount_at_fields devices_def add_device_fields tree_rest)


subsection \<open>What can be listed and read after it\<close>

text \<open>Reading a directory until a call fails, and a file until nothing is left.\<close>

fun entry_names :: "('s \<Rightarrow> ((int \<times> dirent option) \<times> 's) option) \<Rightarrow> nat \<Rightarrow> 's \<Rightarrow> string list option" where
  "entry_names rd 0 s = None"
| "entry_names rd (Suc fuel) s = do {
     ((rc, e), s1) \<leftarrow> rd s;
     (case e of None \<Rightarrow> Some []
      | Some d \<Rightarrow> map_option (Cons (d_name d)) (entry_names rd fuel s1)) }"

definition directory_names :: "string \<Rightarrow> 'a fat_scheme \<Rightarrow> string list option" where
  "directory_names path s = do {
     (fd, s1) \<leftarrow> vfs_open fs_tbl path 0 s;
     entry_names (vfs_readdir fs_tbl fd) 32 s1 }"

definition read_file :: "u64 \<Rightarrow> string \<Rightarrow> 'a fat_scheme \<Rightarrow> u8 list option" where
  "read_file cnt path s = do {
     (fd, s1) \<leftarrow> vfs_open fs_tbl path 0 s;
     (bs, s2) \<leftarrow> read_loop (vfs_read fs_tbl fd) cnt 256 s1;
     Some bs }"

lemma opens_first:
  assumes "vfs_resolve_path fs_tbl path s = Some (Some r, s)" and "g_fds s = (\<lambda>_. zero_fd)"
    and "n_open (nodes s r) = None"
  shows "vfs_open fs_tbl path 0 s = Some (3, upd_fd 3 (\<lambda>_. \<lparr>fd_node = Some r, fd_offset = 0,
      fd_flags = 0, fd_refcount = 1\<rparr>) s)"
  using assms by (simp add: vfs_open_def open_node_def MAX_FDS_def numeral_eq_Suc zero_fd_def)

lemma add_entry_fields:
  fixes s :: "'a fat_scheme"
  shows "children (procfs_add_entry nm x s) = children s" "child_names (procfs_add_entry nm x s) = child_names s"
    "g_vfs_root (procfs_add_entry nm x s) = g_vfs_root s" "g_fds (procfs_add_entry nm x s) = g_fds s"
    "g_mounts (procfs_add_entry nm x s) = g_mounts s"
    "devfs_node_count (procfs_add_entry nm x s) = devfs_node_count s"
    "devfs_children (procfs_add_entry nm x s) = devfs_children s"
    "nodes (procfs_add_entry nm x s) (Ram i) = nodes s (Ram i)"
    "nodes (procfs_add_entry nm x s) (Dev i) = nodes s (Dev i)"
    "nodes (procfs_add_entry nm x s) Dev_root = nodes s Dev_root"
    "nodes (procfs_add_entry nm x s) Proc_root = nodes s Proc_root"
  by (simp_all add: procfs_add_entry_def Let_def upd_node_def)

lemma mount_at_nodes:
  "nodes (mount_at p d r k s) = (nodes s)(
     r := (nodes s r)\<lparr>node_flags := VFS_DIRECTORY, fs_data := No_data, n_readdir := Some k, n_finddir := Some k\<rparr>,
     Ram d := (nodes s (Ram d))\<lparr>node_flags := node_flags (nodes s (Ram d)) OR VFS_MOUNTPOINT,
       node_mount := Some (g_mount_count s)\<rparr>)"
  by (simp add: mount_at_def Let_def)

lemma booted_tree:
  "runtime_tree 3 (booted cpus s)" "g_fds (booted cpus s) = (\<lambda>_. zero_fd)"
  "children (booted cpus s) = children (tree5 s)" "child_names (booted cpus s) = child_names (tree5 s)"
  by (rule runtime_tree_cong [OF devices_tree])
     (auto simp: booted_def add_entry_fields mount_at_fields mount_at_nodes devices_def add_device_fields tree_rest)

lemma booted_mounts:
  "cross_mount (booted cpus s) (Ram 4) = Some Dev_root" "cross_mount (booted cpus s) (Ram 5) = Some Proc_root"
    using tree5_facts [of s]
    by (simp_all add: cross_mount_def booted_def add_entry_fields devices_def add_device_fields mount_at_fields mount_at_nodes
     tree_rest) (simp_all add: VFS_MOUNTPOINT_def VFS_DIRECTORY_def)

lemma booted_dev:
  "nodes (booted cpus s) Dev_root = nodes (devices s) Dev_root"
    "nodes (booted cpus s) (Dev i) = nodes (devices s) (Dev i)"
    "devfs_children (booted cpus s) = devfs_children (devices s)"
    "devfs_node_count (booted cpus s) = devfs_node_count (devices s)"
  by (simp_all add: booted_def add_entry_fields mount_at_fields mount_at_nodes)


text \<open>What a directory that lists its children by number returns.\<close>

lemma entry_names_all:
  assumes "\<And>i. i < n \<Longrightarrow> kids i = Some (r i) \<and> name_of i = my_strncpy (node_name (nodes s (r i))) 255"
    and "n_readdir (nodes s d) = Some k" and "n < 2 ^ 32" "m \<le> n" "n - m < fuel"
    and "\<And>i st. nodes st = nodes s \<Longrightarrow> P st \<Longrightarrow> f_readdir (fs_tbl k) d i st =
       Some (if of_nat n \<le> i then None else kids (unat i), st)"
    and "\<And>st f. P st \<Longrightarrow> P (upd_fd 3 f st)"
  shows "P st \<Longrightarrow> nodes st = nodes s \<Longrightarrow> g_fds st 3 = \<lparr>fd_node = Some d, fd_offset = of_nat m, fd_flags = 0, fd_refcount = 1\<rparr> \<Longrightarrow>
    entry_names (vfs_readdir fs_tbl 3) fuel st = Some (map name_of [m..<n])"
  using assms(4,5)
proof (induction fuel arbitrary: m st)
  case (Suc fuel)
  have off: "unat (of_nat m :: u32) = m" "unat (of_nat n :: u32) = n" "unat (ucast (of_nat m :: u64) :: u32) = m"
    using Suc.prems(4) assms(3) by (simp_all add: unat_of_nat unsigned_ucast_eq take_bit_nat_eq_self)
  have le: "of_nat n \<le> (ucast (of_nat m :: u64) :: u32) \<longleftrightarrow> n \<le> m" by (simp add: word_le_nat_alt off)
  have rd: "vfs_readdir fs_tbl 3 st = (if m = n then Some ((-1, None), st)
      else Some ((0, Some \<lparr>d_inode = inode (nodes s (r m)), d_name = name_of m, d_type = ucast (node_flags (nodes s (r m)))\<rparr>), advance 3 1 st))"
    using Suc.prems assms(1) [of m] by (simp add: vfs_readdir_def bad_fd_def MAX_FDS_def assms(2) assms(6) le off)
  show ?case
  proof (cases "m = n")
    case False
    have "entry_names (vfs_readdir fs_tbl 3) fuel (advance 3 1 st) = Some (map name_of [Suc m..<n])"
      using Suc.prems False assms(7) by (intro Suc.IH) (auto simp: advance_def upd_fd_def)
    then show ?thesis using rd False Suc.prems(4) by (simp add: upt_conv_Cons)
  qed (simp add: rd)
qed simp


definition device_names :: "string list" where
  "device_names = [''ahci0'', ''vga0'', ''eth0'', ''cpu0'']"

definition process_files :: "u32 \<Rightarrow> mm \<Rightarrow> (string \<times> string) list" where
  "process_files cpus m = [(''init'', init_text), (''meminfo'', mem_text m), (''cpuinfo'', cpu_text cpus)]"

lemma device_added:
  fixes s :: "'a fat_scheme"
  assumes "devfs_node_count s = n" and "n < MAX_DEVFS_NODES"
  shows "devfs_node_count (devfs_add_device nm x s) = Suc n"
    "devfs_children (devfs_add_device nm x s) = (devfs_children s)(n := Some (Dev n))"
    "nodes (devfs_add_device nm x s) = (nodes s)(Dev n := (nodes s (Dev n))\<lparr>node_name := take 31 nm,
       node_flags := VFS_FILE, fs_data := Dev_data x, node_size := 0\<rparr>)"
  using assms by (simp_all add: devfs_add_device_def Let_def upd_node_def)

lemma entry_added:
  fixes s :: "'a fat_scheme"
  assumes "procfs_node_count s = n" and "n < MAX_PROCFS_NODES" and "length x < 256"
  shows "procfs_node_count (procfs_add_entry nm x s) = Suc n"
    "procfs_children (procfs_add_entry nm x s) = (procfs_children s)(n := Some (Proc n))"
    "procfs_content (procfs_add_entry nm x s) = (procfs_content s)(n := x)"
    "nodes (procfs_add_entry nm x s) = (nodes s)(Proc n := (nodes s (Proc n))\<lparr>node_name := take 31 nm,
       node_flags := VFS_FILE, fs_data := Proc_text n, node_size := of_nat (length x), n_read := Some Procfs\<rparr>)"
  using assms by (simp_all add: procfs_add_entry_def Let_def upd_node_def)

lemma devices_listed:
  assumes "cold s"
  shows "devfs_node_count (devices s) = 4" "n_readdir (nodes (devices s) Dev_root) = Some Devfs"
    "n_open (nodes (devices s) Dev_root) = None" "nodes (devices s) Proc_root = zero_node" "nodes (devices s) (Proc i) = zero_node"
    "i < 4 \<Longrightarrow> devfs_children (devices s) i = Some (Dev i) \<and> node_name (nodes (devices s) (Dev i)) = device_names ! i"
proof -
  have c: "devfs_node_count (tree5 s) = 0" "nodes (tree5 s) Dev_root = zero_node"  "nodes (tree5 s) Proc_root = zero_node"
      "nodes (tree5 s) (Proc i) = zero_node"
    using assms by (simp_all add: tree_rest cold_def) (simp_all add: tree_fields)
  show "devfs_node_count (devices s) = 4" "n_readdir (nodes (devices s) Dev_root) = Some Devfs"
    "n_open (nodes (devices s) Dev_root) = None" "nodes (devices s) Proc_root = zero_node" "nodes (devices s) (Proc i) = zero_node"
    by (simp_all add: devices_def device_added c mount_at_fields mount_at_nodes MAX_DEVFS_NODES_def zero_node_def)
  show "i < 4 \<Longrightarrow> devfs_children (devices s) i = Some (Dev i) \<and> node_name (nodes (devices s) (Dev i)) = device_names ! i"
    by (auto simp: devices_def device_added c mount_at_fields MAX_DEVFS_NODES_def device_names_def less_Suc_eq numeral_eq_Suc)
qed

lemma index_below_3: "(i :: nat) < 3 \<Longrightarrow> i = 0 \<or> i = 1 \<or> i = 2"
  by auto

lemma procs_listed:
  assumes "cold s"
  shows "procfs_node_count (booted cpus s) = 3" "n_readdir (nodes (booted cpus s) Proc_root) = Some Procfs"
    "n_finddir (nodes (booted cpus s) Proc_root) = Some Procfs"
    "n_open (nodes (booted cpus s) Proc_root) = None"
    "i < 3 \<Longrightarrow> procfs_children (booted cpus s) i = Some (Proc i) \<and>
       node_name (nodes (booted cpus s) (Proc i)) = fst (process_files cpus (mem s) ! i) \<and>
       procfs_content (booted cpus s) i = snd (process_files cpus (mem s) ! i) \<and>
       fs_data (nodes (booted cpus s) (Proc i)) = Proc_text i \<and> n_read (nodes (booted cpus s) (Proc i)) = Some Procfs \<and>
       n_open (nodes (booted cpus s) (Proc i)) = None \<and> node_flags (nodes (booted cpus s) (Proc i)) = VFS_FILE"
proof -
  have c: "procfs_node_count (devices s) = 0"
    using assms by (simp add: devices_def add_device_fields mount_at_fields tree_rest cold_def)
  have l: "length init_text < 256" "length (mem_text (mem s)) < 256" "length (cpu_text cpus) < 256"
    using texts(3) [of "mem s"] texts(4) [of cpus] by (simp_all add: init_text_def)
  note d = devices_listed(4,5) [OF assms]
  show "procfs_node_count (booted cpus s) = 3" "n_readdir (nodes (booted cpus s) Proc_root) = Some Procfs"
    "n_finddir (nodes (booted cpus s) Proc_root) = Some Procfs"
    "n_open (nodes (booted cpus s) Proc_root) = None"
    by (simp_all add: booted_def entry_added c l d mount_at_fields mount_at_nodes MAX_PROCFS_NODES_def zero_node_def)
  show "i < 3 \<Longrightarrow> procfs_children (booted cpus s) i = Some (Proc i) \<and>
       node_name (nodes (booted cpus s) (Proc i)) = fst (process_files cpus (mem s) ! i) \<and>
       procfs_content (booted cpus s) i = snd (process_files cpus (mem s) ! i) \<and>
       fs_data (nodes (booted cpus s) (Proc i)) = Proc_text i \<and> n_read (nodes (booted cpus s) (Proc i)) = Some Procfs \<and>
       n_open (nodes (booted cpus s) (Proc i)) = None \<and> node_flags (nodes (booted cpus s) (Proc i)) = VFS_FILE"
    using index_below_3 [of i]
    by (auto simp: booted_def entry_added c l d mount_at_fields mount_at_nodes MAX_PROCFS_NODES_def zero_node_def
       process_files_def)
qed


lemma booted_resolves:
  "vfs_resolve_path fs_tbl device_dir (booted cpus s) = Some (Some Dev_root, booted cpus s)"
  "vfs_resolve_path fs_tbl process_dir (booted cpus s) = Some (Some Proc_root, booted cpus s)"
  "vfs_resolve_path fs_tbl (process_dir @ CHR ''/'' # nm) (booted cpus s) =
     resolve_from fs_tbl nm (Some Proc_root) (booted cpus s)"
proof -
  note at = resolve_entry [OF booted_tree(1), unfolded booted_tree(3,4), OF _ _ _ tree5_facts(1)]
    resolve_entry [OF booted_tree(1), unfolded booted_tree(3,4), OF _ _ _ tree5_facts(2)]
  show "vfs_resolve_path fs_tbl device_dir (booted cpus s) = Some (Some Dev_root, booted cpus s)"
    by (subst at(1) [where r = "[]"]) (simp_all add: next_component_def booted_mounts resolve_end)
  show "vfs_resolve_path fs_tbl process_dir (booted cpus s) = Some (Some Proc_root, booted cpus s)"
    by (subst at(2) [where r = "[]"]) (simp_all add: next_component_def booted_mounts resolve_end)
  show "vfs_resolve_path fs_tbl (process_dir @ CHR ''/'' # nm) (booted cpus s) =
     resolve_from fs_tbl nm (Some Proc_root) (booted cpus s)"
    using at(2) [of "''Process/'' @ nm" nm cpus s] by (simp add: next_component_def booted_mounts)
qed

lemma process_file_found:
  assumes "cold s" and "i < 3" and nm: "nm = fst (process_files cpus (mem s) ! i)"
  shows "vfs_resolve_path fs_tbl (process_dir @ CHR ''/'' # nm) (booted cpus s) = Some (Some (Proc i), booted cpus s)"
proof -
  let ?b = "booted cpus s"
  have nms: "nm = [''init'', ''meminfo'', ''cpuinfo''] ! i"
    using index_below_3 [OF assms(2)] by (auto simp: nm process_files_def)
  have c: "next_component nm = (nm, [])" "nm \<noteq> []"
    using index_below_3 [OF assms(2)] by (auto simp: nms next_component_def)
  have f: "find_named (procfs_children ?b) (nodes ?b) nm 0 3 = Some (Some (Proc i))"
    using index_below_3 [OF assms(2)] procs_listed(5) [OF assms(1), of 0 cpus]
     procs_listed(5) [OF assms(1), of 1 cpus] procs_listed(5) [OF assms(1), of 2 cpus]
    by (auto simp: numeral_3_eq_3 numeral_2_eq_2 nms str_match_eq process_files_def)
  have "node_flags (nodes ?b (Proc i)) AND VFS_MOUNTPOINT = 0"
    using procs_listed(5) [OF assms(1,2), of cpus] by (simp add: VFS_FILE_def VFS_MOUNTPOINT_def)
  then show ?thesis
    using c f
    by (subst booted_resolves, subst resolve_from.simps)
     (simp add: procs_listed [OF assms(1)] fs_tbl_simps procfs_ops_def procfs_finddir_def cross_mount_def resolve_end)
qed

lemma directory_names_all:
  assumes "vfs_resolve_path fs_tbl path s = Some (Some d, s)" and "g_fds s = (\<lambda>_. zero_fd)"
    and "n_open (nodes s d) = None" "n_readdir (nodes s d) = Some k" "length names < 32"
    and "\<And>i. i < length names \<Longrightarrow> kids i = Some (r i) \<and> node_name (nodes s (r i)) = names ! i \<and> length (names ! i) < 255"
    and "\<And>i st. nodes st = nodes s \<Longrightarrow> P st \<Longrightarrow> f_readdir (fs_tbl k) d i st =
       Some (if of_nat (length names) \<le> i then None else kids (unat i), st)"
    and "\<And>st f. P st \<Longrightarrow> P (upd_fd 3 f st)" and "P s"
  shows "directory_names path s = Some names"
proof -
  let ?st = "upd_fd 3 (\<lambda>_. \<lparr>fd_node = Some d, fd_offset = 0, fd_flags = 0, fd_refcount = 1\<rparr>) s"
  have kid: "kids i = Some (r i) \<and> names ! i = my_strncpy (node_name (nodes s (r i))) 255" if "i < length names" for i
    using assms(6) [OF that] by (simp add: my_strncpy_def)
  have "entry_names (vfs_readdir fs_tbl 3) 32 ?st = Some (map (\<lambda>i. names ! i) [0..<length names])"
  proof (rule entry_names_all [where s = s and r = r and d = d and k = k and kids = kids and P = P])
    show "P ?st" using assms(8,9) by blast
  qed (use kid assms(4,5,7,8) in \<open>simp_all add: upd_fd_def\<close>)
  then show ?thesis
    using opens_first [OF assms(1-3)] by (simp add: directory_names_def map_nth)
qed

lemma index_below_4: "(i :: nat) < 4 \<Longrightarrow> i = 0 \<or> i = 1 \<or> i = 2 \<or> i = 3"
  by auto

lemma directories_list:
  assumes "cold s"
  shows "directory_names device_dir (booted cpus s) = Some device_names"
    and "directory_names process_dir (booted cpus s) = Some (map fst (process_files cpus (mem s)))"
proof -
  let ?b = "booted cpus s"
  have dn: "length device_names = 4" "i < 4 \<Longrightarrow> length (device_names ! i) < 255" for i
    using index_below_4 [of i] by (auto simp: device_names_def)
  have pn: "length (process_files cpus (mem s)) = 3" "i < 3 \<Longrightarrow> length (fst (process_files cpus (mem s) ! i)) < 255" for i
    using index_below_3 [of i] by (auto simp: process_files_def)
  note bd = booted_dev [of cpus s]
  show "directory_names device_dir ?b = Some device_names"
  proof (rule directory_names_all [OF booted_resolves(1) booted_tree(2), where r = Dev and k = Devfs and
        kids = "devfs_children ?b" and P = "\<lambda>st. devfs_node_count st = 4 \<and> devfs_children st = devfs_children ?b"])
    show "devfs_children ?b i = Some (Dev i) \<and> node_name (nodes ?b (Dev i)) = device_names ! i \<and>
        length (device_names ! i) < 255" if "i < length device_names" for i
      using devices_listed(6) [OF assms, of i] dn that by (simp add: bd)
    show "n_open (nodes ?b Dev_root) = None" "n_readdir (nodes ?b Dev_root) = Some Devfs"
      by (simp_all add: bd devices_listed [OF assms])
    show "devfs_node_count ?b = 4 \<and> devfs_children ?b = devfs_children ?b"
      by (simp add: bd devices_listed [OF assms])
  qed (simp_all add: dn fs_tbl_simps devfs_ops_def devfs_readdir_def upd_fd_def)
  show "directory_names process_dir ?b = Some (map fst (process_files cpus (mem s)))"
  proof (rule directory_names_all [OF booted_resolves(2) booted_tree(2), where r = Proc and k = Procfs and
        kids = "procfs_children ?b" and P = "\<lambda>st. procfs_node_count st = 3 \<and> procfs_children st = procfs_children ?b"])
    show "procfs_children ?b i = Some (Proc i) \<and> node_name (nodes ?b (Proc i)) = map fst (process_files cpus (mem s)) ! i \<and>
        length (map fst (process_files cpus (mem s)) ! i) < 255" if "i < length (map fst (process_files cpus (mem s)))" for i
      using procs_listed(5) [OF assms, of i cpus] pn that by simp
    show "n_open (nodes ?b Proc_root) = None" "n_readdir (nodes ?b Proc_root) = Some Procfs"
      by (simp_all add: procs_listed [OF assms])
    show "procfs_node_count ?b = 3 \<and> procfs_children ?b = procfs_children ?b"
      by (simp add: procs_listed [OF assms])
  qed (simp_all add: pn fs_tbl_simps procfs_ops_def procfs_readdir_def upd_fd_def)
qed


lemma process_file_reads:
  assumes "cold s" and "(nm, txt) \<in> set (process_files cpus (mem s))" and "ucast cnt \<noteq> (0 :: u32)"
  shows "read_file cnt (process_dir @ CHR ''/'' # nm) (booted cpus s) = Some (map of_char txt)"
proof -
  let ?b = "booted cpus s"
  obtain i where i: "i < 3" "nm = fst (process_files cpus (mem s) ! i)" "txt = snd (process_files cpus (mem s) ! i)"
    using assms(2) that [of 0] that [of 1] that [of 2] by (auto simp: process_files_def)
  note node = procs_listed(5) [OF assms(1) i(1), of cpus]
  have len: "length txt < 256"
    using index_below_3 [OF i(1)] texts(3) [of "mem s"] texts(4) [of cpus]
    by (auto simp: i(3) process_files_def init_text_def)
  let ?st = "upd_fd 3 (\<lambda>_. \<lparr>fd_node = Some (Proc i), fd_offset = 0, fd_flags = 0, fd_refcount = 1\<rparr>) ?b"
  have open3: "vfs_open fs_tbl (process_dir @ CHR ''/'' # nm) 0 ?b = Some (3, ?st)"
    using node by (intro opens_first process_file_found [OF assms(1) i(1,2)] booted_tree) simp
  have st: "nodes ?st = nodes ?b" "procfs_content ?st = procfs_content ?b"
    "g_fds ?st 3 = \<lparr>fd_node = Some (Proc i), fd_offset = 0, fd_flags = 0, fd_refcount = 1\<rparr>"
    by (simp_all add: upd_fd_def)
  have "proc_rest 3 ?st = Some (map of_char txt)"
    using node len i(3) by (simp add: proc_rest_def bad_fd_def MAX_FDS_def st)
  from proc.read_loop_all [OF this, of cnt 256 fat_ops] assms(3) len
  obtain s2 where "read_loop (vfs_read fs_tbl 3) cnt 256 ?st = Some (map of_char txt, s2)"
    by (auto simp: fs_tbl_def [symmetric] unat_gt_0)
  with open3 show ?thesis by (simp only: read_file_def bind.bind_lunit prod.case option.sel)
qed

subsection \<open>The modules\<close>

lemma put_pixel_suppress [simp]: "suppress_fb (put_pixel x y c s) = suppress_fb s"
  by (simp add: put_pixel_def upd_drawn_def Let_def split: option.splits)

lemma fold_suppress: "(\<And>x s. suppress_fb (f x s) = suppress_fb s) \<Longrightarrow> suppress_fb (fold f xs s) = suppress_fb s"
  by (induction xs arbitrary: s) simp_all

lemma kprint_suppress [simp]: "suppress_fb (kprint font str c s) = suppress_fb s"
proof -
  have draw: "suppress_fb (draw_char font ch x y c s) = suppress_fb s" for ch x y s
    by (auto simp: draw_char_def Let_def intro!: fold_suppress split: if_splits)
  have drawn: "suppress_fb (upd_drawn f s) = suppress_fb s" for f s
    by (simp add: upd_drawn_def split: option.splits)
  have "suppress_fb (clear_pixels s) = suppress_fb s" for s
    by (simp add: clear_pixels_def fold_suppress)
  then have "suppress_fb (scroll s) = suppress_fb s" for s
    by (simp add: scroll_def Let_def drawn)
  then have cell: "suppress_fb (print_cell font c ch s) = suppress_fb s" for ch s
    by (simp add: print_cell_def new_line_def next_cell_def Let_def draw)
  have ser: "suppress_fb (serial_write str s) = suppress_fb s" for s
    unfolding serial_write_def by (rule fold_suppress) (simp add: serial_putc_def)
  show ?thesis by (simp add: kprint_def ser fold_suppress [of "print_cell font c", OF cell])
qed

lemma str_eq_iff: "str_eq a b \<longleftrightarrow> a = b"
  by (induction a b rule: str_eq.induct) auto

text \<open>The scan finds the init program and the option \<open>quiet\<close> wherever they are.\<close>

lemma scan_modules_finds:
  "fst (scan_modules font cmds s) \<longleftrightarrow> Some init_path \<in> set cmds"
  "suppress_fb (snd (scan_modules font cmds s)) \<longleftrightarrow>
     suppress_fb s \<or> (\<exists>c. Some c \<in> set cmds \<and> (\<exists>xs ys. c = xs @ ''quiet'' @ ys))"
proof -
  have quiet: "contains_substr c ''quiet'' \<longleftrightarrow> (\<exists>xs ys. c = xs @ ''quiet'' @ ys)" for c
    by (cases "c = []") (auto simp: contains_substr_iff)
  have "fst (fold (scan_module font) cmds (f, s)) \<longleftrightarrow> f \<or> Some init_path \<in> set cmds" for f s
    by (induction cmds arbitrary: f s)
      (auto simp: scan_module_def Let_def str_eq_iff init_path_def split: option.splits)
  then show "fst (scan_modules font cmds s) \<longleftrightarrow> Some init_path \<in> set cmds"
    by (simp add: scan_modules_def)
  have "suppress_fb (snd (fold (scan_module font) cmds (f, s))) \<longleftrightarrow>
      suppress_fb s \<or> (\<exists>c. Some c \<in> set cmds \<and> contains_substr c ''quiet'')" for f s
    by (induction cmds arbitrary: f s) (auto simp: scan_module_def Let_def split: option.splits)
  then show "suppress_fb (snd (scan_modules font cmds s)) \<longleftrightarrow>
     suppress_fb s \<or> (\<exists>c. Some c \<in> set cmds \<and> (\<exists>xs ys. c = xs @ ''quiet'' @ ys))"
    by (simp add: scan_modules_def quiet)
qed

text \<open>The second buffer starts black: the first flush removes what was drawn before.\<close>

lemma first_flush_blanks:
  assumes "fb_present s" and "fb_dirty s" and "fb_pitch s * fb_height s \<le> FB_BACKBUFFER_MAX_SIZE"
    and "i < 8 * (unat (fb_pitch s * fb_height s) div 8)"
  shows "fb_mem (fb_flush (setup_backbuffer s)) i = 0"
  using assms by (simp add: setup_backbuffer_def fb_flush_def Let_def)

subsection \<open>Properties\<close>

text \<open>
  C32 (functional, boot). On a machine whose static variables are zero the bring-up of the file
  systems succeeds, whatever the memory manager counts and the number of processors. Afterwards
  the runtime directories can be opened and listed across the two mounts and show the devices and
  the process files in the order in which they were added, and reading a process file through
  \<open>vfs_open\<close> and \<open>vfs_read\<close> in pieces of any positive size yields exactly the text that was
  printed, with the memory manager's totals and the number of processors. The state is one of
  those in which every call of the file system layer returns.
\<close>

theorem boot_tree_readable:
  assumes "cold s" and "ucast cnt \<noteq> (0 :: u32)"
  shows "\<exists>s'. boot_filesystems cpus s = Some s' \<and>
    directory_names ''/System/Rhoudveine/Runtime/Device'' s' = Some [''ahci0'', ''vga0'', ''eth0'', ''cpu0''] \<and>
    directory_names ''/System/Rhoudveine/Runtime/Process'' s' = Some [''init'', ''meminfo'', ''cpuinfo''] \<and>
    read_file cnt ''/System/Rhoudveine/Runtime/Process/meminfo'' s' = Some (map of_char (mem_text (mem s))) \<and>
    read_file cnt ''/System/Rhoudveine/Runtime/Process/cpuinfo'' s' = Some (map of_char (cpu_text cpus)) \<and>
    mem_reach fat_ops s'"
  using boot_runs [OF assms(1), of cpus] boot_reach [OF assms(1), of cpus] directories_list [OF assms(1), of cpus]
    process_file_reads [OF assms(1) _ assms(2), of "''meminfo''" "mem_text (mem s)" cpus]
    process_file_reads [OF assms(1) _ assms(2), of "''cpuinfo''" "cpu_text cpus" cpus]
  by (simp add: device_names_def process_files_def)

theorem boot_tree_readable_witness:
  "\<exists>s'. boot_filesystems 4 demo_fat = Some s' \<and>
    read_file 100 ''/System/Rhoudveine/Runtime/Process/cpuinfo'' s' = Some (map of_char (cpu_text 4))"
proof -
  have "cold demo_fat" by (simp add: cold_def demo_fat_def mem_boot_def memfs.defs)
  from boot_tree_readable [OF this, of 100 4] show ?thesis by auto
qed

end
