(* ===== verification/Libc.thy ===== *)
theory Libc
  imports Syscall Fmt "HOL-Library.Signed_Division"
begin

text \<open>
  The C library of user programs: \<^verbatim>\<open>userlib/syscall.h\<close> and \<^verbatim>\<open>userlib/libc.h\<close>. A program and the
  kernel it calls share one state, the kernel's extended with the library's variables; a system
  call is \<open>syscall_handler\<close> itself. Strings are in the memory of the program, at 64-bit addresses;
  the local variable whose address \<open>putchar\<close> and \<open>getchar\<close> pass to the kernel is at \<open>local_char\<close>.
  Arithmetic on \<open>long\<close> is that of the machine, which wraps. What waits for input may not return:
  then the result is \<open>None\<close>, as it is for a string without end.
\<close>

subsection \<open>State and system calls\<close>

definition HEAP_SIZE :: u64 where "HEAP_SIZE = 65536"

record process = kern +
  local_char :: u64
  heap_base :: u64
  heap_pos :: u64

type_synonym 'a call = "'a process_scheme \<Rightarrow> (u64 \<times> 'a process_scheme) option"

definition syscall0 :: "(input \<Rightarrow> input) \<Rightarrow> u64 \<Rightarrow> 'a call" where
  "syscall0 poll num = syscall_handler poll num 0 0 0 0 0"

definition syscall1 :: "(input \<Rightarrow> input) \<Rightarrow> u64 \<Rightarrow> u64 \<Rightarrow> 'a call" where
  "syscall1 poll num a1 = syscall_handler poll num a1 0 0 0 0"

definition syscall2 :: "(input \<Rightarrow> input) \<Rightarrow> u64 \<Rightarrow> u64 \<Rightarrow> u64 \<Rightarrow> 'a call" where
  "syscall2 poll num a1 a2 = syscall_handler poll num a1 a2 0 0 0"

definition syscall3 :: "(input \<Rightarrow> input) \<Rightarrow> u64 \<Rightarrow> u64 \<Rightarrow> u64 \<Rightarrow> u64 \<Rightarrow> 'a call" where
  "syscall3 poll num a1 a2 a3 = syscall_handler poll num a1 a2 a3 0 0"

definition syscall4 :: "(input \<Rightarrow> input) \<Rightarrow> u64 \<Rightarrow> u64 \<Rightarrow> u64 \<Rightarrow> u64 \<Rightarrow> u64 \<Rightarrow> 'a call" where
  "syscall4 poll num a1 a2 a3 a4 = syscall_handler poll num a1 a2 a3 a4 0"

text \<open>The conversion of an \<open>int\<close> to \<open>long\<close>.\<close>

definition of_cint :: "u32 \<Rightarrow> u64" where "of_cint w = scast w"

definition exit_process :: "(input \<Rightarrow> input) \<Rightarrow> u32 \<Rightarrow> 'a call" where
  "exit_process poll status = syscall1 poll 0 (of_cint status)"

definition libc_write :: "(input \<Rightarrow> input) \<Rightarrow> u32 \<Rightarrow> u64 \<Rightarrow> u64 \<Rightarrow> 'a call" where
  "libc_write poll fd buf count = syscall3 poll 1 (of_cint fd) buf count"

definition libc_read :: "(input \<Rightarrow> input) \<Rightarrow> u32 \<Rightarrow> u64 \<Rightarrow> u64 \<Rightarrow> 'a call" where
  "libc_read poll fd buf count = syscall3 poll 2 (of_cint fd) buf count"

definition open_file :: "(input \<Rightarrow> input) \<Rightarrow> u64 \<Rightarrow> u32 \<Rightarrow> 'a process_scheme \<Rightarrow> (u32 \<times> 'a process_scheme) option" where
  "open_file poll path flags s = map_option (apfst ucast) (syscall2 poll 3 path (of_cint flags) s)"

definition close_file :: "(input \<Rightarrow> input) \<Rightarrow> u32 \<Rightarrow> 'a process_scheme \<Rightarrow> (u32 \<times> 'a process_scheme) option" where
  "close_file poll fd s = map_option (apfst ucast) (syscall1 poll 4 (of_cint fd) s)"

definition exec_program :: "(input \<Rightarrow> input) \<Rightarrow> u64 \<Rightarrow> u64 \<Rightarrow> 'a process_scheme \<Rightarrow> (u32 \<times> 'a process_scheme) option" where
  "exec_program poll path argv s = map_option (apfst ucast) (syscall2 poll 5 path argv s)"

definition fork_process :: "(input \<Rightarrow> input) \<Rightarrow> 'a call" where
  "fork_process poll = syscall0 poll 6"

definition waitpid :: "(input \<Rightarrow> input) \<Rightarrow> u64 \<Rightarrow> u64 \<Rightarrow> u32 \<Rightarrow> 'a call" where
  "waitpid poll pid status options = syscall3 poll 8 pid status (of_cint options)"

definition sbrk :: "(input \<Rightarrow> input) \<Rightarrow> u64 \<Rightarrow> 'a call" where
  "sbrk poll increment = syscall1 poll 9 increment"

definition getpid :: "(input \<Rightarrow> input) \<Rightarrow> 'a call" where
  "getpid poll = syscall0 poll 7"

definition getcwd :: "(input \<Rightarrow> input) \<Rightarrow> u64 \<Rightarrow> u64 \<Rightarrow> 'a call" where
  "getcwd poll buf sz s = map_option (apfst (\<lambda>ret. if 0 \<le> sint ret then buf else 0)) (syscall2 poll 10 buf sz s)"

definition chdir :: "(input \<Rightarrow> input) \<Rightarrow> u64 \<Rightarrow> 'a process_scheme \<Rightarrow> (u32 \<times> 'a process_scheme) option" where
  "chdir poll path s = map_option (apfst ucast) (syscall1 poll 11 path s)"

definition make_directory :: "(input \<Rightarrow> input) \<Rightarrow> u64 \<Rightarrow> 'a process_scheme \<Rightarrow> (u32 \<times> 'a process_scheme) option" where
  "make_directory poll path s = map_option (apfst ucast) (syscall1 poll 12 path s)"

subsection \<open>Strings\<close>

type_synonym memory8 = "u64 \<Rightarrow> u8"

partial_function (option) strlen_from :: "memory8 \<Rightarrow> u64 \<Rightarrow> u64 \<Rightarrow> u64 option" where
  "strlen_from m s len = (if m (s + len) = 0 then Some len else strlen_from m s (len + 1))"

definition strlen :: "memory8 \<Rightarrow> u64 \<Rightarrow> u64 option" where
  "strlen m s = strlen_from m s 0"

partial_function (option) strcpy :: "u64 \<Rightarrow> u64 \<Rightarrow> memory8 \<Rightarrow> memory8 option" where
  "strcpy d src m =
     (let m1 = m(d := m src) in if m src = 0 then Some m1 else strcpy (d + 1) (src + 1) m1)"

partial_function (option) strcmp :: "memory8 \<Rightarrow> u64 \<Rightarrow> u64 \<Rightarrow> int option" where
  "strcmp m s1 s2 =
     (if m s1 \<noteq> 0 \<and> m s1 = m s2 then strcmp m (s1 + 1) (s2 + 1) else Some (uint (m s1) - uint (m s2)))"

fun memset :: "u64 \<Rightarrow> u8 \<Rightarrow> nat \<Rightarrow> memory8 \<Rightarrow> memory8" where
  "memset p c 0 m = m"
| "memset p c (Suc n) m = memset (p + 1) c n (m(p := c))"

fun memcpy :: "u64 \<Rightarrow> u64 \<Rightarrow> nat \<Rightarrow> memory8 \<Rightarrow> memory8" where
  "memcpy d s 0 m = m"
| "memcpy d s (Suc n) m = memcpy (d + 1) (s + 1) n (m(d := m s))"

declare strlen_from.simps [code] strcpy.simps [code] strcmp.simps [code]

subsection \<open>Input and output\<close>

definition putchar :: "(input \<Rightarrow> input) \<Rightarrow> u32 \<Rightarrow> 'a process_scheme \<Rightarrow> 'a process_scheme option" where
  "putchar poll c s =
     map_option snd (libc_write poll 1 (local_char s) 1 (s\<lparr>umem := (umem s)(local_char s := ucast c)\<rparr>))"

definition puts :: "(input \<Rightarrow> input) \<Rightarrow> u64 \<Rightarrow> 'a process_scheme \<Rightarrow> 'a process_scheme option" where
  "puts poll str s = do {
     len \<leftarrow> strlen (umem s) str;
     (_, s1) \<leftarrow> libc_write poll 1 str len s;
     putchar poll 10 s1 }"

definition getchar :: "(input \<Rightarrow> input) \<Rightarrow> 'a process_scheme \<Rightarrow> (u32 \<times> 'a process_scheme) option" where
  "getchar poll s = do {
     (n, s1) \<leftarrow> libc_read poll 0 (local_char s) 1 s;
     Some (if sint n \<le> 0 then -1 else scast (umem s1 (local_char s)), s1) }"

text \<open>Division of \<open>long\<close> numbers, towards zero.\<close>

definition quotient10 :: "u64 \<Rightarrow> u64" where
  "quotient10 n = word_of_int (sint n sdiv 10)"

definition remainder10 :: "u64 \<Rightarrow> int" where
  "remainder10 n = sint n smod 10"

lemma sint_quotient10: "10 \<le> sint n \<Longrightarrow> sint (quotient10 n) = sint n div 10"
proof -
  assume "10 \<le> sint n"
  then have "sint n sdiv 10 = sint n div 10" by (simp add: signed_divide_int_def)
  moreover have "sint n div 10 < 2 ^ 63" "- (2 ^ 63) \<le> sint n div 10"
    using sint_lt [of n] \<open>10 \<le> sint n\<close> by auto
  ultimately show ?thesis
    by (simp add: quotient10_def sint_sbintrunc' signed_take_bit_int_eq_self)
qed

lemma sint_negated:
  "sint (- (n :: u64)) = (if sint n = - (2 ^ 63) then - (2 ^ 63) else - sint n)"
proof (cases "sint n = - (2 ^ 63)")
  case True
  then show ?thesis by (simp add: sint_word_minus signed_take_bit_eq_take_bit_shift take_bit_eq_mod)
next
  case False
  then have "- (2 ^ 63) < sint n" "sint n < 2 ^ 63" using sint_ge [of n] sint_lt [of n] by auto
  then show ?thesis using False by (simp add: sint_word_minus signed_take_bit_int_eq_self)
qed

function print_int :: "(input \<Rightarrow> input) \<Rightarrow> u64 \<Rightarrow> 'a process_scheme \<Rightarrow> 'a process_scheme option" where
  "print_int poll n s = do {
     s \<leftarrow> (if sint n < 0 then putchar poll 45 s else Some s);
     let n = (if sint n < 0 then - n else n);
     s \<leftarrow> (if 10 \<le> sint n then print_int poll (quotient10 n) s else Some s);
     putchar poll (48 + word_of_int (remainder10 n)) s }"
  by pat_completeness auto

termination
proof (relation "measure (\<lambda>(poll, n, s). nat \<bar>sint n\<bar>)", goal_cases)
  case (2 poll n s s1 n1)
  then show ?case by (auto simp: sint_quotient10 sint_negated split: if_splits)
qed simp

declare print_int.simps [simp del]

function print_hex :: "(input \<Rightarrow> input) \<Rightarrow> u64 \<Rightarrow> 'a process_scheme \<Rightarrow> 'a process_scheme option" where
  "print_hex poll n s = do {
     s \<leftarrow> (if 16 \<le> n then print_hex poll (n div 16) s else Some s);
     let d = ucast (n mod 16);
     putchar poll (if d < 10 then 48 + d else 97 + d - 10) s }"
  by pat_completeness auto

termination
  by (relation "measure (\<lambda>(poll, n, s). unat n)") (auto simp: unat_div_distrib word_le_nat_alt)

declare print_hex.simps [simp del]

text \<open>The loops of \<open>printf\<close> over a string: one in memory, and the constant for NULL.\<close>

partial_function (option) put_str :: "(input \<Rightarrow> input) \<Rightarrow> u64 \<Rightarrow> u32 \<Rightarrow> 'a process_scheme \<Rightarrow>
    (u32 \<times> 'a process_scheme) option" where
  "put_str poll p count s =
     (if umem s p = 0 then Some (count, s)
      else do { s \<leftarrow> putchar poll (scast (umem s p)) s; put_str poll (p + 1) (count + 1) s })"

declare put_str.simps [code]

fun put_all :: "(input \<Rightarrow> input) \<Rightarrow> u8 list \<Rightarrow> u32 \<Rightarrow> 'a process_scheme \<Rightarrow> (u32 \<times> 'a process_scheme) option" where
  "put_all poll [] count s = Some (count, s)"
| "put_all poll (c # cs) count s = do { s \<leftarrow> putchar poll (scast c) s; put_all poll cs (count + 1) s }"

definition null_text :: "u8 list" where
  "null_text = map of_char ''(null)''"

text \<open>
  One conversion: the character after the per cent sign, and the arguments as 64-bit values;
  taking one that is not there is undefined.
\<close>

definition print_conv :: "(input \<Rightarrow> input) \<Rightarrow> u8 \<Rightarrow> u64 list \<Rightarrow> u32 \<Rightarrow> 'a process_scheme \<Rightarrow>
    (u64 list \<times> u32 \<times> 'a process_scheme) option" where
  "print_conv poll c args count s =
     (if c = of_char CHR ''s'' then
        (case args of [] \<Rightarrow> None
         | p # rest \<Rightarrow> map_option (Pair rest)
             (if p = 0 then put_all poll null_text count s else put_str poll p count s))
      else if c = of_char CHR ''d'' \<or> c = of_char CHR ''i'' then
        (case args of [] \<Rightarrow> None
         | n # rest \<Rightarrow> map_option (\<lambda>s. (rest, count + 1, s)) (print_int poll n s))
      else if c = of_char CHR ''x'' then
        (case args of [] \<Rightarrow> None
         | n # rest \<Rightarrow> map_option (\<lambda>s. (rest, count + 1, s)) (print_hex poll n s))
      else if c = of_char CHR ''c'' then
        (case args of [] \<Rightarrow> None
         | n # rest \<Rightarrow> map_option (\<lambda>s. (rest, count + 1, s)) (putchar poll (ucast n) s))
      else if c = of_char CHR ''%'' then
        map_option (\<lambda>s. (args, count + 1, s)) (putchar poll 37 s)
      else do {
        s \<leftarrow> putchar poll 37 s;
        s \<leftarrow> putchar poll (scast c) s;
        Some (args, count + 2, s) })"

text \<open>The format is the string before its NUL; a per cent sign at its end makes the loop pass the NUL.\<close>

fun printf_from :: "(input \<Rightarrow> input) \<Rightarrow> u8 list \<Rightarrow> u64 list \<Rightarrow> u32 \<Rightarrow> 'a process_scheme \<Rightarrow>
    (u32 \<times> 'a process_scheme) option" where
  "printf_from poll [] args count s = Some (count, s)"
| "printf_from poll (c # fs) args count s =
     (if c = 37 then
        (case fs of [] \<Rightarrow> None
         | d # gs \<Rightarrow> do {
             (args, count, s) \<leftarrow> print_conv poll d args count s;
             printf_from poll gs args count s })
      else do {
        s \<leftarrow> putchar poll (scast c) s;
        printf_from poll fs args (count + 1) s })"

definition printf :: "(input \<Rightarrow> input) \<Rightarrow> u8 list \<Rightarrow> u64 list \<Rightarrow> 'a process_scheme \<Rightarrow>
    (u32 \<times> 'a process_scheme) option" where
  "printf poll fmt args s = printf_from poll fmt args 0 s"

subsection \<open>The heap\<close>

definition malloc :: "u64 \<Rightarrow> 'a process_scheme \<Rightarrow> u64 \<times> 'a process_scheme" where
  "malloc n s =
     (let n = (n + 7) AND NOT 7
      in if HEAP_SIZE < heap_pos s + n then (0, s)
         else (heap_base s + heap_pos s, s\<lparr>heap_pos := heap_pos s + n\<rparr>))"

definition free_block :: "u64 \<Rightarrow> 'a process_scheme \<Rightarrow> 'a process_scheme" where
  "free_block ptr s = s"

text \<open>The start of a program, whose \<open>main\<close> is given; the exit does not return.\<close>

definition start_program :: "(input \<Rightarrow> input) \<Rightarrow> (u32 \<Rightarrow> u64 \<Rightarrow> 'a process_scheme \<Rightarrow> (u32 \<times> 'a process_scheme) option) \<Rightarrow>
    'a process_scheme \<Rightarrow> 'a process_scheme option" where
  "start_program poll main s = do {
     (ret, s) \<leftarrow> main 0 0 s;
     (_, s) \<leftarrow> exit_process poll ret s;
     Some s }"

subsection \<open>Output through the system call\<close>

text \<open>What a run of \<open>putchar\<close> leaves: the characters on the console, the last one in the variable.\<close>

definition printed :: "u8 list \<Rightarrow> 'a process_scheme \<Rightarrow> 'a process_scheme" where
  "printed bs s = (if bs = [] then s
     else s\<lparr>fb_out := fb_out s @ bs, umem := (umem s)(local_char s := last bs)\<rparr>)"

lemma printed_nil [simp]: "printed [] s = s" by (simp add: printed_def)

lemma printed_printed [simp]: "printed bs (printed as s) = printed (as @ bs) s"
  by (simp add: printed_def)

lemma local_char_printed [simp]: "local_char (printed bs s) = local_char s"
  by (simp add: printed_def)

lemma putchar_emits:
  "local_char s \<noteq> 0 \<Longrightarrow> putchar poll c s = Some (printed [ucast c] s)"
  by (simp add: putchar_def libc_write_def syscall3_def syscall_handler_def sys_write_def of_cint_def to_int_def printed_def)


lemma below_ten: "(k :: nat) < 10 \<Longrightarrow> k = 0 \<or> k = 1 \<or> k = 2 \<or> k = 3 \<or> k = 4 \<or> k = 5 \<or> k = 6 \<or> k = 7 \<or> k = 8 \<or> k = 9"
  by auto

lemma digit_word: "k < 10 \<Longrightarrow> (ucast (48 + of_nat k :: u32) :: u8) = of_nat (48 + k)"
  using below_ten [of k] by auto

lemma digit_byte: "unat d < 10 \<Longrightarrow> (of_char (digit_char d) :: u8) = of_nat (48 + unat d)"
proof -
  assume d: "unat d < 10"
  then have "(of_char (digit_char d) :: nat) = unat d + 48"
    by (simp add: digit_char_def word_less_nat_alt of_char_of)
  then have "of_nat (of_char (digit_char d) :: nat) = (of_nat (48 + unat d) :: u8)" by (simp only: add.commute)
  then show ?thesis by (simp only: of_nat_of_char)
qed

lemma sint_small: "0 \<le> sint (n :: u64) \<Longrightarrow> sint n = int (unat n)"
proof -
  assume nn: "0 \<le> sint n"
  have "uint n = sint n mod 2 ^ 64" by (simp only: uint_sint take_bit_eq_mod) simp
  also have "\<dots> = sint n" using nn sint_lt [of n] by (intro mod_pos_pos_trivial) auto
  finally show ?thesis by simp
qed

lemma nonneg_digits:
  assumes "0 \<le> sint n"
  shows "10 \<le> sint n \<longleftrightarrow> 0 < n div 10" "10 \<le> sint n \<Longrightarrow> quotient10 n = n div 10"
    "unat (n mod 10) = k \<Longrightarrow> word_of_int (remainder10 n) = (of_nat k :: u32)"
proof -
  define m where "m = unat n"
  have s: "sint n = int m" unfolding m_def using assms by (rule sint_small)
  have "10 \<le> sint n \<longleftrightarrow> 0 < m div 10" unfolding s by linarith
  then show "10 \<le> sint n \<longleftrightarrow> 0 < n div 10" by (simp add: word_less_nat_alt unat_div_distrib m_def)
  have q: "int m sdiv 10 = int (m div 10)"
    by (cases "m = 0") (simp_all add: signed_divide_int_def zdiv_int)
  have w: "n div 10 = of_nat (m div 10)"
    by (simp add: m_def word_arith_nat_div)
  show "quotient10 n = n div 10" by (simp only: quotient10_def s q of_int_of_nat_eq w)
  assume k: "unat (n mod 10) = k"
  have "int m smod 10 = int (m mod 10)"
    using smod_sdiv_mult_eq [of "int m" 10]
    by (simp add: q zmod_int zdiv_int minus_div_mult_eq_mod [symmetric])
  moreover have "k = m mod 10" using k by (simp add: m_def unat_mod_distrib)
  ultimately show "word_of_int (remainder10 n) = (of_nat k :: u32)" by (simp only: remainder10_def s of_int_of_nat_eq)
qed

lemma print_int_nonneg:
  assumes "0 \<le> sint n"
  shows "local_char s \<noteq> 0 \<Longrightarrow> print_int poll n s = Some (printed (map of_char (rev (rev_digits 10 n))) s)"
  using assms
proof (induction "unat n" arbitrary: n s rule: less_induct)
  case less
  define k where "k = unat (n mod 10)"
  have d: "k < 10" by (simp add: unat_mod_distrib k_def)
  note eqs = print_int.simps [of poll n s] rev_digits_unfold [of 10 n]
    nonneg_digits(1,2) [OF less.prems(2)] nonneg_digits(3) [OF less.prems(2) k_def [symmetric]]
    digit_byte [of "n mod 10", folded k_def] digit_word [OF d]
  show ?case
  proof (cases "0 < n div 10")
    case True
    then have "unat (n div 10) < unat n" "0 \<le> sint (n div 10)"
      using sint_quotient10 [of n] nonneg_digits [OF less.prems(2)]
      by (auto simp: unat_div_distrib word_less_nat_alt)
    from less.hyps [OF this(1) less.prems(1) this(2)] show ?thesis
      using True less.prems d by (simp add: eqs putchar_emits Let_def del: of_nat_add of_nat_numeral)
  next
    case False
    then show ?thesis using less.prems d by (simp add: eqs putchar_emits Let_def del: of_nat_add of_nat_numeral)
  qed
qed


lemma zero_digit: "digit_char 0 = CHR ''0''"
  by code_simp

lemma print_int_decimal:
  assumes "local_char s \<noteq> 0" and "sint n \<noteq> - (2 ^ 63)"
  shows "print_int poll n s = Some (printed (map of_char (itoa n 10)) s)"
proof (cases "sint n < 0")
  case True
  then have pos: "sint (- n) = - sint n" using assms(2) by (simp add: sint_negated)
  have "print_int poll n s = print_int poll (- n) (printed [45] s)"
    using True pos assms(1) by (subst (1 2) print_int.simps) (simp add: putchar_emits)
  also have "\<dots> = Some (printed (45 # map of_char (rev (rev_digits 10 (- n)))) s)"
    using True pos assms(1) by (simp add: print_int_nonneg)
  finally show ?thesis using True by (auto simp: itoa_def Let_def)
next
  case False
  then have "itoa n 10 = rev (rev_digits 10 n)"
    by (auto simp: itoa_def Let_def rev_digits_unfold zero_digit)
  with False show ?thesis using assms(1) by (simp add: print_int_nonneg)
qed

lemma print_int_min:
  assumes "local_char s \<noteq> 0" and "sint n = - (2 ^ 63)"
  shows "print_int poll n s = Some (printed [45, 40] s)"
proof -
  have "sint (- n) = - (2 ^ 63)" using assms(2) by (simp add: sint_negated)
  then show ?thesis
    using assms by (simp add: print_int.simps [of poll n s] putchar_emits remainder10_def Let_def)
qed

definition lower_hex :: "char \<Rightarrow> u8" where
  "lower_hex c = (if (of_char c :: nat) < 65 then of_char c else of_char c + 32)"

lemma byte_of_char: "(of_char (char_of (k :: nat)) :: u8) = of_nat (k mod 256)"
  by (metis of_nat_of_char of_char_of)

lemma hex_byte:
  assumes "unat d < 16"
  shows "ucast (if (ucast d :: u32) < 10 then 48 + ucast d else 97 + ucast d - 10 :: u32) = lower_hex (digit_char d)"
proof -
  define k where "k = unat d"
  have "k < 10 \<or> k = 10 \<or> k = 11 \<or> k = 12 \<or> k = 13 \<or> k = 14 \<or> k = 15" using assms k_def by linarith
  then have "k \<in> {0, 1, 2, 3, 4, 5, 6, 7, 8, 9, 10, 11, 12, 13, 14, 15}" using below_ten [of k] by auto
  moreover have "d = of_nat k" by (simp add: k_def)
  ultimately show ?thesis by (auto simp: lower_hex_def digit_char_def of_char_of byte_of_char)
qed

lemma print_hex_digits:
  "local_char s \<noteq> 0 \<Longrightarrow> print_hex poll n s = Some (printed (map lower_hex (utoa n 16)) s)"
proof -
  have "local_char s \<noteq> 0 \<Longrightarrow> print_hex poll n s = Some (printed (map lower_hex (rev (rev_digits 16 n))) s)"
  proof (induction "unat n" arbitrary: n s rule: less_induct)
    case less
    have ge: "16 \<le> n \<longleftrightarrow> 0 < n div 16"
      by (simp add: word_le_nat_alt word_less_nat_alt unat_div_distrib div_greater_zero_iff)
    have d: "unat (n mod 16) < 16" by (simp add: unat_mod_distrib)
    note eqs = print_hex.simps [of poll n s] rev_digits_unfold [of 16 n] hex_byte [OF d]
    show ?case
    proof (cases "0 < n div 16")
      case True
      then have "unat (n div 16) < unat n" by (auto simp: unat_div_distrib word_less_nat_alt)
      from less.hyps [OF this less.prems] True less.prems show ?thesis
        by (simp add: eqs ge putchar_emits Let_def del: if_split)
    next
      case False
      then show ?thesis using less.prems by (simp add: eqs ge putchar_emits Let_def)
    qed
  qed
  moreover have "utoa n 16 = rev (rev_digits 16 n)"
    by (simp add: utoa_def rev_digits_unfold zero_digit)
  ultimately show "local_char s \<noteq> 0 \<Longrightarrow> ?thesis" by simp
qed


subsection \<open>Formatted output\<close>

text \<open>
  The text a format stands for: numbers as the kernel prints them, strings from the memory, which
  must not contain the local variable of \<open>putchar\<close>.
\<close>

definition conv_text :: "memory8 \<Rightarrow> u64 \<Rightarrow> u8 \<Rightarrow> u64 list \<Rightarrow> (u8 list \<times> u64 list) option" where
  "conv_text m slot c args =
     (if c = of_char CHR ''s'' then
        (case args of [] \<Rightarrow> None
         | p # rest \<Rightarrow>
             if p = 0 then Some (null_text, rest)
             else do {
               bs \<leftarrow> user_str m p;
               if \<exists>i \<in> set [0 ..< Suc (length bs)]. slot = p + of_nat i then None else Some (bs, rest) })
      else if c \<in> {of_char CHR ''d'', of_char CHR ''i''} then
        (case args of [] \<Rightarrow> None
         | n # rest \<Rightarrow> if sint n = - (2 ^ 63) then None else Some (map of_char (itoa n 10), rest))
      else if c = of_char CHR ''x'' then
        (case args of [] \<Rightarrow> None | n # rest \<Rightarrow> Some (map lower_hex (utoa n 16), rest))
      else if c = of_char CHR ''c'' then
        (case args of [] \<Rightarrow> None | n # rest \<Rightarrow> Some ([ucast n], rest))
      else if c = of_char CHR ''%'' then Some ([37], args)
      else Some ([37, c], args))"

fun format_text :: "memory8 \<Rightarrow> u64 \<Rightarrow> u8 list \<Rightarrow> u64 list \<Rightarrow> u8 list option" where
  "format_text m slot [] args = Some []"
| "format_text m slot (c # fs) args =
     (if c = 37 then
        (case fs of [] \<Rightarrow> None
         | d # gs \<Rightarrow> do {
             (t, args) \<leftarrow> conv_text m slot d args;
             map_option ((@) t) (format_text m slot gs args) })
      else map_option (Cons c) (format_text m slot fs args))"

lemma ucast_scast_u8 [simp]: "(ucast (scast (c :: u8) :: u32) :: u8) = c"
  by (rule bit_word_eqI) (simp add: bit_simps)

lemma ucast_u32_u64: "(ucast (ucast (n :: u64) :: u32) :: u8) = ucast n"
  by (rule bit_word_eqI) (simp add: bit_simps)

definition same_text :: "memory8 \<Rightarrow> 'a process_scheme \<Rightarrow> bool" where
  "same_text m s \<longleftrightarrow> local_char s \<noteq> 0 \<and> (\<forall>a. a \<noteq> local_char s \<longrightarrow> umem s a = m a)"

lemma same_text_printed [simp]: "same_text m (printed bs s) = same_text m s"
  by (simp add: same_text_def printed_def)

lemma put_all_emits:
  "local_char s \<noteq> 0 \<Longrightarrow> put_all poll cs k s = Some (k + of_nat (length cs), printed cs s)"
  by (induction cs arbitrary: k s) (simp_all add: putchar_emits)

lemma put_str_emits:
  "user_str m p = Some bs \<Longrightarrow> (\<And>i. i \<le> length bs \<Longrightarrow> local_char s \<noteq> p + of_nat i) \<Longrightarrow> same_text m s \<Longrightarrow>
    put_str poll p k s = Some (k + of_nat (length bs), printed bs s)"
proof (induction bs arbitrary: p k s)
  case Nil
  have "umem s p = 0" using Nil user_str_unfold [of m p] Nil(2) [of 0] by (auto simp: same_text_def split: if_splits)
  then show ?case by (subst put_str.simps) simp
next
  case (Cons b bs)
  have u: "m p \<noteq> 0" "b = m p" "user_str m (p + 1) = Some bs"
    using Cons.prems(1) user_str_unfold [of m p] by (auto split: if_splits)
  have at: "umem s p = b" using Cons.prems(2) [of 0] Cons.prems(3) u(2) by (auto simp: same_text_def)
  have "local_char s \<noteq> p + 1 + of_nat i" if "i \<le> length bs" for i
    using Cons.prems(2) [of "Suc i"] that by (simp add: algebra_simps)
  then have "put_str poll (p + 1) (k + 1) (printed [b] s) = Some (k + 1 + of_nat (length bs), printed bs (printed [b] s))"
    using Cons.prems(3) by (intro Cons.IH [OF u(3)]) simp_all
  then show ?case using u at Cons.prems(3)
    by (subst put_str.simps) (simp add: putchar_emits same_text_def algebra_simps)
qed

lemma put_string_emits:
  "user_str m p = Some bs \<Longrightarrow> \<not> (\<exists>i \<in> set [0 ..< Suc (length bs)]. local_char s = p + of_nat i) \<Longrightarrow> same_text m s \<Longrightarrow>
    \<exists>j. put_str poll p k s = Some (j, printed bs s)"
  using put_str_emits [of m p bs s poll k] by (auto simp: less_Suc_eq_le simp del: upt_Suc)

lemma print_conv_emits:
  assumes "conv_text m (local_char s) c args = Some (t, rest)" and "same_text m s"
  shows "\<exists>j. print_conv poll c args k s = Some (rest, j, printed t s)"
proof -
  have nz: "local_char s \<noteq> 0" using assms(2) by (simp add: same_text_def)
  note emits = print_int_decimal [OF nz] print_hex_digits [OF nz] putchar_emits put_all_emits [OF nz]
  show ?thesis
  proof (cases "c = of_char CHR ''s'' \<and> (\<exists>p ps. args = p # ps \<and> p \<noteq> 0)")
    case True
    then obtain p where "args = p # rest" "p \<noteq> 0" "user_str m p = Some t"
      "\<not> (\<exists>i \<in> set [0 ..< Suc (length t)]. local_char s = p + of_nat i)"
      using assms(1) by (auto simp: conv_text_def bind_eq_Some_conv simp del: upt_Suc split: if_splits)
    with True put_string_emits [OF _ _ assms(2), of p t poll k] show ?thesis
      by (auto simp: print_conv_def)
  next
    case False
    then show ?thesis
      using assms(1) nz
      by (auto simp: conv_text_def print_conv_def emits ucast_u32_u64 split: if_splits list.splits)
  qed
qed

lemma printf_from_emits:
  "format_text m (local_char s) fs args = Some t \<Longrightarrow> same_text m s \<Longrightarrow>
    \<exists>j. printf_from poll fs args k s = Some (j, printed t s)"
proof (induction "length fs" arbitrary: fs args t k s rule: less_induct)
  case less
  have nz: "local_char s \<noteq> 0" using less.prems(2) by (simp add: same_text_def)
  show ?case
  proof (cases fs)
    case (Cons c gs)
    show ?thesis
    proof (cases "c = 37")
      case True
      then obtain d hs where gs: "gs = d # hs" using less.prems(1) Cons by (cases gs) auto
      then obtain u rest v where u: "conv_text m (local_char s) d args = Some (u, rest)"
          "format_text m (local_char s) hs rest = Some v" "t = u @ v"
        using less.prems(1) Cons True by (auto simp: bind_eq_Some_conv)
      obtain j where j: "print_conv poll d args k s = Some (rest, j, printed u s)"
        using print_conv_emits [OF u(1) less.prems(2)] by blast
      have "\<exists>i. printf_from poll hs rest j (printed u s) = Some (i, printed v (printed u s))"
        using less.prems(2) u(2) gs Cons by (intro less.hyps) simp_all
      then show ?thesis using Cons True gs j u(3) by auto
    next
      case False
      then obtain v where v: "format_text m (local_char s) gs args = Some v" "t = c # v"
        using less.prems(1) Cons by auto
      have "\<exists>i. printf_from poll gs args (k + 1) (printed [c] s) = Some (i, printed v (printed [c] s))"
        using less.prems(2) v(1) Cons by (intro less.hyps) simp_all
      then show ?thesis using Cons False v(2) nz by (auto simp: putchar_emits)
    qed
  qed (use less.prems in simp)
qed

subsection \<open>String functions\<close>

lemma strlen_counts:
  assumes "user_str m p = Some bs"
  shows "strlen m p = Some (of_nat (length bs))"
proof -
  have "user_str m (p + k) = Some bs \<Longrightarrow> strlen_from m p k = Some (k + of_nat (length bs))" for k
  proof (induction bs arbitrary: k)
    case Nil
    then show ?case using user_str_unfold [of m "p + k"] by (subst strlen_from.simps) (auto split: if_splits)
  next
    case (Cons b bs)
    then have "m (p + k) \<noteq> 0" "user_str m (p + (k + 1)) = Some bs"
      using user_str_unfold [of m "p + k"] by (auto simp: add.assoc split: if_splits)
    with Cons.IH [of "k + 1"] show ?case by (subst strlen_from.simps) (simp add: add.commute add.left_commute)
  qed
  from this [of 0] assms show ?thesis by (simp add: strlen_def)
qed

lemma user_str_cong:
  "user_str m p = Some bs \<Longrightarrow> (\<And>i. i \<le> length bs \<Longrightarrow> m' (p + of_nat i) = m (p + of_nat i)) \<Longrightarrow> user_str m' p = Some bs"
proof (induction bs arbitrary: p)
  case Nil
  then show ?case using Nil(2) [of 0] user_str_unfold [of m p] user_str_unfold [of m' p] by (auto split: if_splits)
next
  case (Cons b bs)
  then have u: "m p = b" "b \<noteq> 0" "user_str m (p + 1) = Some bs" using user_str_unfold [of m p] by (auto split: if_splits)
  have "m' (p + 1 + of_nat i) = m (p + 1 + of_nat i)" if "i \<le> length bs" for i
    using Cons.prems(2) [of "Suc i"] that by (simp add: algebra_simps)
  with Cons.IH [OF u(3)] Cons.prems(2) [of 0] u show ?case by (simp add: user_str_unfold [of m' p])
qed

lemma strcpy_copies:
  "user_str m src = Some bs \<Longrightarrow>
    (\<And>i j. i \<le> length bs \<Longrightarrow> j \<le> length bs \<Longrightarrow> d + of_nat i \<noteq> src + of_nat j) \<Longrightarrow>
    strcpy d src m = Some (store_bytes d (bs @ [0]) m)"
proof (induction bs arbitrary: d src m)
  case Nil
  then show ?case using user_str_unfold [of m src] by (subst strcpy.simps) (auto simp: Let_def split: if_splits)
next
  case (Cons b bs)
  then have u: "m src = b" "b \<noteq> 0" "user_str m (src + 1) = Some bs"
    using user_str_unfold [of m src] by (auto split: if_splits)
  have far: "d + 1 + of_nat i \<noteq> src + 1 + of_nat j" if "i \<le> length bs" "j \<le> length bs" for i j
    using Cons.prems(2) [of "Suc i" "Suc j"] that by (simp add: algebra_simps)
  have "user_str (m(d := b)) (src + 1) = Some bs"
  proof (rule user_str_cong [OF u(3)])
    fix i assume "i \<le> length bs"
    then have "d \<noteq> src + 1 + of_nat i" using Cons.prems(2) [of 0 "Suc i"] by (simp add: algebra_simps)
    then show "(m(d := b)) (src + 1 + of_nat i) = m (src + 1 + of_nat i)" by simp
  qed
  from Cons.IH [OF this far] u show ?case by (subst strcpy.simps) (simp add: Let_def fun_upd_def)
qed

lemma memset_stores: "memset p c n m = store_bytes p (replicate n c) m"
  by (induction n arbitrary: p m) simp_all

lemma memcpy_copies:
  "(\<And>i j. i < n \<Longrightarrow> j < n \<Longrightarrow> d + of_nat i \<noteq> s + of_nat j) \<Longrightarrow>
    memcpy d s n m = store_bytes d (map (\<lambda>i. m (s + of_nat i)) [0 ..< n]) m"
proof (induction n arbitrary: d s m)
  case (Suc n)
  have far: "d + 1 + of_nat i \<noteq> s + 1 + of_nat j" if "i < n" "j < n" for i j
    using Suc.prems [of "Suc i" "Suc j"] that by (simp add: algebra_simps)
  have "d \<noteq> s + of_nat (Suc i)" if "i < n" for i using Suc.prems [of 0 "Suc i"] that by simp
  define m1 where "m1 = m(d := m s)"
  have "m1 (s + 1 + of_nat i) = m (s + of_nat (Suc i))" if "i < n" for i
    using \<open>\<And>i. i < n \<Longrightarrow> d \<noteq> s + of_nat (Suc i)\<close> [OF that] by (auto simp: m1_def add.assoc)
  then have eq: "map (\<lambda>i. m1 (s + 1 + of_nat i)) [0 ..< n] = map (\<lambda>i. m (s + of_nat (Suc i))) [0 ..< n]"
    by (intro map_cong refl) simp
  show ?case using Suc.IH [OF far, of m1, unfolded eq] m1_def [symmetric]
    by (simp add: map_upt_Suc del: upt_Suc of_nat_Suc)
qed simp


subsection \<open>The heap\<close>

text \<open>A run of allocations: the blocks that were returned, with the sizes asked for.\<close>

fun mallocs :: "u64 list \<Rightarrow> 'a process_scheme \<Rightarrow> (u64 \<times> u64) list \<times> 'a process_scheme" where
  "mallocs [] s = ([], s)"
| "mallocs (n # ns) s =
     (let (p, s1) = malloc n s; (ps, s2) = mallocs ns s1
      in (if p = 0 then ps else (p, n) # ps, s2))"

definition rounded :: "u64 \<Rightarrow> u64" where "rounded n = (n + 7) AND NOT 7"

lemma unat_and_not_7: "unat ((w :: u64) AND NOT 7) = unat w div 8 * 8"
proof -
  have "unat (w AND NOT (mask 3)) = push_bit 3 (drop_bit 3 (unat w))"
    by (rule bit_eqI) (auto simp: bit_unsigned_iff bit_and_iff bit_not_iff bit_mask_iff bit_push_bit_iff bit_drop_bit_eq
        dest: bit_imp_le_length)
  then show ?thesis by (simp add: mask_eq_exp_minus_1 push_bit_eq_mult drop_bit_eq_div)
qed

lemma rounded_up:
  assumes "unat n \<le> 2 ^ 63"
  shows "unat (rounded n) = (unat n + 7) div 8 * 8"
proof -
  have "unat (n + 7) = unat n + 7" using assms by (simp add: unat_plus_if_size word_size)
  then show ?thesis by (simp only: rounded_def unat_and_not_7)
qed

definition heap_ok :: "'a process_scheme \<Rightarrow> bool" where
  "heap_ok s \<longleftrightarrow> unat (heap_pos s) \<le> 65536 \<and> unat (heap_pos s) mod 8 = 0 \<and>
     heap_base s \<noteq> 0 \<and> unat (heap_base s) + 65536 < 2 ^ 64"

lemma malloc_eq:
  "malloc n s = (if HEAP_SIZE < heap_pos s + rounded n then (0, s)
     else (heap_base s + heap_pos s, s\<lparr>heap_pos := heap_pos s + rounded n\<rparr>))"
  unfolding malloc_def rounded_def Let_def by (rule refl)

lemma malloc_step:
  assumes ok: "heap_ok s" and n: "unat n \<le> 2 ^ 63" and res: "malloc n s = (p, s1)"
  shows "heap_ok s1" "heap_base s1 = heap_base s"
    and "if unat (heap_pos s) + (unat n + 7) div 8 * 8 \<le> 65536
      then p \<noteq> 0 \<and> unat p = unat (heap_base s) + unat (heap_pos s) \<and>
        unat (heap_pos s1) = unat (heap_pos s) + (unat n + 7) div 8 * 8
      else p = 0 \<and> s1 = s"
proof -
  have h: "unat (heap_pos s) \<le> 65536" "unat (heap_pos s) mod 8 = 0" "heap_base s \<noteq> 0" "unat (heap_base s) + 65536 < 2 ^ 64"
    using ok by (simp_all add: heap_ok_def)
  have r: "unat (rounded n) = (unat n + 7) div 8 * 8" by (rule rounded_up [OF n])
  have sum: "unat (heap_pos s + rounded n) = unat (heap_pos s) + (unat n + 7) div 8 * 8"
  proof -
    have "(unat n + 7) div 8 * 8 \<le> unat n + 7" by simp
    then have "unat (heap_pos s) + (unat n + 7) div 8 * 8 < 2 ^ 64" using h(1) n by simp
    then show ?thesis by (simp add: unat_plus_if_size word_size r)
  qed
  have addr: "unat (heap_base s + heap_pos s) = unat (heap_base s) + unat (heap_pos s)"
    using h by (simp add: unat_plus_if_size word_size)
  have "heap_base s + heap_pos s \<noteq> 0"
    using addr h(3) by (metis add_is_0 unat_eq_zero)
  then show "if unat (heap_pos s) + (unat n + 7) div 8 * 8 \<le> 65536
      then p \<noteq> 0 \<and> unat p = unat (heap_base s) + unat (heap_pos s) \<and>
        unat (heap_pos s1) = unat (heap_pos s) + (unat n + 7) div 8 * 8
      else p = 0 \<and> s1 = s"
    using res addr sum
    by (auto simp: malloc_eq HEAP_SIZE_def word_less_nat_alt split: if_splits)
  show "heap_base s1 = heap_base s" using res by (auto simp: malloc_def Let_def split: if_splits)
  show "heap_ok s1"
    using res ok sum h(2)
    by (auto simp: malloc_eq heap_ok_def HEAP_SIZE_def word_less_nat_alt not_less mod_simps split: if_splits)
qed

text \<open>Blocks one behind the other, in a heap from \<open>base\<close> on.\<close>

fun stacked :: "nat \<Rightarrow> nat \<Rightarrow> (u64 \<times> u64) list \<Rightarrow> bool" where
  "stacked base lo [] = True"
| "stacked base lo ((p, n) # ps) =
     (\<exists>k. unat p = base + k \<and> lo \<le> k \<and> k mod 8 = 0 \<and> k + unat n \<le> 65536 \<and> stacked base (k + unat n) ps)"

lemma stacked_mono: "stacked base lo ps \<Longrightarrow> l \<le> lo \<Longrightarrow> stacked base l ps"
  by (induction ps arbitrary: lo l) (auto intro: le_trans)

lemma mallocs_stack:
  "heap_ok s \<Longrightarrow> \<forall>n \<in> set ns. unat n \<le> 2 ^ 63 \<Longrightarrow> mallocs ns s = (ps, s1) \<Longrightarrow>
    stacked (unat (heap_base s)) (unat (heap_pos s)) ps"
proof (induction ns arbitrary: s ps s1)
  case (Cons n ns)
  obtain p s2 where m: "malloc n s = (p, s2)" by force
  obtain qs s3 where r: "mallocs ns s2 = (qs, s3)" by force
  have n: "unat n \<le> 2 ^ 63" using Cons.prems(2) by simp
  note st = malloc_step [OF Cons.prems(1) n m]
  have IH: "stacked (unat (heap_base s)) (unat (heap_pos s2)) qs"
    using Cons.IH [OF st(1) _ r] Cons.prems(2) st(2) by simp
  have up: "unat n \<le> (unat n + 7) div 8 * 8" by simp
  show ?case
  proof (cases "unat (heap_pos s) + (unat n + 7) div 8 * 8 \<le> 65536")
    case True
    then have p: "p \<noteq> 0" "unat p = unat (heap_base s) + unat (heap_pos s)"
      "unat (heap_pos s2) = unat (heap_pos s) + (unat n + 7) div 8 * 8" using st(3) by auto
    have "stacked (unat (heap_base s)) (unat (heap_pos s) + unat n) qs"
      using IH up p(3) by (auto elim!: stacked_mono)
    moreover have "ps = (p, n) # qs" using Cons.prems(3) m r p(1) by auto
    moreover have "unat (heap_pos s) mod 8 = 0" using Cons.prems(1) by (simp add: heap_ok_def)
    ultimately show ?thesis using p(2) True up by auto
  next
    case False
    then show ?thesis using st(3) IH Cons.prems(3) m r by auto
  qed
qed simp


lemma puts_prints:
  assumes "user_str (umem s) p = Some bs" and "p \<noteq> 0" "local_char s \<noteq> 0" "length bs < 2 ^ 64"
  shows "\<exists>s1. puts poll p s = Some s1 \<and> fb_out s1 = fb_out s @ bs @ [10]"
proof -
  have b: "map (\<lambda>i. umem s (p + of_nat i)) [0 ..< length bs] = bs"
    using assms(1)
  proof (induction bs arbitrary: p)
    case (Cons b bs)
    then have u: "umem s p = b" "user_str (umem s) (p + 1) = Some bs"
      using user_str_unfold [of "umem s" p] by (auto split: if_splits)
    from Cons.IH [OF u(2)] show ?case
      by (simp add: map_upt_Suc u(1) add.assoc del: upt_Suc)
  qed simp
  have len: "unat (of_nat (length bs) :: u64) = length bs" using assms(4) by (simp add: unat_of_nat_small)
  have nz: "bs \<noteq> [] \<Longrightarrow> (of_nat (length bs) :: u64) \<noteq> 0" using len by (metis length_0_conv unsigned_0)
  show ?thesis
  proof (cases "bs = []")
    case True
    then show ?thesis using assms strlen_counts [OF assms(1)]
      by (simp add: puts_def libc_write_def syscall3_def syscall_handler_def sys_write_def putchar_emits printed_def)
  next
    case False
    then show ?thesis using assms strlen_counts [OF assms(1)] nz len b
      by (simp add: puts_def libc_write_def syscall3_def syscall_handler_def sys_write_def of_cint_def to_int_def putchar_emits printed_def)
  qed
qed

subsection \<open>Properties\<close>

text \<open>
  C33 (functional, user library). \<open>printf\<close> of a program writes, through the write system call,
  exactly the text its format stands for to the console: strings from memory, numbers in the
  kernel's own decimal and hexadecimal notation, for all formats and arguments that have one;
  and it touches nothing else but the local variable of \<open>putchar\<close>. The one number without a
  correct text is the least \<open>long\<close>, which is printed as a minus and a parenthesis.
\<close>

theorem user_printf_prints:
  assumes "local_char s \<noteq> 0" and "format_text (umem s) (local_char s) fmt args = Some t"
  shows "(\<exists>k. printf poll fmt args s = Some (k, printed t s)) \<and> fb_out (printed t s) = fb_out s @ t \<and>
    print_int poll (word_of_int (- (2 ^ 63))) s = Some (printed [45, 40] s)"
  using printf_from_emits [of "umem s" s fmt args t poll 0] print_int_min [OF assms(1), of "word_of_int (- (2 ^ 63))" poll] assms
  by (simp add: printf_def same_text_def printed_def)

theorem user_printf_prints_witness:
  "\<exists>k s'. printf id (map of_char ''n=%d %s'') [- 7, 0x1000] ((kern.extend (demo_kern [72, 105]) (process.fields 0x2000 0x3000 0)) :: process) = Some (k, s') \<and>
     fb_out s' = map of_char ''n=-7 Hi''"
proof -
  let ?s = "(kern.extend (demo_kern [72, 105]) (process.fields 0x2000 0x3000 0)) :: process"
  have f: "local_char ?s = 0x2000" "umem ?s = store_bytes 0x1000 [72, 105, 0] (\<lambda>_. 0)" "fb_out ?s = []"
    by (simp_all add: kern.defs process.defs demo_kern_def fat.defs)
  have i: "itoa (- 7) 10 = ''-7''" by code_simp
  have "user_str (umem ?s) 0x1000 = Some [72, 105]" by (simp add: f user_str_unfold)
  then have "format_text (umem ?s) (local_char ?s) (map of_char ''n=%d %s'') [- 7, 0x1000] = Some (map of_char ''n=-7 Hi'')"
    by (simp add: f conv_text_def i atLeastLessThanSuc)
  from user_printf_prints [OF _ this, of id] show ?thesis by (auto simp: f)
qed


text \<open>
  C34 (safety, user library). Blocks that \<open>malloc\<close> returns for requests of at most half the address
  space lie in the heap, at offsets that are multiples of 8, one behind the other without overlap.
  A larger request wraps around and is granted; the next block is then one that is in use.
\<close>

theorem heap_blocks_apart:
  assumes "heap_ok s" and "\<forall>n \<in> set ns. unat n \<le> 2 ^ 63"
  shows "stacked (unat (heap_base s)) (unat (heap_pos s)) (fst (mallocs ns s)) \<and>
    (heap_pos s = 0 \<longrightarrow> fst (mallocs [8, - 15, 8] s) =
       [(heap_base s, 8), (heap_base s + 8, - 15), (heap_base s, 8)])"
proof -
  have "heap_base s \<noteq> 0" "unat (heap_base s + 8) = unat (heap_base s) + 8"
    using assms(1) by (simp_all add: heap_ok_def unat_plus_if_size word_size)
  then have "heap_base s \<noteq> 0" "heap_base s + 8 \<noteq> 0" by (auto simp: unat_eq_0 [symmetric] simp del: unat_eq_0)
  then show ?thesis
    using mallocs_stack [OF assms, of "fst (mallocs ns s)" "snd (mallocs ns s)"]
    by (simp add: malloc_def HEAP_SIZE_def Let_def)
qed


theorem heap_blocks_apart_witness:
  "stacked 0x3000 0 (fst (mallocs [3, 70000, 20] ((kern.extend (demo_kern []) (process.fields 0x2000 0x3000 0)) :: process))) \<and>
    fst (mallocs [3, 70000, 20] ((kern.extend (demo_kern []) (process.fields 0x2000 0x3000 0)) :: process)) =
      [(0x3000, 3), (0x3008, 20)]"
proof -
  let ?s = "(kern.extend (demo_kern []) (process.fields 0x2000 0x3000 0)) :: process"
  have f: "heap_base ?s = 0x3000" "heap_pos ?s = 0" by (simp_all add: kern.defs process.defs)
  then have "heap_ok ?s" by (simp add: heap_ok_def)
  from heap_blocks_apart [OF this, of "[3, 70000, 20]"] f show ?thesis
    by (simp add: malloc_def HEAP_SIZE_def Let_def)
qed

end
