(* ===== verification/Config.thy ===== *)
theory Config
  imports Prelude
begin

text \<open>
  The configuration tools: \<^verbatim>\<open>tools/menuconfig.c\<close> and \<^verbatim>\<open>tools/genconfig.c\<close>. Files are strings
  without NUL, read in lines as \<open>fgets\<close> does with a buffer of 1024 characters; keys pressed are a
  list of characters. What the menu draws is a string. A word that does not fit the array of 64
  characters \<open>sscanf\<close> stores it in is \<open>None\<close>, as is a read of a key that is not there. The two
  programs have a function \<open>load_config\<close> each; here they are \<open>load_config\<close> and \<open>load_vars\<close>.
\<close>

subsection \<open>Files and lines\<close>

definition is_space :: "char \<Rightarrow> bool" where
  "is_space c \<longleftrightarrow> c = CHR '' '' \<or> (9 \<le> (of_char c :: nat) \<and> (of_char c :: nat) \<le> 13)"

abbreviation eol :: char where "eol \<equiv> CHR 0x0A"

text \<open>One call of \<open>fgets\<close> for \<open>n\<close> characters and the rest of the file.\<close>

fun get_line :: "nat \<Rightarrow> string \<Rightarrow> string \<times> string" where
  "get_line 0 s = ([], s)"
| "get_line (Suc n) [] = ([], [])"
| "get_line (Suc n) (c # s) =
     (if c = eol then ([c], s) else apfst (Cons c) (get_line n s))"

lemma get_line_shorter:
  assumes "s \<noteq> []"
  shows "length (snd (get_line 1023 s)) < length s"
proof -
  have le: "length (snd (get_line n s)) \<le> length s" for n s
    by (induction n s rule: get_line.induct) auto
  obtain c r where s: "s = c # r" using assms by (cases s) auto
  have "get_line 1023 (c # r) = (if c = eol then ([c], r) else apfst (Cons c) (get_line 1022 r))"
    using get_line.simps(3) [of 1022 c r] by (simp del: get_line.simps)
  then show ?thesis using le [of 1022 r] by (simp add: s le_imp_less_Suc)
qed

function file_lines :: "string \<Rightarrow> string list" where
  "file_lines s =
     (if s = [] then [] else let (l, r) = get_line 1023 s in l # file_lines r)"
  by pat_completeness auto

termination
  by (relation "measure length") (use get_line_shorter in \<open>auto simp: prod_eq_iff\<close>)

declare file_lines.simps [simp del]

text \<open>The line without leading space, if it is neither empty nor a comment.\<close>

definition content :: "string \<Rightarrow> string option" where
  "content line =
     (case dropWhile is_space line of [] \<Rightarrow> None
      | c # p \<Rightarrow> if c = CHR ''#'' then None else Some (c # p))"

text \<open>\<open>strncmp\<close> with a constant, and \<open>strchr\<close>: what precedes and what follows a character.\<close>

definition has_prefix :: "string \<Rightarrow> string \<Rightarrow> bool" where
  "has_prefix w p \<longleftrightarrow> take (length w) p = w"

definition split_at :: "char \<Rightarrow> string \<Rightarrow> (string \<times> string) option" where
  "split_at x p =
     (case dropWhile (\<lambda>c. c \<noteq> x) p of [] \<Rightarrow> None
      | _ # r \<Rightarrow> Some (takeWhile (\<lambda>c. c \<noteq> x) p, r))"

definition scan_word :: "string \<Rightarrow> string" where
  "scan_word p = takeWhile (\<lambda>c. \<not> is_space c) (dropWhile is_space p)"

definition NAME_SIZE :: nat where "NAME_SIZE = 64"

text \<open>\<open>sscanf\<close> into an array; without a word nothing is stored.\<close>

definition scan_into :: "string \<Rightarrow> string \<Rightarrow> string option" where
  "scan_into p old =
     (let w = scan_word p
      in if w = [] then Some old else if NAME_SIZE \<le> length w then None else Some w)"

subsection \<open>menuconfig\<close>

record config_item =
  ci_name :: string
  ci_prompt :: string
  ci_value :: bool
  ci_help :: string
  ci_dependency :: string

definition MAX_ITEMS :: nat where "MAX_ITEMS = 64"

definition new_item :: "string \<Rightarrow> config_item" where
  "new_item nm = \<lparr>ci_name = nm, ci_prompt = [], ci_value = False, ci_help = [], ci_dependency = []\<rparr>"

text \<open>A line of the description of the current item.\<close>

definition item_line :: "string \<Rightarrow> bool \<Rightarrow> config_item \<Rightarrow> (config_item \<times> bool) option" where
  "item_line p help_mode it =
     (if has_prefix ''bool '' p then
        Some (case split_at (CHR 0x22) p of None \<Rightarrow> it
              | Some (_, q) \<Rightarrow>
                  (case split_at (CHR 0x22) q of None \<Rightarrow> it
                   | Some (t, _) \<Rightarrow> it\<lparr>ci_prompt := take 127 t\<rparr>), help_mode)
      else if has_prefix ''default '' p then
        Some (if take 1 (drop 8 p) = ''y'' then it\<lparr>ci_value := True\<rparr> else it, help_mode)
      else if has_prefix ''depends on '' p then
        map_option (\<lambda>w. (it\<lparr>ci_dependency := w\<rparr>, help_mode)) (scan_into (drop 11 p) (ci_dependency it))
      else if has_prefix ''help'' p then Some (it, True)
      else if help_mode then Some (it\<lparr>ci_help := ci_help it @ take (1023 - length (ci_help it)) p\<rparr>, help_mode)
      else Some (it, help_mode))"

text \<open>The state: the items so far, whether the last one is the current item, and \<open>help_mode\<close>.\<close>

definition kconfig_line :: "string \<Rightarrow> config_item list \<times> bool \<times> bool \<Rightarrow> (config_item list \<times> bool \<times> bool) option" where
  "kconfig_line line st =
     (case (content line, st) of
        (None, _) \<Rightarrow> Some st
      | (Some p, items, cur, help_mode) \<Rightarrow>
          if has_prefix ''config '' p then
            (if length items < MAX_ITEMS
             then map_option (\<lambda>w. (items @ [new_item w], True, False)) (scan_into (drop 7 p) [])
             else Some (items, False, help_mode))
          else if cur then
            map_option (\<lambda>(it, h). (butlast items @ [it], cur, h)) (item_line p help_mode (last items))
          else Some st)"

fun kconfig_lines :: "string list \<Rightarrow> config_item list \<times> bool \<times> bool \<Rightarrow> (config_item list \<times> bool \<times> bool) option" where
  "kconfig_lines [] st = Some st"
| "kconfig_lines (l # ls) st = do { st \<leftarrow> kconfig_line l st; kconfig_lines ls st }"

definition parse_kconfig :: "string \<Rightarrow> config_item list option" where
  "parse_kconfig file = map_option fst (kconfig_lines (file_lines file) ([], False, False))"

definition load_line :: "string \<Rightarrow> config_item list \<Rightarrow> config_item list" where
  "load_line line items =
     (case content line of None \<Rightarrow> items
      | Some p \<Rightarrow>
          (case split_at (CHR ''='') p of None \<Rightarrow> items
           | Some (key, r) \<Rightarrow>
               let val = dropWhile is_space r
               in map (\<lambda>it. if ci_name it = key then it\<lparr>ci_value := (take 1 val = ''y'')\<rparr> else it) items))"

definition load_config :: "string \<Rightarrow> config_item list \<Rightarrow> config_item list" where
  "load_config file items = fold load_line (file_lines file) items"

definition value_text :: "bool \<Rightarrow> string" where
  "value_text v = (if v then ''y'' else ''n'')"

definition save_config :: "config_item list \<Rightarrow> string" where
  "save_config items = ''# Generated config'' @ [eol] @
     concat (map (\<lambda>it. ci_name it @ ''='' @ value_text (ci_value it) @ [eol]) items)"

text \<open>An index behind the last item is one of an empty item.\<close>

definition item_at :: "config_item list \<Rightarrow> nat \<Rightarrow> config_item" where
  "item_at items i = (if i < length items then items ! i else new_item [])"

definition is_visible :: "config_item list \<Rightarrow> nat \<Rightarrow> bool" where
  "is_visible items i =
     (if ci_dependency (item_at items i) = [] then True
      else case find (\<lambda>it. ci_name it = ci_dependency (item_at items i)) items of
        None \<Rightarrow> True
      | Some it \<Rightarrow> ci_value it)"

definition validate_item :: "nat \<Rightarrow> config_item list \<Rightarrow> config_item list" where
  "validate_item i items =
     (if is_visible items i then items else items[i := (items ! i)\<lparr>ci_value := False\<rparr>])"

definition validate_dependencies :: "config_item list \<Rightarrow> config_item list" where
  "validate_dependencies items = fold validate_item [0 ..< length items] items"


text \<open>The screen, drawn after the validation.\<close>

definition menu_item :: "config_item list \<Rightarrow> nat \<Rightarrow> nat \<Rightarrow> string" where
  "menu_item items selected i =
     (let it = items ! i
      in (if i = selected then CHR 0x1B # ''[7m'' else []) @
         (if is_visible items i
          then '' ['' @ (if ci_value it then ''*'' else '' '') @ ''] '' @ ci_prompt it @ '' ''
          else '' [-] '' @ ci_prompt it @ '' (Depends on '' @ ci_dependency it @ '') '') @
         (if i = selected then CHR 0x1B # ''[0m'' else []) @ [eol])"

definition menu_screen :: "config_item list \<Rightarrow> nat \<Rightarrow> string" where
  "menu_screen items selected =
     CHR 0x1B # ''[2J'' @ CHR 0x1B # ''[H'' @
     CHR 0x1B # ''[1;37;44m Rhoudveine Kernel Configuration '' @ CHR 0x1B # ''[0m'' @ [eol, eol] @
     concat (map (menu_item items selected) [0 ..< length items]) @
     [eol] @ CHR 0x1B # ''[90m [Space] Toggle  [Enter] Save & Exit  [q] Quit'' @ CHR 0x1B # ''[0m'' @ [eol] @
     (if selected < length items
      then [eol] @ ''--- Help ---'' @ [eol] @ ci_help (items ! selected) else [])"

text \<open>
  The loop of \<open>main\<close> over the keys: the result is the file that is saved, if one is. A key that is
  waited for in vain leaves the variable it is stored in undefined, except within an escape
  sequence, where the end of the input ends the program.
\<close>

definition toggle :: "nat \<Rightarrow> config_item list \<Rightarrow> config_item list" where
  "toggle i items =
     (if is_visible items i then items[i := (items ! i)\<lparr>ci_value := \<not> ci_value (items ! i)\<rparr>] else items)"

definition move :: "char \<Rightarrow> char \<Rightarrow> nat \<Rightarrow> nat \<Rightarrow> nat" where
  "move a b n selected =
     (if a \<noteq> CHR ''['' then selected
      else if b = CHR ''A'' then selected - 1
      else if b = CHR ''B'' \<and> selected + 1 < n then selected + 1
      else selected)"

fun menu_loop :: "config_item list \<Rightarrow> nat \<Rightarrow> string \<Rightarrow> string option option" where
  "menu_loop items selected [] = None"
| "menu_loop items selected (c # keys) =
     (let items = validate_dependencies items
      in if c = CHR ''q'' then Some None
         else if c = eol then Some (Some (save_config items))
         else if c = CHR '' '' then menu_loop (toggle selected items) selected keys
         else if c = CHR 0x1B then
           (case keys of
              a # b # rest \<Rightarrow> menu_loop items (move a b (length items) selected) rest
            | _ \<Rightarrow> Some None)
         else menu_loop items selected keys)"

definition menuconfig :: "string \<Rightarrow> string \<Rightarrow> string \<Rightarrow> string option option" where
  "menuconfig kconfig config keys = do {
     items \<leftarrow> parse_kconfig kconfig;
     menu_loop (load_config config items) 0 keys }"

subsection \<open>genconfig\<close>

definition MAX_VARS :: nat where "MAX_VARS = 128"

text \<open>Space is removed from the end of a string, but not its first character.\<close>

definition trim_end :: "string \<Rightarrow> string" where
  "trim_end p = take 1 p @ rev (dropWhile is_space (rev (drop 1 p)))"

definition var_line :: "string \<Rightarrow> (string \<times> string) list \<Rightarrow> (string \<times> string) list" where
  "var_line line vars =
     (case content line of None \<Rightarrow> vars
      | Some p \<Rightarrow>
          (case split_at (CHR ''='') p of None \<Rightarrow> vars
           | Some (key, r) \<Rightarrow>
               if length vars < MAX_VARS
               then vars @ [(take 63 (trim_end key), take 63 (trim_end (dropWhile is_space r)))]
               else vars))"

definition load_vars :: "string \<Rightarrow> (string \<times> string) list" where
  "load_vars file = fold var_line (file_lines file) []"

definition autoconf_h :: "(string \<times> string) list \<Rightarrow> string" where
  "autoconf_h vars =
     ''#ifndef AUTOCONF_H'' @ [eol] @ ''#define AUTOCONF_H'' @ [eol, eol] @
     ''// Automatically generated file. Do not edit.'' @ [eol, eol] @
     concat (map (\<lambda>(key, v). if v = ''y'' then ''#define '' @ key @ '' 1'' @ [eol]
                             else ''// #undef '' @ key @ [eol]) vars) @
     [eol] @ ''#endif'' @ [eol]"

definition config_mk :: "(string \<times> string) list \<Rightarrow> string" where
  "config_mk vars =
     ''# Automatically generated file. Do not edit.'' @ [eol, eol] @
     concat (map (\<lambda>(key, v). key @ '' := '' @ v @ [eol]) vars)"

text \<open>Both files, or the usage message; opening the files succeeds.\<close>

definition genconfig :: "nat \<Rightarrow> string \<Rightarrow> (string \<times> string) option" where
  "genconfig argc config =
     (if argc < 5 then None else Some (autoconf_h (load_vars config), config_mk (load_vars config)))"


subsection \<open>A configuration file as lines\<close>

definition good_name :: "string \<Rightarrow> bool" where
  "good_name nm \<longleftrightarrow> nm \<noteq> [] \<and> length nm < NAME_SIZE \<and>
     (\<forall>c \<in> set nm. c \<noteq> CHR ''='' \<and> c \<noteq> CHR ''#'' \<and> \<not> is_space c)"

definition entry :: "config_item \<Rightarrow> string" where
  "entry it = ci_name it @ ''='' @ value_text (ci_value it) @ [eol]"

lemma eol_space: "is_space eol" "\<not> is_space (CHR ''#'')" "\<not> is_space (CHR ''y'')" "\<not> is_space (CHR ''n'')"
  by (simp_all add: is_space_def)

lemma get_line_at: "eol \<notin> set l \<Longrightarrow> length l < n \<Longrightarrow> get_line n (l @ eol # r) = (l @ [eol], r)"
proof (induction l arbitrary: n)
  case Nil
  then show ?case by (cases n) simp_all
next
  case (Cons c l)
  then show ?case by (cases n) auto
qed

lemma file_lines_at:
  assumes "eol \<notin> set l" and "length l < 1023"
  shows "file_lines (l @ eol # r) = (l @ [eol]) # file_lines r"
  by (subst file_lines.simps) (simp add: get_line_at [OF assms])

lemma good_nameD:
  assumes "good_name nm"
  shows "eol \<notin> set nm" "dropWhile is_space (nm @ r) = nm @ r" "\<exists>c cs. nm = c # cs \<and> c \<noteq> CHR ''#''"
    "takeWhile (\<lambda>c. c \<noteq> CHR ''='') (nm @ CHR ''='' # r) = nm"
    "dropWhile (\<lambda>c. c \<noteq> CHR ''='') (nm @ CHR ''='' # r) = CHR ''='' # r"
    "\<not> is_space (last nm)" "length nm < 64"
proof -
  obtain c cs where nm: "nm = c # cs" using assms by (cases nm) (auto simp: good_name_def)
  show "eol \<notin> set nm" using assms eol_space(1) by (auto simp: good_name_def)
  show "dropWhile is_space (nm @ r) = nm @ r" "\<exists>c cs. nm = c # cs \<and> c \<noteq> CHR ''#''"
    using assms by (auto simp: good_name_def nm)
  show "takeWhile (\<lambda>c. c \<noteq> CHR ''='') (nm @ CHR ''='' # r) = nm"
    "dropWhile (\<lambda>c. c \<noteq> CHR ''='') (nm @ CHR ''='' # r) = CHR ''='' # r"
    using assms by (auto simp: good_name_def takeWhile_append dropWhile_append3 dropWhile_append)
  show "\<not> is_space (last nm)" "length nm < 64" using assms by (auto simp: good_name_def NAME_SIZE_def)
qed

lemma saved_lines:
  assumes "\<forall>it \<in> set items. good_name (ci_name it)"
  shows "file_lines (save_config items) = (''# Generated config'' @ [eol]) # map entry items"
proof -
  have "file_lines (concat (map (\<lambda>it. ci_name it @ ''='' @ value_text (ci_value it) @ [eol]) items)) = map entry items"
    using assms
  proof (induction items)
    case (Cons it items)
    have "eol \<notin> set (ci_name it @ ''='' @ value_text (ci_value it))"
      "length (ci_name it @ ''='' @ value_text (ci_value it)) < 1023"
      using good_nameD(1,7) [of "ci_name it"] Cons.prems by (auto simp: value_text_def)
    from file_lines_at [OF this] Cons show ?case by (simp add: entry_def)
  qed (simp add: file_lines.simps)
  then show ?thesis using file_lines_at [of "''# Generated config''"] by (simp add: save_config_def)
qed

lemma entry_content:
  assumes "good_name (ci_name it)"
  shows "content (entry it) = Some (entry it)"
    and "split_at (CHR ''='') (entry it) = Some (ci_name it, value_text (ci_value it) @ [eol])"
  using good_nameD [OF assms] by (auto simp: content_def entry_def split_at_def)

lemma load_entry:
  assumes "good_name (ci_name j)"
  shows "load_line (entry j) items = map (\<lambda>it. if ci_name it = ci_name j then it\<lparr>ci_value := ci_value j\<rparr> else it) items"
proof -
  have "dropWhile is_space (value_text v @ [eol]) = value_text v @ [eol]" for v
    by (simp add: value_text_def eol_space)
  then show ?thesis
    using entry_content [OF assms] by (auto simp: load_line_def value_text_def)
qed

definition assign :: "config_item \<Rightarrow> config_item \<Rightarrow> config_item" where
  "assign j it = (if ci_name it = ci_name j then it\<lparr>ci_value := ci_value j\<rparr> else it)"

lemma comment_line: "load_line (''# Generated config'' @ [eol]) items = items" "var_line (''# Generated config'' @ [eol]) vs = vs"
  by (simp_all add: load_line_def var_line_def content_def is_space_def)

lemma load_saved:
  assumes "\<forall>it \<in> set items. good_name (ci_name it)"
  shows "load_config (save_config items) its = map (fold assign items) its"
proof -
  have "fold load_line (map entry items) its = map (fold assign items) its"
    using assms
  proof (induction items arbitrary: its)
    case (Cons j items)
    then show ?case using load_entry [of j its] by (simp add: assign_def [abs_def] comp_def)
  qed (simp add: map_idI)
  then show ?thesis by (simp add: load_config_def saved_lines [OF assms] comment_line(1) [simplified])
qed


lemma assign_other: "ci_name it \<notin> ci_name ` set js \<Longrightarrow> fold assign js it = it"
  by (induction js) (auto simp: assign_def)

lemma assign_own:
  "distinct (map ci_name js) \<Longrightarrow> it \<in> set js \<Longrightarrow> fold assign js (it\<lparr>ci_value := v\<rparr>) = it"
proof (induction js arbitrary: v)
  case (Cons j js)
  show ?case
  proof (cases "it = j")
    case True
    then have "ci_name it \<notin> ci_name ` set js" using Cons.prems(1) by auto
    then have "fold assign js j = j" using True by (simp add: assign_other)
    moreover have "assign j (j\<lparr>ci_value := v\<rparr>) = j" by (simp add: assign_def)
    ultimately show ?thesis using True by simp
  next
    case False
    then have js: "it \<in> set js" using Cons.prems(2) by simp
    then have "ci_name it \<in> ci_name ` set js" by simp
    then have "ci_name it \<noteq> ci_name j" using Cons.prems(1) by auto
    then show ?thesis using Cons js by (simp add: assign_def)
  qed
qed simp

lemma trim_end_last: "p \<noteq> [] \<Longrightarrow> \<not> is_space (last p) \<Longrightarrow> trim_end p = p"
proof -
  assume p: "p \<noteq> []" "\<not> is_space (last p)"
  then obtain c q where q: "p = c # q" by (cases p) auto
  show ?thesis
  proof (cases "q = []")
    case False
    then obtain l r where "q = r @ [l]" by (metis rev_exhaust)
    then show ?thesis using p q by (simp add: trim_end_def)
  qed (simp add: trim_end_def q)
qed

lemma var_entry:
  assumes "good_name (ci_name j)" and "length vs < MAX_VARS"
  shows "var_line (entry j) vs = vs @ [(ci_name j, value_text (ci_value j))]"
proof -
  have "trim_end (dropWhile is_space (value_text v @ [eol])) = value_text v" "length (value_text v) \<le> 63" for v
    by (auto simp: value_text_def eol_space trim_end_def)
  moreover have "trim_end (ci_name j) = ci_name j" "length (ci_name j) \<le> 63"
    using good_nameD(3,6,7) [OF assms(1)] by (auto intro!: trim_end_last)
  ultimately show ?thesis
    using entry_content [OF assms(1)] assms(2) by (simp add: var_line_def)
qed

lemma vars_saved:
  assumes "\<forall>it \<in> set items. good_name (ci_name it)" and "length items \<le> MAX_VARS"
  shows "load_vars (save_config items) = map (\<lambda>it. (ci_name it, value_text (ci_value it))) items"
proof -
  have "fold var_line (map entry items) vs = vs @ map (\<lambda>it. (ci_name it, value_text (ci_value it))) items"
    if "length vs + length items \<le> MAX_VARS" for vs
    using that assms(1)
  proof (induction items arbitrary: vs)
    case (Cons j items)
    then show ?case by (simp add: var_entry)
  qed simp
  from this [of "[]"] assms(2) show ?thesis
    by (simp add: load_vars_def saved_lines [OF assms(1)] comment_line(2) [simplified])
qed

subsection \<open>Dependencies\<close>

text \<open>What the loop keeps of an item.\<close>

definition declared :: "config_item \<Rightarrow> string \<times> string" where
  "declared it = (ci_name it, ci_dependency it)"

text \<open>Every item stands behind the one it depends on, if there is one.\<close>

definition in_order :: "config_item list \<Rightarrow> bool" where
  "in_order items \<longleftrightarrow> (\<forall>i \<in> set [0 ..< length items].
     ci_dependency (items ! i) \<in> ci_name ` set (take i items) \<or> ci_dependency (items ! i) \<notin> ci_name ` set items)"

definition consistent :: "config_item list \<Rightarrow> bool" where
  "consistent items \<longleftrightarrow> (\<forall>i \<in> set [0 ..< length items]. ci_value (items ! i) \<longrightarrow> is_visible items i)"

lemma find_take:
  assumes "\<exists>x \<in> set (take i xs). P x"
  shows "find P xs = find P (take i xs)"
proof -
  have "find P (as @ bs) = find P as" if "\<exists>x \<in> set as. P x" for as bs
    using that by (induction as) auto
  from this [of "take i xs" "drop i xs"] assms show ?thesis by simp
qed

lemma visible_cong:
  assumes "in_order items" and "map declared its = map declared items" "map declared its' = map declared items"
    and "take i its' = take i its" and "i < length items"
  shows "is_visible its' i = is_visible its i"
proof -
  have len: "length its = length items" "length its' = length items"
    using assms(2,3) by (metis length_map)+
  have names: "ci_name ` set js = ci_name ` set items" if "map declared js = map declared items" for js
  proof -
    have "map ci_name js = map ci_name items"
      using arg_cong [OF that, of "map fst"] by (simp add: declared_def comp_def)
    then show ?thesis by (metis list.set_map)
  qed
  have dep: "ci_dependency (js ! i) = ci_dependency (items ! i)" if "map declared js = map declared items" for js
    using arg_cong [OF that, of "\<lambda>l. snd (l ! i)"] assms(5) arg_cong [OF that, of length] by (simp add: declared_def)
  have tk: "ci_name ` set (take i its) = ci_name ` set (take i items)"
  proof -
    have "map ci_name (take i its) = map ci_name (take i items)"
      using arg_cong [OF assms(2), of "\<lambda>l. map fst (take i l)"] by (simp add: declared_def comp_def take_map)
    then show ?thesis by (metis list.set_map)
  qed
  let ?d = "ci_dependency (items ! i)"
  consider "?d \<in> ci_name ` set (take i items)" | "?d \<notin> ci_name ` set items"
    using assms(1,5) unfolding in_order_def by (metis atLeast_upt lessThan_iff)
  then show ?thesis
  proof cases
    case 1
    then have "\<exists>x \<in> set (take i its). ci_name x = ?d" using tk by (metis imageE)
    then have "find (\<lambda>it. ci_name it = ?d) its' = find (\<lambda>it. ci_name it = ?d) its"
      using find_take [of i its "\<lambda>it. ci_name it = ?d"] find_take [of i its' "\<lambda>it. ci_name it = ?d"] assms(4) by simp
    then show ?thesis using dep [OF assms(2)] dep [OF assms(3)] assms(5) len
      by (simp add: is_visible_def item_at_def)
  next
    case 2
    then have "?d \<notin> ci_name ` set its" "?d \<notin> ci_name ` set its'"
      using names [OF assms(2)] names [OF assms(3)] by simp_all
    then have "find (\<lambda>it. ci_name it = ?d) its = None" "find (\<lambda>it. ci_name it = ?d) its' = None"
      unfolding find_None_iff image_iff by metis+
    then show ?thesis using dep [OF assms(2)] dep [OF assms(3)] assms(5) len
      by (simp add: is_visible_def item_at_def)
  qed
qed


lemma declared_update: "map declared (xs[i := (xs ! i)\<lparr>ci_value := v\<rparr>]) = map declared xs"
  by (cases "i < length xs") (auto simp: nth_list_update declared_def intro!: nth_equalityI)

lemma validate_item_keeps:
  "length (validate_item i items) = length items" "map declared (validate_item i items) = map declared items"
  "take i (validate_item i items) = take i items"
  by (simp_all add: validate_item_def declared_update)

lemma validate_consistent:
  assumes "in_order items" and "map declared its = map declared items"
  shows "consistent (validate_dependencies its) \<and> map declared (validate_dependencies its) = map declared items"
proof -
  have len: "length its = length items" using assms(2) by (metis length_map)
  have "n \<le> length its \<Longrightarrow>
    (let r = fold validate_item [0 ..< n] its in map declared r = map declared items \<and>
       (\<forall>k < n. ci_value (r ! k) \<longrightarrow> is_visible r k))" for n
  proof (induction n)
    case 0
    then show ?case using assms(2) by simp
  next
    case (Suc n)
    define r where "r = fold validate_item [0 ..< n] its"
    have r: "map declared r = map declared items" "\<forall>k < n. ci_value (r ! k) \<longrightarrow> is_visible r k"
      using Suc by (simp_all add: r_def Let_def)
    have lr: "length r = length items" using r(1) by (metis length_map)
    let ?r = "validate_item n r"
    note keep = validate_item_keeps [of n r]
    have decl: "map declared ?r = map declared items" using keep(2) r(1) by simp
    have same: "is_visible ?r k = is_visible r k" if "k \<le> n" "k < length items" for k
    proof (rule visible_cong [OF assms(1) r(1) decl _ that(2)])
      show "take k ?r = take k r" using arg_cong [OF keep(3), of "take k"] that(1) by (simp add: min_def)
    qed
    have "ci_value (?r ! k) \<longrightarrow> is_visible ?r k" if "k < Suc n" for k
    proof (cases "k = n")
      case True
      then show ?thesis using same [of n] Suc.prems len lr by (auto simp: validate_item_def split: if_splits)
    next
      case False
      then have "?r ! k = r ! k" by (simp add: validate_item_def)
      then show ?thesis using same [of k] r(2) that False Suc.prems len by simp
    qed
    then show ?case using decl by (simp add: r_def Let_def)
  qed
  from this [of "length its"] show ?thesis
    using len validate_item_keeps
    by (auto simp: validate_dependencies_def consistent_def Let_def dest: arg_cong [where f = length])
qed

lemma toggle_declared: "map declared (toggle i items) = map declared items"
  by (simp add: toggle_def declared_update)

lemma menu_saves:
  "menu_loop its selected keys = Some (Some file) \<Longrightarrow> in_order items \<Longrightarrow> map declared its = map declared items \<Longrightarrow>
    \<exists>r. file = save_config r \<and> consistent r \<and> map declared r = map declared items"
proof (induction its selected keys rule: menu_loop.induct)
  case (2 its selected c keys)
  let ?v = "validate_dependencies its"
  note v = validate_consistent [OF 2(5,6)]
  show ?case
  proof (cases "c = CHR ''q'' \<or> c = eol")
    case True
    then show ?thesis using 2(4) v by (auto simp: Let_def)
  next
    case run: False
    show ?thesis
    proof (cases "c = CHR 0x1B")
      case True
      then obtain a b rest where keys: "keys = a # b # rest"
        using 2(4) run by (auto simp: Let_def split: list.splits)
      with 2(4) run True have "menu_loop ?v (move a b (length ?v) selected) rest = Some (Some file)"
        by (simp add: Let_def)
      with 2(2) [OF refl] keys run True v 2(5) show ?thesis by auto
    next
      case False
      then have "menu_loop (if c = CHR '' '' then toggle selected ?v else ?v) selected keys = Some (Some file)"
        using 2(4) run by (auto simp: Let_def)
      with 2(1,3) [OF refl] False run v 2(5) toggle_declared [of selected ?v] show ?thesis
        by (auto split: if_splits)
    qed
  qed
qed simp

text \<open>One pass in the order of declaration is not enough in another order.\<close>

lemma one_pass_misses:
  defines "it \<equiv> (\<lambda>nm dep v. \<lparr>ci_name = nm, ci_prompt = [], ci_value = v, ci_help = [], ci_dependency = dep\<rparr>)"
  shows "map ci_value (validate_dependencies [it ''A'' ''B'' True, it ''B'' ''C'' True, it ''C'' [] False]) = [True, False, False]"
  unfolding it_def by code_simp


lemma load_config_declared: "map declared (load_config file items) = map declared items"
proof -
  have line: "map declared (load_line l its) = map declared its" for l its
    by (auto simp: load_line_def Let_def declared_def split: option.splits)
  have "map declared (fold load_line ls its) = map declared its" for ls its
    by (induction ls arbitrary: its) (simp_all add: line)
  then show ?thesis by (simp add: load_config_def)
qed

subsection \<open>Properties\<close>

text \<open>
  C35 (roundtrip, configuration tools). A saved configuration is read back as it was: by
  \<open>load_config\<close> of menuconfig into the same items with any other values, and by genconfig as the
  names with \<open>y\<close> or \<open>n\<close>, in order. Names are distinct words that fit their array.
\<close>

theorem config_file_roundtrip:
  assumes "\<forall>it \<in> set items. good_name (ci_name it)" and "distinct (map ci_name items)"
    and "length items \<le> MAX_ITEMS"
  shows "load_config (save_config items) (map (\<lambda>it. it\<lparr>ci_value := old it\<rparr>) items) = items \<and>
    load_vars (save_config items) = map (\<lambda>it. (ci_name it, if ci_value it then ''y'' else ''n'')) items"
  using assms load_saved [OF assms(1)] vars_saved [OF assms(1)]
  by (auto simp: assign_own MAX_ITEMS_def MAX_VARS_def value_text_def intro!: map_idI)

text \<open>
  What a configuration has to satisfy: when an option is on that depends on a declared one, the first option
  declared with that name is on.
\<close>

definition deps_met :: "config_item list \<Rightarrow> bool" where
  "deps_met items \<longleftrightarrow> (\<forall>i < length items. ci_value (items ! i) \<longrightarrow> ci_dependency (items ! i) \<noteq> [] \<longrightarrow>
     (\<forall>k < length items. ci_name (items ! k) = ci_dependency (items ! i) \<longrightarrow>
        (\<forall>j < k. ci_name (items ! j) \<noteq> ci_dependency (items ! i)) \<longrightarrow> ci_value (items ! k)))"

lemma consistent_deps: "consistent items \<Longrightarrow> deps_met items"
  unfolding deps_met_def
proof (intro allI impI)
  fix i k
  assume c: "consistent items" and i: "i < length items" "ci_value (items ! i)" "ci_dependency (items ! i) \<noteq> []"
    and k: "k < length items" "ci_name (items ! k) = ci_dependency (items ! i)"
      "\<forall>j < k. ci_name (items ! j) \<noteq> ci_dependency (items ! i)"
  have "find (\<lambda>it. ci_name it = ci_dependency (items ! i)) items = Some (items ! k)"
    using k by (auto simp: find_Some_iff)
  moreover have "is_visible items i" using c i by (simp add: consistent_def)
  ultimately show "ci_value (items ! k)" using i by (simp add: is_visible_def item_at_def)
qed

text \<open>
  C36 (invariant, configuration tools). Whatever keys are pressed, in a configuration that menuconfig
  saves every option that is on and depends on a declared option has that option on, provided every
  option of the Kconfig file is declared behind the one it depends on. The options and their
  dependencies are those declared.
\<close>

theorem saved_config_consistent:
  assumes "parse_kconfig kconfig = Some items" and "in_order items"
    and "menuconfig kconfig config keys = Some (Some file)"
  shows "\<exists>r. file = save_config r \<and> deps_met r \<and>
    map (\<lambda>it. (ci_name it, ci_dependency it)) r = map (\<lambda>it. (ci_name it, ci_dependency it)) items"
proof -
  obtain r where "file = save_config r" "consistent r" "map declared r = map declared items"
    using menu_saves [OF _ assms(2) load_config_declared, of config] assms(1,3)
    by (fastforce simp: menuconfig_def)
  then show ?thesis using consistent_deps by (auto simp: declared_def [abs_def])
qed

definition demo_items :: "config_item list" where
  "demo_items = [(new_item ''CONFIG_A'')\<lparr>ci_value := True\<rparr>, (new_item ''CONFIG_B'')\<lparr>ci_dependency := ''CONFIG_A''\<rparr>]"

definition demo_kconfig :: string where
  "demo_kconfig = ''config CONFIG_A'' @ [eol] @ ''  default y'' @ [eol] @ ''config CONFIG_B'' @ [eol] @
     ''  depends on CONFIG_A'' @ [eol]"

theorem config_file_roundtrip_witness:
  "load_config (save_config demo_items) (map (\<lambda>it. it\<lparr>ci_value := False\<rparr>) demo_items) = demo_items \<and>
    load_vars (save_config demo_items) = [(''CONFIG_A'', ''y''), (''CONFIG_B'', ''n'')]"
proof -
  have "\<forall>it \<in> set demo_items. good_name (ci_name it)" "distinct (map ci_name demo_items)"
    "length demo_items \<le> MAX_ITEMS" by code_simp+
  from config_file_roundtrip [OF this, of "\<lambda>_. False"] show ?thesis by (simp add: demo_items_def new_item_def)
qed

text \<open>Both options on, then the first one off again, and saved.\<close>

theorem saved_config_consistent_witness:
  "\<exists>r. save_config r = save_config [new_item ''CONFIG_A'', (new_item ''CONFIG_B'')\<lparr>ci_dependency := ''CONFIG_A''\<rparr>] \<and>
    deps_met r"
proof -
  let ?keys = "[CHR 0x1B, CHR ''['', CHR ''B'', CHR '' '', CHR 0x1B, CHR ''['', CHR ''A'', CHR '' '', eol]"
  have k: "parse_kconfig demo_kconfig = Some demo_items" by code_simp
  have o: "in_order demo_items" by code_simp
  have "menuconfig demo_kconfig [] ?keys = Some (Some (save_config
      [new_item ''CONFIG_A'', (new_item ''CONFIG_B'')\<lparr>ci_dependency := ''CONFIG_A''\<rparr>]))"
    by code_simp
  from saved_config_consistent [OF k o this] show ?thesis by metis
qed

end
