(* ===== verification/Startup.thy ===== *)
theory Startup
  imports Config
begin

text \<open>
  The order in which \<open>kernel_main\<close> (\<^verbatim>\<open>core/main.c\<close>) starts the parts of the kernel, for every
  configuration, and the options of \<^verbatim>\<open>Kconfig\<close> it depends on. A configuration tells which
  symbols \<^verbatim>\<open>autoconf.h\<close> defines. What the calls do is in the theories of the parts; messages and the
  tone at the start are left out.
\<close>

subsection \<open>The sequence of calls\<close>

datatype startup_call =
    Init_gdt | Serial_init | Find_hhdm | Find_rsdp | Scan_modules | Setup_screen | Init_idt | Mm_init
  | Setup_backbuffer | Pit_init | Sched_init | Cpufreq_init | Blk_init | Syscall_init | Vnode_init | Nvnode_init
  | Ps2_init | Acpi_init | Vray_init | Ahci_init | Usb_hid_init | Vfs_init | Fat32_register | Devfs_register
  | Procfs_register | Ramfs_register | Mount_root | Make_dirs | Mount_devices | Mount_processes | Usb_init
  | Vnode_populate | Nvnode_populate | Vnode_dump | Nvnode_dump | Print_banner | Enable_interrupts | Run_init
  | Panic_shell

type_synonym configuration = "string \<Rightarrow> bool"

definition only_if :: "bool \<Rightarrow> startup_call list \<Rightarrow> startup_call list" where
  "only_if b calls = (if b then calls else [])"

definition core_calls :: "configuration \<Rightarrow> startup_call list" where
  "core_calls cfg =
     [Setup_screen, Init_idt, Mm_init, Setup_backbuffer, Pit_init] @
     only_if (cfg ''CONFIG_SMP'') [Sched_init] @
     only_if (cfg ''CONFIG_CPU_FREQ'') [Cpufreq_init] @
     [Blk_init, Syscall_init]"

definition device_calls :: "configuration \<Rightarrow> startup_call list" where
  "device_calls cfg =
     only_if (cfg ''CONFIG_VNODE'') [Vnode_init] @
     only_if (cfg ''CONFIG_NVNODE'') [Nvnode_init] @
     only_if (cfg ''CONFIG_PS2'') [Ps2_init] @
     only_if (cfg ''CONFIG_ACPI'') [Acpi_init] @
     only_if (cfg ''CONFIG_VRAY'') [Vray_init] @
     [Ahci_init] @
     only_if (cfg ''CONFIG_USB_HID'') [Usb_hid_init]"

definition file_system_calls :: "configuration \<Rightarrow> startup_call list" where
  "file_system_calls cfg =
     only_if (cfg ''CONFIG_VFS'')
       ([Vfs_init] @ only_if (cfg ''CONFIG_FAT32'') [Fat32_register] @ [Devfs_register, Procfs_register] @
        only_if (cfg ''CONFIG_RAMFS'') [Ramfs_register]) @
     [Mount_root, Make_dirs, Mount_devices, Mount_processes]"

definition late_calls :: "configuration \<Rightarrow> startup_call list" where
  "late_calls cfg =
     only_if (cfg ''CONFIG_XHCI'') [Usb_init] @
     only_if (cfg ''CONFIG_VNODE'') [Vnode_populate] @
     only_if (cfg ''CONFIG_NVNODE'') [Nvnode_populate] @
     only_if (cfg ''CONFIG_VNODE'') [Vnode_dump] @
     only_if (cfg ''CONFIG_NVNODE'') [Nvnode_dump] @
     [Print_banner, Enable_interrupts, Run_init]"

text \<open>
  The calls made, if the boot loader has the base revision or not and reports a framebuffer or not, and if
  the linked init program comes back or not. Without the revision the kernel spins, without a
  framebuffer \<open>kernel_main\<close> returns.
\<close>

definition kernel_main :: "configuration \<Rightarrow> bool \<Rightarrow> bool \<Rightarrow> bool \<Rightarrow> bool \<Rightarrow> startup_call list" where
  "kernel_main cfg revision_supported modules_reported fb_reported init_returns =
     [Init_gdt, Serial_init] @
     (if \<not> revision_supported then []
      else [Find_hhdm, Find_rsdp] @ only_if modules_reported [Scan_modules] @
        (if \<not> fb_reported then []
         else core_calls cfg @ device_calls cfg @ file_system_calls cfg @ late_calls cfg @
           only_if init_returns [Panic_shell]))"

subsection \<open>What the calls rely on\<close>

text \<open>
  What a call reads or uses that others set up: the direct map that physical addresses are read through
  (\<open>hhdm_offset\<close>); the code segment of the interrupt table, and the table itself where interrupts
  can come; the frame allocator and the page tables for buffers and mapped registers; the list of PCI devices; the
  pools of device nodes; the tables of the virtual file system; \<open>acpi_cpu_count\<close> and
  \<open>acpi_cpu_apic_ids\<close>, which \<open>acpi_init\<close> fills, for \<open>sched_init\<close> (\<^verbatim>\<open>core/sched.c\<close>) and cpuinfo; for the
  init program the screen, the timer, the files, the disk, power management and the keyboards. A
  part that is not configured is not waited for.
\<close>

fun needs :: "configuration \<Rightarrow> startup_call \<Rightarrow> startup_call list" where
  "needs cfg Init_idt = [Init_gdt]"
| "needs cfg Scan_modules = [Serial_init]"
| "needs cfg Mm_init = [Find_hhdm]"
| "needs cfg Setup_backbuffer = [Setup_screen]"
| "needs cfg Sched_init = only_if (cfg ''CONFIG_ACPI'') [Acpi_init]"
| "needs cfg Ps2_init = [Init_idt]"
| "needs cfg Acpi_init = [Find_hhdm, Find_rsdp]"
| "needs cfg Ahci_init = only_if (cfg ''CONFIG_VRAY'') [Vray_init] @ [Mm_init]"
| "needs cfg Fat32_register = [Vfs_init]"
| "needs cfg Devfs_register = [Vfs_init]"
| "needs cfg Procfs_register = [Vfs_init]"
| "needs cfg Ramfs_register = [Vfs_init]"
| "needs cfg Mount_root = [Vfs_init] @ only_if (cfg ''CONFIG_RAMFS'') [Ramfs_register]"
| "needs cfg Make_dirs = [Mount_root]"
| "needs cfg Mount_devices = [Make_dirs, Devfs_register]"
| "needs cfg Mount_processes = [Make_dirs, Procfs_register, Mm_init] @ only_if (cfg ''CONFIG_ACPI'') [Acpi_init]"
| "needs cfg Usb_init = [Mm_init, Find_hhdm, Vray_init] @ only_if (cfg ''CONFIG_NVNODE'') [Nvnode_init]"
| "needs cfg Vnode_populate = [Vnode_init, Vray_init]"
| "needs cfg Nvnode_populate = [Nvnode_init, Vnode_populate]"
| "needs cfg Vnode_dump = [Vnode_populate]"
| "needs cfg Nvnode_dump = [Nvnode_init] @ only_if (cfg ''CONFIG_XHCI'') [Usb_init]"
| "needs cfg Enable_interrupts = [Init_gdt, Init_idt, Pit_init]"
| "needs cfg Run_init = [Setup_screen, Enable_interrupts, Mount_devices, Mount_processes, Ahci_init] @
     only_if (cfg ''CONFIG_ACPI'') [Acpi_init] @ only_if (cfg ''CONFIG_PS2'') [Ps2_init] @
     only_if (cfg ''CONFIG_XHCI'') [Usb_init]"
| "needs cfg Panic_shell = [Setup_screen, Enable_interrupts]"
| "needs cfg c = []"

text \<open>The calls of a sequence that are made before something they need.\<close>

fun made_early :: "configuration \<Rightarrow> startup_call set \<Rightarrow> startup_call list \<Rightarrow> startup_call list" where
  "made_early cfg done_calls [] = []"
| "made_early cfg done_calls (c # cs) =
     only_if (\<not> set (needs cfg c) \<subseteq> done_calls) [c] @ made_early cfg (insert c done_calls) cs"

subsection \<open>The options\<close>

text \<open>The lines of \<^verbatim>\<open>Kconfig\<close>.\<close>

definition kconfig_lines_text :: "string list" where
  \<open>kconfig_lines_text =
     [''config CONFIG_ACPI'',
      ''    bool "Enable ACPI Support"'',
      ''    default y'',
      ''    help'',
      ''        Enable Advanced Configuration and Power Interface (ACPI) support.'',
      ''        This allows the kernel to discover hardware via ACPI tables.'',
      [],
      ''config CONFIG_VRAY'',
      ''    bool "Enable VRAY (PCI) Support"'',
      ''    default y'',
      ''    help'',
      ''        Enable the VRAY PCI enumeration driver.'',
      ''        Required for discovering PCI devices.'',
      [],
      ''config CONFIG_VNODE'',
      ''    bool "Enable VNODE Support"'',
      ''    default y'',
      ''    depends on CONFIG_VRAY'',
      ''    help'',
      ''        Enable VNODE subsystem (initialized from PCI devices).'',
      [],
      ''config CONFIG_NVNODE'',
      ''    bool "Enable NVNODE Support"'',
      ''    default y'',
      ''    depends on CONFIG_VNODE'',
      ''    help'',
      ''        Enable NVNODE subsystem (initialized from USB devices found via VNODE controllers).'',
      [],
      ''config CONFIG_XHCI'',
      ''    bool "Enable xHCI (USB 3.0) Support"'',
      ''    default y'',
      ''    depends on CONFIG_VRAY'',
      ''    help'',
      ''        Enable support for the Extensible Host Controller Interface.'',
      ''        Required for USB 3.0 devices.'',
      [],
      ''config CONFIG_PS2'',
      ''    bool "Enable PS/2 Keyboard/Mouse Support"'',
      ''    default y'',
      ''    help'',
      ''        Enable support for legacy PS/2 input devices.'',
      [],
      ''config CONFIG_VFS'',
      ''    bool "Enable Virtual File System (VFS)"'',
      ''    default y'',
      ''    help'',
      ''        Enable the Virtual File System layer.'',
      ''        Required for file operations.'',
      [],
      ''config CONFIG_RAMFS'',
      ''    bool "Enable RamFS Support"'',
      ''    default y'',
      ''    depends on CONFIG_VFS'',
      ''    help'',
      ''        Enable the in-memory filesystem (RamFS).'',
      ''        Used for the root filesystem if no disk is available.'',
      [],
      ''config CONFIG_FAT32'',
      ''    bool "Enable FAT32 Filesystem Support"'',
      ''    default y'',
      ''    depends on CONFIG_VFS'',
      ''    help'',
      ''        Enable support for the FAT32 filesystem.'',
      ''        Required for reading from DOS/Windows formatted disks.'',
      [],
      ''config CONFIG_DEBUG_SERIAL'',
      ''    bool "Enable Serial Debug Output"'',
      ''    default y'',
      ''    help'',
      ''        Send kernel debug messages to the serial port (COM1).'',
      ''        Useful for debugging on emulators like QEMU.'',
      [],
      ''config CONFIG_SMP'',
      ''    bool "Enable SMP (Multi-core) Support"'',
      ''    default y'',
      ''    help'',
      ''        Enable symmetric multiprocessing support.'',
      ''        Required for multi-core CPUs.'',
      [],
      ''config CONFIG_SMT_SCHED'',
      ''    bool "Enable SMT-aware Scheduling"'',
      ''    default y'',
      ''    depends on CONFIG_SMP'',
      ''    help'',
      ''        Enable hyper-threading aware task scheduling.'',
      ''        Prefers physical cores over logical cores.'',
      [],
      ''config CONFIG_CPU_FREQ'',
      ''    bool "Enable CPU Frequency Scaling"'',
      ''    default y'',
      ''    help'',
      ''        Enable CPU frequency scaling support.'',
      [],
      ''config CONFIG_CPU_FREQ_INTEL'',
      ''    bool "Intel SpeedStep Driver"'',
      ''    default y'',
      ''    depends on CONFIG_CPU_FREQ'',
      ''    help'',
      ''        Intel Enhanced SpeedStep (EIST) driver.'',
      [],
      ''config CONFIG_IOSCHED_MQ_DEADLINE'',
      ''    bool "MQ-Deadline I/O Scheduler"'',
      ''    default y'',
      ''    help'',
      ''        Deadline-based I/O scheduler for block devices.'',
      [],
      ''config CONFIG_IOSCHED_KYBER'',
      ''    bool "Kyber I/O Scheduler"'',
      ''    default n'',
      ''    help'',
      ''        Token-based I/O scheduler for fast storage.'',
      [],
      ''config CONFIG_IOSCHED_BFQ'',
      ''    bool "BFQ I/O Scheduler"'',
      ''    default n'',
      ''    help'',
      ''        Budget Fair Queueing scheduler for interactive workloads.'',
      [],
      ''config CONFIG_USB_HID'',
      ''    bool "USB HID Class Driver"'',
      ''    default y'',
      ''    depends on CONFIG_XHCI'',
      ''    help'',
      ''        USB Human Interface Device class driver.'',
      [],
      ''config CONFIG_USB_KBD'',
      ''    bool "USB Keyboard Driver"'',
      ''    default y'',
      ''    depends on CONFIG_USB_HID'',
      ''    help'',
      ''        Generic USB keyboard driver.'']\<close>

definition kconfig_text :: string where
  "kconfig_text = concat (map (\<lambda>l. l @ [eol]) kconfig_lines_text)"

text \<open>The symbols that \<^verbatim>\<open>genconfig\<close> defines for a saved configuration.\<close>

definition configured :: "string \<Rightarrow> configuration" where
  "configured file nm \<longleftrightarrow> (nm, ''y'') \<in> set (load_vars file)"

text \<open>Reading the names and dependencies alone.\<close>

definition decl_line :: "string \<Rightarrow> (string \<times> string) list \<times> bool \<Rightarrow> ((string \<times> string) list \<times> bool) option" where
  "decl_line line st =
     (case (content line, st) of
        (None, _) \<Rightarrow> Some st
      | (Some p, ds, cur) \<Rightarrow>
          if has_prefix ''config '' p then
            (if length ds < MAX_ITEMS then map_option (\<lambda>w. (ds @ [(w, [])], True)) (scan_into (drop 7 p) []) else Some (ds, False))
          else if cur \<and> \<not> has_prefix ''bool '' p \<and> \<not> has_prefix ''default '' p \<and> has_prefix ''depends on '' p then
            map_option (\<lambda>w. (butlast ds @ [(fst (last ds), w)], cur)) (scan_into (drop 11 p) (snd (last ds)))
          else Some st)"

fun decl_lines :: "string list \<Rightarrow> (string \<times> string) list \<times> bool \<Rightarrow> ((string \<times> string) list \<times> bool) option" where
  "decl_lines [] st = Some st"
| "decl_lines (l # ls) st = do { st \<leftarrow> decl_line l st; decl_lines ls st }"

definition only_decls :: "config_item list \<times> bool \<times> bool \<Rightarrow> (string \<times> string) list \<times> bool" where
  "only_decls st = (case st of (items, cur, _) \<Rightarrow> (map declared items, cur))"

definition line_state :: "config_item list \<times> bool \<times> bool \<Rightarrow> bool" where
  "line_state st \<longleftrightarrow> (case st of (items, cur, _) \<Rightarrow> cur \<longrightarrow> items \<noteq> [])"

lemma append_last: "xs \<noteq> [] \<Longrightarrow> y = last xs \<Longrightarrow> butlast xs @ [y] = xs"
  by simp

lemma decl_line_of:
  assumes "line_state st"
  shows "map_option only_decls (kconfig_line l st) = decl_line l (only_decls st)"
proof -
  obtain items cur h where st: "st = (items, cur, h)" by (cases st)
  show ?thesis
  proof (cases "content l")
    case None
    then show ?thesis by (simp add: st kconfig_line_def decl_line_def only_decls_def)
  next
    case (Some p)
    show ?thesis
    proof (cases "has_prefix ''config '' p \<or> \<not> cur")
      case True
      with Some show ?thesis
        by (auto simp: st kconfig_line_def decl_line_def only_decls_def declared_def new_item_def option.map_comp comp_def)
    next
      case False
      then obtain its it where items: "items = its @ [it]" using assms by (cases items rule: rev_cases) (auto simp: st line_state_def)
      show ?thesis using False Some
        by (auto simp: st items kconfig_line_def decl_line_def item_line_def only_decls_def declared_def option.map_comp comp_def
          split: option.splits)
    qed
  qed
qed

lemma line_state_kept: "line_state st \<Longrightarrow> kconfig_line l st = Some st' \<Longrightarrow> line_state st'"
  by (auto simp: line_state_def kconfig_line_def split: option.splits if_splits prod.splits)

lemma decl_lines_of: "line_state st \<Longrightarrow> map_option only_decls (kconfig_lines ls st) = decl_lines ls (only_decls st)"
proof (induction ls arbitrary: st)
  case Nil
  show ?case by simp
next
  case (Cons l ls)
  show ?case
  proof (cases "kconfig_line l st")
    case None
    with decl_line_of [OF Cons.prems, of l] show ?thesis by simp
  next
    case (Some st')
    then have "decl_line l (only_decls st) = Some (only_decls st')"
      using decl_line_of [OF Cons.prems, of l] by simp
    with Some Cons.IH [OF line_state_kept [OF Cons.prems Some]] show ?thesis by simp
  qed
qed

lemma file_lines_concat:
  assumes "list_all (\<lambda>l. eol \<notin> set l \<and> length l < 1023) ls"
  shows "file_lines (concat (map (\<lambda>l. l @ [eol]) ls)) = map (\<lambda>l. l @ [eol]) ls"
  using assms by (induction ls) (simp_all add: file_lines_at file_lines.simps [of "[]"])

lemma kconfig_lines_short: "list_all (\<lambda>l. eol \<notin> set l \<and> length l < 1023) kconfig_lines_text"
  by (simp add: kconfig_lines_text_def)

definition kconfig_declared :: "(string \<times> string) list" where
  "kconfig_declared = [(''CONFIG_ACPI'', []), (''CONFIG_VRAY'', []), (''CONFIG_VNODE'', ''CONFIG_VRAY''),
     (''CONFIG_NVNODE'', ''CONFIG_VNODE''), (''CONFIG_XHCI'', ''CONFIG_VRAY''), (''CONFIG_PS2'', []),
     (''CONFIG_VFS'', []), (''CONFIG_RAMFS'', ''CONFIG_VFS''), (''CONFIG_FAT32'', ''CONFIG_VFS''),
     (''CONFIG_DEBUG_SERIAL'', []), (''CONFIG_SMP'', []), (''CONFIG_SMT_SCHED'', ''CONFIG_SMP''),
     (''CONFIG_CPU_FREQ'', []), (''CONFIG_CPU_FREQ_INTEL'', ''CONFIG_CPU_FREQ''),
     (''CONFIG_IOSCHED_MQ_DEADLINE'', []), (''CONFIG_IOSCHED_KYBER'', []), (''CONFIG_IOSCHED_BFQ'', []),
     (''CONFIG_USB_HID'', ''CONFIG_XHCI''), (''CONFIG_USB_KBD'', ''CONFIG_USB_HID'')]"

lemma kconfig_decls: "decl_lines (map (\<lambda>l. l @ [eol]) kconfig_lines_text) ([], False) = Some (kconfig_declared, True)"
  by code_simp

lemma kconfig_parsed: "\<exists>items. parse_kconfig kconfig_text = Some items \<and> map declared items = kconfig_declared"
  using decl_lines_of [of "([], False, False)" "map (\<lambda>l. l @ [eol]) kconfig_lines_text"]
  by (auto simp: parse_kconfig_def kconfig_text_def file_lines_concat [OF kconfig_lines_short] line_state_def only_decls_def
    kconfig_decls)

text \<open>The dependencies hold.\<close>

definition closed_config :: "configuration \<Rightarrow> bool" where
  "closed_config cfg \<longleftrightarrow> (\<forall>(nm, dep) \<in> set kconfig_declared. dep \<noteq> [] \<longrightarrow> cfg nm \<longrightarrow> cfg dep)"

lemma saved_configured:
  assumes "map declared r = kconfig_declared"
  shows "configured (save_config r) nm \<longleftrightarrow> (\<exists>it \<in> set r. ci_name it = nm \<and> ci_value it)"
proof -
  have names: "map ci_name r = map fst kconfig_declared"
    unfolding assms [symmetric] by (simp add: declared_def [abs_def])
  have "list_all good_name (map fst kconfig_declared)" by code_simp
  then have good: "\<forall>it \<in> set r. good_name (ci_name it)"
    unfolding names [symmetric] by (simp only: list_all_iff set_map ball_simps)
  have "length (map ci_name r) \<le> MAX_VARS" unfolding names by (simp add: kconfig_declared_def MAX_VARS_def)
  then have "load_vars (save_config r) = map (\<lambda>it. (ci_name it, value_text (ci_value it))) r"
    by (intro vars_saved [OF good]) simp
  then show ?thesis by (auto simp: configured_def value_text_def split: if_splits)
qed

lemma closed_saved:
  assumes r: "consistent r" "map declared r = kconfig_declared"
  shows "closed_config (configured (save_config r))"
proof -
  have names: "map ci_name r = map fst kconfig_declared"
    unfolding r(2) [symmetric] by (simp add: declared_def [abs_def])
  note on = saved_configured [OF r(2)]
  have "configured (save_config r) dep" if d: "(nm, dep) \<in> set kconfig_declared" "dep \<noteq> []" "configured (save_config r) nm" for nm dep
  proof -
    have "distinct (map ci_name r)" unfolding names by code_simp
    moreover obtain it jt where "it \<in> set r" "ci_name it = nm" "ci_value it" "jt \<in> set r" "declared jt = (nm, dep)"
      using d(1,3) unfolding on r(2) [symmetric] by auto
    ultimately have it: "it \<in> set r" "ci_value it" "ci_dependency it = dep"
      by (auto simp: declared_def distinct_map inj_on_def)
    then obtain i where i: "i < length r" "r ! i = it" by (auto simp: in_set_conv_nth)
    with it(2) r(1) have "is_visible r i" by (auto simp: consistent_def)
    moreover have "\<exists>jt \<in> set r. ci_name jt = dep"
    proof -
      have "list_all (\<lambda>(_, dep). dep = [] \<or> dep \<in> set (map fst kconfig_declared)) kconfig_declared" by code_simp
      with d(1,2) have "dep \<in> set (map ci_name r)" unfolding names by (auto simp: list_all_iff)
      then show ?thesis by auto
    qed
    ultimately show ?thesis using i it(3) d(2)
      by (auto simp: is_visible_def item_at_def on find_None_iff find_Some_iff split: option.splits)
  qed
  then show ?thesis by (auto simp: closed_config_def)
qed

lemma made_early_append:
  "made_early cfg d (xs @ ys) = made_early cfg d xs @ made_early cfg (d \<union> set xs) ys"
  by (induction xs arbitrary: d) auto

lemma only_if_simps:
  "only_if False xs = []" "only_if True xs = xs"
  "x \<in> set (only_if b xs) \<longleftrightarrow> b \<and> x \<in> set xs"
  "set (only_if b xs) \<subseteq> d \<longleftrightarrow> (b \<longrightarrow> set xs \<subseteq> d)"
  by (cases b; simp add: only_if_def)+

lemma early_only_if: "made_early cfg d (only_if b xs) = only_if b (made_early cfg d xs)"
  by (simp add: only_if_def)

lemma closedD:
  assumes "closed_config cfg"
  shows "cfg ''CONFIG_VNODE'' \<Longrightarrow> cfg ''CONFIG_VRAY''" "cfg ''CONFIG_NVNODE'' \<Longrightarrow> cfg ''CONFIG_VNODE''"
    "cfg ''CONFIG_XHCI'' \<Longrightarrow> cfg ''CONFIG_VRAY''"
  using assms by (simp_all add: closed_config_def kconfig_declared_def)

lemma only_if_none [simp]: "only_if b [] = []"
  by (simp add: only_if_def)

lemma only_if_empty: "only_if b xs = [] \<longleftrightarrow> \<not> b \<or> xs = []"
  by (simp add: only_if_def)

lemma only_if_both: "only_if b (only_if c xs) = only_if (b \<and> c) xs"
  by (simp add: only_if_def)

lemmas early_simps = made_early_append early_only_if only_if_simps only_if_both

lemma core_early:
  assumes "{Init_gdt, Find_hhdm} \<subseteq> d" and "Acpi_init \<notin> d"
  shows "made_early cfg d (core_calls cfg) = only_if (cfg ''CONFIG_SMP'' \<and> cfg ''CONFIG_ACPI'') [Sched_init]"
  using assms by (cases "cfg ''CONFIG_ACPI''") (simp_all add: core_calls_def early_simps)

lemma parts_in_sequence:
  assumes "closed_config cfg"
  shows "{Init_idt, Find_hhdm, Find_rsdp, Mm_init} \<subseteq> d \<Longrightarrow> made_early cfg d (device_calls cfg) = []"
    "{Mm_init} \<subseteq> d \<Longrightarrow> cfg ''CONFIG_ACPI'' \<longrightarrow> Acpi_init \<in> d \<Longrightarrow> cfg ''CONFIG_VFS'' \<Longrightarrow>
       made_early cfg d (file_system_calls cfg) = []"
    "{Init_gdt, Init_idt, Find_hhdm, Mm_init, Pit_init, Setup_screen, Mount_devices, Mount_processes, Ahci_init} \<subseteq> d \<Longrightarrow>
       cfg ''CONFIG_VRAY'' \<longrightarrow> Vray_init \<in> d \<Longrightarrow> cfg ''CONFIG_VNODE'' \<longrightarrow> Vnode_init \<in> d \<Longrightarrow>
       cfg ''CONFIG_NVNODE'' \<longrightarrow> Nvnode_init \<in> d \<Longrightarrow> cfg ''CONFIG_ACPI'' \<longrightarrow> Acpi_init \<in> d \<Longrightarrow>
       cfg ''CONFIG_PS2'' \<longrightarrow> Ps2_init \<in> d \<Longrightarrow> made_early cfg d (late_calls cfg) = []"
  using closedD [OF assms]
  by (simp_all add: device_calls_def file_system_calls_def late_calls_def early_simps) (auto simp: only_if_empty)

lemma parts_made:
  "set (core_calls cfg) \<supseteq> {Setup_screen, Init_idt, Mm_init, Pit_init}" "Ahci_init \<in> set (device_calls cfg)"
  "cfg ''CONFIG_ACPI'' \<longrightarrow> Acpi_init \<in> set (device_calls cfg)" "cfg ''CONFIG_VRAY'' \<longrightarrow> Vray_init \<in> set (device_calls cfg)"
  "cfg ''CONFIG_VNODE'' \<longrightarrow> Vnode_init \<in> set (device_calls cfg)" "cfg ''CONFIG_NVNODE'' \<longrightarrow> Nvnode_init \<in> set (device_calls cfg)"
  "cfg ''CONFIG_PS2'' \<longrightarrow> Ps2_init \<in> set (device_calls cfg)"
  "{Mount_devices, Mount_processes} \<subseteq> set (file_system_calls cfg)" "Enable_interrupts \<in> set (late_calls cfg)"
  by (simp_all add: core_calls_def device_calls_def file_system_calls_def late_calls_def only_if_simps)

lemma startup_early:
  assumes "closed_config cfg" and "cfg ''CONFIG_VFS''"
  shows "made_early cfg {} (kernel_main cfg revision mods fb ret) =
    only_if (revision \<and> fb \<and> cfg ''CONFIG_SMP'' \<and> cfg ''CONFIG_ACPI'') [Sched_init]"
proof -
  note p = parts_in_sequence [OF assms(1)] and m = parts_made [of cfg]
  let ?d = "set ([Init_gdt, Serial_init] @ [Find_hhdm, Find_rsdp] @ only_if mods [Scan_modules])"
  have core: "made_early cfg ?d (core_calls cfg) = only_if (cfg ''CONFIG_SMP'' \<and> cfg ''CONFIG_ACPI'') [Sched_init]"
    by (rule core_early) (simp_all add: only_if_simps)
  let ?e = "?d \<union> set (core_calls cfg)"
  have device: "made_early cfg ?e (device_calls cfg) = []" by (rule p(1)) (use m(1) in simp)
  let ?f = "?e \<union> set (device_calls cfg)"
  have files: "made_early cfg ?f (file_system_calls cfg) = []" by (rule p(2)) (use m(1,3) assms(2) in simp_all)
  let ?g = "?f \<union> set (file_system_calls cfg)"
  have late: "made_early cfg ?g (late_calls cfg) = []" by (rule p(3)) (use m(1-8) in simp_all)
  have panic: "made_early cfg (?g \<union> set (late_calls cfg)) (only_if ret [Panic_shell]) = []"
    using m(1,9) by (simp add: early_simps)
  have first: "made_early cfg {} ([Init_gdt, Serial_init] @ [Find_hhdm, Find_rsdp] @ only_if mods [Scan_modules]) = []"
    by (simp add: early_simps)
  have all: "made_early cfg {} (([Init_gdt, Serial_init] @ [Find_hhdm, Find_rsdp] @ only_if mods [Scan_modules]) @
      core_calls cfg @ device_calls cfg @ file_system_calls cfg @ late_calls cfg @ only_if ret [Panic_shell]) =
      only_if (cfg ''CONFIG_SMP'' \<and> cfg ''CONFIG_ACPI'') [Sched_init]"
    using first core device files late panic
    by (simp only: made_early_append Un_empty_left Un_assoc append_Nil append_Nil2)
  show ?thesis
  proof (cases "revision \<and> fb")
    case True
    then show ?thesis using all by (simp add: kernel_main_def)
  next
    case False
    then show ?thesis using first by (auto simp: kernel_main_def made_early_append only_if_simps)
  qed
qed

text \<open>Without the virtual file system the mounts are still made, before anything set up its tables.\<close>

lemma mounts_without_vfs:
  "\<not> cfg ''CONFIG_VFS'' \<Longrightarrow> Mount_root \<in> set (kernel_main cfg True modules True init_returns) \<and>
     Vfs_init \<notin> set (kernel_main cfg True modules True init_returns)"
  by (simp add: kernel_main_def core_calls_def device_calls_def file_system_calls_def late_calls_def only_if_simps)

definition decls_in_order :: "(string \<times> string) list \<Rightarrow> bool" where
  "decls_in_order ds \<longleftrightarrow> (\<forall>i \<in> set [0 ..< length ds].
     snd (ds ! i) \<in> fst ` set (take i ds) \<or> snd (ds ! i) \<notin> fst ` set ds)"

lemma in_order_decls: "in_order items \<longleftrightarrow> decls_in_order (map declared items)"
  unfolding in_order_def decls_in_order_def length_map
  by (rule ball_cong [OF refl]) (simp add: take_map image_image declared_def)

lemma kconfig_in_order: "decls_in_order kconfig_declared"
  by code_simp

lemma validate_keeps_independent:
  assumes "\<exists>it \<in> set its. ci_name it = nm \<and> ci_dependency it = [] \<and> ci_value it"
  shows "\<exists>it \<in> set (validate_dependencies its). ci_name it = nm \<and> ci_dependency it = [] \<and> ci_value it"
proof -
  have step: "\<exists>it \<in> set (validate_item i js). ci_name it = nm \<and> ci_dependency it = [] \<and> ci_value it"
    if has: "\<exists>it \<in> set js. ci_name it = nm \<and> ci_dependency it = [] \<and> ci_value it" for i js
  proof -
    obtain it where it: "it \<in> set js" "ci_name it = nm" "ci_dependency it = []" "ci_value it" using has by blast
    then obtain k where "k < length js" "js ! k = it" by (auto simp: in_set_conv_nth)
    with it have k: "k < length js" "ci_name (js ! k) = nm" "ci_dependency (js ! k) = []" "ci_value (js ! k)" by simp_all
    have "validate_item i js ! k = js ! k"
    proof (cases "i = k")
      case True
      have "is_visible js k" using k(1,3) by (simp add: is_visible_def item_at_def)
      with True show ?thesis by (simp add: validate_item_def)
    next
      case False
      then show ?thesis by (simp add: validate_item_def)
    qed
    moreover have "validate_item i js ! k \<in> set (validate_item i js)"
      using k(1) by (intro nth_mem) (simp add: validate_item_def)
    ultimately show ?thesis using k(2-4) by (intro bexI [of _ "js ! k"]) simp_all
  qed
  have "\<exists>it \<in> set (fold validate_item is its). ci_name it = nm \<and> ci_dependency it = [] \<and> ci_value it" for "is"
    using assms by (induction "is" arbitrary: its) (simp_all add: step)
  then show ?thesis by (simp add: validate_dependencies_def)
qed

subsection \<open>Properties\<close>



end
