(* ===== verification/Panic.thy ===== *)
theory Panic
  imports Input Fmt Console
begin

text \<open>
  The panic screen of \<^verbatim>\<open>core/panic.c\<close>, the speaker of \<^verbatim>\<open>include/beep.h\<close> and the set-up of the
  serial port of \<^verbatim>\<open>drivers/serial.c\<close>. What is written to the
  console is a list of its operations. The processor is an argument: it tells for every number of
  calls of the console and the speaker that have been made which registers the moves to the snapshot find then,
  as every call leaves other values in them, and which memory, in words of 64 bits, where reading a word that is
  not mapped is a fault. The results of \<open>try_getchar\<close> are a list; waiting for the keyboard when it
  is used up is the end of the session. Interrupts, disabled during the first dump, have no counterpart here.
  A fault or a division by zero is \<open>None\<close>.
\<close>

subsection \<open>State\<close>

record regs_snapshot =
  rip :: u64
  rsp :: u64
  rbp :: u64
  rax :: u64
  rbx :: u64
  rcx :: u64
  rdx :: u64
  rsi :: u64
  rdi :: u64
  r8 :: u64
  r9 :: u64
  r10 :: u64
  r11 :: u64
  r12 :: u64
  r13 :: u64
  r14 :: u64
  r15 :: u64

type_synonym words = "u64 \<Rightarrow> u64 option"
type_synonym processor = "nat \<Rightarrow> regs_snapshot \<times> words"

record panic = input +
  console_ops :: "console_op list"
  saved_regs :: regs_snapshot
  saved_regs_valid :: bool
  calls :: nat
  stopped :: bool

definition write_ops :: "console_op list \<Rightarrow> 'a panic_scheme \<Rightarrow> 'a panic_scheme" where
  "write_ops ops s = s\<lparr>console_ops := console_ops s @ ops, calls := calls s + length ops\<rparr>"

definition print_format :: "string \<Rightarrow> va list \<Rightarrow> 'a panic_scheme \<Rightarrow> 'a panic_scheme option" where
  "print_format fmt args s = map_option (\<lambda>t. write_ops [Print t 0xFFFFFFFF] s) (kprintf fmt args)"

abbreviation line_feed :: string where "line_feed \<equiv> [CHR 0x0A]"

subsection \<open>The speaker\<close>

text \<open>The wait between the sounds changes nothing. Division by zero is \<open>None\<close>.\<close>

definition beep :: "u32 \<Rightarrow> u32 \<Rightarrow> bool \<Rightarrow> 'a input_scheme \<Rightarrow> 'a input_scheme option" where
  "beep duration_ms frequency_hz stop s =
     (if frequency_hz = 0 then None
      else
        let divisor = 1193180 div frequency_hz;
            s1 = outb 0x42 (ucast (drop_bit 8 divisor AND 0xFF)) (outb 0x42 (ucast (divisor AND 0xFF)) (outb 0x43 0xB6 s));
            (tmp, s2) = inb 0x61 s1;
            s3 = (if tmp \<noteq> tmp OR 3 then outb 0x61 (tmp OR 3) s2 else s2)
        in Some (if stop then (let (tmp, s4) = inb 0x61 s3 in outb 0x61 (tmp AND 0xFC) s4) else s3))"

text \<open>The set-up of the serial port, \<^verbatim>\<open>drivers/serial.c\<close>.\<close>

definition SERIAL_PORT :: u16 where "SERIAL_PORT = 0x3F8"

definition serial_init :: "'a input_scheme \<Rightarrow> 'a input_scheme" where
  "serial_init s = fold (\<lambda>(k, v). outb (SERIAL_PORT + k) v)
     [(1, 0x00), (3, 0x80), (0, 0x01), (1, 0x00), (3, 0x03), (2, 0xC7), (4, 0x0B)] s"

subsection \<open>Dumps\<close>

definition dump_regs_from :: "regs_snapshot \<Rightarrow> 'a panic_scheme \<Rightarrow> 'a panic_scheme option" where
  "dump_regs_from r s = do {
     s \<leftarrow> Some (write_ops [Puts (line_feed @ ''Register state:'' @ line_feed)] s);
     s \<leftarrow> print_format (''RIP: %lx'' @ line_feed) [Va_long (rip r)] s;
     s \<leftarrow> print_format (''RSP: %lx  RBP: %lx'' @ line_feed) [Va_long (rsp r), Va_long (rbp r)] s;
     s \<leftarrow> print_format (''RAX: %lx  RBX: %lx'' @ line_feed) [Va_long (rax r), Va_long (rbx r)] s;
     s \<leftarrow> print_format (''RCX: %lx  RDX: %lx'' @ line_feed) [Va_long (rcx r), Va_long (rdx r)] s;
     s \<leftarrow> print_format (''RSI: %lx  RDI: %lx'' @ line_feed) [Va_long (rsi r), Va_long (rdi r)] s;
     s \<leftarrow> print_format (''R8 : %lx  R9 : %lx'' @ line_feed) [Va_long (r8 r), Va_long (r9 r)] s;
     s \<leftarrow> print_format (''R10: %lx  R11: %lx'' @ line_feed) [Va_long (r10 r), Va_long (r11 r)] s;
     s \<leftarrow> print_format (''R12: %lx  R13: %lx'' @ line_feed) [Va_long (r12 r), Va_long (r13 r)] s;
     print_format (''R14: %lx  R15: %lx'' @ line_feed) [Va_long (r14 r), Va_long (r15 r)] s }"

text \<open>A look at the processor, as the calls made so far have left it.\<close>

definition capture_regs :: "processor \<Rightarrow> 'a panic_scheme \<Rightarrow> regs_snapshot \<times> words" where
  "capture_regs cpu s = cpu (calls s)"

definition dump_regs :: "processor \<Rightarrow> 'a panic_scheme \<Rightarrow> 'a panic_scheme option" where
  "dump_regs cpu s = (let (temp, _) = capture_regs cpu s in dump_regs_from temp s)"

function dump_stack_from :: "words \<Rightarrow> u64 \<Rightarrow> nat \<Rightarrow> nat \<Rightarrow> 'a panic_scheme \<Rightarrow> 'a panic_scheme option" where
  "dump_stack_from memory addr words i s =
     (if i < words then
        (case memory (addr + 8 * of_nat i) of None \<Rightarrow> None
         | Some v1 \<Rightarrow>
           (case (if i + 1 < words then memory (addr + 8 * of_nat (i + 1)) else Some 0) of None \<Rightarrow> None
            | Some v2 \<Rightarrow>
              (case print_format (''%lx: %lx %lx'' @ line_feed)
                  [Va_long (addr + 8 * of_nat i), Va_long v1, Va_long v2] s of None \<Rightarrow> None
               | Some s \<Rightarrow> dump_stack_from memory addr words (i + 2) s)))
      else Some s)"
  by pat_completeness auto

termination by (relation "measure (\<lambda>(_, _, words, i, _). words - i)") auto

declare dump_stack_from.simps [simp del]

definition dump_stack_region :: "words \<Rightarrow> u64 \<Rightarrow> nat \<Rightarrow> 'a panic_scheme \<Rightarrow> 'a panic_scheme option" where
  "dump_stack_region memory addr words s = dump_stack_from memory addr words 0 s"

subsection \<open>The line editor\<close>

definition panic_key :: "int \<Rightarrow> string \<times> 'a panic_scheme \<Rightarrow> string \<times> 'a panic_scheme" where
  "panic_key c ls =
     (let (line, s) = ls
      in if (c = 8 \<or> c = 127) \<and> 0 < length line
         then (butlast line, write_ops [Putc (CHR 0x08), Putc (CHR '' ''), Putc (CHR 0x08)] s)
         else if length line < 128 - 1 then (line @ [char_of c], write_ops [Putc (char_of c)] s)
         else (line, s))"

fun panic_line :: "int list \<Rightarrow> string \<times> 'a panic_scheme \<Rightarrow> (string \<times> int list) option \<times> 'a panic_scheme" where
  "panic_line [] ls = (None, snd ls)"
| "panic_line (c # cs) ls =
     (if c < 0 then panic_line cs ls
      else if c = 13 \<or> c = 10 then (Some (fst ls, cs), write_ops [Putc (CHR 0x0A)] (snd ls))
      else panic_line cs (panic_key c ls))"

subsection \<open>Commands\<close>

text \<open>The comparison of the line, with the NUL that ends it, to a command, character by character.\<close>

fun line_is :: "string \<Rightarrow> string \<Rightarrow> bool" where
  "line_is (c # line) (d # cmd) = (c = d \<and> line_is line cmd)"
| "line_is (c # line) [] = (c = CHR 0x00)"
| "line_is [] cmd = False"

definition panic_help :: "'a panic_scheme \<Rightarrow> 'a panic_scheme" where
  "panic_help = write_ops
     [Puts (''Available commands:'' @ line_feed), Puts (''  help    - show this message'' @ line_feed),
      Puts (''  regs    - live registers (current)'' @ line_feed),
      Puts (''  panicregs - registers captured at panic entry'' @ line_feed),
      Puts (''  stack   - dump stack (RSP)'' @ line_feed), Puts (''  halt    - halt the machine'' @ line_feed)]"

definition panic_stack :: "processor \<Rightarrow> 'a panic_scheme \<Rightarrow> 'a panic_scheme option" where
  "panic_stack cpu s =
     (let (r, memory) = capture_regs cpu s
      in dump_stack_region memory (rsp r) 32 (write_ops [Puts (''Stack dump (RSP):'' @ line_feed)] s))"

definition panic_command :: "processor \<Rightarrow> string \<Rightarrow> 'a panic_scheme \<Rightarrow> 'a panic_scheme option" where
  "panic_command cpu typed s =
     (let line = typed @ [CHR 0x00]
      in if length typed = 0 then Some s
         else if hd line = CHR 0x00 then Some s
         else if line_is line ''help'' then Some (panic_help s)
         else if line_is line ''regs'' then dump_regs cpu s
         else if line_is line ''panicregs'' then
           (if saved_regs_valid s then dump_regs_from (saved_regs s) s
            else Some (write_ops [Puts (''No saved panic registers available'' @ line_feed)] s))
         else if line_is line ''stack'' then panic_stack cpu s
         else if line_is line ''halt'' then Some ((write_ops [Puts (''Halting...'' @ line_feed)] s)\<lparr>stopped := True\<rparr>)
         else Some (write_ops [Puts (''Unknown command. Type '' @ [CHR 0x27] @ ''help'' @ [CHR 0x27] @ '' for list.'' @ line_feed)] s))"

lemma panic_line_shorter: "panic_line cs ls = (Some (line, rest), s) \<Longrightarrow> length rest < length cs"
  by (induction cs ls rule: panic_line.induct) (auto split: if_splits)

function panic_loop :: "processor \<Rightarrow> int list \<Rightarrow> 'a panic_scheme \<Rightarrow> 'a panic_scheme option" where
  "panic_loop cpu cs s =
     (case panic_line cs ([], write_ops [Puts ''panic> ''] s) of
        (None, s) \<Rightarrow> Some s
      | (Some (line, rest), s) \<Rightarrow>
          (case panic_command cpu line s of None \<Rightarrow> None
           | Some s \<Rightarrow> if stopped s then Some s else panic_loop cpu rest s))"
  by pat_completeness auto

termination
  by (relation "measure (\<lambda>(_, cs, _). length cs)") (auto simp: panic_line_shorter [OF sym])

declare panic_loop.simps [simp del]

text \<open>
  The entry. The declaration of \<open>beep\<close> in \<^verbatim>\<open>core/panic.c\<close> gives its numbers the type \<open>double\<close>, its
  definition takes integers: the values it finds in their places are an argument.
\<close>

definition panic_screen :: "processor \<Rightarrow> u32 \<times> u32 \<times> bool \<Rightarrow> string option \<Rightarrow> 'a panic_scheme \<Rightarrow> 'a panic_scheme option" where
  "panic_screen cpu found reason s = do {
     s \<leftarrow> Some (write_ops [Puts (line_feed @ ''*** KERNEL PANIC - entering panic shell ***'' @ line_feed)] s);
     s \<leftarrow> Some (case reason of Some t \<Rightarrow> write_ops [Puts ''Reason: '', Puts t, Puts line_feed] s | None \<Rightarrow> s);
     s \<leftarrow> (let (duration_ms, frequency_hz, stop) = found in beep duration_ms frequency_hz stop s);
     s \<leftarrow> Some (s\<lparr>calls := Suc (calls s)\<rparr>);
     (r, _) \<leftarrow> Some (capture_regs cpu s);
     s \<leftarrow> dump_regs_from r (s\<lparr>saved_regs := r, saved_regs_valid := True\<rparr>);
     (r, memory) \<leftarrow> Some (capture_regs cpu s);
     s \<leftarrow> Some (write_ops [Puts (line_feed @ ''Stack dump (RSP onwards):'' @ line_feed)] s);
     s \<leftarrow> dump_stack_region memory (rsp r) 16 s;
     Some (write_ops [Puts (line_feed @ ''Entering interactive panic shell. Type '' @ [CHR 0x27] @ ''help'' @ [CHR 0x27] @
       '' for commands.'' @ line_feed)] s) }"

definition kernel_panic_shell :: "processor \<Rightarrow> u32 \<times> u32 \<times> bool \<Rightarrow> string option \<Rightarrow> int list \<Rightarrow> 'a panic_scheme \<Rightarrow>
    'a panic_scheme option" where
  "kernel_panic_shell cpu found reason cs s = do {
     s \<leftarrow> panic_screen cpu found reason s;
     panic_loop cpu cs s }"

subsection \<open>The dump of the registers\<close>

text \<open>The registers by name, in the lines of the dump.\<close>

definition reg_table :: "regs_snapshot \<Rightarrow> (string \<times> u64) list list" where
  "reg_table r =
     [[(''RIP'', rip r)], [(''RSP'', rsp r), (''RBP'', rbp r)], [(''RAX'', rax r), (''RBX'', rbx r)],
      [(''RCX'', rcx r), (''RDX'', rdx r)], [(''RSI'', rsi r), (''RDI'', rdi r)], [(''R8 '', r8 r), (''R9 '', r9 r)],
      [(''R10'', r10 r), (''R11'', r11 r)], [(''R12'', r12 r), (''R13'', r13 r)], [(''R14'', r14 r), (''R15'', r15 r)]]"

fun reg_line :: "(string \<times> u64) list \<Rightarrow> string" where
  "reg_line [] = line_feed"
| "reg_line [(name, v)] = name @ '': 0x'' @ utoa v 16 @ line_feed"
| "reg_line ((name, v) # rest) = name @ '': 0x'' @ utoa v 16 @ ''  '' @ reg_line rest"

definition regs_dump :: "regs_snapshot \<Rightarrow> console_op list" where
  "regs_dump r = Puts (line_feed @ ''Register state:'' @ line_feed) #
     map (\<lambda>l. Print (reg_line l) 0xFFFFFFFF) (reg_table r)"

text \<open>A reader of such a line: a name of three characters, then its number up to a blank or the end.\<close>

definition in_number :: "char \<Rightarrow> bool" where
  "in_number c \<longleftrightarrow> c \<noteq> CHR '' '' \<and> c \<noteq> CHR 0x0A"

lemma rest_shorter: "t \<noteq> [] \<Longrightarrow> length (drop 2 (dropWhile p (drop 7 t))) < length t"
  using length_dropWhile_le [of p "drop 7 t"] by (cases t) auto

function read_fields :: "string \<Rightarrow> (string \<times> nat) list" where
  "read_fields t =
     (if t = [] then []
      else (take 3 t, parse_num 16 (takeWhile in_number (drop 7 t))) #
        read_fields (drop 2 (dropWhile in_number (drop 7 t))))"
  by pat_completeness auto

termination by (relation "measure length") (use rest_shorter in auto)

declare read_fields.simps [simp del]

fun read_dump :: "console_op list \<Rightarrow> (string \<times> nat) list" where
  "read_dump (Print t color # ops) = read_fields t @ read_dump ops"
| "read_dump (op # ops) = read_dump ops"
| "read_dump [] = []"

lemma digit_in_number: "unat d < 36 \<Longrightarrow> in_number (digit_char d)"
proof -
  assume d: "unat d < 36"
  have "(of_char (digit_char d) :: nat) \<noteq> 32 \<and> (of_char (digit_char d) :: nat) \<noteq> 10"
  proof (cases "9 < d")
    case True
    then have "unat (d - 10) = unat d - 10" by (simp add: word_less_nat_alt unat_sub word_le_nat_alt)
    with True d show ?thesis by (simp add: digit_char_def of_char_of)
  next
    case False
    with d show ?thesis by (simp add: digit_char_def of_char_of word_less_nat_alt)
  qed
  then show ?thesis by (auto simp: in_number_def)
qed

lemma rev_digits_in_number: "2 \<le> base \<Longrightarrow> base \<le> 36 \<Longrightarrow> list_all in_number (rev_digits base n)"
proof (induction base n rule: rev_digits.induct)
  case (1 base n)
  have "unat (n mod base) < unat base" using 1(2) by (simp add: unat_mod_distrib word_le_nat_alt)
  then have "in_number (digit_char (n mod base))"
    using 1(3) by (intro digit_in_number) (simp add: word_le_nat_alt)
  with 1 show ?case unfolding rev_digits_unfold [OF 1(2), of n] by (simp add: not_less)
qed

lemma number_taken:
  "takeWhile in_number (utoa v 16 @ CHR '' '' # t) = utoa v 16" "dropWhile in_number (utoa v 16 @ CHR '' '' # t) = CHR '' '' # t"
  "takeWhile in_number (utoa v 16 @ line_feed) = utoa v 16" "dropWhile in_number (utoa v 16 @ line_feed) = line_feed"
proof -
  have all: "\<forall>c \<in> set (utoa v 16). in_number c"
    using rev_digits_in_number [of 16 v] by (auto simp: utoa_def list_all_iff in_number_def)
  show "takeWhile in_number (utoa v 16 @ CHR '' '' # t) = utoa v 16" "dropWhile in_number (utoa v 16 @ CHR '' '' # t) = CHR '' '' # t"
    "takeWhile in_number (utoa v 16 @ line_feed) = utoa v 16" "dropWhile in_number (utoa v 16 @ line_feed) = line_feed"
    using all by (simp_all add: takeWhile_append dropWhile_append in_number_def)
qed

lemma number_value: "parse_num 16 (utoa v 16) = unat v"
  using parse_rev_digits [of 16 v] by (simp add: utoa_def parse_num_def digit_val_def)

lemma reg_line_read:
  "l \<noteq> [] \<Longrightarrow> \<forall>(name, v) \<in> set l. length name = 3 \<Longrightarrow> read_fields (reg_line l) = map (\<lambda>(name, v). (name, unat v)) l"
  by (induction l rule: reg_line.induct)
    (simp_all add: read_fields.simps [of "_ @ _"] number_taken number_value, simp add: read_fields.simps)

lemma regs_dump_read: "read_dump (regs_dump r) = map (\<lambda>(name, v). (name, unat v)) (concat (reg_table r))"
  by (simp add: regs_dump_def reg_table_def reg_line_read del: reg_line.simps)

lemma write_ops_twice [simp]: "write_ops b (write_ops a s) = write_ops (a @ b) s"
  by (simp add: write_ops_def)

lemma write_ops_nothing [simp]: "write_ops [] s = s"
  by (simp add: write_ops_def)

lemma write_ops_fields [simp]:
  "console_ops (write_ops ops s) = console_ops s @ ops" "saved_regs (write_ops ops s) = saved_regs s"
  "saved_regs_valid (write_ops ops s) = saved_regs_valid s" "calls (write_ops ops s) = calls s + length ops" "stopped (write_ops ops s) = stopped s"
  by (simp_all add: write_ops_def)

lemma dump_regs_from_eq: "dump_regs_from r s = Some (write_ops (regs_dump r) s)"
  by (simp add: dump_regs_from_def print_format_def kprintf_def kconv_def regs_dump_def reg_table_def)

subsection \<open>The dump of the stack\<close>

definition stack_line :: "u64 \<Rightarrow> u64 \<Rightarrow> u64 \<Rightarrow> string" where
  "stack_line a v1 v2 = ''0x'' @ utoa a 16 @ '': 0x'' @ utoa v1 16 @ '' 0x'' @ utoa v2 16 @ line_feed"

definition stack_dump :: "words \<Rightarrow> u64 \<Rightarrow> nat \<Rightarrow> console_op list" where
  "stack_dump memory addr n = map (\<lambda>k. let a = addr + 16 * of_nat k
     in Print (stack_line a (the (memory a)) (the (memory (a + 8)))) 0xFFFFFFFF) [0 ..< n]"

text \<open>The words from an address on that can be read without a fault.\<close>

definition readable :: "words \<Rightarrow> u64 \<Rightarrow> nat \<Rightarrow> bool" where
  "readable memory addr n \<longleftrightarrow> list_all (\<lambda>k. memory (addr + 8 * of_nat k) \<noteq> None) [0 ..< n]"

lemma stack_line_format:
  "print_format (''%lx: %lx %lx'' @ line_feed) [Va_long a, Va_long v1, Va_long v2] s =
     Some (write_ops [Print (stack_line a v1 v2) 0xFFFFFFFF] s)"
  by (simp add: print_format_def kprintf_def kconv_def stack_line_def)

lemma dump_stack_from_eq:
  "dump_stack_from memory addr (2 * (k + n)) (2 * k) s =
     (if list_all (\<lambda>j. memory (addr + 8 * of_nat j) \<noteq> None) [2 * k ..< 2 * (k + n)]
      then Some (write_ops (map (\<lambda>k. let a = addr + 16 * of_nat k
        in Print (stack_line a (the (memory a)) (the (memory (a + 8)))) 0xFFFFFFFF) [k ..< k + n]) s)
      else None)"
proof (induction n arbitrary: k s)
  case 0
  then show ?case by (simp add: dump_stack_from.simps)
next
  case (Suc n)
  let ?a = "addr + 16 * of_nat k"
  have addrs: "addr + 8 * of_nat (2 * k) = ?a" "addr + 8 * of_nat (2 * k + 1) = ?a + 8"
    by (simp_all add: algebra_simps)
  have upt: "[k ..< k + Suc n] = k # [Suc k ..< Suc k + n]" by (simp add: upt_rec)
  have upt2: "[2 * k ..< 2 * (k + Suc n)] = 2 * k # (2 * k + 1) # [2 * Suc k ..< 2 * (Suc k + n)]"
    by (simp add: upt_rec)
  have b: "2 * (k + Suc n) = 2 * (Suc k + n)" "2 * k + 2 = 2 * Suc k" "2 * k < 2 * (Suc k + n)" "2 * k + 1 < 2 * (Suc k + n)"
    by simp_all
  show ?case
  proof (cases "memory ?a = None \<or> memory (?a + 8) = None")
    case True
    then have "dump_stack_from memory addr (2 * (k + Suc n)) (2 * k) s = None"
      unfolding dump_stack_from.simps [of memory addr "2 * (k + Suc n)" "2 * k"]
      unfolding b(1) if_P [OF b(3)] if_P [OF b(4)] addrs
      by (auto split: option.split)
    moreover have "\<not> list_all (\<lambda>j. memory (addr + 8 * of_nat j) \<noteq> None) [2 * k ..< 2 * (k + Suc n)]"
      unfolding upt2 list.pred_inject addrs using True by auto
    ultimately show ?thesis by (simp only: if_False)
  next
    case False
    then obtain v1 v2 where v: "memory ?a = Some v1" "memory (?a + 8) = Some v2" by auto
    have "dump_stack_from memory addr (2 * (k + Suc n)) (2 * k) s =
        dump_stack_from memory addr (2 * (Suc k + n)) (2 * Suc k) (write_ops [Print (stack_line ?a v1 v2) 0xFFFFFFFF] s)"
      unfolding dump_stack_from.simps [of memory addr "2 * (k + Suc n)" "2 * k"]
      unfolding b(1,2) addrs if_P [OF b(3)] if_P [OF b(4)] v
        option.case stack_line_format ..
    then show ?thesis unfolding Suc.IH upt upt2 list.pred_inject addrs v list.map by (simp add: v Let_def)
  qed
qed

lemma dump_stack_region_eq:
  "even words \<Longrightarrow> dump_stack_region memory addr words s =
    (if readable memory addr words then Some (write_ops (stack_dump memory addr (words div 2)) s) else None)"
  using dump_stack_from_eq [of memory addr 0 "words div 2" s]
  by (simp add: dump_stack_region_def stack_dump_def readable_def)

lemma panic_stack_eq:
  "panic_stack cpu s = (let (r, memory) = cpu (calls s)
     in if readable memory (rsp r) 32
        then Some (write_ops (Puts (''Stack dump (RSP):'' @ line_feed) # stack_dump memory (rsp r) 16) s) else None)"
  by (simp add: panic_stack_def capture_regs_def dump_stack_region_eq split: prod.splits)

subsection \<open>The session\<close>

text \<open>What no later operation takes back: the snapshot and the text written so far.\<close>

definition carries_on :: "'a panic_scheme \<Rightarrow> 'a panic_scheme \<Rightarrow> bool" where
  "carries_on s t \<longleftrightarrow> saved_regs t = saved_regs s \<and> saved_regs_valid t = saved_regs_valid s \<and>
     (\<exists>ops. console_ops t = console_ops s @ ops)"

lemma carries_on_refl [simp]: "carries_on s s"
  by (simp add: carries_on_def)

lemma carries_on_trans [trans]: "carries_on s t \<Longrightarrow> carries_on t u \<Longrightarrow> carries_on s u"
  by (auto simp: carries_on_def)

lemma carries_on_write: "carries_on s t \<Longrightarrow> carries_on s (write_ops ops t)"
  by (auto simp: carries_on_def)

lemma carries_on_fields [simp]:
  "carries_on s (t\<lparr>calls := k\<rparr>) = carries_on s t" "carries_on s (t\<lparr>stopped := b\<rparr>) = carries_on s t"
  by (simp_all add: carries_on_def)

lemma panic_line_writes: "\<exists>ops. snd (panic_line cs ls) = write_ops ops (snd ls)"
proof (induction cs ls rule: panic_line.induct)
  case (1 ls)
  show ?case by (rule exI [of _ "[]"]) simp
next
  case (2 c cs ls)
  have "\<exists>ops. snd (panic_key c ls) = write_ops ops (snd ls)"
    by (cases ls) (auto simp: panic_key_def intro: exI [of _ "[]"])
  with 2 show ?case by (auto split: if_splits)
qed

lemma panic_command_calls: "panic_command cpu line s = Some t \<Longrightarrow> calls s \<le> calls t"
  by (auto simp: panic_command_def dump_regs_def panic_help_def dump_regs_from_eq panic_stack_eq capture_regs_def
    Let_def split: prod.splits if_splits)

lemma panic_command_carries: "panic_command cpu line s = Some t \<Longrightarrow> carries_on s t"
  by (auto simp: panic_command_def dump_regs_def panic_help_def dump_regs_from_eq panic_stack_eq capture_regs_def
    carries_on_write Let_def split: prod.splits if_splits)

text \<open>The one failure of the shell: the command stack, where the stack cannot be read.\<close>

lemma panic_command_fails:
  "panic_command cpu line s = None \<Longrightarrow> \<not> readable (snd (cpu (calls s))) (rsp (fst (cpu (calls s)))) 32"
  by (auto simp: panic_command_def dump_regs_def panic_help_def dump_regs_from_eq panic_stack_eq capture_regs_def
    Let_def split: prod.splits if_splits)

lemma panic_loop_carries:
  "(\<forall>t. panic_loop cpu cs s = Some t \<longrightarrow> carries_on s t) \<and>
   (panic_loop cpu cs s = None \<longrightarrow> (\<exists>k \<ge> calls s. \<not> readable (snd (cpu k)) (rsp (fst (cpu k))) 32))"
proof (induction cpu cs s rule: panic_loop.induct)
  case (1 cpu cs s)
  let ?s = "write_ops [Puts ''panic> ''] s"
  obtain res t where line: "panic_line cs ([], ?s) = (res, t)" by (cases "panic_line cs ([], ?s)")
  with panic_line_writes [of cs "([], ?s)"] obtain ops where ops: "t = write_ops ops ?s" by auto
  then have t: "carries_on s t" "calls s \<le> calls t" by (simp_all add: carries_on_write)
  show ?case
  proof (cases res)
    case None
    with line t show ?thesis by (subst (1 2) panic_loop.simps) simp
  next
    case (Some lr)
    obtain l rest where lr: "lr = (l, rest)" by (cases lr)
    show ?thesis
    proof (cases "panic_command cpu l t")
      case None
      from panic_command_fails [OF None] t(2)
      have "\<exists>k \<ge> calls s. \<not> readable (snd (cpu k)) (rsp (fst (cpu k))) 32" by blast
      moreover have "panic_loop cpu cs s = None" using line Some lr None by (subst panic_loop.simps) simp
      ultimately show ?thesis by simp
    next
      case u: (Some u)
      note c = panic_command_carries [OF u]
      have calls: "calls t \<le> calls u" using panic_command_calls [OF u] .
      have su: "carries_on s u" using t(1) c by (rule carries_on_trans)
      show ?thesis
      proof (cases "stopped u")
        case True
        then have "panic_loop cpu cs s = Some u" using line Some lr u by (subst panic_loop.simps) simp
        with su show ?thesis by simp
      next
        case False
        then have eq: "panic_loop cpu cs s = panic_loop cpu rest u" using line Some lr u by (subst panic_loop.simps) simp
        note IH = 1 [OF line [symmetric] Some lr [symmetric] u False]
        show ?thesis unfolding eq using IH carries_on_trans [OF su] t(2) calls by (meson order_trans)
      qed
    qed
  qed
qed

subsection \<open>Typed lines\<close>

text \<open>
  The keys that enter a line: characters, corrections made with one of the keys that erase, and
  polls without a character. A line holds at most 127 characters.
\<close>

definition erase_keys :: "int set" where "erase_keys = {8, 127}"

definition plain_char :: "char \<Rightarrow> bool" where
  "plain_char c \<longleftrightarrow> of_char c < (128 :: int) \<and> of_char c \<notin> erase_keys \<union> {10, 13 :: int}"

inductive typed_as :: "string \<Rightarrow> int list \<Rightarrow> bool" where
  typed_none: "typed_as [] []"
| typed_char: "typed_as l ks \<Longrightarrow> length l < 127 \<Longrightarrow> plain_char c \<Longrightarrow> typed_as (l @ [c]) (ks @ [of_char c])"
| typed_erase: "typed_as (l @ [c]) ks \<Longrightarrow> k \<in> erase_keys \<Longrightarrow> typed_as l (ks @ [k])"
| typed_idle: "typed_as l ks \<Longrightarrow> k < 0 \<Longrightarrow> typed_as l (ks @ [k])"

definition key_echo :: "int \<Rightarrow> console_op list" where
  "key_echo k = (if k < 0 then [] else if k \<in> erase_keys then [Putc (CHR 0x08), Putc (CHR '' ''), Putc (CHR 0x08)]
     else [Putc (char_of k)])"

lemma panic_line_append:
  assumes "list_all (\<lambda>k. k \<notin> {10, 13}) ks"
  shows "panic_line (ks @ cs) ls = panic_line cs (fold (\<lambda>k ls. if k < 0 then ls else panic_key k ls) ks ls)"
  using assms by (induction ks arbitrary: ls) auto

lemma typed_keys:
  "typed_as l ks \<Longrightarrow> list_all (\<lambda>k. k \<notin> {10, 13}) ks \<and> length l \<le> 127 \<and>
     fold (\<lambda>k ls. if k < 0 then ls else panic_key k ls) ks ([], s) = (l, write_ops (concat (map key_echo ks)) s)"
proof (induction rule: typed_as.induct)
  case typed_none
  then show ?case by simp
next
  case (typed_char l ks c)
  have "0 \<le> (of_char c :: int)" by (subst of_nat_of_char [symmetric]) (rule of_nat_0_le_iff)
  with typed_char show ?case by (simp add: plain_char_def erase_keys_def panic_key_def key_echo_def)
next
  case (typed_erase l c ks k)
  then show ?case by (auto simp: erase_keys_def panic_key_def key_echo_def)
next
  case (typed_idle l ks k)
  then show ?case by (auto simp: key_echo_def)
qed

lemma typed_line:
  assumes "typed_as l ks" and "k = 10 \<or> k = 13"
  shows "panic_line (ks @ k # cs) ([], s) = (Some (l, cs), write_ops (concat (map key_echo ks) @ [Putc (CHR 0x0A)]) s)"
  using assms typed_keys [OF assms(1), of s] panic_line_append [of ks "k # cs" "([], s)"] by auto

text \<open>The session as a run over the lines that were meant, each with the echo of its keys.\<close>

fun run_lines :: "processor \<Rightarrow> (string \<times> int list) list \<Rightarrow> 'a panic_scheme \<Rightarrow> 'a panic_scheme option" where
  "run_lines cpu [] s = Some (write_ops [Puts ''panic> ''] s)"
| "run_lines cpu ((l, ks) # rest) s =
     (case panic_command cpu l (write_ops (Puts ''panic> '' # concat (map key_echo ks) @ [Putc (CHR 0x0A)]) s) of
        None \<Rightarrow> None
      | Some t \<Rightarrow> if stopped t then Some t else run_lines cpu rest t)"

subsection \<open>Erasing on the screen\<close>

text \<open>The console knows no backspace character: what is written for an erased character goes on to the right.\<close>

lemma putc_moves_right:
  assumes "c \<noteq> CHR 0x0A" and "c \<noteq> CHR 0x00" and "cursor_x s + 12 < fb_width s - 12"
  shows "cursor_x (fb_putc font c s) = cursor_x s + 12"
proof -
  have w: "fb_width (draw_char font c x y color t) = fb_width t" for x y color and t :: console
    by (auto simp: draw_char_def put_pixel_def Let_def intro!: fold_keeps_field)
  have "char_of (10 :: nat) = CHR 0x0A" by code_simp
  moreover have "\<not> fb_width s - 12 \<le> cursor_x s + 12" using assms(3) by simp
  ultimately show ?thesis
    using assms(1,2) by (simp add: fb_putc_def kprint_def print_cell_def next_cell_def Let_def w FONT_WIDTH_def)
qed

subsection \<open>Properties\<close>

lemma beep_keeps:
  fixes s :: "'a panic_scheme"
  assumes "frequency_hz \<noteq> 0"
  shows "\<exists>t. beep duration_ms frequency_hz stop s = Some t \<and> console_ops t = console_ops s \<and> calls t = calls s"
  using assms by (simp add: beep_def outb_def inb_def Let_def)

text \<open>What is on the console when the prompt first comes, with the registers and the stack shown.\<close>

definition panic_report :: "string \<Rightarrow> regs_snapshot \<Rightarrow> words \<Rightarrow> u64 \<Rightarrow> console_op list" where
  "panic_report reason r memory sp =
     [Puts (line_feed @ ''*** KERNEL PANIC - entering panic shell ***'' @ line_feed),
      Puts ''Reason: '', Puts reason, Puts line_feed] @ regs_dump r @
     Puts (line_feed @ ''Stack dump (RSP onwards):'' @ line_feed) # stack_dump memory sp 8 @
     [Puts (line_feed @ ''Entering interactive panic shell. Type '' @ [CHR 0x27] @ ''help'' @ [CHR 0x27] @
       '' for commands.'' @ line_feed)]"

lemma length_regs_dump: "length (regs_dump r) = 10"
  by (simp add: regs_dump_def reg_table_def)

lemma panic_screen_shows:
  fixes s :: "'a panic_scheme" and cpu :: processor
  defines "r \<equiv> fst (cpu (calls s + 5))" and "look \<equiv> cpu (calls s + 15)"
  assumes "frequency_hz \<noteq> 0"
  shows "if readable (snd look) (rsp (fst look)) 16
    then \<exists>t. panic_screen cpu (duration_ms, frequency_hz, stop) (Some reason) s = Some t \<and>
      saved_regs t = r \<and> saved_regs_valid t \<and> calls s \<le> calls t \<and>
      console_ops t = console_ops s @ panic_report reason r (snd look) (rsp (fst look))
    else panic_screen cpu (duration_ms, frequency_hz, stop) (Some reason) s = None"
proof -
  let ?s = "write_ops [Puts ''Reason: '', Puts reason, Puts line_feed]
    (write_ops [Puts (line_feed @ ''*** KERNEL PANIC - entering panic shell ***'' @ line_feed)] s)"
  obtain t where "beep duration_ms frequency_hz stop ?s = Some t" "console_ops t = console_ops ?s" "calls t = calls ?s"
    using beep_keeps [OF assms(3)] by blast
  moreover obtain m where "cpu (Suc (Suc (Suc (Suc (Suc (calls s)))))) = (r, m)"
    by (cases "cpu (calls s + 5)") (simp add: r_def eval_nat_numeral)
  moreover obtain l n where "cpu (calls s + 15) = (l, n)" by (cases "cpu (calls s + 15)")
  ultimately show ?thesis
    by (simp add: panic_screen_def capture_regs_def dump_regs_from_eq dump_stack_region_eq panic_report_def
      look_def length_regs_dump add.commute)
qed

text \<open>
  C38 (functional, panic screen). What entering the panic shell with a reason shows, and when it fails. If the
  frequency that \<open>beep\<close> finds is zero, or one of the 16 words from the stack pointer on cannot be read, it faults.
  Otherwise the screen first shows the banner, the reason, the registers as the five calls for banner, reason
  and tone have left them (not as they were at the entry, as the help text says), and the 16 words; every
  register can be read back from the dump. After any session that goes on or is halted this still stands, and
  the command panicregs prints the same dump again. A session fails only where the command stack meets
  a word that cannot be read.
\<close>

theorem panic_registers_kept:
  fixes s :: "'a panic_scheme" and cpu :: processor
  defines "r \<equiv> fst (cpu (calls s + 5))" and "look \<equiv> cpu (calls s + 15)"
  shows "if frequency_hz = 0 \<or> \<not> readable (snd look) (rsp (fst look)) 16
    then kernel_panic_shell cpu (duration_ms, frequency_hz, stop) (Some reason) keys s = None
    else (case kernel_panic_shell cpu (duration_ms, frequency_hz, stop) (Some reason) keys s of
        None \<Rightarrow> \<exists>k \<ge> calls s. \<not> readable (snd (cpu k)) (rsp (fst (cpu k))) 32
      | Some t \<Rightarrow> (\<exists>rest. console_ops t = console_ops s @ panic_report reason r (snd look) (rsp (fst look)) @ rest) \<and>
          read_dump (regs_dump r) = map (\<lambda>(name, v). (name, unat v)) (concat (reg_table r)) \<and>
          panic_command cpu ''panicregs'' t = Some (write_ops (regs_dump r) t))"
proof (cases "frequency_hz = 0")
  case True
  then show ?thesis by (simp add: kernel_panic_shell_def panic_screen_def beep_def)
next
  case freq: False
  note screen = panic_screen_shows [OF freq, of cpu s duration_ms stop reason, folded r_def look_def]
  show ?thesis
  proof (cases "readable (snd look) (rsp (fst look)) 16")
    case False
    then show ?thesis using screen by (simp add: kernel_panic_shell_def)
  next
    case True
    then obtain t where t: "panic_screen cpu (duration_ms, frequency_hz, stop) (Some reason) s = Some t"
        "saved_regs t = r" "saved_regs_valid t" "calls s \<le> calls t"
        "console_ops t = console_ops s @ panic_report reason r (snd look) (rsp (fst look))"
      using screen by auto
    show ?thesis
    proof (cases "panic_loop cpu keys t")
      case None
      then show ?thesis using freq True t(1,4) panic_loop_carries [of cpu keys t]
        by (auto simp: kernel_panic_shell_def intro: order_trans)
    next
      case (Some u)
      then have "carries_on t u" using panic_loop_carries [of cpu keys t] by blast
      then have "panic_command cpu ''panicregs'' u = Some (write_ops (regs_dump r) u)"
        "\<exists>rest. console_ops u = console_ops t @ rest"
        using t(2,3) by (simp_all add: panic_command_def carries_on_def dump_regs_from_eq)
      then show ?thesis using freq True t(1,5) Some
        by (auto simp: kernel_panic_shell_def regs_dump_read)
    qed
  qed
qed

definition demo_regs :: regs_snapshot where
  "demo_regs = \<lparr>rip = 0xFFFFFFFF80001000, rsp = 0x8000, rbp = 0, rax = 1, rbx = 2, rcx = 3, rdx = 4, rsi = 5, rdi = 6,
     r8 = 8, r9 = 9, r10 = 10, r11 = 11, r12 = 12, r13 = 13, r14 = 14, r15 = 15\<rparr>"

definition demo_panic :: panic where
  "demo_panic = panic.make 0 0 (\<lambda>_. 0) False False False 0 False 0 [] (\<lambda>_ _. 0) 0 [] [] [] demo_regs False 0 False"

theorem panic_registers_kept_witness:
  "kernel_panic_shell (\<lambda>_. (demo_regs, \<lambda>_. Some 7)) (0, 0, False) (Some ''test'') [] demo_panic = None \<and>
   (\<exists>t. kernel_panic_shell (\<lambda>_. (demo_regs, \<lambda>_. Some 7)) (0, 500, False) (Some ''test'') [104, 105, 10] demo_panic = Some t \<and>
    panic_command (\<lambda>_. (demo_regs, \<lambda>_. Some 7)) ''panicregs'' t = Some (write_ops (regs_dump demo_regs) t))"
  using panic_registers_kept [of 0 "\<lambda>_. (demo_regs, \<lambda>_. Some 7)" demo_panic 0 False "''test''" "[]"]
    panic_registers_kept [of 500 "\<lambda>_. (demo_regs, \<lambda>_. Some 7)" demo_panic 0 False "''test''" "[104, 105, 10]"]
  by (auto simp: readable_def list_all_iff split: option.splits)

text \<open>
  C39 (equivalence, panic screen). Lines typed into the panic shell with any corrections of characters
  are run as they were meant, in their order, each at its own prompt, until a command
  stops the machine; the rest of the input is then left.
\<close>

theorem panic_session_runs_lines:
  assumes "list_all2 typed_as ls kss"
  shows "panic_loop cpu (concat (map (\<lambda>ks. ks @ [13]) kss)) s = run_lines cpu (zip ls kss) s"
  using assms
proof (induction ls kss arbitrary: s rule: list_all2_induct)
  case Nil
  show ?case by (subst panic_loop.simps) simp
next
  case (Cons l ls ks kss)
  show ?case
    by (subst panic_loop.simps) (simp add: typed_line [OF Cons(1)] Cons.IH split: option.splits)
qed

lemma typed_demo: "typed_as ''halt'' [104, 97, 98, 8, -1, 108, 116]"
proof -
  note chars = plain_char_def erase_keys_def
  have "typed_as ''h'' [104]" using typed_char [OF typed_none, of "CHR ''h''"] by (simp add: chars)
  then have "typed_as ''ha'' [104, 97]" using typed_char [of "''h''" "[104]" "CHR ''a''"] by (simp add: chars)
  then have "typed_as ''hab'' [104, 97, 98]" using typed_char [of "''ha''" "[104, 97]" "CHR ''b''"] by (simp add: chars)
  then have "typed_as ''ha'' [104, 97, 98, 8]" using typed_erase [of "''ha''" "CHR ''b''" "[104, 97, 98]" 8] by (simp add: chars)
  then have "typed_as ''ha'' [104, 97, 98, 8, -1]" using typed_idle [of "''ha''" "[104, 97, 98, 8]" "-1"] by simp
  then have "typed_as ''hal'' [104, 97, 98, 8, -1, 108]"
    using typed_char [of "''ha''" "[104, 97, 98, 8, -1]" "CHR ''l''"] by (simp add: chars)
  then show ?thesis using typed_char [of "''hal''" "[104, 97, 98, 8, -1, 108]" "CHR ''t''"] by (simp add: chars)
qed

theorem panic_session_runs_lines_witness:
  "map_option stopped (panic_loop (\<lambda>_. (demo_regs, \<lambda>_. Some 7)) ([104, 97, 98, 8, -1, 108, 116, 13] @ [13]) demo_panic) = Some True"
proof -
  have "list_all2 typed_as [''halt'', []] [[104, 97, 98, 8, -1, 108, 116], []]" by (simp add: typed_demo typed_none)
  from panic_session_runs_lines [OF this, of "\<lambda>_. (demo_regs, \<lambda>_. Some 7)" demo_panic] show ?thesis
    by (simp add: panic_command_def)
qed

end
