(* ===== verification/Fat_Image.thy ===== *)
theory Fat_Image
  imports Fat
begin

text \<open>
  The reader of a FAT32 image in memory, \<^verbatim>\<open>fs/fat32.c\<close>, and the two utilities on it,
  \<^verbatim>\<open>init/utility/ls.c\<close> and \<^verbatim>\<open>init/utility/cat.c\<close>. The build leaves all three out, and the structure of
  \<^verbatim>\<open>fs/fat32.h\<close> is not the one they use: the record below has the fields that the code names, with
  the width the code computes in. The memory has no end, so that reads behind the image, which
  the checks of the code do not all prevent, give what lies there. A search that runs round a
  cyclic chain is \<open>None\<close>.

  The last part states the format on its own, over the bytes of the image in natural numbers, and
  shows that the code computes it: the fields of the first sector, the place of every cluster, the entries
  of the FAT, the clusters and entries of a directory. What \<open>cat\<close> prints is stated over that format.
\<close>

subsection \<open>State\<close>

record mem_image =
  im_data :: "nat \<Rightarrow> u8"
  im_total :: u32
  im_sector :: u32
  im_per_cluster :: u32
  im_reserved :: u32
  im_fats :: u32
  im_fat_size :: u32
  im_root :: u32
  im_first_data :: u32

definition read_le16 :: "(nat \<Rightarrow> u8) \<Rightarrow> nat \<Rightarrow> u16" where
  "read_le16 b p = ucast (b p) OR push_bit 8 (ucast (b (p + 1)))"

definition read_le32 :: "(nat \<Rightarrow> u8) \<Rightarrow> nat \<Rightarrow> u32" where
  "read_le32 b p = ucast (b p) OR push_bit 8 (ucast (b (p + 1))) OR push_bit 16 (ucast (b (p + 2))) OR
     push_bit 24 (ucast (b (p + 3)))"

text \<open>The image is a null pointer or the memory from its start on; \<open>None\<close> is the result -1.\<close>

definition fat32_init_from_memory :: "(nat \<Rightarrow> u8) option \<Rightarrow> u32 \<Rightarrow> mem_image option" where
  "fat32_init_from_memory img len =
     (case img of None \<Rightarrow> None
      | Some b \<Rightarrow>
          if len < 512 then None
          else
            let sector = ucast (read_le16 b 11); per_cluster = ucast (b 13); reserved = ucast (read_le16 b 14);
                fats = ucast (b 16); fat_size = read_le32 b 36
            in if sector = 0 \<or> per_cluster = 0 then None
               else Some \<lparr>im_data = b, im_total = len, im_sector = sector, im_per_cluster = per_cluster,
                 im_reserved = reserved, im_fats = fats, im_fat_size = fat_size, im_root = read_le32 b 44,
                 im_first_data = reserved + fats * fat_size\<rparr>)"

definition cluster_to_offset :: "mem_image \<Rightarrow> u32 \<Rightarrow> u32" where
  "cluster_to_offset fs cluster = (im_first_data fs + (cluster - 2) * im_per_cluster fs) * im_sector fs"

definition fat_entry :: "mem_image \<Rightarrow> u32 \<Rightarrow> u32" where
  "fat_entry fs cluster =
     (let fat_offset = im_reserved fs * im_sector fs; entry_offset = fat_offset + cluster * 4
      in if im_total fs < entry_offset + 4 then 0x0FFFFFFF
         else read_le32 (im_data fs) (unat entry_offset) AND 0x0FFFFFFF)"

subsection \<open>Names\<close>

text \<open>
  The pattern: up to 8 characters, the dot not excepted, and after a dot that comes next up to 3.
\<close>

definition short_pattern :: "u8 list \<Rightarrow> u8 list" where
  "short_pattern component =
     (let base = take 8 (takeWhile (\<lambda>c. c \<noteq> 0x2F) component);
          ext = (case drop (length base) component of [] \<Rightarrow> []
                 | c # p \<Rightarrow> if c = 0x2E then take 3 (takeWhile (\<lambda>c. c \<noteq> 0x2F) p) else [])
      in put 8 (map to_upper ext) (put 0 (map to_upper base) (replicate 11 0x20)))"

definition match_short_name :: "u8 list \<Rightarrow> u8 list \<Rightarrow> bool" where
  "match_short_name e component \<longleftrightarrow> take 11 e = short_pattern component"

subsection \<open>Opening a file\<close>

definition dir_bytes :: "mem_image \<Rightarrow> u32" where
  "dir_bytes fs = im_sector fs * im_per_cluster fs"

definition entry_bytes :: "mem_image \<Rightarrow> nat \<Rightarrow> u8 list" where
  "entry_bytes fs at = map (im_data fs) [at ..< at + 32]"

datatype scan_result = Dir_end | Not_here | Hit u32 u32

text \<open>The entries of a cluster from offset \<open>i\<close> on; \<open>n\<close> of them are left.\<close>

fun scan_dir :: "mem_image \<Rightarrow> u8 list \<Rightarrow> nat \<Rightarrow> nat \<Rightarrow> scan_result" where
  "scan_dir fs component at 0 = Not_here"
| "scan_dir fs component at (Suc n) =
     (let e = entry_bytes fs at
      in if e ! 0 = 0x00 then Dir_end
         else if e ! 0 = 0xE5 then scan_dir fs component (at + 32) n
         else if e ! 11 = 0x0F then scan_dir fs component (at + 32) n
         else if match_short_name e component
         then Hit (push_bit 16 (ucast (read_le16 (im_data fs) (at + 20))) OR ucast (read_le16 (im_data fs) (at + 26)))
           (read_le32 (im_data fs) (at + 28))
         else scan_dir fs component (at + 32) n)"

text \<open>
  The clusters of a directory: cluster and size of the entry found, or -1. The loop over a
  cluster runs once for every 32 bytes begun.
\<close>

partial_function (option) search_chain :: "mem_image \<Rightarrow> u8 list \<Rightarrow> u32 \<Rightarrow> (u32 \<times> u32) option option" where
  "search_chain fs component cluster =
     (if 0x0FFFFFF8 \<le> cluster then Some None
      else
        let offset = cluster_to_offset fs cluster
        in if im_total fs < offset + dir_bytes fs then Some None
           else (case scan_dir fs component (unat offset) ((unat (dir_bytes fs) + 31) div 32) of
               Dir_end \<Rightarrow> Some None
             | Hit c sz \<Rightarrow> Some (Some (c, sz))
             | Not_here \<Rightarrow> search_chain fs component (fat_entry fs cluster)))"

lemma component_shorter:
  assumes "drop (length (take 255 (takeWhile (\<lambda>c. c \<noteq> 0x2F) p))) p = q" and "q \<noteq> []"
  shows "length (if hd q = 0x2F then tl q else q) < length (p :: u8 list)"
proof (cases p)
  case Nil
  with assms show ?thesis by simp
next
  case (Cons c r)
  show ?thesis
  proof (cases "c = 0x2F")
    case True
    with Cons assms show ?thesis by auto
  next
    case False
    with Cons have "0 < length (take 255 (takeWhile (\<lambda>c. c \<noteq> 0x2F) p))" by simp
    then have "length q < length p" using assms(1) Cons by auto
    then show ?thesis by (cases q) auto
  qed
qed

text \<open>The components of the path; the result is the offset of the file's first byte and its size.\<close>

function open_components :: "mem_image \<Rightarrow> u8 list \<Rightarrow> u32 \<Rightarrow> (u32 \<times> u32) option option" where
  "open_components fs p current_cluster =
     (let component = take 255 (takeWhile (\<lambda>c. c \<noteq> 0x2F) p); q = drop (length component) p
      in case search_chain fs component current_cluster of
           None \<Rightarrow> None
         | Some None \<Rightarrow> Some None
         | Some (Some (c, sz)) \<Rightarrow>
             if q = [] then Some (Some (cluster_to_offset fs c, sz))
             else
               let p' = (if hd q = 0x2F then tl q else q)
               in if p' = [] then Some None else open_components fs p' c)"
  by pat_completeness auto

termination
proof (relation "measure (\<lambda>(_, p, _). length p)")
  show "wf (measure (\<lambda>(_ :: mem_image, p :: u8 list, _ :: u32). length p))" by simp
next
  fix fs cl component q a b r c sz p' and p :: "u8 list"
  assume "component = take 255 (takeWhile (\<lambda>c. c \<noteq> 0x2F) p)" and "q = drop (length component) p" and "q \<noteq> []"
    and "p' = (if hd q = 0x2F then tl q else q)"
  with component_shorter [of p q] show "((fs, p', c), fs, p, cl) \<in> measure (\<lambda>(_, p, _). length p)" by simp
qed

declare open_components.simps [simp del]

definition fat32_open_file :: "mem_image \<Rightarrow> u8 list \<Rightarrow> (u32 \<times> u32) option option" where
  "fat32_open_file fs path =
     (if path = [] \<or> hd path \<noteq> 0x2F then Some None else open_components fs (tl path) (im_root fs))"

subsection \<open>The utilities\<close>

text \<open>What is written to the console, as bytes.\<close>

definition util_cat :: "(nat \<Rightarrow> u8) option \<Rightarrow> u32 \<Rightarrow> u8 list \<Rightarrow> u8 list option" where
  "util_cat embedded_image embedded_size path =
     (if embedded_image = None \<or> embedded_size = 0
      then Some (to_bytes (''cat: no filesystem available (embedded FAT32 not found)'' @ [CHR 0x0A]))
      else case fat32_init_from_memory embedded_image embedded_size of
          None \<Rightarrow> Some (to_bytes (''cat: failed to init FAT32 from embedded image'' @ [CHR 0x0A]))
        | Some fs \<Rightarrow>
            (case fat32_open_file fs path of
               None \<Rightarrow> None
             | Some None \<Rightarrow> Some (to_bytes (''cat: file not found'' @ [CHR 0x0A]))
             | Some (Some (fileptr, filesize)) \<Rightarrow>
                 Some (map (im_data fs) [unat fileptr ..< unat fileptr + unat filesize])))"

text \<open>The name of an entry: the blanks left out, a dot before the first character of the extension.\<close>

definition ls_name :: "u8 list \<Rightarrow> u8 list" where
  "ls_name e = concat (map (\<lambda>k. if e ! k = 0x20 then [] else if k = 8 then [0x2E, e ! k] else [e ! k]) [0 ..< 11])"

fun list_names :: "mem_image \<Rightarrow> nat \<Rightarrow> nat \<Rightarrow> u8 list list" where
  "list_names fs at 0 = []"
| "list_names fs at (Suc n) =
     (let e = entry_bytes fs at
      in if e ! 0 = 0x00 then []
         else if e ! 0 = 0xE5 then list_names fs (at + 32) n
         else if e ! 11 = 0x0F then list_names fs (at + 32) n
         else cstr (ls_name e) # list_names fs (at + 32) n)"

definition util_ls :: "(nat \<Rightarrow> u8) option \<Rightarrow> u32 \<Rightarrow> u8 list \<Rightarrow> u8 list" where
  "util_ls embedded_image embedded_size path =
     (if embedded_image = None \<or> embedded_size = 0
      then to_bytes (''ls: no filesystem available (embedded FAT32 not found)'' @ [CHR 0x0A])
      else case fat32_init_from_memory embedded_image embedded_size of
          None \<Rightarrow> to_bytes (''ls: failed to init FAT32 from embedded image'' @ [CHR 0x0A])
        | Some fs \<Rightarrow>
            let cluster = im_root fs;
                offset = (if 2 \<le> cluster then (cluster - 2) * im_per_cluster fs * im_sector fs else 0)
            in concat (map (\<lambda>n. n @ [0x0A]) (list_names fs (unat offset) ((unat (dir_bytes fs) + 31) div 32))))"

subsection \<open>Lookup in a directory\<close>

text \<open>
  The reference: a directory is the list of the places of its entries, cluster by cluster along
  its chain; the first that is in use, before the end mark, and has the name counts.
\<close>

definition entry_named :: "mem_image \<Rightarrow> u8 list \<Rightarrow> nat \<Rightarrow> bool" where
  "entry_named fs component at \<longleftrightarrow> im_data fs at \<noteq> 0xE5 \<and> im_data fs (at + 11) \<noteq> 0x0F \<and>
     match_short_name (entry_bytes fs at) component"

definition found_at :: "mem_image \<Rightarrow> nat \<Rightarrow> u32 \<times> u32" where
  "found_at fs at =
     (push_bit 16 (ucast (read_le16 (im_data fs) (at + 20))) OR ucast (read_le16 (im_data fs) (at + 26)),
      read_le32 (im_data fs) (at + 28))"

definition lookup_places :: "mem_image \<Rightarrow> u8 list \<Rightarrow> nat list \<Rightarrow> (u32 \<times> u32) option" where
  "lookup_places fs component places =
     map_option (found_at fs) (find (entry_named fs component) (takeWhile (\<lambda>at. im_data fs at \<noteq> 0) places))"

definition cluster_places :: "mem_image \<Rightarrow> u32 \<Rightarrow> nat list" where
  "cluster_places fs cluster = map (\<lambda>k. unat (cluster_to_offset fs cluster) + 32 * k) [0 ..< (unat (dir_bytes fs) + 31) div 32]"

definition usable_cluster :: "mem_image \<Rightarrow> u32 \<Rightarrow> bool" where
  "usable_cluster fs c \<longleftrightarrow> c < 0x0FFFFFF8 \<and> \<not> im_total fs < cluster_to_offset fs c + dir_bytes fs"

fun dir_chain :: "mem_image \<Rightarrow> u32 list \<Rightarrow> bool" where
  "dir_chain fs [] = False"
| "dir_chain fs [c] = (usable_cluster fs c \<and> 0x0FFFFFF8 \<le> fat_entry fs c)"
| "dir_chain fs (c # d # cs) = (usable_cluster fs c \<and> fat_entry fs c = d \<and> dir_chain fs (d # cs))"

lemma entry_bytes_nth: "k < 32 \<Longrightarrow> entry_bytes fs at ! k = im_data fs (at + k)"
  by (simp add: entry_bytes_def)

lemma places_from: "map (\<lambda>k. at + 32 * k) [0 ..< Suc n] = at # map (\<lambda>k. (at + 32) + 32 * k) [0 ..< n]"
  by (simp add: upt_rec [of 0] map_Suc_upt [symmetric] comp_def algebra_simps del: upt_Suc)

fun scan_places :: "mem_image \<Rightarrow> u8 list \<Rightarrow> nat list \<Rightarrow> scan_result" where
  "scan_places fs component [] = Not_here"
| "scan_places fs component (at # places) =
     (if im_data fs at = 0 then Dir_end
      else if entry_named fs component at then (case found_at fs at of (c, sz) \<Rightarrow> Hit c sz)
      else scan_places fs component places)"

lemma scan_dir_places: "scan_dir fs component at n = scan_places fs component (map (\<lambda>k. at + 32 * k) [0 ..< n])"
proof (induction n arbitrary: at)
  case 0
  show ?case by simp
next
  case (Suc n)
  show ?case
    unfolding scan_dir.simps Suc.IH places_from
    by (simp add: entry_bytes_nth entry_named_def found_at_def Let_def)
qed

lemma scan_places_eq:
  "scan_places fs component places =
     (case lookup_places fs component places of Some (c, sz) \<Rightarrow> Hit c sz
      | None \<Rightarrow> if \<forall>a \<in> set places. im_data fs a \<noteq> 0 then Not_here else Dir_end)"
  by (induction places) (auto simp: lookup_places_def split: prod.splits)

lemma scan_dir_eq:
  "scan_dir fs component (unat (cluster_to_offset fs c)) ((unat (dir_bytes fs) + 31) div 32) =
     (case lookup_places fs component (cluster_places fs c) of Some (c, sz) \<Rightarrow> Hit c sz
      | None \<Rightarrow> if \<forall>a \<in> set (cluster_places fs c). im_data fs a \<noteq> 0 then Not_here else Dir_end)"
  by (simp only: scan_dir_places cluster_places_def scan_places_eq)

lemma lookup_append:
  "lookup_places fs component (xs @ ys) =
     (case lookup_places fs component xs of Some r \<Rightarrow> Some r
      | None \<Rightarrow> if \<forall>a \<in> set xs. im_data fs a \<noteq> 0 then lookup_places fs component ys else None)"
  by (induction xs) (auto simp: lookup_places_def)

lemma search_chain_eq:
  assumes "dir_chain fs cs"
  shows "search_chain fs component (hd cs) = Some (lookup_places fs component (concat (map (cluster_places fs) cs)))"
  using assms
proof (induction fs cs rule: dir_chain.induct)
  case (1 fs)
  then show ?case by simp
next
  case (2 fs c)
  then have "search_chain fs component (fat_entry fs c) = Some None" by (subst search_chain.simps) simp
  with 2 show ?case
    by (subst search_chain.simps)
      (auto simp: usable_cluster_def not_le not_less scan_dir_eq Let_def split: option.splits)
next
  case (3 fs c d cs)
  then show ?case
    by (subst search_chain.simps)
      (auto simp: usable_cluster_def not_le not_less scan_dir_eq lookup_append Let_def split: option.splits)
qed

text \<open>A path of names, each found in the directory the one before it leads to.\<close>

inductive resolves :: "mem_image \<Rightarrow> u32 \<Rightarrow> u8 list list \<Rightarrow> u32 \<Rightarrow> u32 \<Rightarrow> bool" for fs where
  last_name: "dir_chain fs cs \<Longrightarrow> lookup_places fs name (concat (map (cluster_places fs) cs)) = Some (c, sz) \<Longrightarrow>
    resolves fs (hd cs) [name] c sz"
| next_name: "dir_chain fs cs \<Longrightarrow> lookup_places fs name (concat (map (cluster_places fs) cs)) = Some (d, z) \<Longrightarrow>
    resolves fs d names c sz \<Longrightarrow> resolves fs (hd cs) (name # names) c sz"

definition name_ok :: "u8 list \<Rightarrow> bool" where
  "name_ok n \<longleftrightarrow> n \<noteq> [] \<and> length n \<le> 255 \<and> 0x2F \<notin> set n"

fun join_names :: "u8 list list \<Rightarrow> u8 list" where
  "join_names [] = []"
| "join_names [n] = n"
| "join_names (n # m # ns) = n @ 0x2F # join_names (m # ns)"

lemma component_taken:
  assumes "name_ok n"
  shows "take 255 (takeWhile (\<lambda>c. c \<noteq> 0x2F) n) = n" "take 255 (takeWhile (\<lambda>c. c \<noteq> 0x2F) (n @ 0x2F # r)) = n"
proof -
  have "\<forall>c \<in> set n. c \<noteq> 0x2F" using assms by (auto simp: name_ok_def)
  then have t: "takeWhile (\<lambda>c. c \<noteq> 0x2F) n = n" "takeWhile (\<lambda>c. c \<noteq> 0x2F) (n @ 0x2F # r) = n" for r
    by (simp_all add: takeWhile_append2)
  from assms show "take 255 (takeWhile (\<lambda>c. c \<noteq> 0x2F) n) = n" "take 255 (takeWhile (\<lambda>c. c \<noteq> 0x2F) (n @ 0x2F # r)) = n"
    by (simp_all add: name_ok_def t)
qed

lemma join_names_Cons: "resolves fs d ms c sz \<Longrightarrow> join_names (n # ms) = n @ 0x2F # join_names ms"
  by (induction rule: resolves.induct) auto

lemma join_names_ne: "resolves fs d ms c sz \<Longrightarrow> list_all name_ok ms \<Longrightarrow> join_names ms \<noteq> []"
  by (induction rule: resolves.induct) (auto simp: name_ok_def join_names_Cons)

lemma resolves_opens:
  "resolves fs d names c sz \<Longrightarrow> list_all name_ok names \<Longrightarrow>
     open_components fs (join_names names) d = Some (Some (cluster_to_offset fs c, sz))"
proof (induction rule: resolves.induct)
  case (last_name cs name c sz)
  then show ?case
    by (subst open_components.simps) (simp add: component_taken search_chain_eq Let_def)
next
  case (next_name cs name d z names c sz)
  then show ?case
    by (subst open_components.simps)
      (simp add: component_taken search_chain_eq join_names_Cons [OF next_name(3)] join_names_ne [OF next_name(3)] Let_def)
qed

subsection \<open>Names of the kernel's driver\<close>

lemma length_pattern [simp]: "length (short_pattern component) = 11"
  by (auto simp: short_pattern_def length_put Let_def split: list.splits)

lemma first_dot:
  assumes "(0x2E :: u8) \<in> set c"
  obtains ys zs where "c = ys @ 0x2E # zs" "takeWhile (\<lambda>x. x \<noteq> 0x2E) c = ys" "dropWhile (\<lambda>x. x \<noteq> 0x2E) c = 0x2E # zs"
    "\<And>k. 0x2E \<in> set (take k c) \<longleftrightarrow> length ys < k"
proof -
  obtain ys zs where c: "c = ys @ 0x2E # zs" "0x2E \<notin> set ys" using assms by (meson split_list_first)
  then have ne: "x \<noteq> 0x2E" if "x \<in> set ys" for x using that by auto
  have "takeWhile (\<lambda>x. x \<noteq> 0x2E) c = ys" "dropWhile (\<lambda>x. x \<noteq> 0x2E) c = 0x2E # zs"
    using ne by (simp_all add: c(1) takeWhile_append2 dropWhile_append2)
  moreover have "0x2E \<in> set (take k c) \<longleftrightarrow> length ys < k" for k
    using c(2) by (cases "k - length ys") (auto simp: c(1) dest: in_set_takeD)
  ultimately show thesis using that c(1) by blast
qed

lemma no_slash_takeWhile: "0x2F \<notin> set c \<Longrightarrow> takeWhile (\<lambda>x. x \<noteq> 0x2F) c = (c :: u8 list)"
  by (rule takeWhile_eq_all_conv [THEN iffD2]) auto

lemma pattern_base:
  assumes "0x2F \<notin> set c"
  shows "short_pattern c = put 8 (map to_upper (case drop 8 c of [] \<Rightarrow> [] | x # p \<Rightarrow> if x = 0x2E then take 3 p else []))
    (put 0 (map to_upper (take 8 c)) (replicate 11 0x20))"
proof (cases "drop 8 c")
  case Nil
  with assms show ?thesis by (simp add: short_pattern_def no_slash_takeWhile)
next
  case (Cons x p)
  have "set (x # p) \<subseteq> set c" unfolding Cons [symmetric] by (rule set_drop_subset)
  with assms have "0x2F \<notin> set p" by auto
  moreover have "\<not> length c \<le> 8" using Cons by auto
  ultimately show ?thesis using assms Cons by (simp add: short_pattern_def no_slash_takeWhile min_absorb2)
qed

text \<open>
  The image reader recognises the 8.3 name that the kernel's driver
  makes of a name, whose base has at most 8 characters, exactly if the dot is not among the first 8
  characters: names with a shorter base and an extension are not found.
\<close>

theorem short_names_found_iff:
  assumes "0x2F \<notin> set c" and "0x2E \<in> set c \<longrightarrow> length (takeWhile (\<lambda>x. x \<noteq> 0x2E) c) \<le> 8"
  shows "match_short_name (fat32_to_fat_name c) c \<longleftrightarrow> 0x2E \<notin> set (take 8 c)"
proof (cases "0x2E \<in> set c")
  case True
  then obtain ys zs where c: "c = ys @ 0x2E # zs" "takeWhile (\<lambda>x. x \<noteq> 0x2E) c = ys"
      "dropWhile (\<lambda>x. x \<noteq> 0x2E) c = 0x2E # zs" "0x2E \<in> set (take 8 c) \<longleftrightarrow> length ys < 8"
    by (metis first_dot)
  show ?thesis
  proof (cases "length ys < 8")
    case short: True
    have "short_pattern c ! length ys = to_upper (c ! length ys)"
      using short by (simp add: pattern_base [OF assms(1)] put_def nth_append) (simp add: c(1))
    then have "short_pattern c ! length ys = 0x2E" by (simp add: c(1) to_upper_def is_lower_def)
    moreover have "fat32_to_fat_name c ! length ys = 0x20"
      using short by (simp add: fat32_to_fat_name_def c(2) put_def nth_append Let_def)
    moreover have "take 11 (fat32_to_fat_name c) ! length ys = fat32_to_fat_name c ! length ys" using short by simp
    ultimately have "take 11 (fat32_to_fat_name c) ! length ys \<noteq> short_pattern c ! length ys" by simp
    then have "take 11 (fat32_to_fat_name c) \<noteq> short_pattern c" by auto
    with short c(4) show ?thesis by (simp add: match_short_name_def)
  next
    case False
    with True assms(2) c(2) have n: "length ys = 8" by simp
    then have "drop 8 c = 0x2E # zs" "take 8 c = ys" by (simp_all add: c(1))
    then have "take 11 (fat32_to_fat_name c) = short_pattern c"
      using c(2,3) n by (simp add: pattern_base [OF assms(1)] fat32_to_fat_name_def Let_def) (simp add: put_def)
    with n c(4) show ?thesis by (simp add: match_short_name_def)
  qed
next
  case False
  then have none: "takeWhile (\<lambda>x. x \<noteq> 0x2E) c = c" "dropWhile (\<lambda>x. x \<noteq> 0x2E) c = []" by auto
  have "x \<noteq> 0x2E" if "drop 8 c = x # p" for x p
    using False set_drop_subset [of 8 c] that by auto
  then have "take 11 (fat32_to_fat_name c) = short_pattern c"
    unfolding pattern_base [OF assms(1)] fat32_to_fat_name_def none by (cases "drop 8 c") (auto simp: put_def)
  with False show ?thesis by (auto simp: match_short_name_def dest: in_set_takeD)
qed

theorem short_names_found_iff_witness:
  "\<not> match_short_name (fat32_to_fat_name (to_bytes ''readme.txt'')) (to_bytes ''readme.txt'') \<and>
   match_short_name (fat32_to_fat_name (to_bytes ''config00.txt'')) (to_bytes ''config00.txt'')"
  using short_names_found_iff [of "to_bytes ''readme.txt''"] short_names_found_iff [of "to_bytes ''config00.txt''"]
  by (simp add: to_bytes_def)

subsection \<open>A FAT32 image by its format\<close>

text \<open>
  The format, in natural numbers and without the code: numbers stored with the least byte first, the
  fields of the first sector, the place of a cluster and of its entry in the first FAT.
\<close>

fun le_number :: "u8 list \<Rightarrow> nat" where
  "le_number [] = 0"
| "le_number (x # xs) = unat x + 256 * le_number xs"

definition num16 :: "(nat \<Rightarrow> u8) \<Rightarrow> nat \<Rightarrow> nat" where "num16 b p = le_number [b p, b (p + 1)]"
definition num32 :: "(nat \<Rightarrow> u8) \<Rightarrow> nat \<Rightarrow> nat" where "num32 b p = le_number [b p, b (p + 1), b (p + 2), b (p + 3)]"

definition vol_sector :: "(nat \<Rightarrow> u8) \<Rightarrow> nat" where "vol_sector b = num16 b 11"
definition vol_cluster :: "(nat \<Rightarrow> u8) \<Rightarrow> nat" where "vol_cluster b = vol_sector b * unat (b 13)"
definition vol_fat_start :: "(nat \<Rightarrow> u8) \<Rightarrow> nat" where "vol_fat_start b = num16 b 14 * vol_sector b"
definition vol_data_start :: "(nat \<Rightarrow> u8) \<Rightarrow> nat" where
  "vol_data_start b = vol_fat_start b + unat (b 16) * num32 b 36 * vol_sector b"
definition vol_root :: "(nat \<Rightarrow> u8) \<Rightarrow> nat" where "vol_root b = num32 b 44"

definition cluster_at :: "(nat \<Rightarrow> u8) \<Rightarrow> nat \<Rightarrow> nat" where
  "cluster_at b c = vol_data_start b + (c - 2) * vol_cluster b"

definition vol_next :: "(nat \<Rightarrow> u8) \<Rightarrow> nat \<Rightarrow> nat" where
  "vol_next b c = num32 b (vol_fat_start b + 4 * c) mod 2 ^ 28"

definition fat_volume :: "(nat \<Rightarrow> u8) \<Rightarrow> nat \<Rightarrow> bool" where
  "fat_volume b len \<longleftrightarrow> 512 \<le> len \<and> 0 < vol_sector b \<and> 32 dvd vol_sector b \<and> 0 < unat (b 13)"

definition in_volume :: "(nat \<Rightarrow> u8) \<Rightarrow> nat \<Rightarrow> nat \<Rightarrow> bool" where
  "in_volume b len c \<longleftrightarrow> 2 \<le> c \<and> c < 0x0FFFFFF8 \<and> cluster_at b c + vol_cluster b \<le> len \<and>
     vol_fat_start b + 4 * c + 4 \<le> len"

text \<open>The clusters of a file or directory, from the first one to the end mark.\<close>

fun vol_chain :: "(nat \<Rightarrow> u8) \<Rightarrow> nat \<Rightarrow> nat list \<Rightarrow> bool" where
  "vol_chain b len [] = False"
| "vol_chain b len [c] = (in_volume b len c \<and> 0x0FFFFFF8 \<le> vol_next b c)"
| "vol_chain b len (c # d # cs) = (in_volume b len c \<and> vol_next b c = d \<and> vol_chain b len (d # cs))"

definition vol_contents :: "(nat \<Rightarrow> u8) \<Rightarrow> nat list \<Rightarrow> u8 list" where
  "vol_contents b cs = concat (map (\<lambda>c. map b [cluster_at b c ..< cluster_at b c + vol_cluster b]) cs)"

text \<open>
  Directory entries of 32 bytes: 11 for the name in capitals with blanks behind base and extension, the
  attributes, the first cluster in two halves and the size.
\<close>

definition entry_places :: "(nat \<Rightarrow> u8) \<Rightarrow> nat list \<Rightarrow> nat list" where
  "entry_places b cs = concat (map (\<lambda>c. map (\<lambda>k. cluster_at b c + 32 * k) [0 ..< vol_cluster b div 32]) cs)"

definition entry_cluster :: "(nat \<Rightarrow> u8) \<Rightarrow> nat \<Rightarrow> nat" where
  "entry_cluster b at = num16 b (at + 26) + 2 ^ 16 * num16 b (at + 20)"

definition entry_size :: "(nat \<Rightarrow> u8) \<Rightarrow> nat \<Rightarrow> nat" where
  "entry_size b at = num32 b (at + 28)"

type_synonym file_name = "u8 list \<times> u8 list"

definition capital :: "u8 \<Rightarrow> u8" where
  "capital c = (if 97 \<le> unat c \<and> unat c \<le> 122 then of_nat (unat c - 32) else c)"

definition stored_name :: "file_name \<Rightarrow> u8 list" where
  "stored_name n = (case n of (base, ext) \<Rightarrow>
     map capital base @ replicate (8 - length base) 0x20 @ map capital ext @ replicate (3 - length ext) 0x20)"

definition typed_name :: "file_name \<Rightarrow> u8 list" where
  "typed_name n = (case n of (base, ext) \<Rightarrow> base @ (if ext = [] then [] else 0x2E # ext))"

definition vol_lookup :: "(nat \<Rightarrow> u8) \<Rightarrow> file_name \<Rightarrow> nat list \<Rightarrow> nat option" where
  "vol_lookup b n places =
     find (\<lambda>at. b at \<noteq> 0xE5 \<and> b (at + 11) \<noteq> 0x0F \<and> map b [at ..< at + 11] = stored_name n)
       (takeWhile (\<lambda>at. b at \<noteq> 0) places)"

text \<open>
  Where a path leads: the names in directory after directory, to first cluster and size of a file.
  Whether an entry is a directory, a file or a label is not asked, so that all paths of the format are
  included.
\<close>

inductive leads_to :: "(nat \<Rightarrow> u8) \<Rightarrow> nat \<Rightarrow> nat \<Rightarrow> file_name list \<Rightarrow> nat \<Rightarrow> nat \<Rightarrow> bool" for b len where
  leads_file: "vol_chain b len cs \<Longrightarrow> vol_lookup b n (entry_places b cs) = Some at \<Longrightarrow>
    leads_to b len (hd cs) [n] (entry_cluster b at) (entry_size b at)"
| leads_dir: "vol_chain b len cs \<Longrightarrow> vol_lookup b n (entry_places b cs) = Some at \<Longrightarrow>
    leads_to b len (entry_cluster b at) ns c sz \<Longrightarrow> leads_to b len (hd cs) (n # ns) c sz"

text \<open>
  The names the reader can find: an extension only behind a base of all 8 characters.
\<close>

definition plain_name :: "file_name \<Rightarrow> bool" where
  "plain_name n \<longleftrightarrow> (case n of (base, ext) \<Rightarrow> base \<noteq> [] \<and> length base \<le> 8 \<and> length ext \<le> 3 \<and>
     0x2F \<notin> set base \<union> set ext \<and> (ext \<noteq> [] \<longrightarrow> length base = 8))"

subsection \<open>The code computes the format\<close>

lemma num16_less: "num16 b p < 2 ^ 16"
  using unsigned_less [of "b p", where 'a = nat] unsigned_less [of "b (p + 1)", where 'a = nat]
  by (simp add: num16_def)

lemma num32_less: "num32 b p < 2 ^ 32"
  using unsigned_less [of "b p", where 'a = nat] unsigned_less [of "b (p + 1)", where 'a = nat]
    unsigned_less [of "b (p + 2)", where 'a = nat] unsigned_less [of "b (p + 3)", where 'a = nat]
  by (simp add: num32_def)

lemma unat_read_le16: "unat (read_le16 b p) = num16 b p"
proof -
  have "read_le16 b p = ucast (b p) + push_bit 8 (ucast (b (p + 1)))"
    unfolding read_le16_def by (rule disjunctive_add [symmetric]) (auto simp: bit_simps dest: bit_imp_le_length)
  also have "\<dots> = of_nat (num16 b p)"
    by (simp add: num16_def push_bit_eq_mult)
  finally show ?thesis using num16_less [of b p] by (simp add: unat_of_nat_small)
qed

lemma unat_read_le32: "unat (read_le32 b p) = num32 b p"
proof -
  let ?a = "ucast (b p) :: u32" and ?b = "push_bit 8 (ucast (b (p + 1))) :: u32"
    and ?c = "push_bit 16 (ucast (b (p + 2))) :: u32" and ?d = "push_bit 24 (ucast (b (p + 3))) :: u32"
  have 1: "?a OR ?b = ?a + ?b"
    by (rule disjunctive_add [symmetric]) (auto simp: bit_simps dest: bit_imp_le_length)
  have 2: "(?a OR ?b) OR ?c = (?a OR ?b) + ?c"
    by (rule disjunctive_add [symmetric]) (auto simp: bit_simps dest: bit_imp_le_length)
  have 3: "((?a OR ?b) OR ?c) OR ?d = ((?a OR ?b) OR ?c) + ?d"
    by (rule disjunctive_add [symmetric]) (auto simp: bit_simps dest: bit_imp_le_length)
  have "read_le32 b p = ((?a OR ?b) OR ?c) OR ?d" by (simp only: read_le32_def or.assoc)
  then have "read_le32 b p = ?a + ?b + ?c + ?d" unfolding 3 unfolding 2 unfolding 1 .
  also have "\<dots> = of_nat (num32 b p)"
    by (simp add: num32_def push_bit_eq_mult algebra_simps)
  finally show ?thesis using num32_less [of b p] by (simp add: unat_of_nat_small)
qed

lemma read_le32_of_nat: "read_le32 b p = of_nat (num32 b p)"
  by (simp flip: unat_read_le32)

lemma ucast_read_le16: "(ucast (read_le16 b p) :: u32) = of_nat (num16 b p)"
  by (simp flip: unat_read_le16)

lemma entry_cluster_word:
  "push_bit 16 (ucast (read_le16 b (at + 20))) OR ucast (read_le16 b (at + 26)) = (of_nat (entry_cluster b at) :: u32)"
proof -
  have "push_bit 16 (ucast (read_le16 b (at + 20))) OR ucast (read_le16 b (at + 26)) =
      push_bit 16 (ucast (read_le16 b (at + 20)) :: u32) + ucast (read_le16 b (at + 26))"
    by (rule disjunctive_add [symmetric]) (auto simp: bit_simps dest: bit_imp_le_length)
  then show ?thesis by (simp add: entry_cluster_def ucast_read_le16 push_bit_eq_mult)
qed

lemma found_at_entry: "found_at fs at = (of_nat (entry_cluster (im_data fs) at), of_nat (entry_size (im_data fs) at))"
  by (simp add: found_at_def entry_cluster_word read_le32_of_nat entry_size_def)


definition volume_of :: "(nat \<Rightarrow> u8) \<Rightarrow> u32 \<Rightarrow> mem_image" where
  "volume_of b len = \<lparr>im_data = b, im_total = len, im_sector = of_nat (vol_sector b), im_per_cluster = of_nat (unat (b 13)),
     im_reserved = of_nat (num16 b 14), im_fats = of_nat (unat (b 16)), im_fat_size = of_nat (num32 b 36),
     im_root = of_nat (vol_root b), im_first_data = of_nat (num16 b 14 + unat (b 16) * num32 b 36)\<rparr>"

lemma volume_simps [simp]:
  "im_data (volume_of b len) = b" "im_total (volume_of b len) = len" "im_sector (volume_of b len) = of_nat (vol_sector b)"
  "im_per_cluster (volume_of b len) = of_nat (unat (b 13))" "im_reserved (volume_of b len) = of_nat (num16 b 14)"
  "im_root (volume_of b len) = of_nat (vol_root b)"
  "im_first_data (volume_of b len) = of_nat (num16 b 14 + unat (b 16) * num32 b 36)"
  by (simp_all add: volume_of_def)

lemma vol_sector_less: "vol_sector b < 2 ^ 16"
  unfolding vol_sector_def by (rule num16_less)

lemma init_volume:
  assumes "fat_volume b (unat len)"
  shows "fat32_init_from_memory (Some b) len = Some (volume_of b len)"
proof -
  have "\<not> len < 512" using assms by (simp add: fat_volume_def word_less_nat_alt)
  moreover have "(of_nat (num16 b 11) :: u32) \<noteq> 0" using assms num16_less [of b 11]
    by (simp add: fat_volume_def vol_sector_def word_of_nat_eq_0_iff dvd_imp_le nat_dvd_not_less)
  moreover have "unat (of_nat (unat (b 13)) :: u32) = unat (b 13)"
    by (rule unat_of_nat_small) (use unsigned_less [of "b 13", where 'a = nat] in simp)
  with assms have "(ucast (b 13) :: u32) \<noteq> 0" by (auto simp: fat_volume_def)
  ultimately show ?thesis
    by (simp add: fat32_init_from_memory_def volume_of_def vol_sector_def vol_root_def read_le32_of_nat ucast_read_le16 Let_def)
qed

lemma offset_word:
  assumes "2 \<le> c"
  shows "cluster_to_offset (volume_of b len) (of_nat c) = of_nat (cluster_at b c)"
proof -
  obtain k where "c = k + 2" using assms by (metis le_add_diff_inverse2)
  then show ?thesis
    by (simp add: cluster_to_offset_def cluster_at_def vol_data_start_def vol_fat_start_def vol_cluster_def algebra_simps)
qed

lemma dir_bytes_word: "dir_bytes (volume_of b len) = of_nat (vol_cluster b)"
  by (simp add: dir_bytes_def vol_cluster_def)

lemma unat_small: "n \<le> unat (len :: u32) \<Longrightarrow> unat (of_nat n :: u32) = n"
  using unsigned_less [of len, where 'a = nat] by (simp add: unat_of_nat_small)

lemma in_volume_offset:
  assumes "in_volume b (unat len) c"
  shows "unat (cluster_to_offset (volume_of b len) (of_nat c)) = cluster_at b c"
    "unat (dir_bytes (volume_of b len)) = vol_cluster b"
    "usable_cluster (volume_of b len) (of_nat c)"
proof -
  let ?e = "cluster_at b c + vol_cluster b"
  have le: "2 \<le> c" "?e \<le> unat len" "c < 0x0FFFFFF8" using assms by (auto simp: in_volume_def)
  show "unat (cluster_to_offset (volume_of b len) (of_nat c)) = cluster_at b c"
    using le(2) unat_small [of "cluster_at b c" len] by (simp add: offset_word [OF le(1)])
  show "unat (dir_bytes (volume_of b len)) = vol_cluster b"
    using le(2) unat_small [of "vol_cluster b" len] by (simp add: dir_bytes_word)
  have "cluster_to_offset (volume_of b len) (of_nat c) + dir_bytes (volume_of b len) = of_nat ?e"
    by (simp add: offset_word [OF le(1)] dir_bytes_word)
  moreover have "\<not> len < of_nat ?e" using le(2) unat_small [OF le(2)] by (simp add: word_less_nat_alt)
  moreover have "(of_nat c :: u32) < 0x0FFFFFF8" using le(3) by (simp add: word_less_nat_alt unat_of_nat_small)
  ultimately show "usable_cluster (volume_of b len) (of_nat c)" by (simp add: usable_cluster_def)
qed

lemma vol_next_less: "vol_next b c < 2 ^ 28"
  by (simp add: vol_next_def)

lemma entry_word:
  assumes "in_volume b (unat len) c"
  shows "fat_entry (volume_of b len) (of_nat c) = of_nat (vol_next b c)"
proof -
  let ?e = "vol_fat_start b + 4 * c"
  have le: "?e + 4 \<le> unat len" using assms by (simp add: in_volume_def)
  have w: "of_nat (num16 b 14) * of_nat (vol_sector b) + of_nat c * 4 = (of_nat ?e :: u32)"
    by (simp add: vol_fat_start_def algebra_simps)
  have "(of_nat ?e :: u32) + 4 = of_nat (?e + 4)" by simp
  then have "\<not> len < (of_nat ?e :: u32) + 4" using unat_small [OF le] le by (simp add: word_less_nat_alt)
  moreover have "unat (of_nat ?e :: u32) = ?e" using le unat_small [of ?e len] by simp
  moreover have "(read_le32 b ?e AND 0x0FFFFFFF) = of_nat (num32 b ?e mod 2 ^ 28)"
  proof -
    have "read_le32 b ?e AND 0x0FFFFFFF = take_bit 28 (read_le32 b ?e)" by (simp add: take_bit_eq_mask mask_eq_exp_minus_1)
    also have "unat \<dots> = num32 b ?e mod 2 ^ 28"
      by (simp only: unsigned_take_bit_eq unat_read_le32) (simp add: take_bit_eq_mod)
    finally show ?thesis by (metis of_nat_unat ucast_id)
  qed
  ultimately show ?thesis by (simp add: fat_entry_def Let_def w vol_next_def)
qed


lemma chain_words:
  assumes "vol_chain b (unat len) cs"
  shows "dir_chain (volume_of b len) (map of_nat cs)"
  using assms
proof (induction cs rule: induct_list012)
  case 1
  then show ?case by simp
next
  case (2 c)
  then have "0x0FFFFFF8 \<le> (of_nat (vol_next b c) :: u32)"
    using vol_next_less [of b c] by (simp add: word_le_nat_alt unat_of_nat_small)
  with 2 show ?case by (simp add: in_volume_offset entry_word)
next
  case (3 c d cs)
  then show ?case by (simp add: in_volume_offset entry_word)
qed

lemma chain_in_image: "vol_chain b len cs \<Longrightarrow> c \<in> set cs \<Longrightarrow> in_volume b len c"
  by (induction cs rule: induct_list012) auto

lemma chain_places:
  assumes "fat_volume b (unat len)" and "vol_chain b (unat len) cs"
  shows "concat (map (cluster_places (volume_of b len)) (map of_nat cs)) = entry_places b cs"
proof -
  have "32 dvd vol_cluster b" using assms(1) by (simp add: fat_volume_def vol_cluster_def)
  then have "(vol_cluster b + 31) div 32 = vol_cluster b div 32" by (elim dvdE) simp
  then have "cluster_places (volume_of b len) (of_nat c) = map (\<lambda>k. cluster_at b c + 32 * k) [0 ..< vol_cluster b div 32]"
    if "c \<in> set cs" for c
    using in_volume_offset(1,2) [OF chain_in_image [OF assms(2) that]] by (simp add: cluster_places_def)
  then show ?thesis by (simp add: entry_places_def comp_def cong: map_cong)
qed

lemma capital_eq: "capital = to_upper"
proof
  fix c :: u8
  have "of_nat (unat c - 32) = c - 32" if "97 \<le> unat c"
    using that by (simp add: of_nat_diff)
  then show "capital c = to_upper c"
    by (simp add: capital_def to_upper_def is_lower_def word_le_nat_alt)
qed

lemma pattern_stored:
  assumes "plain_name n"
  shows "short_pattern (typed_name n) = stored_name n"
proof -
  obtain base ext where n: "n = (base, ext)" by (cases n)
  have ok: "0x2F \<notin> set (typed_name n)" using assms by (auto simp: n plain_name_def typed_name_def)
  show ?thesis
  proof (cases "ext = []")
    case True
    then show ?thesis using assms
      by (simp add: pattern_base [OF ok])
        (simp add: n typed_name_def stored_name_def plain_name_def put_def capital_eq replicate_add [symmetric])
  next
    case False
    then show ?thesis using assms
      by (simp add: pattern_base [OF ok])
        (simp add: n typed_name_def stored_name_def plain_name_def put_def capital_eq)
  qed
qed

lemma lookup_volume:
  assumes "plain_name n"
  shows "lookup_places (volume_of b len) (typed_name n) places =
    map_option (\<lambda>at. (of_nat (entry_cluster b at), of_nat (entry_size b at))) (vol_lookup b n places)"
proof -
  have "match_short_name (entry_bytes (volume_of b len) at) (typed_name n) \<longleftrightarrow> map b [at ..< at + 11] = stored_name n" for at
    by (simp add: match_short_name_def entry_bytes_def pattern_stored [OF assms] take_map)
  then have "entry_named (volume_of b len) (typed_name n) =
      (\<lambda>at. b at \<noteq> 0xE5 \<and> b (at + 11) \<noteq> 0x0F \<and> map b [at ..< at + 11] = stored_name n)"
    by (simp add: fun_eq_iff entry_named_def)
  moreover have "found_at (volume_of b len) = (\<lambda>at. (of_nat (entry_cluster b at), of_nat (entry_size b at)))"
    by (simp add: fun_eq_iff found_at_entry)
  ultimately show ?thesis by (simp add: lookup_places_def vol_lookup_def)
qed

lemma leads_resolves:
  assumes "leads_to b (unat len) d names c sz" and "fat_volume b (unat len)" and "list_all plain_name names"
  shows "resolves (volume_of b len) (of_nat d) (map typed_name names) (of_nat c) (of_nat sz)"
  using assms(1,3)
proof (induction rule: leads_to.induct)
  case (leads_file cs n at)
  from leads_file(1) have hd: "hd (map of_nat cs) = (of_nat (hd cs) :: u32)" by (cases cs) simp_all
  have "resolves (volume_of b len) (hd (map of_nat cs)) [typed_name n] (of_nat (entry_cluster b at)) (of_nat (entry_size b at))"
    by (rule last_name [OF chain_words [OF leads_file(1)]])
      (use leads_file in \<open>simp add: chain_places [OF assms(2)] lookup_volume del: map_map\<close>)
  then show ?case by (simp add: hd)
next
  case (leads_dir cs n at ns c sz)
  from leads_dir(1) have hd: "hd (map of_nat cs) = (of_nat (hd cs) :: u32)" by (cases cs) simp_all
  have "resolves (volume_of b len) (hd (map of_nat cs)) (typed_name n # map typed_name ns) (of_nat c) (of_nat sz)"
    by (rule next_name [OF chain_words [OF leads_dir(1)]])
      (use leads_dir in \<open>simp_all add: chain_places [OF assms(2)] lookup_volume del: map_map\<close>)
  then show ?case by (simp add: hd)
qed

lemma name_ok_typed: "plain_name n \<Longrightarrow> name_ok (typed_name n)"
  by (cases n) (auto simp: plain_name_def name_ok_def typed_name_def)

lemma leads_to_bounds: "leads_to b len d names c sz \<Longrightarrow> c < 2 ^ 32 \<and> sz < 2 ^ 32"
proof (induction rule: leads_to.induct)
  case (leads_file cs n at)
  show ?case using num16_less [of b "at + 26"] num16_less [of b "at + 20"] num32_less [of b "at + 28"]
    by (simp add: entry_cluster_def entry_size_def)
qed simp

lemma consecutive_at:
  assumes "2 \<le> c"
  shows "cluster_at b (c + k) = cluster_at b c + k * vol_cluster b"
  using assms by (simp add: cluster_at_def add_mult_distrib [symmetric])

lemma consecutive_contents:
  assumes "2 \<le> c"
  shows "vol_contents b (map ((+) c) [0 ..< n]) = map b [cluster_at b c ..< cluster_at b c + n * vol_cluster b]"
proof (induction n)
  case 0
  show ?case by (simp add: vol_contents_def)
next
  case (Suc n)
  let ?m = "cluster_at b c + n * vol_cluster b"
  have "[cluster_at b c ..< ?m + vol_cluster b] = [cluster_at b c ..< ?m] @ [?m ..< ?m + vol_cluster b]"
    by (rule upt_add_eq_append) simp
  with Suc show ?case by (simp add: vol_contents_def consecutive_at [OF assms] algebra_simps)
qed

text \<open>
  C40 (functional, FAT32 image). The utility cat prints the contents of the file that a path of names
  leads to, as the format of FAT32 has them. Where the path leads, which clusters are a directory's or a
  file's and where they lie in the image is read off the bytes of the image in natural numbers, without
  the code. The file must lie in consecutive clusters; its contents are the first bytes of these, as
  many as its size says. The names on the path have an extension only behind a base of 8 characters, as
  \<open>plain_name\<close> says: the reader does not find others (\<open>short_names_found_iff\<close>).
\<close>

theorem cat_prints_file:
  assumes "fat_volume b (unat len)" and "leads_to b (unat len) (vol_root b) names c sz" and "list_all plain_name names"
    and "sz = 0 \<or> vol_chain b (unat len) (map ((+) c) [0 ..< n])" and "sz \<le> n * vol_cluster b"
  shows "util_cat (Some b) len (0x2F # join_names (map typed_name names)) =
    Some (take sz (vol_contents b (map ((+) c) [0 ..< n])))"
proof -
  have "len \<noteq> 0" using assms(1) by (auto simp: fat_volume_def)
  moreover have "list_all name_ok (map typed_name names)"
    using assms(3) by (auto simp: list_all_iff intro: name_ok_typed)
  then have "fat32_open_file (volume_of b len) (0x2F # join_names (map typed_name names)) =
      Some (Some (cluster_to_offset (volume_of b len) (of_nat c), of_nat sz))"
    using resolves_opens [OF leads_resolves [OF assms(2,1,3)]] by (simp add: fat32_open_file_def)
  moreover have "unat (of_nat sz :: u32) = sz"
    using leads_to_bounds [OF assms(2)] by (intro unat_of_nat_small) simp
  ultimately have cat: "util_cat (Some b) len (0x2F # join_names (map typed_name names)) =
      Some (map b [unat (cluster_to_offset (volume_of b len) (of_nat c)) ..<
        unat (cluster_to_offset (volume_of b len) (of_nat c)) + sz])"
    by (simp add: util_cat_def init_volume [OF assms(1)])
  show ?thesis
  proof (cases "sz = 0")
    case True
    with cat show ?thesis by simp
  next
    case False
    with assms(5) have "0 < n" by (cases n) auto
    with False assms(4) have "in_volume b (unat len) c" using chain_in_image [of b "unat len" _ c] by force
    then have at: "unat (cluster_to_offset (volume_of b len) (of_nat c)) = cluster_at b c" and c: "2 \<le> c"
      by (simp_all add: in_volume_offset in_volume_def)
    show ?thesis using cat assms(5) by (simp add: at consecutive_contents [OF c] take_map)
  qed
qed

text \<open>
  An image of one FAT sector: the root directory in cluster 2, where an erased entry precedes the file's,
  and the file in the clusters 3 and 4.
\<close>

definition demo_bytes :: "nat \<Rightarrow> u8" where
  "demo_bytes = (\<lambda>_. 0)(12 := 2, 13 := 1, 14 := 1, 16 := 1, 36 := 1, 44 := 2,
     520 := 0xFF, 521 := 0xFF, 522 := 0xFF, 523 := 0x0F, 524 := 4, 528 := 0xFF, 529 := 0xFF, 530 := 0xFF, 531 := 0x0F,
     1024 := 0xE5, 1056 := 0x48, 1057 := 0x49, 1058 := 0x20, 1059 := 0x20, 1060 := 0x20, 1061 := 0x20, 1062 := 0x20,
     1063 := 0x20, 1064 := 0x20, 1065 := 0x20, 1066 := 0x20, 1067 := 0x20, 1082 := 3, 1084 := 3, 1085 := 2,
     1536 := 0x61, 1537 := 0x62, 1538 := 0x63, 2050 := 0x64)"

lemma demo_volume:
  "fat_volume demo_bytes 4096" "vol_cluster demo_bytes = 512" "vol_root demo_bytes = 2" "vol_data_start demo_bytes = 1024"
  "vol_fat_start demo_bytes = 512"
  by (simp_all add: fat_volume_def vol_sector_def vol_cluster_def vol_root_def vol_data_start_def vol_fat_start_def
      num16_def num32_def demo_bytes_def)

lemma demo_chain: "vol_chain demo_bytes 4096 [2]" "vol_chain demo_bytes 4096 [3, 4]"
  by (simp_all add: in_volume_def cluster_at_def vol_next_def demo_volume num32_def) (simp_all add: demo_bytes_def)

lemma demo_leads: "leads_to demo_bytes 4096 (vol_root demo_bytes) [(to_bytes ''hi'', [])] 3 515"
proof -
  let ?n = "(to_bytes ''hi'', [])" and ?r = "map (\<lambda>k. 1024 + 32 * k) [2 ..< 16]"
  have "entry_places demo_bytes [2] = 1024 # 1056 # ?r"
    by (simp add: entry_places_def cluster_at_def demo_volume upt_rec)
  moreover have "map demo_bytes [1056 ..< 1067] = stored_name ?n"
  proof -
    have "map demo_bytes [1056 ..< 1067] = [0x48, 0x49, 0x20, 0x20, 0x20, 0x20, 0x20, 0x20, 0x20, 0x20, 0x20]"
      by (simp add: upt_rec demo_bytes_def)
    also have "\<dots> = stored_name ?n" by code_simp
    finally show ?thesis .
  qed
  moreover have "demo_bytes 1024 = 0xE5" "demo_bytes 1056 = 0x48" "demo_bytes 1067 = 0x20"
    by (simp_all add: demo_bytes_def)
  ultimately have "vol_lookup demo_bytes ?n (entry_places demo_bytes [2]) = Some 1056"
    by (simp add: vol_lookup_def)
  from leads_file [OF demo_chain(1) this] show ?thesis
    by (simp add: demo_volume entry_cluster_def entry_size_def num16_def num32_def) (simp add: demo_bytes_def)
qed

theorem cat_prints_file_witness:
  "util_cat (Some demo_bytes) 4096 (to_bytes ''/hi'') =
    Some (to_bytes ''abc'' @ replicate 509 0 @ [0, 0, 0x64])"
proof -
  have two: "map ((+) 3) [0 ..< 2] = [3, 4 :: nat]" by (simp add: upt_rec)
  have "util_cat (Some demo_bytes) 4096 (0x2F # join_names (map typed_name [(to_bytes ''hi'', [])])) =
      Some (take 515 (vol_contents demo_bytes (map ((+) 3) [0 ..< 2])))"
    by (rule cat_prints_file)
      (use demo_leads in \<open>simp_all add: demo_volume(1,2) two demo_chain plain_name_def to_bytes_def del: vol_chain.simps\<close>)
  moreover have "take 515 (vol_contents demo_bytes (map ((+) 3) [0 ..< 2])) = to_bytes ''abc'' @ replicate 509 0 @ [0, 0, 0x64]"
  proof -
    have gap: "map demo_bytes [1539 ..< 2048] = replicate 509 0"
    proof -
      have "map demo_bytes [1539 ..< 2048] = map (\<lambda>_. 0) [1539 ..< 2048]"
        by (rule map_cong) (auto simp: demo_bytes_def simp del: upt_rec_numeral)
      then show ?thesis by (simp add: map_replicate_const del: upt_rec_numeral)
    qed
    have "take 515 (vol_contents demo_bytes (map ((+) 3) [0 ..< 2])) = map demo_bytes [1536 ..< 2051]"
      by (simp add: consecutive_contents demo_volume cluster_at_def take_map del: upt_rec_numeral)
    also have "[1536 ..< 2051] = [1536 ..< 1539] @ [1539 ..< 2051 :: nat]"
      using upt_add_eq_append [of 1536 1539 512] by (simp del: upt_rec_numeral)
    also have "[1539 ..< 2051] = [1539 ..< 2048] @ [2048 ..< 2051 :: nat]"
      using upt_add_eq_append [of 1539 2048 3] by (simp del: upt_rec_numeral)
    also have "map demo_bytes ([1536 ..< 1539] @ [1539 ..< 2048] @ [2048 ..< 2051]) = to_bytes ''abc'' @ replicate 509 0 @ [0, 0, 0x64]"
      unfolding map_append gap by (simp add: upt_rec demo_bytes_def to_bytes_def)
    finally show ?thesis .
  qed
  ultimately show ?thesis by (simp add: to_bytes_def typed_name_def)
qed

end
