(* ===== verification/Spec2Isabelle.thy ===== *)
theory Spec2Isabelle
  imports Paging Sched Blk Fat_Dir Irq Syscall Elf Shell Console Acpi Cpufreq Xhci_Rings Boot Libc Startup Panic Fat_Image
begin

text \<open>
  \<^bold>\<open>Rhoudveine.\<close> A verification library for the Rhoudveine kernel, a small x86-64 kernel in C.
  The kernel proper lives in \<^verbatim>\<open>src/src/impl/kernel\<close>; the paths below are relative to it.

  \<^bold>\<open>Parts of the program and how they meet.\<close> \<open>kernel_main\<close> sets up the memory allocator, the
  segment and interrupt tables, the timer and the keyboard, scans the PCI bus, starts the disk
  driver, mounts the file systems and loads the program init, which enters the kernel again through
  system calls. Interrupts reach \<open>irq_handler\<close>, which counts ticks and hands key presses to the
  keyboard's ring buffer. The file system layer calls the file systems through a table of
  function pointers and mounts one below another.

  \<^bold>\<open>Theories.\<close>
  \<^item> \<open>Prelude\<close>: the integer types, bit lemmas and the search for a least index.
  \<^item> \<open>Mm\<close> (\<^verbatim>\<open>core/mm.c\<close>): the record \<open>mm\<close> holds both bitmaps of page frames with their counters;
    allocation, release, initialisation from the memory map. \<open>Paging\<close> (same file): the four-level
    tables that \<open>map_page\<close> and \<open>mmio_remap\<close> write, as a map from a table and an index to an entry.
  \<^item> \<open>Links\<close>: singly linked lists in a store, and the loops that walk them. \<open>Sched\<close>
    (\<^verbatim>\<open>core/sched.c\<close>) and \<open>Blk\<close> (\<^verbatim>\<open>core/blk.c\<close>) use it for run queues and request queues; an object
    is a reference, a C pointer an optional reference.
  \<^item> \<open>Vfs\<close> (\<^verbatim>\<open>fs/vfs.c\<close>): nodes, mounts and descriptors. The function pointers of a node are a
    record of operations, given as an argument.
    \<open>Mem_Fs\<close> (\<^verbatim>\<open>fs/ramfs.c\<close>, \<^verbatim>\<open>fs/devfs.c\<close>, \<^verbatim>\<open>fs/procfs.c\<close>) and \<open>Fat\<close>, \<open>Fat_Dir\<close>
    (\<^verbatim>\<open>fs/fat32_vfs.c\<close>) are the file systems behind it.
  \<^item> \<open>Fmt\<close> (\<^verbatim>\<open>core/main.c\<close>, \<^verbatim>\<open>lib/stdio.c\<close>): number conversion, \<open>kprintf\<close>, \<open>sprintf\<close>, the command line.
  \<^item> \<open>Input\<close> (\<^verbatim>\<open>drivers/ps2.c\<close>, \<^verbatim>\<open>drivers/usb_hid.c\<close>): both keyboards and their ring buffer.
  \<^item> \<open>Irq\<close> (\<^verbatim>\<open>core/idt.c\<close>, \<^verbatim>\<open>core/irq.c\<close>, \<^verbatim>\<open>core/timer.c\<close>, part of \<^verbatim>\<open>core/main.c\<close>): descriptor tables,
    interrupt controller, ticks and sleeping.
  \<^item> \<open>Syscall\<close> (\<^verbatim>\<open>core/syscall.c\<close>): all system calls over the file systems, the keyboard and the
    caller's memory.
    \<open>Libc\<close> (\<^verbatim>\<open>userlib/libc.h\<close>, \<^verbatim>\<open>userlib/syscall.h\<close>): the library of user programs, which calls them.
  \<^item> \<open>Elf\<close> (\<^verbatim>\<open>core/elf.c\<close>): the loader, on one memory of bytes.
  \<^item> \<open>Pci\<close> (\<^verbatim>\<open>drivers/vray.c\<close>, \<^verbatim>\<open>drivers/pci_db.c\<close>, \<^verbatim>\<open>fs/vnode.c\<close>, \<^verbatim>\<open>fs/nvnode.c\<close>): bus scan, name
    lookup, device lists. \<open>Ahci\<close> (\<^verbatim>\<open>drivers/ahci.c\<close>) finds its controller there.
  \<^item> \<open>Shell\<close> (\<^verbatim>\<open>src/init/init.c\<close>): the shell that is linked into the kernel, with its path
    normalisation, line editor and commands, over the file systems and the disk driver.
  \<^item> \<open>Console\<close> (\<^verbatim>\<open>core/main.c\<close>, \<^verbatim>\<open>drivers/serial.c\<close>, \<^verbatim>\<open>x86_64/print.c\<close>): text on the framebuffer, its
    serial mirror, and text mode; a frame buffer is a map from offsets to bytes.
  \<^item> \<open>Acpi\<close> (\<^verbatim>\<open>drivers/acpi.c\<close>): table discovery, processors, power. \<open>Cpufreq\<close>
    (\<^verbatim>\<open>drivers/cpufreq.c\<close>): frequency ratios and governors.
  \<^item> \<open>Cycle_Rings\<close>: rings whose entries carry a cycle bit. \<open>Xhci\<close> (\<^verbatim>\<open>drivers/xhci.c\<close>): the USB host
    controller, whose state extends the one of the keyboard, so that its \<open>usb_kbd_poll\<close> is an
    argument for \<open>ps2_getchar\<close>; \<open>Xhci_Rings\<close> proves its rings right.
  \<^item> \<open>Boot\<close> (\<open>kernel_main\<close> of \<^verbatim>\<open>core/main.c\<close>): the boot modules, the screen, and the bring-up of the
    file systems, over \<open>Fat\<close>, \<open>Fmt\<close> and \<open>Console\<close>.
  \<^item> \<open>Config\<close> (\<^verbatim>\<open>src/tools\<close>): the menu that edits the kernel's configuration and the generator of its
    header, on files as strings. \<open>Startup\<close> (\<open>kernel_main\<close>, \<^verbatim>\<open>src/Kconfig\<close>): the order in which the
    parts are started for a configuration, and the options it can be made of.
  \<^item> \<open>Panic\<close> (\<^verbatim>\<open>core/panic.c\<close>, \<^verbatim>\<open>include/beep.h\<close>): the panic shell, which writes operations of the
    console and dumps registers that an argument, the processor, gives.
  \<^item> \<open>Fat_Image\<close> (\<^verbatim>\<open>fs/fat32.c\<close>, \<^verbatim>\<open>src/init/utility\<close>): the reader of a FAT32 image in memory and the
    utilities cat and ls on it, which the build leaves out.

  \<^bold>\<open>How code becomes definitions.\<close> A definition has the name of its C function; a loop or a block
  of a function that is a definition of its own is named in the comment before it. Integers keep
  their width (\<open>u8\<close> to \<open>u64\<close>). Static variables are the fields of a record that is passed along.
  Undefined behaviour (a NULL dereference, an access outside an array) is \<open>None\<close>. Loops over an
  index are structural or have a measure; loops over pointers and waits that may never end are
  \<open>partial_function (option)\<close>, and that they end is proved where it is claimed. What the hardware
  returns is a function in the state, of the number of the read and the port or register; what
  is written to it is a trace. Debug output is left out, except where a call's purpose is output.

  \<^bold>\<open>What the lemmas show.\<close>
  \<^item> Memory: the allocator's invariant (counters agree with the bitmaps, reserved frames are never
    free), that it hands out the lowest free frame, that ownership is exclusive over every run,
    that mapping installs exactly one translation in a well-formed tree, and that every byte of
    a device region is reached. \<open>mm_init\<close> reserves 32 of the 128 pages its bitmaps occupy: what
    writes to the frames it hands out do to the bitmaps is stated as well (\<open>frame_writes_and_bitmaps\<close>).
  \<^item> Scheduler and block layer: the queues stay disjoint acyclic lists, every call returns, round
    robin rotates, requests are conserved, and deadline insertion refines insertion into a sorted list.
  \<^item> File systems: paths name nodes, descriptors are the lowest free ones, every call of the
    memory file systems returns in every reachable state, and reading in pieces ends with the whole
    content; FAT chains grow by one cluster, long names survive encoding.
  \<^item> Devices and calls: the ring buffer is a bounded queue, the bus scan lists the functions
    that are there, the name search is right on a sorted table, commands decode to the request,
    the interrupt table dispatches, sleeping ends, the loader places the segments, and \<open>chdir\<close>
    accepts exactly directories and sets what \<open>getcwd\<close> returns.
  \<^item> Shell: \<open>resolve_path\<close> walks the components of the path, and what happens at the end of its array of
    128 characters, cut components as well as writes behind it.
  \<^item> Console and firmware: text output stays on the screen, in both of its buffers, scrolling
    moves the picture, the blinking cursor leaves no trace, and the processor table is listed completely.
  \<^item> User library: formatted output reaches the console through the system call as the text it
    stands for, and the blocks of the heap do not overlap.
  \<^item> Boot: the bring-up of the file systems succeeds, and what it mounts can be listed and read
    through the file system layer.
  \<^item> Configuration: files are read back as they were saved, what is saved respects the
    dependencies, and a kernel built from it starts every part after those the part relies on, with
    one exception, the scheduler, which does not wait for the processors that ACPI counts.
  \<^item> Panic shell: when entering it faults; otherwise the registers that the calls before the
    capture have left and the stack are shown, again on demand whatever was typed before, and
    can be read back from the text; lines are run as they were meant.
  \<^item> Image reader: the code computes the format of FAT32, which is stated over the bytes of the image
    alone, cat prints the file as the format has it, and which short names of the kernel's driver are recognised.
  \<^item> USB: commands are answered by the first completion in the event ring, the controller finds
    exactly the queued transfers, and no position leaves its ring.

  \<^bold>\<open>Interfaces.\<close> Each is a locale with its client's lemmas and an interpretation on the model:
  \<open>frame_allocator\<close> (both allocators of \<open>Mm\<close>), \<open>io_scheduler\<close> (the three schedulers of \<open>Blk\<close>),
  \<open>pure_lookup\<close> and \<open>safe_fs\<close> (what the file system layer asks of a file system; the memory file
  systems), \<open>byte_stream\<close> (reading in pieces; procfs and FAT32 files), \<open>queue_impl\<close> (the ring
  buffer of \<open>Input\<close>) and \<open>cycle_ring\<close> (the event ring and the keyboard's ring of \<open>Xhci\<close>).

  \<^bold>\<open>Bounds and fuel.\<close> The sizes are the ones of the code, as named constants: 2 M frames in a
  bitmap, 64 CPUs, 256 tasks, 256 descriptors, 16 mounts, 64 nodes of ramfs, 256 PCI devices. The
  retry counters of the drivers are the code's own; no other fuel is used.

  \<^bold>\<open>Not modelled.\<close> The assembly stubs, the third-party header \<^verbatim>\<open>include/limine.h\<close> (what the boot
  loader reports is an argument), the generated PCI name table and the font (arguments of the lookup
  and of the drawing). The moves that read registers and the tone at the start have no state to
  describe. Concurrency between CPUs and interrupts inside an operation are outside the model: the
  kernel starts no second CPU.
\<close>

end
